(* ===== verification/Prelude.thy ===== *)
theory Prelude
  imports Main "HOL-Library.Word" "HOL-Library.Multiset"
begin

text \<open>
  Shared vocabulary of the development: the machine integer types of the driver, the error
  numbers its entry points return, the bit-flag operations of the C sources, and the generic
  facts about lists and words that several components use.  Facts meant for the simplifier are
  declared \<open>[simp]\<close> or collected in \<open>flag_simps\<close> (device and packet flags), \<open>byte_simps\<close>
  (multi-byte integers) and \<open>state_simps\<close> (field access after a state update).
\<close>

unbundle bit_operations_syntax

named_theorems flag_simps \<open>facts about single-bit flags of a word\<close>
named_theorems byte_simps \<open>facts about integers stored as bytes\<close>
named_theorems state_simps \<open>field access after a state update\<close>

section \<open>Machine integers and error numbers\<close>

type_synonym u8 = "8 word"
type_synonym u16 = "16 word"
type_synonym u32 = "32 word"
type_synonym u64 = "64 word"

text \<open>The error numbers the sources return, negated, to the kernel or to user space.\<close>

datatype errno = EIO | ENODEV | EINVAL | EFAULT | EAGAIN | ENOMEM | ERESTARTSYS | ENOTTY

section \<open>Flags\<close>

text \<open>
  \<open>x & FL\<close> as a condition, \<open>x |= FL\<close> and \<open>x &= ~FL\<close>.  The flags of the driver are powers of
  two, so the facts below are stated for \<open>2 ^ i\<close>.
\<close>

definition hasfl :: "'a::len word \<Rightarrow> 'a word \<Rightarrow> bool" where
  "hasfl w fl \<longleftrightarrow> w AND fl \<noteq> 0"

definition setfl :: "'a::len word \<Rightarrow> 'a word \<Rightarrow> 'a word" where
  "setfl w fl = w OR fl"

definition clrfl :: "'a::len word \<Rightarrow> 'a word \<Rightarrow> 'a word" where
  "clrfl w fl = w AND NOT fl"

lemma bit_word_eqI_iff: "(v :: 'a::len word) = w \<longleftrightarrow> (\<forall>n < LENGTH('a). bit v n = bit w n)"
  by (auto intro: bit_word_eqI)

lemma bit_pow2_word: "bit ((2::'a::len word) ^ i) j \<longleftrightarrow> i = j \<and> j < LENGTH('a)"
  by (auto simp: bit_exp_iff possible_bit_def)

lemma hasfl_bit: "hasfl (w :: 'a::len word) (2 ^ i) \<longleftrightarrow> i < LENGTH('a) \<and> bit w i"
proof -
  have "w AND 2 ^ i = 0 \<longleftrightarrow> \<not> (i < LENGTH('a) \<and> bit w i)"
    by (auto simp: bit_word_eqI_iff bit_and_iff bit_pow2_word)
  then show ?thesis by (simp add: hasfl_def)
qed

lemma hasfl_setfl_pow:
  "j < LENGTH('a) \<Longrightarrow>
   hasfl (setfl (w :: 'a::len word) (2 ^ i)) (2 ^ j) \<longleftrightarrow> i = j \<or> hasfl w (2 ^ j)"
  by (auto simp: hasfl_bit setfl_def bit_or_iff bit_pow2_word)

lemma hasfl_clrfl_pow:
  "j < LENGTH('a) \<Longrightarrow>
   hasfl (clrfl (w :: 'a::len word) (2 ^ i)) (2 ^ j) \<longleftrightarrow> i \<noteq> j \<and> hasfl w (2 ^ j)"
  by (auto simp: hasfl_bit clrfl_def bit_and_iff bit_not_iff bit_pow2_word)

lemma hasfl_0 [simp]: "\<not> hasfl 0 fl"
  by (simp add: hasfl_def)

lemma hasfl_or [flag_simps]: "hasfl w (a OR b) \<longleftrightarrow> hasfl w a \<or> hasfl w b"
  by (simp add: hasfl_def bit.conj_disj_distrib or_eq_0_iff)

section \<open>Lists\<close>

text \<open>The first element with a property, taken out of a list (\<open>list_del\<close> on the way).\<close>

fun take_first :: "('a \<Rightarrow> bool) \<Rightarrow> 'a list \<Rightarrow> ('a \<times> 'a list) option" where
  "take_first P [] = None"
| "take_first P (x # xs) =
     (if P x then Some (x, xs)
      else map_option (\<lambda>(y, ys). (y, x # ys)) (take_first P xs))"

lemma take_first_None: "take_first P xs = None \<longleftrightarrow> (\<forall>x\<in>set xs. \<not> P x)"
  by (induction xs) auto

lemma take_first_Some:
  "take_first P xs = Some (y, ys) \<Longrightarrow>
   P y \<and> (\<exists>us vs. xs = us @ y # vs \<and> ys = us @ vs \<and> (\<forall>u\<in>set us. \<not> P u))"
proof (induction xs arbitrary: ys)
  case Nil
  then show ?case by simp
next
  case (Cons x xs)
  show ?case
  proof (cases "P x")
    case True
    with Cons.prems show ?thesis by (auto intro: exI [of _ "[]"])
  next
    case False
    with Cons.prems obtain zs where "take_first P xs = Some (y, zs)" and "ys = x # zs"
      by auto
    with Cons.IH [of zs] False show ?thesis
      by (metis append_Cons set_ConsD)
  qed
qed

lemma take_first_mset: "take_first P xs = Some (y, ys) \<Longrightarrow> mset xs = add_mset y (mset ys)"
  by (auto dest!: take_first_Some)

lemma take_first_head: "take_first P xs = Some (y, ys) \<Longrightarrow> P y"
  by (auto dest!: take_first_Some)

lemma mset_concat_update:
  "i < length xss \<Longrightarrow>
   mset (concat (xss[i := ys])) + mset (xss ! i) = mset (concat xss) + mset ys"
proof (induction xss arbitrary: i)
  case Nil
  then show ?case by simp
next
  case (Cons a xss)
  then show ?case
    by (cases i) (auto simp: ac_simps)
qed

text \<open>Ring buffers: a list seen from its head index.\<close>

lemma add_mod_cancel:
  assumes "k < n" and "i < n"
  shows "((h::nat) + k) mod n = (h + i) mod n \<longleftrightarrow> k = i"
proof
  assume "(h + k) mod n = (h + i) mod n"
  then have "(int h + int k) mod int n = (int h + int i) mod int n"
    by (metis of_nat_add of_nat_mod)
  then have "int k mod int n = int i mod int n"
    using mod_add_cong [of "- int h" "int n" "- int h" "int h + int k" "int h + int i"] by simp
  then show "k = i" using assms by simp
qed simp

lemma rotate_list_update:
  assumes "i < length xs"
  shows "rotate h (xs[(h + i) mod length xs := v]) = (rotate h xs)[i := v]"
proof (rule nth_equalityI)
  fix k assume "k < length (rotate h (xs[(h + i) mod length xs := v]))"
  then have k: "k < length xs" by simp
  then have "(h + k) mod length xs < length xs" by (cases xs) auto
  then show "rotate h (xs[(h + i) mod length xs := v]) ! k = (rotate h xs)[i := v] ! k"
    using k assms add_mod_cancel [OF k assms, of h]
    by (cases "k = i") (auto simp: nth_rotate nth_list_update_neq)
qed simp

lemma rotate_pop:
  assumes "h < length xs"
  shows "rotate (Suc h mod length xs) (xs[h := v]) = tl (rotate h xs) @ [v]"
proof -
  have ne: "xs \<noteq> []" using assms by auto
  have "rotate (Suc h mod length xs) (xs[h := v]) = rotate1 (rotate h (xs[h := v]))"
    using rotate_conv_mod [of "Suc h" "xs[h := v]"] by simp
  also have "rotate h (xs[h := v]) = (rotate h xs)[0 := v]"
    using rotate_list_update [of 0 xs h v] assms ne by simp
  also have "rotate1 \<dots> = tl (rotate h xs) @ [v]"
    using ne by (cases "rotate h xs") auto
  finally show ?thesis .
qed

end
