(* ===== verification/Errq.thy ===== *)
theory Errq
  imports Prelude
begin

text \<open>
  The error message ring of \<open>aoechr.c\<close>, read through \<open>/dev/etherd/err\<close>: \<open>aoechr_error\<close> adds a
  message, \<open>aoechr_read\<close> takes one or blocks.  The ring of \<open>NMSG\<close> slots with its head and tail
  indices is refined to a bounded first-in first-out queue that drops the newest message when
  it is full; the contract of such a queue is the locale \<open>bounded_queue\<close>.  The sleeping readers
  and the semaphore they sleep on are a step relation.
\<close>

section \<open>State\<close>

definition NMSG :: nat where "NMSG = 100"

lemma NMSG_pos [simp]: "0 < NMSG"
  by (simp add: NMSG_def)

record errmsg =
  em_valid :: bool
  em_len :: u16
  em_msg :: "string option"

record emsgq =
  emsgs :: "errmsg list"
  emsgs_head_idx :: nat
  emsgs_tail_idx :: nat
  nblocked_emsgs_readers :: nat
  emsgs_sema :: nat

text \<open>The static zero-initialised ring after \<open>sema_init(&emsgs_sema, 0)\<close> in \<open>aoechr_init\<close>.\<close>

definition emsgq_init :: emsgq where
  "emsgq_init = \<lparr>emsgs = replicate NMSG \<lparr>em_valid = False, em_len = 0, em_msg = None\<rparr>,
     emsgs_head_idx = 0, emsgs_tail_idx = 0, nblocked_emsgs_readers = 0, emsgs_sema = 0\<rparr>"

section \<open>Operations\<close>

text \<open>
  \<open>aoechr_error\<close> with \<open>emsgs_lock\<close> held; the flag says whether \<open>kmemdup\<close> gets memory, the result whether the
  message was added.  The copy has no terminating NUL, and \<open>len\<close> is a \<open>short\<close>.
\<close>

definition err_put :: "bool \<Rightarrow> string \<Rightarrow> emsgq \<Rightarrow> bool \<times> emsgq" where
  "err_put mem msg q =
     (let n = length msg; em = emsgs q ! emsgs_tail_idx q in
      if em_valid em then (False, q)
      else if \<not> mem then (False, q)
      else let em' = em\<lparr>em_msg := Some msg, em_valid := True, em_len := of_nat n\<rparr>
           in (True, q\<lparr>emsgs := (emsgs q)[emsgs_tail_idx q := em'],
                       emsgs_tail_idx := (emsgs_tail_idx q + 1) mod length (emsgs q)\<rparr>))"

text \<open>What follows after the lock is released: a look at the number of blocked readers, and \<open>up\<close>.\<close>

definition err_seen :: "emsgq \<Rightarrow> bool" where
  "err_seen q \<longleftrightarrow> nblocked_emsgs_readers q \<noteq> 0"

definition err_up :: "emsgq \<Rightarrow> emsgq" where
  "err_up q = q\<lparr>emsgs_sema := emsgs_sema q + 1\<rparr>"

text \<open>The whole of \<open>aoechr_error\<close>, when nothing comes in between.\<close>

definition aoechr_error :: "bool \<Rightarrow> string \<Rightarrow> emsgq \<Rightarrow> emsgq" where
  "aoechr_error mem msg q =
     (case err_put mem msg q of
        (False, q') \<Rightarrow> q'
      | (True, q') \<Rightarrow> if err_seen q' then err_up q' else q')"

lemmas err_defs = aoechr_error_def err_put_def err_seen_def err_up_def

datatype read_result = RdMsg string | RdErr errno | RdSleep

text \<open>
  One pass of the loop of \<open>aoechr_read\<close> with \<open>emsgs_lock\<close> held: it returns a message, an error,
  or goes to sleep on the semaphore with the reader counted in \<open>nblocked_emsgs_readers\<close>.  The
  comparison of the \<open>short\<close> length with the \<open>size_t\<close> count extends the sign.
\<close>

definition read_pass :: "bool \<Rightarrow> u64 \<Rightarrow> emsgq \<Rightarrow> read_result \<times> emsgq" where
  "read_pass ndelay cnt q =
     (let em = emsgs q ! emsgs_head_idx q in
      if \<not> em_valid em then
        (if ndelay then (RdErr EAGAIN, q)
         else (RdSleep, q\<lparr>nblocked_emsgs_readers := nblocked_emsgs_readers q + 1\<rparr>))
      else if cnt < scast (em_len em) then (RdErr EAGAIN, q)
      else (RdMsg (take (unat (em_len em)) (the (em_msg em))),
            q\<lparr>emsgs := (emsgs q)[emsgs_head_idx q := em\<lparr>em_msg := None, em_valid := False\<rparr>],
              emsgs_head_idx := (emsgs_head_idx q + 1) mod length (emsgs q)\<rparr>))"

definition MINOR_ERR :: nat where "MINOR_ERR = 2"

text \<open>
  \<open>aoechr_read\<close> from the call up to its return or its sleep; the last flag says whether
  \<open>copy_to_user\<close> copies everything.
\<close>

definition aoechr_read :: "nat \<Rightarrow> bool \<Rightarrow> u64 \<Rightarrow> bool \<Rightarrow> emsgq \<Rightarrow> read_result \<times> emsgq" where
  "aoechr_read minor ndelay cnt copied q =
     (if minor \<noteq> MINOR_ERR then (RdErr EFAULT, q)
      else case read_pass ndelay cnt q of
             (RdMsg m, q') \<Rightarrow> ((if copied then RdMsg m else RdErr EFAULT), q')
           | r \<Rightarrow> r)"

text \<open>
  The rest of \<open>aoechr_read\<close> after \<open>down_interruptible\<close> returns: a signal ends the call, a
  semaphore token starts another pass.
\<close>

definition read_wake :: "bool \<Rightarrow> bool \<Rightarrow> u64 \<Rightarrow> emsgq \<Rightarrow> read_result \<times> emsgq" where
  "read_wake intr ndelay cnt q =
     (let q' = q\<lparr>nblocked_emsgs_readers := nblocked_emsgs_readers q - 1\<rparr>
      in if intr then (RdErr ERESTARTSYS, q') else read_pass ndelay cnt q')"

section \<open>The contract of a bounded queue\<close>

primrec drain :: "('s \<Rightarrow> 'a \<times> 's) \<Rightarrow> nat \<Rightarrow> 's \<Rightarrow> 'a list \<times> 's" where
  "drain dq 0 s = ([], s)"
| "drain dq (Suc n) s = (let (x, s') = dq s; (xs, s'') = drain dq n s' in (x # xs, s''))"

locale bounded_queue =
  fixes inv :: "'s \<Rightarrow> bool" and absq :: "'s \<Rightarrow> 'a list" and enq :: "'a \<Rightarrow> 's \<Rightarrow> 's"
    and dq :: "'s \<Rightarrow> 'a \<times> 's" and ok :: "'a \<Rightarrow> bool" and cap :: nat
  assumes cap_inv: "inv s \<Longrightarrow> length (absq s) \<le> cap"
    and enq_inv: "inv s \<Longrightarrow> ok x \<Longrightarrow> inv (enq x s)"
    and enq_abs: "inv s \<Longrightarrow> ok x \<Longrightarrow>
      absq (enq x s) = (if length (absq s) < cap then absq s @ [x] else absq s)"
    and dq_inv: "inv s \<Longrightarrow> absq s \<noteq> [] \<Longrightarrow> inv (snd (dq s))"
    and dq_abs: "inv s \<Longrightarrow> absq s = x # xs \<Longrightarrow> fst (dq s) = x \<and> absq (snd (dq s)) = xs"
begin

lemma fold_enq:
  "inv s \<Longrightarrow> list_all ok xs \<Longrightarrow>
   inv (fold enq xs s) \<and> absq (fold enq xs s) = take cap (absq s @ xs)"
proof (induction xs arbitrary: s)
  case Nil
  then show ?case using cap_inv by simp
next
  case (Cons x xs)
  then have "absq (enq x s) = (if length (absq s) < cap then absq s @ [x] else absq s)"
    and "inv (enq x s)" by (auto simp: enq_abs enq_inv)
  with Cons cap_inv [of s] show ?case by (auto simp: not_less take_Cons')
qed

lemma drain_all:
  "inv s \<Longrightarrow> n \<le> length (absq s) \<Longrightarrow>
   fst (drain dq n s) = take n (absq s) \<and> absq (snd (drain dq n s)) = drop n (absq s)
   \<and> inv (snd (drain dq n s))"
proof (induction n arbitrary: s)
  case 0
  then show ?case by simp
next
  case (Suc n)
  then obtain x xs where s: "absq s = x # xs" by (cases "absq s") auto
  obtain y s' where d: "dq s = (y, s')" by (cases "dq s")
  have "y = x" and "absq s' = xs" and "inv s'"
    using dq_abs [OF Suc.prems(1) s] dq_inv [OF Suc.prems(1)] s d by auto
  with Suc.IH [of s'] Suc.prems s d show ?case by (auto split: prod.splits)
qed

lemma fifo:
  assumes "inv s" and "absq s = []" and "list_all ok xs" and "length xs \<le> cap"
  shows "fst (drain dq (length xs) (fold enq xs s)) = xs"
  using fold_enq [OF assms(1,3)] drain_all [of "fold enq xs s" "length xs"] assms by simp

end

section \<open>The ring implements a bounded queue\<close>

definition emsg_ok :: "errmsg \<Rightarrow> bool" where
  "emsg_ok em \<longleftrightarrow> (case em_msg em of None \<Rightarrow> False
     | Some m \<Rightarrow> em_len em = of_nat (length m) \<and> length m < 2 ^ 15)"

text \<open>The ring read from its head: valid slots first, then free ones, and the tail index is the
  first free slot.\<close>

definition ring_view :: "emsgq \<Rightarrow> errmsg list" where
  "ring_view q = rotate (emsgs_head_idx q) (emsgs q)"

definition queued :: "emsgq \<Rightarrow> errmsg list" where
  "queued q = takeWhile em_valid (ring_view q)"

definition messages :: "emsgq \<Rightarrow> string list" where
  "messages q = map (\<lambda>em. the (em_msg em)) (queued q)"

definition ring_inv :: "emsgq \<Rightarrow> bool" where
  "ring_inv q \<longleftrightarrow> length (emsgs q) = NMSG \<and> emsgs_head_idx q < NMSG
     \<and> emsgs_tail_idx q = (emsgs_head_idx q + length (queued q)) mod NMSG
     \<and> (\<forall>em\<in>set (drop (length (queued q)) (ring_view q)). \<not> em_valid em)
     \<and> (\<forall>em\<in>set (queued q). emsg_ok em)"

lemma queued_valid: "em \<in> set (queued q) \<Longrightarrow> em_valid em"
  by (auto simp: queued_def dest: set_takeWhileD)

lemma ring_inv_parts:
  assumes "ring_inv q"
  obtains fr where "ring_view q = queued q @ fr" and "\<forall>em\<in>set fr. \<not> em_valid em"
    and "length (queued q) + length fr = NMSG"
proof -
  have "take (length (queued q)) (ring_view q) = queued q"
    unfolding queued_def by (rule takeWhile_eq_take [symmetric])
  then have "ring_view q = queued q @ drop (length (queued q)) (ring_view q)"
    by (metis append_take_drop_id)
  moreover from assms have "length (ring_view q) = NMSG"
    by (simp add: ring_inv_def ring_view_def)
  ultimately show thesis
    using assms that by (metis length_append ring_inv_def)
qed

lemma ring_invI:
  assumes "length (emsgs q) = NMSG" and "emsgs_head_idx q < NMSG"
    and "ring_view q = vs @ fr" and "\<forall>em\<in>set vs. em_valid em \<and> emsg_ok em"
    and "\<forall>em\<in>set fr. \<not> em_valid em"
    and "emsgs_tail_idx q = (emsgs_head_idx q + length vs) mod NMSG"
  shows "ring_inv q \<and> queued q = vs"
proof -
  have "queued q = vs"
    using assms(3-5) by (cases fr) (auto simp: queued_def takeWhile_tail)
  then show ?thesis using assms by (simp add: ring_inv_def)
qed

lemma messages_le: "ring_inv q \<Longrightarrow> length (messages q) \<le> NMSG"
  by (metis length_map le_add1 messages_def ring_inv_parts)

lemma messages_empty_iff: "ring_inv q \<Longrightarrow>
  messages q = [] \<longleftrightarrow> \<not> em_valid (emsgs q ! emsgs_head_idx q)"
proof -
  assume inv: "ring_inv q"
  then have "emsgs q \<noteq> []" by (auto simp: ring_inv_def)
  with inv have "ring_view q \<noteq> []" and "hd (ring_view q) = emsgs q ! emsgs_head_idx q"
    by (auto simp: ring_inv_def ring_view_def hd_rotate_conv_nth)
  then show ?thesis
    by (cases "ring_view q") (auto simp: messages_def queued_def)
qed

lemma ring_inv_init: "ring_inv emsgq_init \<and> messages emsgq_init = []"
proof -
  have "ring_inv emsgq_init \<and> queued emsgq_init = []"
    by (rule ring_invI [where fr = "emsgs emsgq_init"])
      (auto simp: emsgq_init_def ring_view_def)
  then show ?thesis by (simp add: messages_def)
qed

lemma tail_slot:
  assumes "ring_inv q"
  shows "em_valid (emsgs q ! emsgs_tail_idx q) \<longleftrightarrow> length (messages q) = NMSG"
proof -
  from assms have len: "length (emsgs q) = NMSG" and hd: "emsgs_head_idx q < NMSG"
    and tl: "emsgs_tail_idx q = (emsgs_head_idx q + length (queued q)) mod NMSG"
    by (simp_all add: ring_inv_def)
  obtain fr where v: "ring_view q = queued q @ fr" and nv: "\<forall>em\<in>set fr. \<not> em_valid em"
    and n: "length (queued q) + length fr = NMSG"
    using ring_inv_parts [OF assms] .
  have nth: "ring_view q ! i = emsgs q ! ((emsgs_head_idx q + i) mod NMSG)" if "i < NMSG" for i
    using that len by (simp add: ring_view_def nth_rotate)
  show ?thesis
  proof (cases fr)
    case Nil
    then have "emsgs q ! emsgs_tail_idx q = ring_view q ! 0"
      using n nth [of 0] tl hd by simp
    moreover have "ring_view q ! 0 \<in> set (queued q)"
      using Nil v n NMSG_pos by (metis append_Nil2 length_greater_0_conv list.size(3) nth_mem add_0_right)
    ultimately show ?thesis
      using queued_valid Nil n by (simp add: messages_def)
  next
    case (Cons a bs)
    then have "ring_view q ! length (queued q) = a" by (simp add: v)
    then have "emsgs q ! emsgs_tail_idx q = a"
      using nth [of "length (queued q)"] n Cons tl by simp
    then show ?thesis using nv Cons n by (simp add: messages_def)
  qed
qed

lemma aoechr_error_ring:
  assumes inv: "ring_inv q" and len: "length msg < 2 ^ 15"
  shows "ring_inv (aoechr_error mem msg q)
    \<and> messages (aoechr_error mem msg q) =
        (if mem \<and> length (messages q) < NMSG then messages q @ [msg] else messages q)"
proof (cases "mem \<and> length (messages q) < NMSG")
  case True
  then have free: "\<not> em_valid (emsgs q ! emsgs_tail_idx q)"
    using tail_slot [OF inv] by simp
  obtain fr where v: "ring_view q = queued q @ fr" and nv: "\<forall>em\<in>set fr. \<not> em_valid em"
    and n: "length (queued q) + length fr = NMSG"
    using ring_inv_parts [OF inv] .
  from True n obtain a bs where fr: "fr = a # bs"
    by (cases fr) (auto simp: messages_def)
  define em' where "em' = (emsgs q ! emsgs_tail_idx q)
    \<lparr>em_msg := Some msg, em_valid := True, em_len := of_nat (length msg)\<rparr>"
  define q' where "q' = aoechr_error mem msg q"
  have upd: "emsgs q' = (emsgs q)[emsgs_tail_idx q := em']"
    "emsgs_head_idx q' = emsgs_head_idx q"
    "emsgs_tail_idx q' = (emsgs_tail_idx q + 1) mod NMSG"
    using True free inv by (simp_all add: q'_def err_defs Let_def em'_def ring_inv_def)
  have "ring_view q' = (ring_view q)[length (queued q) := em']"
    using rotate_list_update [of "length (queued q)" "emsgs q" "emsgs_head_idx q" em']
      inv n fr by (simp add: ring_view_def upd ring_inv_def)
  then have v': "ring_view q' = (queued q @ [em']) @ bs"
    by (simp add: v fr list_update_append)
  have "ring_inv q' \<and> queued q' = queued q @ [em']"
  proof (rule ring_invI [OF _ _ v'])
    show "emsgs_tail_idx q' = (emsgs_head_idx q' + length (queued q @ [em'])) mod NMSG"
      using inv by (simp add: upd ring_inv_def mod_Suc_eq)
  qed (use inv nv fr len in \<open>auto simp: upd ring_inv_def emsg_ok_def em'_def queued_valid\<close>)
  then show ?thesis
    using True by (simp add: q'_def messages_def em'_def)
next
  case False
  then have "aoechr_error mem msg q = q"
    using tail_slot [OF inv] messages_le [OF inv] by (auto simp: err_defs Let_def)
  with False show ?thesis using inv by simp
qed

lemma unat_len: "n < 2 ^ 15 \<Longrightarrow> unat (of_nat n :: u16) = n"
  by (simp add: unsigned_of_nat take_bit_nat_eq_self)

lemma scast_len: "n < 2 ^ 15 \<Longrightarrow> (scast (of_nat n :: u16) :: u64) = of_nat n"
proof -
  assume n: "n < 2 ^ 15"
  have "sint (of_nat n :: u16) = int n"
    using n by (simp add: sint_uint unsigned_of_nat take_bit_nat_eq_self signed_take_bit_eq_if_positive
        bit_iff_odd take_bit_int_eq_self)
  then show ?thesis by (metis of_int_of_nat_eq scast_eq)
qed

lemma read_pass_ring:
  assumes inv: "ring_inv q" and ms: "messages q = m # ms"
  shows "length m < 2 ^ 15 \<and>
    (if cnt < of_nat (length m) then read_pass ndelay cnt q = (RdErr EAGAIN, q)
     else \<exists>q'. read_pass ndelay cnt q = (RdMsg m, q') \<and> ring_inv q' \<and> messages q' = ms
       \<and> nblocked_emsgs_readers q' = nblocked_emsgs_readers q \<and> emsgs_sema q' = emsgs_sema q)"
proof -
  obtain fr where v: "ring_view q = queued q @ fr" and nv: "\<forall>em\<in>set fr. \<not> em_valid em"
    and n: "length (queued q) + length fr = NMSG"
    using ring_inv_parts [OF inv] .
  from ms obtain em vs where qd: "queued q = em # vs" and m: "m = the (em_msg em)"
    and vs: "ms = map (\<lambda>em. the (em_msg em)) vs"
    by (auto simp: messages_def)
  have len: "length (emsgs q) = NMSG" and hd: "emsgs_head_idx q < NMSG"
    using inv by (simp_all add: ring_inv_def)
  have "ring_view q ! 0 = emsgs q ! emsgs_head_idx q"
    using hd len NMSG_pos by (simp add: ring_view_def nth_rotate)
  then have em: "emsgs q ! emsgs_head_idx q = em" by (simp add: v qd)
  have ok: "em_valid em" "emsg_ok em"
    using inv qd queued_valid [of em q] by (auto simp: ring_inv_def)
  then have lm: "length m < 2 ^ 15" "em_len em = of_nat (length m)" "em_msg em = Some m"
    by (auto simp: emsg_ok_def m split: option.splits)
  define q' where "q' = q\<lparr>emsgs := (emsgs q)[emsgs_head_idx q := em\<lparr>em_msg := None, em_valid := False\<rparr>],
    emsgs_head_idx := (emsgs_head_idx q + 1) mod length (emsgs q)\<rparr>"
  have v': "ring_view q' = vs @ (fr @ [em\<lparr>em_msg := None, em_valid := False\<rparr>])"
    using rotate_pop [of "emsgs_head_idx q" "emsgs q"] hd len v qd
    by (simp add: q'_def ring_view_def)
  have "ring_inv q' \<and> queued q' = vs"
  proof (rule ring_invI [OF _ _ v'])
    show "emsgs_tail_idx q' = (emsgs_head_idx q' + length vs) mod NMSG"
      using inv by (simp add: q'_def ring_inv_def qd mod_add_left_eq)
    show "\<forall>em\<in>set vs. em_valid em \<and> emsg_ok em"
      using inv qd queued_valid [of _ q] by (auto simp: ring_inv_def)
  qed (use len hd nv in \<open>auto simp: q'_def\<close>)
  then show ?thesis
    using lm ok vs
    by (auto simp: read_pass_def Let_def em scast_len unat_len q'_def [symmetric] messages_def)
      (simp_all add: q'_def)
qed

text \<open>A non-blocking read with room for every message, as a queue operation.\<close>

definition read_one :: "emsgq \<Rightarrow> string \<times> emsgq" where
  "read_one q = (case aoechr_read MINOR_ERR True (2 ^ 15) True q of
     (RdMsg m, q') \<Rightarrow> (m, q') | (_, q') \<Rightarrow> ([], q'))"

lemma read_one_ring:
  assumes "ring_inv q" and "messages q = m # ms"
  shows "fst (read_one q) = m \<and> ring_inv (snd (read_one q)) \<and> messages (snd (read_one q)) = ms"
proof -
  have "length m < 2 ^ 15" using read_pass_ring [OF assms] by blast
  then have "\<not> (2 ^ 15 :: u64) < of_nat (length m)"
    by (simp add: word_less_nat_alt unsigned_of_nat take_bit_nat_eq_self)
  then obtain q' where "read_pass True (2 ^ 15) q = (RdMsg m, q')" "ring_inv q'" "messages q' = ms"
    using read_pass_ring [OF assms, of "2 ^ 15" True] by auto
  then show ?thesis by (simp add: read_one_def aoechr_read_def)
qed

interpretation errq: bounded_queue ring_inv messages "aoechr_error True" read_one
    "\<lambda>m. length m < 2 ^ 15" NMSG
proof
  fix q assume "ring_inv q" "messages q \<noteq> []"
  then show "ring_inv (snd (read_one q))"
    using read_one_ring by (cases "messages q") auto
qed (use messages_le aoechr_error_ring read_one_ring in auto)

section \<open>Sleeping readers\<close>

text \<open>
  The readers and writers of the ring between their critical sections: how many readers are in
  \<open>down_interruptible\<close>, how many hold a token and have not yet retaken the lock, how many were interrupted and
  have not yet retaken it; how many writers have added a message and not yet looked at the number of blocked
  readers, and how many have seen one and not yet called \<open>up\<close>.  A step is one critical section, one look at
  the number, or one operation of the semaphore.
\<close>

record err_sys =
  es_q :: emsgq
  es_asleep :: nat
  es_woken :: nat
  es_intr :: nat
  es_logged :: nat
  es_upping :: nat

definition err_sys_init :: err_sys where
  "err_sys_init = \<lparr>es_q = emsgq_init, es_asleep = 0, es_woken = 0, es_intr = 0, es_logged = 0, es_upping = 0\<rparr>"

definition sleeps :: "read_result \<Rightarrow> nat" where
  "sleeps r = (if r = RdSleep then 1 else 0)"

text \<open>\<open>lim\<close> is the least buffer size any reader passes.\<close>

inductive err_step :: "u64 \<Rightarrow> err_sys \<Rightarrow> err_sys \<Rightarrow> bool" for lim where
  put: "length msg < 2 ^ 15 \<Longrightarrow> err_put mem msg (es_q s) = (added, q') \<Longrightarrow>
    err_step lim s (s\<lparr>es_q := q', es_logged := es_logged s + (if added then 1 else 0)\<rparr>)"
| look: "0 < es_logged s \<Longrightarrow>
    err_step lim s (s\<lparr>es_logged := es_logged s - 1, es_upping := es_upping s + (if err_seen (es_q s) then 1 else 0)\<rparr>)"
| up: "0 < es_upping s \<Longrightarrow> err_step lim s (s\<lparr>es_q := err_up (es_q s), es_upping := es_upping s - 1\<rparr>)"
| read: "lim \<le> cnt \<Longrightarrow> aoechr_read MINOR_ERR ndelay cnt copied (es_q s) = (r, q') \<Longrightarrow>
    err_step lim s (s\<lparr>es_q := q', es_asleep := es_asleep s + sleeps r\<rparr>)"
| token: "0 < es_asleep s \<Longrightarrow> 0 < emsgs_sema (es_q s) \<Longrightarrow>
    err_step lim s (s\<lparr>es_q := (es_q s)\<lparr>emsgs_sema := emsgs_sema (es_q s) - 1\<rparr>,
      es_asleep := es_asleep s - 1, es_woken := es_woken s + 1\<rparr>)"
| signal: "0 < es_asleep s \<Longrightarrow> err_step lim s (s\<lparr>es_asleep := es_asleep s - 1, es_intr := es_intr s + 1\<rparr>)"
| leave: "0 < es_intr s \<Longrightarrow> read_wake True ndelay cnt (es_q s) = (r, q') \<Longrightarrow>
    err_step lim s (s\<lparr>es_q := q', es_intr := es_intr s - 1\<rparr>)"
| retry: "lim \<le> cnt \<Longrightarrow> 0 < es_woken s \<Longrightarrow> read_wake False ndelay cnt (es_q s) = (r, q') \<Longrightarrow>
    err_step lim s (s\<lparr>es_q := q', es_woken := es_woken s - 1,
      es_asleep := es_asleep s + sleeps r\<rparr>)"

inductive err_reach :: "u64 \<Rightarrow> err_sys \<Rightarrow> bool" for lim where
  init: "err_reach lim err_sys_init"
| step: "err_reach lim s \<Longrightarrow> err_step lim s t \<Longrightarrow> err_reach lim t"

definition wakeups_ok :: "err_sys \<Rightarrow> bool" where
  "wakeups_ok s \<longleftrightarrow> ring_inv (es_q s)
     \<and> nblocked_emsgs_readers (es_q s) = es_asleep s + es_woken s + es_intr s
     \<and> min (length (messages (es_q s))) (es_asleep s + es_woken s)
         \<le> emsgs_sema (es_q s) + es_woken s + es_logged s + es_upping s"

lemma ring_inv_sema [simp]:
  "ring_inv (q\<lparr>emsgs_sema := n\<rparr>) = ring_inv q" "messages (q\<lparr>emsgs_sema := n\<rparr>) = messages q"
  "ring_inv (q\<lparr>nblocked_emsgs_readers := n\<rparr>) = ring_inv q"
  "messages (q\<lparr>nblocked_emsgs_readers := n\<rparr>) = messages q"
  by (simp_all add: ring_inv_def messages_def queued_def ring_view_def)

lemma read_pass_empty:
  "ring_inv q \<Longrightarrow> messages q = [] \<Longrightarrow> read_pass ndelay cnt q =
     (if ndelay then (RdErr EAGAIN, q)
      else (RdSleep, q\<lparr>nblocked_emsgs_readers := nblocked_emsgs_readers q + 1\<rparr>))"
  by (simp add: read_pass_def Let_def messages_empty_iff)

lemma err_put_ring:
  assumes "ring_inv q" and "length msg < 2 ^ 15" and "err_put mem msg q = (added, q')"
  shows "ring_inv q' \<and> (added \<longleftrightarrow> mem \<and> length (messages q) < NMSG)
    \<and> messages q' = (if added then messages q @ [msg] else messages q)
    \<and> nblocked_emsgs_readers q' = nblocked_emsgs_readers q \<and> emsgs_sema q' = emsgs_sema q"
proof -
  have a: "added \<longleftrightarrow> mem \<and> length (messages q) < NMSG"
    using assms(3) tail_slot [OF assms(1)] messages_le [OF assms(1)] by (auto simp: err_put_def Let_def split: if_splits)
  have "ring_inv (aoechr_error mem msg q) = ring_inv q'" "messages (aoechr_error mem msg q) = messages q'"
    using assms(3) by (auto simp: aoechr_error_def err_up_def split: bool.splits)
  moreover have "nblocked_emsgs_readers q' = nblocked_emsgs_readers q \<and> emsgs_sema q' = emsgs_sema q"
    using assms(3) by (auto simp: err_put_def Let_def split: if_splits)
  ultimately show ?thesis using aoechr_error_ring [OF assms(1,2), of mem] a by simp
qed

lemma read_pass_roomy:
  assumes inv: "ring_inv q" and cnt: "2 ^ 15 \<le> cnt" and r: "read_pass ndelay cnt q = (r, q')"
  shows "ring_inv q' \<and> messages q' = tl (messages q) \<and> emsgs_sema q' = emsgs_sema q
    \<and> nblocked_emsgs_readers q' = nblocked_emsgs_readers q + sleeps r
    \<and> (r = RdSleep \<longrightarrow> messages q = [])"
proof (cases "messages q")
  case Nil
  then show ?thesis
    using r inv by (auto simp: read_pass_empty sleeps_def split: if_splits)
next
  case (Cons m ms)
  have "length m < 2 ^ 15" using read_pass_ring [OF inv Cons] by blast
  then have "\<not> cnt < of_nat (length m)"
    using cnt by (simp add: word_less_nat_alt word_le_nat_alt unsigned_of_nat take_bit_nat_eq_self)
  then show ?thesis
    using read_pass_ring [OF inv Cons, of cnt ndelay] r Cons by (auto simp: sleeps_def)
qed

lemma aoechr_read_roomy:
  assumes inv: "ring_inv q" and cnt: "2 ^ 15 \<le> cnt"
    and r: "aoechr_read MINOR_ERR ndelay cnt copied q = (r, q')"
  shows "ring_inv q' \<and> messages q' = tl (messages q) \<and> emsgs_sema q' = emsgs_sema q
    \<and> nblocked_emsgs_readers q' = nblocked_emsgs_readers q + sleeps r
    \<and> (r = RdSleep \<longrightarrow> messages q = [])"
proof -
  obtain r0 q0 where p: "read_pass ndelay cnt q = (r0, q0)" by (cases "read_pass ndelay cnt q")
  then show ?thesis
    using read_pass_roomy [OF inv cnt p] r
    by (cases r0) (auto simp: aoechr_read_def sleeps_def split: if_splits)
qed

lemma err_step_wakeups:
  assumes "err_step lim s t" and "2 ^ 15 \<le> lim" and "wakeups_ok s"
  shows "wakeups_ok t"
  using assms
proof (induction rule: err_step.induct)
  case (put msg mem s added q')
  then show ?case using err_put_ring [of "es_q s" msg mem added q'] by (auto simp: wakeups_ok_def)
next
  case (look s)
  then show ?case by (auto simp: wakeups_ok_def err_seen_def)
next
  case (up s)
  then show ?case by (auto simp: wakeups_ok_def err_up_def)
next
  case (read cnt ndelay copied s r q')
  then show ?case
    using aoechr_read_roomy [of "es_q s" cnt ndelay copied r q']
    by (auto simp: wakeups_ok_def sleeps_def)
next
  case (leave s ndelay cnt r q')
  then show ?case
    by (auto simp: wakeups_ok_def read_wake_def Let_def)
next
  case (retry cnt s ndelay r q')
  then have "read_pass ndelay cnt (es_q s\<lparr>nblocked_emsgs_readers := nblocked_emsgs_readers (es_q s) - 1\<rparr>) = (r, q')"
    by (simp add: read_wake_def Let_def)
  then show ?case
    using read_pass_roomy [of "es_q s\<lparr>nblocked_emsgs_readers := nblocked_emsgs_readers (es_q s) - 1\<rparr>" cnt ndelay r q'] retry
    by (auto simp: wakeups_ok_def sleeps_def)
qed (auto simp: wakeups_ok_def)

lemma err_reach_wakeups: "err_reach lim s \<Longrightarrow> 2 ^ 15 \<le> lim \<Longrightarrow> wakeups_ok s"
proof (induction rule: err_reach.induct)
  case init
  then show ?case
    using ring_inv_init by (simp add: wakeups_ok_def err_sys_init_def) (simp add: emsgq_init_def)
next
  case (step s t)
  then show ?case by (blast intro: err_step_wakeups)
qed

section \<open>Properties\<close>

text \<open>C19. Messages logged with \<open>aoechr_error\<close> on an empty ring come back from \<open>aoechr_read\<close>
  in order and unchanged, as long as there are at most \<open>NMSG\<close> of them.\<close>

theorem emsgs_fifo:
  assumes "ring_inv q" and "messages q = []"
    and "list_all (\<lambda>m. length m < 2 ^ 15) msgs" and "length msgs \<le> NMSG"
  shows "fst (drain read_one (length msgs) (fold (aoechr_error True) msgs q)) = msgs"
  by (rule errq.fifo [OF assms])

theorem emsgs_fifo_witness:
  "fst (drain read_one 2 (fold (aoechr_error True) [''retransmit'', ''unexpected rsp''] emsgq_init))
     = [''retransmit'', ''unexpected rsp'']"
proof -
  have "fst (drain read_one (length [''retransmit'', ''unexpected rsp''])
      (fold (aoechr_error True) [''retransmit'', ''unexpected rsp''] emsgq_init))
    = [''retransmit'', ''unexpected rsp'']"
    by (rule emsgs_fifo) (use ring_inv_init in \<open>simp_all add: NMSG_def\<close>)
  then show ?thesis by (simp add: numeral_2_eq_2)
qed

text \<open>C20. \<open>aoechr_error\<close> refines appending to a bounded queue on every branch: the message is
  added when there is memory and room, and otherwise it is the new message that is dropped.\<close>

theorem aoechr_error_refines:
  assumes "ring_inv q" and "length msg < 2 ^ 15"
  shows "ring_inv (aoechr_error mem msg q)
    \<and> messages (aoechr_error mem msg q) =
        (if mem \<and> length (messages q) < NMSG then messages q @ [msg] else messages q)"
  by (rule aoechr_error_ring [OF assms])

theorem aoechr_error_refines_witness:
  "messages (aoechr_error True ''x'' emsgq_init) = [''x'']"
  using aoechr_error_refines [of emsgq_init "''x''" True] ring_inv_init by (simp add: NMSG_def)

text \<open>C21. No wake-up is lost: in every reachable state of the ring, its readers and its writers, if a message
  waits and a reader sleeps, then a semaphore token is available, another reader is already awake, a writer is
  about to call \<open>up\<close>, or a writer is about to look at the number of blocked readers, which is not 0; provided
  every reader passes a buffer that any message fits.\<close>

theorem emsgs_no_lost_wakeup:
  assumes "err_reach lim s" and "2 ^ 15 \<le> lim"
    and "messages (es_q s) \<noteq> []" and "0 < es_asleep s"
  shows "0 < emsgs_sema (es_q s) + es_woken s + es_upping s \<or> 0 < es_logged s \<and> err_seen (es_q s)"
  using err_reach_wakeups [OF assms(1,2)] assms(3,4)
  by (cases "messages (es_q s)") (auto simp: wakeups_ok_def err_seen_def)

text \<open>Two readers sleep, then a message is added.\<close>

definition err_run :: "nat \<Rightarrow> emsgq \<Rightarrow> err_sys" where
  "err_run n q = \<lparr>es_q = q, es_asleep = n, es_woken = 0, es_intr = 0, es_logged = 0, es_upping = 0\<rparr>"

abbreviation (input) blocked :: "nat \<Rightarrow> emsgq" where
  "blocked n \<equiv> emsgq_init\<lparr>nblocked_emsgs_readers := n\<rparr>"

lemma readers_sleep: "err_reach lim (err_run n (blocked n))"
proof (induction n)
  case 0
  then show ?case using err_reach.init by (simp add: err_sys_init_def emsgq_init_def err_run_def)
next
  case (Suc n)
  have "aoechr_read MINOR_ERR False lim True (blocked n) = (RdSleep, blocked (n + 1))"
    using read_pass_empty [of "blocked n" False lim] ring_inv_init by (simp add: aoechr_read_def)
  then have "err_step lim (err_run n (blocked n)) (err_run (Suc n) (blocked (Suc n)))"
    using err_step.read [of lim lim False True "err_run n (blocked n)" RdSleep] by (simp add: sleeps_def err_run_def)
  then show ?case by (rule err_reach.step [OF Suc])
qed

lemma put_blocked: "\<exists>q. err_put True ''m'' (blocked n) = (True, q) \<and> ring_inv q \<and> messages q = [''m'']
  \<and> nblocked_emsgs_readers q = n \<and> emsgs_sema q = 0"
proof -
  obtain added q where p: "err_put True ''m'' (blocked n) = (added, q)" by fastforce
  then show ?thesis
    using err_put_ring [of "blocked n" "''m''" True added q] ring_inv_init by (simp add: NMSG_def) (simp add: emsgq_init_def)
qed

theorem emsgs_no_lost_wakeup_witness:
  "\<exists>s. err_reach (2 ^ 15) s \<and> messages (es_q s) = [''m''] \<and> es_asleep s = 1 \<and> 0 < es_logged s \<and> err_seen (es_q s)"
proof -
  obtain q where q: "err_put True ''m'' (blocked 1) = (True, q)" "messages q = [''m'']" "emsgs_sema q = 0"
    using put_blocked [of 1] by blast
  let ?s = "err_run 1 (blocked 1)\<lparr>es_q := q, es_logged := 1\<rparr>"
  have "err_step (2 ^ 15) (err_run 1 (blocked 1)) ?s"
    using err_step.put [of "''m''" True "err_run 1 (blocked 1)" True q "2 ^ 15"] q by (simp add: err_run_def)
  then have r: "err_reach (2 ^ 15) ?s" by (rule err_reach.step [OF readers_sleep])
  then have "0 < emsgs_sema (es_q ?s) + es_woken ?s + es_upping ?s \<or> 0 < es_logged ?s \<and> err_seen (es_q ?s)"
    by (rule emsgs_no_lost_wakeup) (use q in \<open>simp_all add: err_run_def\<close>)
  then have "messages (es_q ?s) = [''m''] \<and> es_asleep ?s = 1 \<and> 0 < es_logged ?s \<and> err_seen (es_q ?s)"
    using q by (simp add: err_run_def)
  with r show ?thesis by blast
qed

text \<open>The proviso on the buffer size is needed: a woken reader whose buffer is too small for
  the message consumes its token and leaves the message in the ring, so another reader sleeps
  on although a message waits, no token is left and no writer is at work.\<close>

theorem emsgs_small_buffer_strands_reader:
  "\<exists>s. err_reach 0 s \<and> messages (es_q s) = [''m''] \<and> es_asleep s = 1
     \<and> emsgs_sema (es_q s) = 0 \<and> es_woken s = 0 \<and> es_logged s = 0 \<and> es_upping s = 0"
proof -
  obtain q where q: "err_put True ''m'' (blocked 2) = (True, q)" "ring_inv q" "messages q = [''m'']" "nblocked_emsgs_readers q = 2"
    "emsgs_sema q = 0" using put_blocked [of 2] by blast
  let ?s = "err_run 2 (blocked 2)" and ?t = "q\<lparr>nblocked_emsgs_readers := 1\<rparr>"
  have "err_step 0 ?s (?s\<lparr>es_q := q, es_logged := 1\<rparr>)"
    using err_step.put [of "''m''" True ?s True q 0] q by (simp add: err_run_def)
  then have r1: "err_reach 0 (?s\<lparr>es_q := q, es_logged := 1\<rparr>)" by (rule err_reach.step [OF readers_sleep])
  from err_reach.step [OF r1 err_step.look] q
  have r2: "err_reach 0 (?s\<lparr>es_q := q, es_upping := 1\<rparr>)" by (simp add: err_run_def err_seen_def)
  from err_reach.step [OF r2 err_step.up]
  have r3: "err_reach 0 (?s\<lparr>es_q := err_up q\<rparr>)" by (simp add: err_run_def)
  from err_reach.step [OF r3 err_step.token [where lim = 0]] q
  have "err_reach 0 (?s\<lparr>es_q := q\<lparr>emsgs_sema := 0\<rparr>, es_asleep := 1, es_woken := 1\<rparr>)" by (simp add: err_run_def err_up_def)
  moreover have "q\<lparr>emsgs_sema := 0\<rparr> = q" using q(5) by (cases q) simp
  ultimately have r4: "err_reach 0 (?s\<lparr>es_q := q, es_asleep := 1, es_woken := 1\<rparr>)" by simp
  have "read_wake False True 0 q = (RdErr EAGAIN, ?t)"
    using read_pass_ring [of ?t "''m''" "[]" 0 True] q by (simp add: read_wake_def Let_def)
  from err_reach.step [OF r4 err_step.retry [where lim = 0 and cnt = 0 and ndelay = True
        and r = "RdErr EAGAIN" and q' = ?t]] this
  have r5: "err_reach 0 (?s\<lparr>es_q := ?t, es_asleep := 1\<rparr>)" by (simp add: sleeps_def err_run_def)
  show ?thesis by (rule exI [of _ "?s\<lparr>es_q := ?t, es_asleep := 1\<rparr>"]) (use r5 q in \<open>simp add: err_run_def\<close>)
qed

end
