(* ===== verification/Kthread.thy ===== *)
theory Kthread
  imports Prelude
begin

text \<open>
  The kernel threads of the driver: the life of one thread (\<open>kthread\<close>, \<open>aoe_ktstop\<close> in \<open>aoecmd.c\<close>)
  beside those who give it work and wake it, and the set of threads that finish responses, of which
  all but the first are started when a device first needs them (\<open>ktcomplete\<close>, \<open>ktio\<close>).
\<close>

section \<open>One thread\<close>

text \<open>
  Where the thread is: in its work function after \<open>i\<close> items, about to call \<open>schedule\<close>, asleep in it,
  behind it, about to look whether it should stop, or gone.  \<open>k_intr\<close> is the task state
  \<open>TASK_INTERRUPTIBLE\<close>, \<open>k_onq\<close> that the thread is on its wait queue, \<open>k_wakers\<close> counts those who have
  queued work and have yet to call \<open>wake_up\<close>.
\<close>

datatype kpc = KFn nat | KSched | KAsleep | KAwake | KTest | KDone

record ktask =
  k_pc :: kpc
  k_work :: nat
  k_intr :: bool
  k_onq :: bool
  k_wakers :: nat
  k_stop :: bool

definition kt_start :: ktask where
  "kt_start = \<lparr>k_pc = KFn 0, k_work = 0, k_intr = False, k_onq = False, k_wakers = 0, k_stop = False\<rparr>"

text \<open>One step of the thread.  The work function takes one item in each round and ends when the queue
  is empty or after \<open>maxioc\<close> items, if that is not 0; an empty queue is seen with the lock held, and the
  thread is on the wait queue and interruptible before the lock is released.  No value is returned
  where the thread cannot step.\<close>

definition kthread :: "nat \<Rightarrow> ktask \<Rightarrow> ktask option" where
  "kthread maxioc k =
     (case k_pc k of
        KFn i \<Rightarrow>
          if maxioc \<noteq> 0 \<and> maxioc \<le> i then Some (k\<lparr>k_pc := KTest\<rparr>)
          else if k_work k = 0 then Some (k\<lparr>k_pc := KSched, k_onq := True, k_intr := True\<rparr>)
          else Some (k\<lparr>k_pc := KFn (i + 1), k_work := k_work k - 1\<rparr>)
      | KSched \<Rightarrow> Some (k\<lparr>k_pc := (if k_intr k then KAsleep else KAwake)\<rparr>)
      | KAsleep \<Rightarrow> if k_intr k then None else Some (k\<lparr>k_pc := KAwake\<rparr>)
      | KAwake \<Rightarrow> Some (k\<lparr>k_pc := KTest, k_onq := False\<rparr>)
      | KTest \<Rightarrow> Some (k\<lparr>k_pc := (if k_stop k then KDone else KFn 0)\<rparr>)
      | KDone \<Rightarrow> None)"

definition kt_queue :: "ktask \<Rightarrow> ktask" where
  "kt_queue k = k\<lparr>k_work := k_work k + 1, k_wakers := k_wakers k + 1\<rparr>"

definition kt_wake_up :: "ktask \<Rightarrow> ktask" where
  "kt_wake_up k = k\<lparr>k_wakers := k_wakers k - 1, k_intr := (k_intr k \<and> \<not> k_onq k)\<rparr>"

text \<open>\<open>kthread_stop\<close> of \<open>aoe_ktstop\<close>: the flag is set and the task is woken.\<close>

definition aoe_ktstop :: "ktask \<Rightarrow> ktask" where
  "aoe_ktstop k = k\<lparr>k_stop := True, k_intr := False\<rparr>"

inductive kt_step :: "nat \<Rightarrow> ktask \<Rightarrow> ktask \<Rightarrow> bool" for maxioc :: nat where
  kt_thread: "kthread maxioc k = Some k' \<Longrightarrow> kt_step maxioc k k'"
| kt_more: "kt_step maxioc k (kt_queue k)"
| kt_wake: "0 < k_wakers k \<Longrightarrow> kt_step maxioc k (kt_wake_up k)"
| kt_end: "kt_step maxioc k (aoe_ktstop k)"

inductive kt_reach :: "nat \<Rightarrow> ktask \<Rightarrow> bool" for maxioc :: nat where
  kt_init: "kt_reach maxioc kt_start"
| kt_next: "kt_reach maxioc k \<Longrightarrow> kt_step maxioc k k' \<Longrightarrow> kt_reach maxioc k'"

inductive_cases kt_stepE: "kt_step maxioc k k'"

text \<open>What keeps work from being forgotten: a thread that may sleep is on the wait queue, and whoever
  added work since it looked has yet to wake it.\<close>

definition kt_inv :: "ktask \<Rightarrow> bool" where
  "kt_inv k \<longleftrightarrow> (k_intr k \<longrightarrow> k_onq k \<and> k_pc k \<in> {KSched, KAsleep} \<and> k_work k \<le> k_wakers k)"

lemma kthread_inv: "kt_inv k \<Longrightarrow> kthread maxioc k = Some k' \<Longrightarrow> kt_inv k'"
  by (cases "k_pc k") (auto simp: kthread_def kt_inv_def split: if_splits)

lemma kt_step_inv: "kt_inv k \<Longrightarrow> kt_step maxioc k k' \<Longrightarrow> kt_inv k'"
  by (erule kt_stepE) (auto simp: kthread_inv, auto simp: kt_inv_def kt_queue_def kt_wake_up_def aoe_ktstop_def)

lemma kt_reach_inv: "kt_reach maxioc k \<Longrightarrow> kt_inv k"
  by (induction rule: kt_reach.induct) (auto simp: kt_step_inv, simp add: kt_inv_def kt_start_def)

text \<open>C25. Work given to a thread is not forgotten: in every reachable state with work queued, either the
  thread itself can step, or someone is about to call \<open>wake_up\<close> and the thread can step after it.  The
  exception is a thread that has been stopped and has ended.\<close>

theorem kthread_no_lost_work:
  assumes "kt_reach maxioc k" "0 < k_work k" "k_pc k \<noteq> KDone"
  shows "kthread maxioc k \<noteq> None \<or> 0 < k_wakers k \<and> kthread maxioc (kt_wake_up k) \<noteq> None"
  using kt_reach_inv [OF assms(1)] assms(2,3)
  by (cases "k_pc k") (auto simp: kthread_def kt_inv_def kt_wake_up_def)

definition kt_sleeper :: ktask where
  "kt_sleeper = \<lparr>k_pc = KAsleep, k_work = 1, k_intr = True, k_onq = True, k_wakers = 1, k_stop = False\<rparr>"

lemma kt_run: "kt_reach m k \<Longrightarrow> kthread m k = Some k' \<Longrightarrow> kt_reach m k'"
  by (rule kt_next, assumption, rule kt_thread)

lemma kt_falls_asleep:
  assumes "kt_reach 0 k" "k_pc k = KFn 0" "k_work k = 0"
  shows "kt_reach 0 (k\<lparr>k_pc := KAsleep, k_onq := True, k_intr := True\<rparr>)"
proof -
  let ?k = "k\<lparr>k_pc := KSched, k_onq := True, k_intr := True\<rparr>"
  have "kt_reach 0 ?k" by (rule kt_run [OF assms(1)]) (simp add: kthread_def assms)
  moreover have "kthread 0 ?k = Some (k\<lparr>k_pc := KAsleep, k_onq := True, k_intr := True\<rparr>)"
    by (cases k) (simp add: kthread_def)
  ultimately show ?thesis by (rule kt_run)
qed

lemma kt_sleeper_reach: "kt_reach 0 kt_sleeper"
proof -
  have "kt_reach 0 (kt_start\<lparr>k_pc := KAsleep, k_onq := True, k_intr := True\<rparr>)"
    by (rule kt_falls_asleep [OF kt_init]) (simp_all add: kt_start_def)
  from kt_next [OF this kt_more] show ?thesis by (simp add: kt_queue_def kt_start_def kt_sleeper_def)
qed

theorem kthread_no_lost_work_witness:
  "kthread 0 kt_sleeper = None \<and> 0 < k_wakers kt_sleeper \<and> kthread 0 (kt_wake_up kt_sleeper) \<noteq> None"
proof -
  have "kthread 0 kt_sleeper = None" by (simp add: kthread_def kt_sleeper_def)
  then show ?thesis
    using kthread_no_lost_work [OF kt_sleeper_reach] by (auto simp: kt_sleeper_def)
qed

text \<open>C38. A request to stop can be forgotten: if it comes after the thread has looked for it and before
  the thread is interruptible, the thread goes to sleep and \<open>aoe_ktstop\<close> waits for it.  No step of the
  thread follows and nobody is about to wake it.\<close>

theorem ktstop_can_hang:
  "\<exists>k. kt_reach 0 k \<and> k_stop k \<and> k_pc k = KAsleep \<and> k_wakers k = 0 \<and> kthread 0 k = None"
proof -
  let ?k = "kt_start\<lparr>k_pc := KAsleep, k_onq := True, k_intr := True, k_stop := True\<rparr>"
  have "kt_reach 0 (aoe_ktstop kt_start)" by (rule kt_next [OF kt_init kt_end])
  from kt_falls_asleep [OF this] have "kt_reach 0 ?k" by (simp add: kt_start_def aoe_ktstop_def)
  moreover have "k_stop ?k \<and> k_pc ?k = KAsleep \<and> k_wakers ?k = 0 \<and> kthread 0 ?k = None"
    by (simp add: kthread_def kt_start_def)
  ultimately show ?thesis by blast
qed

section \<open>The threads that finish responses\<close>

text \<open>
  \<open>q_head\<close> is the list of each \<open>iocq\<close>, holding for each frame the address of its device, and
  \<open>q_active\<close> the flag of each \<open>kts\<close>.  \<open>q_bug\<close> is set where \<open>BUG_ON\<close> stops the kernel.
\<close>

record ktq =
  q_ncpus :: nat
  q_head :: "nat list list"
  q_active :: "bool list"
  q_bug :: bool

text \<open>\<open>aoecmd_init\<close>: every list is empty and only the first thread runs.\<close>

definition ktq_init :: "nat \<Rightarrow> ktq" where
  "ktq_init n = \<lparr>q_ncpus = n, q_head = replicate n [], q_active = (replicate n False)[0 := True], q_bug = False\<rparr>"

text \<open>The choice of the list in \<open>ktcomplete\<close>.\<close>

definition ktcomplete_id :: "nat \<Rightarrow> ktq \<Rightarrow> nat" where
  "ktcomplete_id aoeminor q =
     (let tid = aoeminor mod q_ncpus q in if q_active q ! tid then tid else 0)"

definition ktcomplete_add :: "nat \<Rightarrow> ktq \<Rightarrow> ktq" where
  "ktcomplete_add aoeminor q =
     (let tid = ktcomplete_id aoeminor q
      in q\<lparr>q_head := (q_head q)[tid := q_head q ! tid @ [aoeminor]]\<rparr>)"

text \<open>\<open>ktio\<close> after a frame of its list is finished: the thread of the frame's device is started if it
  is not there yet; \<open>spawned\<close> tells whether \<open>aoe_ktstart\<close> succeeds.\<close>

definition ktio_spawn :: "nat \<Rightarrow> bool \<Rightarrow> nat \<Rightarrow> ktq \<Rightarrow> ktq" where
  "ktio_spawn tid spawned aoeminor q =
     (let actual_id = aoeminor mod q_ncpus q
      in if q_active q ! actual_id then q
         else if tid \<noteq> 0 then q\<lparr>q_bug := True\<rparr>
         else if spawned then q\<lparr>q_active := (q_active q)[actual_id := True]\<rparr>
         else q)"

text \<open>The thread that takes an entry looks at the minor address of its device after the entry is done.  The model uses the one
  of the time of queueing; they are the same as long as the device is not freed, which the reference of the entry no
  longer ensures at that point.\<close>

definition ktio_pop :: "nat \<Rightarrow> bool \<Rightarrow> ktq \<Rightarrow> ktq" where
  "ktio_pop tid spawned q =
     (case q_head q ! tid of
        [] \<Rightarrow> q
      | m # ms \<Rightarrow> ktio_spawn tid spawned m (q\<lparr>q_head := (q_head q)[tid := ms]\<rparr>))"

datatype kt_event = KtComplete nat | KtPop nat bool

text \<open>A pop is by a thread that runs.\<close>

definition kt_event :: "kt_event \<Rightarrow> ktq \<Rightarrow> ktq" where
  "kt_event ev q =
     (case ev of
        KtComplete m \<Rightarrow> ktcomplete_add m q
      | KtPop tid sp \<Rightarrow> if tid < q_ncpus q \<and> q_active q ! tid then ktio_pop tid sp q else q)"

definition ktq_inv :: "ktq \<Rightarrow> bool" where
  "ktq_inv q \<longleftrightarrow> 0 < q_ncpus q \<and> length (q_head q) = q_ncpus q \<and> length (q_active q) = q_ncpus q
     \<and> q_active q ! 0 \<and> \<not> q_bug q
     \<and> (\<forall>tid<q_ncpus q. tid \<noteq> 0 \<longrightarrow> (\<forall>m\<in>set (q_head q ! tid). m mod q_ncpus q = tid \<and> q_active q ! tid))"

lemma ktq_init_inv: "0 < n \<Longrightarrow> ktq_inv (ktq_init n)"
  by (auto simp: ktq_inv_def ktq_init_def)

lemma ktcomplete_add_inv: "ktq_inv q \<Longrightarrow> ktq_inv (ktcomplete_add m q)"
  unfolding ktq_inv_def ktcomplete_add_def ktcomplete_id_def Let_def
  by (auto simp: nth_list_update split: if_splits)

lemma ktio_spawn_inv:
  "ktq_inv q \<Longrightarrow> tid = 0 \<or> q_active q ! (m mod q_ncpus q) \<Longrightarrow> ktq_inv (ktio_spawn tid sp m q)"
  unfolding ktio_spawn_def Let_def
  by (auto simp: ktq_inv_def nth_list_update)

lemma ktio_pop_inv:
  assumes "ktq_inv q" "tid < q_ncpus q"
  shows "ktq_inv (ktio_pop tid sp q)"
proof (cases "q_head q ! tid")
  case Nil
  then show ?thesis using assms by (simp add: ktio_pop_def)
next
  case (Cons m ms)
  have "ktq_inv (q\<lparr>q_head := (q_head q)[tid := ms]\<rparr>)"
    using assms Cons by (auto simp: ktq_inv_def nth_list_update)
  moreover have "tid = 0 \<or> q_active q ! (m mod q_ncpus q)"
    using assms Cons unfolding ktq_inv_def by (metis list.set_intros(1))
  ultimately show ?thesis using Cons by (simp add: ktio_pop_def ktio_spawn_inv)
qed

lemma kt_event_inv: "ktq_inv q \<Longrightarrow> ktq_inv (kt_event ev q)"
  by (auto simp: kt_event_def ktcomplete_add_inv ktio_pop_inv split: kt_event.splits)

lemma kt_events_inv: "ktq_inv q \<Longrightarrow> ktq_inv (fold kt_event evs q)"
  by (induction evs arbitrary: q) (auto simp: kt_event_inv)

text \<open>C26. Whatever devices answer and in whatever order the threads run, the \<open>BUG_ON\<close> of \<open>ktio\<close> does not
  fire, and a list other than the first holds only frames of the devices that belong to it.\<close>

theorem ktio_never_bugs:
  assumes "0 < n" "q = fold kt_event evs (ktq_init n)"
  shows "\<not> q_bug q \<and> (\<forall>tid<n. tid \<noteq> 0 \<longrightarrow> (\<forall>m\<in>set (q_head q ! tid). m mod n = tid))"
proof -
  have n: "q_ncpus (kt_event ev r) = q_ncpus r" for ev r
    by (auto simp: kt_event_def ktcomplete_add_def ktio_pop_def ktio_spawn_def Let_def split: kt_event.splits list.splits)
  have "q_ncpus (fold kt_event evs r) = q_ncpus r" for r
    by (induction evs arbitrary: r) (simp_all add: n)
  then have "q_ncpus q = n" by (simp add: assms(2) ktq_init_def)
  moreover have "ktq_inv q" unfolding assms(2) by (rule kt_events_inv [OF ktq_init_inv [OF assms(1)]])
  ultimately show ?thesis by (auto simp: ktq_inv_def)
qed

theorem ktio_never_bugs_witness:
  "let q = fold kt_event [KtComplete 3, KtPop 0 True, KtComplete 3, KtComplete 2] (ktq_init 2)
   in \<not> q_bug q \<and> q_head q = [[2], [3]]"
proof -
  have i: "ktq_init 2 = \<lparr>q_ncpus = 2, q_head = [[], []], q_active = [True, False], q_bug = False\<rparr>"
    by (simp add: ktq_init_def eval_nat_numeral)
  show ?thesis
    using ktio_never_bugs [of 2 "fold kt_event [KtComplete 3, KtPop 0 True, KtComplete 3, KtComplete 2] (ktq_init 2)"]
    by (simp add: i kt_event_def ktcomplete_add_def ktcomplete_id_def ktio_pop_def ktio_spawn_def Let_def)
qed

end
