(* ===== verification/Wire.thy ===== *)
theory Wire
  imports Prelude
begin

text \<open>
  The AoE packet formats of \<open>src/linux/drivers/block/aoe/aoe.h\<close>: the AoE header, the ATA header
  and the configuration header, their layout as bytes on the wire (the C structs have no
  padding, and the multi-byte fields are big endian), and the field helpers \<open>put_lba\<close>
  (aoecmd.c) and \<open>mac_addr\<close> (aoenet.c).  A locale states what a fixed-size header codec
  promises; every header is an instance, and so is a header followed by another.
\<close>

section \<open>Integers as bytes\<close>

definition put_be16 :: "u16 \<Rightarrow> u8 list" where
  "put_be16 x = [ucast (drop_bit 8 x), ucast x]"

definition get_be16 :: "u8 list \<Rightarrow> u16" where
  "get_be16 bs = push_bit 8 (ucast (bs ! 0)) OR ucast (bs ! 1)"

definition put_be32 :: "u32 \<Rightarrow> u8 list" where
  "put_be32 x = [ucast (drop_bit 24 x), ucast (drop_bit 16 x), ucast (drop_bit 8 x), ucast x]"

definition get_be32 :: "u8 list \<Rightarrow> u32" where
  "get_be32 bs = push_bit 24 (ucast (bs ! 0)) OR push_bit 16 (ucast (bs ! 1))
     OR push_bit 8 (ucast (bs ! 2)) OR ucast (bs ! 3)"

definition get_be64 :: "u8 list \<Rightarrow> u64" where
  "get_be64 bs = push_bit 56 (ucast (bs ! 0)) OR push_bit 48 (ucast (bs ! 1))
     OR push_bit 40 (ucast (bs ! 2)) OR push_bit 32 (ucast (bs ! 3))
     OR push_bit 24 (ucast (bs ! 4)) OR push_bit 16 (ucast (bs ! 5))
     OR push_bit 8 (ucast (bs ! 6)) OR ucast (bs ! 7)"

lemma bit_ucast_le:
  "bit (ucast (w :: 'a::len word) :: 'b::len word) n \<longleftrightarrow> n < LENGTH('b) \<and> bit w n"
  by (simp add: bit_ucast_iff)

lemma bit_word_beyond: "LENGTH('a) \<le> n \<Longrightarrow> \<not> bit (w :: 'a::len word) n"
  by (auto dest: bit_imp_le_length)

lemmas byte_bits = bit_or_iff bit_and_iff bit_push_bit_iff bit_drop_bit_eq bit_ucast_le
  bit_word_beyond

lemma get_put_be16 [byte_simps]: "get_be16 (put_be16 x @ bs) = x"
  by (rule bit_word_eqI) (auto simp: get_be16_def put_be16_def byte_bits)

lemma get_put_be32 [byte_simps]: "get_be32 (put_be32 x @ bs) = x"
proof (rule bit_word_eqI)
  fix n assume "n < LENGTH(32)"
  then consider "n < 8" | "8 \<le> n" "n < 16" | "16 \<le> n" "n < 24" | "24 \<le> n" "n < 32"
    by fastforce
  then show "bit (get_be32 (put_be32 x @ bs)) n = bit x n"
    by cases (auto simp: get_be32_def put_be32_def byte_bits)
qed

lemma length_put_be [byte_simps]: "length (put_be16 x) = 2" "length (put_be32 y) = 4"
  by (simp_all add: put_be16_def put_be32_def)

section \<open>The headers\<close>

definition ETH_P_AOE :: u16 where "ETH_P_AOE = 0x88a2"
definition AOECMD_ATA :: u8 where "AOECMD_ATA = 0"
definition AOECMD_CFG :: u8 where "AOECMD_CFG = 1"
definition AOECMD_VEND_MIN :: u8 where "AOECMD_VEND_MIN = 0xf0"
definition AOEFL_RSP :: u8 where "AOEFL_RSP = 2 ^ 3"
definition AOEFL_ERR :: u8 where "AOEFL_ERR = 2 ^ 2"
definition AOEAFL_EXT :: u8 where "AOEAFL_EXT = 2 ^ 6"
definition AOEAFL_WRITE :: u8 where "AOEAFL_WRITE = 2 ^ 0"
definition AOE_HVER :: u8 where "AOE_HVER = 0x10"

lemmas wire_consts = ETH_P_AOE_def AOECMD_ATA_def AOECMD_CFG_def AOECMD_VEND_MIN_def
  AOEFL_RSP_def AOEFL_ERR_def AOEAFL_EXT_def AOEAFL_WRITE_def AOE_HVER_def

record aoe_hdr =
  h_dst :: "u8 list"
  h_src :: "u8 list"
  h_type :: u16
  h_verfl :: u8
  h_err :: u8
  h_major :: u16
  h_minor :: u8
  h_cmd :: u8
  h_tag :: u32

record aoe_atahdr =
  ah_aflags :: u8
  ah_errfeat :: u8
  ah_scnt :: u8
  ah_cmdstat :: u8
  ah_lba0 :: u8
  ah_lba1 :: u8
  ah_lba2 :: u8
  ah_lba3 :: u8
  ah_lba4 :: u8
  ah_lba5 :: u8
  ah_res :: "u8 list"

record aoe_cfghdr =
  ch_bufcnt :: u16
  ch_fwver :: u16
  ch_scnt :: u8
  ch_aoeccmd :: u8
  ch_cslen :: "u8 list"

text \<open>\<open>memset\<close> of a header to zero.\<close>

definition zero_hdr :: aoe_hdr where
  "zero_hdr = \<lparr>h_dst = replicate 6 0, h_src = replicate 6 0, h_type = 0, h_verfl = 0,
     h_err = 0, h_major = 0, h_minor = 0, h_cmd = 0, h_tag = 0\<rparr>"

definition zero_atahdr :: aoe_atahdr where
  "zero_atahdr = \<lparr>ah_aflags = 0, ah_errfeat = 0, ah_scnt = 0, ah_cmdstat = 0, ah_lba0 = 0,
     ah_lba1 = 0, ah_lba2 = 0, ah_lba3 = 0, ah_lba4 = 0, ah_lba5 = 0, ah_res = [0, 0]\<rparr>"

definition zero_cfghdr :: aoe_cfghdr where
  "zero_cfghdr = \<lparr>ch_bufcnt = 0, ch_fwver = 0, ch_scnt = 0, ch_aoeccmd = 0, ch_cslen = [0, 0]\<rparr>"

text \<open>The arrays inside the headers have the sizes the structs declare.\<close>

definition hdr_wf :: "aoe_hdr \<Rightarrow> bool" where
  "hdr_wf h \<longleftrightarrow> length (h_dst h) = 6 \<and> length (h_src h) = 6"

definition atahdr_wf :: "aoe_atahdr \<Rightarrow> bool" where
  "atahdr_wf ah \<longleftrightarrow> length (ah_res ah) = 2"

definition cfghdr_wf :: "aoe_cfghdr \<Rightarrow> bool" where
  "cfghdr_wf ch \<longleftrightarrow> length (ch_cslen ch) = 2"

section \<open>Layout on the wire\<close>

definition hdr_bytes :: "aoe_hdr \<Rightarrow> u8 list" where
  "hdr_bytes h = h_dst h @ h_src h @ put_be16 (h_type h) @ [h_verfl h, h_err h]
     @ put_be16 (h_major h) @ [h_minor h, h_cmd h] @ put_be32 (h_tag h)"

definition hdr_of :: "u8 list \<Rightarrow> aoe_hdr" where
  "hdr_of bs = \<lparr>h_dst = take 6 bs, h_src = take 6 (drop 6 bs), h_type = get_be16 (drop 12 bs),
     h_verfl = bs ! 14, h_err = bs ! 15, h_major = get_be16 (drop 16 bs),
     h_minor = bs ! 18, h_cmd = bs ! 19, h_tag = get_be32 (drop 20 bs)\<rparr>"

definition atahdr_bytes :: "aoe_atahdr \<Rightarrow> u8 list" where
  "atahdr_bytes ah = [ah_aflags ah, ah_errfeat ah, ah_scnt ah, ah_cmdstat ah, ah_lba0 ah,
     ah_lba1 ah, ah_lba2 ah, ah_lba3 ah, ah_lba4 ah, ah_lba5 ah] @ ah_res ah"

definition atahdr_of :: "u8 list \<Rightarrow> aoe_atahdr" where
  "atahdr_of bs = \<lparr>ah_aflags = bs ! 0, ah_errfeat = bs ! 1, ah_scnt = bs ! 2,
     ah_cmdstat = bs ! 3, ah_lba0 = bs ! 4, ah_lba1 = bs ! 5, ah_lba2 = bs ! 6,
     ah_lba3 = bs ! 7, ah_lba4 = bs ! 8, ah_lba5 = bs ! 9, ah_res = take 2 (drop 10 bs)\<rparr>"

definition cfghdr_bytes :: "aoe_cfghdr \<Rightarrow> u8 list" where
  "cfghdr_bytes ch = put_be16 (ch_bufcnt ch) @ put_be16 (ch_fwver ch)
     @ [ch_scnt ch, ch_aoeccmd ch] @ ch_cslen ch"

definition cfghdr_of :: "u8 list \<Rightarrow> aoe_cfghdr" where
  "cfghdr_of bs = \<lparr>ch_bufcnt = get_be16 bs, ch_fwver = get_be16 (drop 2 bs),
     ch_scnt = bs ! 4, ch_aoeccmd = bs ! 5, ch_cslen = take 2 (drop 6 bs)\<rparr>"

section \<open>What a fixed-size header codec promises\<close>

locale header_codec =
  fixes enc :: "'h \<Rightarrow> u8 list" and dec :: "u8 list \<Rightarrow> 'h" and wf :: "'h \<Rightarrow> bool" and size_h :: nat
  assumes dec_enc: "wf h \<Longrightarrow> dec (enc h @ rest) = h"
    and length_enc: "wf h \<Longrightarrow> length (enc h) = size_h"
begin

lemma dec_enc_only: "wf h \<Longrightarrow> dec (enc h) = h"
  using dec_enc [of h "[]"] by simp

lemma enc_inject: "wf h \<Longrightarrow> wf g \<Longrightarrow> enc h @ r = enc g @ s \<Longrightarrow> h = g \<and> r = s"
proof -
  assume wf: "wf h" "wf g" and eq: "enc h @ r = enc g @ s"
  have "h = g"
    using dec_enc [OF wf(1), of r] dec_enc [OF wf(2), of s] eq by simp
  with eq show "h = g \<and> r = s" by simp
qed

lemma drop_enc: "wf h \<Longrightarrow> drop size_h (enc h @ rest) = rest"
  using length_enc by simp

end

text \<open>A header followed by a second header, as \<open>(struct aoe_atahdr *) (h+1)\<close> reads it.\<close>

locale header_pair =
  a: header_codec enc1 dec1 wf1 size1 + b: header_codec enc2 dec2 wf2 size2
  for enc1 :: "'h \<Rightarrow> u8 list" and dec1 wf1 size1
    and enc2 :: "'g \<Rightarrow> u8 list" and dec2 wf2 size2
begin

lemma pair_codec:
  "header_codec (\<lambda>(h, g). enc1 h @ enc2 g) (\<lambda>bs. (dec1 bs, dec2 (drop size1 bs)))
     (\<lambda>(h, g). wf1 h \<and> wf2 g) (size1 + size2)"
proof
  fix h :: "'h \<times> 'g" and rest
  assume "case h of (h, g) \<Rightarrow> wf1 h \<and> wf2 g"
  then show "(dec1 ((case h of (h, g) \<Rightarrow> enc1 h @ enc2 g) @ rest),
      dec2 (drop size1 ((case h of (h, g) \<Rightarrow> enc1 h @ enc2 g) @ rest))) = h"
    using a.length_enc by (cases h) (simp add: a.dec_enc b.dec_enc)
next
  fix h :: "'h \<times> 'g"
  assume "case h of (h, g) \<Rightarrow> wf1 h \<and> wf2 g"
  then show "length (case h of (h, g) \<Rightarrow> enc1 h @ enc2 g) = size1 + size2"
    using a.length_enc b.length_enc by (cases h) simp
qed

end

sublocale header_pair \<subseteq> both: header_codec "\<lambda>(h, g). enc1 h @ enc2 g"
    "\<lambda>bs. (dec1 bs, dec2 (drop size1 bs))" "\<lambda>(h, g). wf1 h \<and> wf2 g" "size1 + size2"
  by (rule pair_codec)

lemma list6: "length xs = 6 \<Longrightarrow> \<exists>a b c d e f. xs = [a, b, c, d, e, f]"
  by (auto simp: length_Suc_conv numeral_eq_Suc)

lemma list2: "length xs = 2 \<Longrightarrow> \<exists>a b. xs = [a, b]"
  by (auto simp: length_Suc_conv numeral_eq_Suc)

interpretation hdr: header_codec hdr_bytes hdr_of hdr_wf 24
proof
  fix h rest
  assume "hdr_wf h"
  then have d: "length (h_dst h) = 6" and s: "length (h_src h) = 6"
    by (simp_all add: hdr_wf_def)
  show "hdr_of (hdr_bytes h @ rest) = h"
    using d s
    by (simp add: hdr_of_def hdr_bytes_def byte_simps nth_append)
next
  fix h
  assume "hdr_wf h"
  then show "length (hdr_bytes h) = 24"
    by (simp add: hdr_wf_def hdr_bytes_def byte_simps)
qed

interpretation atahdr: header_codec atahdr_bytes atahdr_of atahdr_wf 12
  by unfold_locales (auto simp: atahdr_of_def atahdr_bytes_def atahdr_wf_def)

interpretation cfghdr: header_codec cfghdr_bytes cfghdr_of cfghdr_wf 8
  by unfold_locales
    (auto simp: cfghdr_of_def cfghdr_bytes_def cfghdr_wf_def byte_simps nth_append)

interpretation ata_pkt: header_pair hdr_bytes hdr_of hdr_wf 24
    atahdr_bytes atahdr_of atahdr_wf 12 ..

interpretation cfg_pkt: header_pair hdr_bytes hdr_of hdr_wf 24
    cfghdr_bytes cfghdr_of cfghdr_wf 8 ..

section \<open>Field helpers\<close>

text \<open>\<open>put_lba\<close>: each assignment shifts the running value once more.\<close>

definition put_lba :: "aoe_atahdr \<Rightarrow> u64 \<Rightarrow> aoe_atahdr" where
  "put_lba ah lba =
     (let l1 = drop_bit 8 lba; l2 = drop_bit 8 l1; l3 = drop_bit 8 l2;
          l4 = drop_bit 8 l3; l5 = drop_bit 8 l4
      in ah\<lparr>ah_lba0 := ucast lba, ah_lba1 := ucast l1, ah_lba2 := ucast l2,
            ah_lba3 := ucast l3, ah_lba4 := ucast l4, ah_lba5 := ucast l5\<rparr>)"

text \<open>The LBA a target reads back from the header: all six bytes for an LBA48 command, and
  three bytes and a nibble for an LBA28 command.\<close>

definition lba48 :: "aoe_atahdr \<Rightarrow> u64" where
  "lba48 ah = push_bit 40 (ucast (ah_lba5 ah)) OR push_bit 32 (ucast (ah_lba4 ah))
     OR push_bit 24 (ucast (ah_lba3 ah)) OR push_bit 16 (ucast (ah_lba2 ah))
     OR push_bit 8 (ucast (ah_lba1 ah)) OR ucast (ah_lba0 ah)"

definition lba28 :: "aoe_atahdr \<Rightarrow> u64" where
  "lba28 ah = push_bit 24 (ucast (ah_lba3 ah AND 0x0f)) OR push_bit 16 (ucast (ah_lba2 ah))
     OR push_bit 8 (ucast (ah_lba1 ah)) OR ucast (ah_lba0 ah)"

text \<open>The drive/head byte of an LBA28 command: \<open>lba3 &= 0x0f; lba3 |= 0xe0\<close>.\<close>

definition lba28_head :: "aoe_atahdr \<Rightarrow> aoe_atahdr" where
  "lba28_head ah = ah\<lparr>ah_lba3 := (ah_lba3 ah AND 0x0f) OR 0xe0\<rparr>"

definition mac_addr :: "u8 list \<Rightarrow> u64" where
  "mac_addr addr = get_be64 ([0, 0] @ addr)"

lemma lba48_put_lba: "lba48 (put_lba ah lba) = take_bit 48 lba"
proof (rule bit_word_eqI)
  fix n assume "n < LENGTH(64)"
  then consider "n < 8" | "8 \<le> n" "n < 16" | "16 \<le> n" "n < 24" | "24 \<le> n" "n < 32"
    | "32 \<le> n" "n < 40" | "40 \<le> n" "n < 48" | "48 \<le> n" "n < 64"
    by fastforce
  then show "bit (lba48 (put_lba ah lba)) n = bit (take_bit 48 lba) n"
    by cases (auto simp: lba48_def put_lba_def byte_bits bit_take_bit_iff)
qed

lemma bit_0f: "bit (0x0f :: int) n \<longleftrightarrow> n < 4"
proof -
  have m: "(0x0f :: int) = mask 4" by (simp add: mask_eq_exp_minus_1)
  show ?thesis unfolding m by (simp add: bit_mask_iff)
qed

lemma bit_e0: "bit (0xe0 :: int) n \<Longrightarrow> 4 \<le> n"
proof -
  have m: "(0xe0 :: int) = push_bit 5 7" by (simp add: push_bit_eq_mult)
  show "bit (0xe0 :: int) n \<Longrightarrow> 4 \<le> n" unfolding m bit_push_bit_iff by simp
qed

lemma nibble_head: "((b :: u8) AND 0x0f OR 0xe0) AND 0x0f = b AND 0x0f"
  by (rule bit_word_eqI) (auto simp: bit_and_iff bit_or_iff bit_0f dest!: bit_e0)

lemma bit_nibble: "bit ((b :: u8) AND 0x0f) n \<longleftrightarrow> n < 4 \<and> bit b n"
  by (auto simp: bit_and_iff bit_0f)

lemma lba28_put_lba: "lba28 (lba28_head (put_lba ah lba)) = take_bit 28 lba"
proof (rule bit_word_eqI)
  fix n assume "n < LENGTH(64)"
  then consider "n < 8" | "8 \<le> n" "n < 16" | "16 \<le> n" "n < 24" | "24 \<le> n" "n < 28"
    | "28 \<le> n" "n < 64"
    by fastforce
  then show "bit (lba28 (lba28_head (put_lba ah lba))) n = bit (take_bit 28 lba) n"
    by cases (auto simp: lba28_def lba28_head_def nibble_head put_lba_def bit_nibble byte_bits
        bit_0f bit_take_bit_iff)
qed

text \<open>The number \<open>mac_addr\<close> prints determines the address.\<close>

lemma byte_of_be64:
  assumes "i < 8" and "j < 8"
  shows "bit (get_be64 bs) (8 * (7 - i) + j) = bit (bs ! i) j"
proof -
  from assms(1) consider "i = 0" | "i = 1" | "i = 2" | "i = 3" | "i = 4" | "i = 5" | "i = 6" | "i = 7"
    by fastforce
  then show ?thesis
    using assms(2) by cases (auto simp: get_be64_def byte_bits)
qed

lemma mac_addr_inject:
  assumes "length a = 6" and "length b = 6" and "mac_addr a = mac_addr b"
  shows "a = b"
proof (rule nth_equalityI)
  show "length a = length b" using assms by simp
next
  fix i assume i: "i < length a"
  show "a ! i = b ! i"
  proof (rule bit_word_eqI)
    fix j assume "j < LENGTH(8)"
    then have j: "j < 8" by simp
    have "bit (([0, 0] @ xs) ! (i + 2)) j = bit (mac_addr xs) (8 * (7 - (i + 2)) + j)" for xs
      using byte_of_be64 [of "i + 2" j] i j assms(1) by (simp add: mac_addr_def)
    from this [of a] this [of b] show "bit (a ! i) j = bit (b ! i) j"
      by (simp add: assms(3))
  qed
qed

end
