(* ===== verification/Timing.thy ===== *)
theory Timing
  imports Prelude
begin

text \<open>
  Tags and round trip times of \<open>aoecmd.c\<close>: \<open>newtag\<close>, \<open>tsince\<close>, \<open>tsince_hr\<close>, \<open>rto\<close> and the
  estimator of \<open>calc_rttavg\<close>, with the 16 and 32 bit arithmetic of the source.  The clock
  readings (\<open>jiffies\<close>, \<open>do_gettimeofday\<close>), the tick rate \<open>HZ\<close> and \<open>jiffies_to_usecs\<close> are the
  kernel's and are arguments.
\<close>

section \<open>Definitions\<close>

record timeval =
  tv_sec :: int
  tv_usec :: int

definition USEC_PER_SEC :: int where "USEC_PER_SEC = 1000000"
definition RTTSCALE :: nat where "RTTSCALE = 8"
definition RTTDSCALE :: nat where "RTTDSCALE = 3"
definition RTTAVG_INIT :: u32 where "RTTAVG_INIT = push_bit RTTSCALE (word_of_int (USEC_PER_SEC div 4))"
definition RTTDEV_INIT :: u32 where "RTTDEV_INIT = RTTAVG_INIT div 4"

lemmas timing_consts = USEC_PER_SEC_def RTTSCALE_def RTTDSCALE_def

lemma RTT_INIT_values: "RTTAVG_INIT = 64000000" "RTTDEV_INIT = 16000000"
  by (simp_all add: RTTAVG_INIT_def RTTDEV_INIT_def timing_consts push_bit_eq_mult)

text \<open>\<open>newtag\<close>: the tag and the new value of \<open>d->lasttag\<close>.\<close>

definition newtag :: "u64 \<Rightarrow> u16 \<Rightarrow> u32 \<times> u16" where
  "newtag jiffies lasttag =
     (let n = ucast (jiffies AND 0xffff) :: u32; lasttag' = lasttag + 1
      in (n OR push_bit 16 (ucast (lasttag' AND 0x7fff)), lasttag'))"

text \<open>\<open>tsince\<close>: microseconds since a tag was made, from its tick alone.\<close>

definition tsince :: "(nat \<Rightarrow> u32) \<Rightarrow> u64 \<Rightarrow> u32 \<Rightarrow> u32" where
  "tsince jiffies_to_usecs jiffies tag =
     (let n = uint (jiffies AND 0xffff) - uint (tag AND 0xffff);
          n' = (if n < 0 then n + 2 ^ 16 else n)
      in jiffies_to_usecs (nat (n' + 1)))"

text \<open>\<open>tsince_hr\<close>: the result is a C \<open>int\<close>, here its 32 bits.\<close>

definition tsince_hr :: "int \<Rightarrow> timeval \<Rightarrow> u64 \<Rightarrow> timeval \<Rightarrow> u32 \<Rightarrow> u32" where
  "tsince_hr hz now jiffies sent sent_jiffs =
     (let n0 = word_of_int (tv_usec now - tv_usec sent)
             + word_of_int ((tv_sec now - tv_sec sent) * USEC_PER_SEC) :: u32;
          n1 = (if n0 <s 0 then - n0 else n0)
      in if word_of_int (USEC_PER_SEC div 4) <s n1
         then (ucast jiffies - sent_jiffs) * word_of_int (USEC_PER_SEC div hz)
         else n1)"

definition rto :: "u32 \<Rightarrow> u32 \<Rightarrow> int" where
  "rto rttavg rttdev =
     (let t = uint (drop_bit RTTSCALE (2 * rttavg)) + uint (drop_bit RTTDSCALE (8 * rttdev))
      in if t = 0 then 1 else t)"

text \<open>The estimator inside \<open>calc_rttavg\<close>: the new average and mean deviation, both scaled.\<close>

definition rtt_update :: "int \<Rightarrow> u32 \<times> u32 \<Rightarrow> u32 \<times> u32" where
  "rtt_update rtt rd =
     (case rd of (rttavg, rttdev) \<Rightarrow>
        let n = rtt - uint (drop_bit RTTSCALE rttavg);
            rttavg' = rttavg + word_of_int n;
            m = \<bar>n\<bar> - uint (drop_bit RTTDSCALE rttdev)
        in (rttavg', rttdev + word_of_int m))"

section \<open>Tags\<close>

lemma bit_7fff: "bit (0x7fff :: int) n \<longleftrightarrow> n < 15"
proof -
  have m: "(0x7fff :: int) = mask 15" by (simp add: mask_eq_exp_minus_1)
  show ?thesis unfolding m by (simp add: bit_mask_iff)
qed

lemma bit_ffff: "bit (0xffff :: int) n \<longleftrightarrow> n < 16"
proof -
  have m: "(0xffff :: int) = mask 16" by (simp add: mask_eq_exp_minus_1)
  show ?thesis unfolding m by (simp add: bit_mask_iff)
qed

lemmas tag_bits = newtag_def Let_def bit_or_iff bit_and_iff bit_push_bit_iff bit_ucast_iff
  bit_drop_bit_eq bit_7fff bit_ffff

lemma newtag_lasttag [simp]: "snd (newtag j lt) = lt + 1"
  by (simp add: newtag_def Let_def)

lemma newtag_top_clear: "\<not> bit (fst (newtag j lt)) 31"
  by (auto simp: tag_bits)

lemma newtag_tick: "fst (newtag j lt) AND 0xffff = ucast (j AND 0xffff)"
  by (rule bit_word_eqI) (auto simp: tag_bits)

lemma newtag_seq: "drop_bit 16 (fst (newtag j lt)) = ucast ((lt + 1) AND 0x7fff)"
  by (rule bit_word_eqI) (auto simp: tag_bits dest: bit_imp_le_length)

lemma and_7fff: "uint ((w :: u16) AND 0x7fff) = uint w mod 2 ^ 15"
proof -
  have "(0x7fff :: u16) = mask 15" by (simp add: mask_eq_exp_minus_1)
  then have "w AND 0x7fff = take_bit 15 w" by (simp add: take_bit_eq_mask)
  then show ?thesis by (metis take_bit_eq_mod unsigned_take_bit_eq)
qed

lemma and_ffff: "uint ((w :: 'a::len word) AND 0xffff) = uint w mod 2 ^ 16"
proof -
  have "(0xffff :: 'a word) = mask 16" by (simp add: mask_eq_exp_minus_1)
  then have "w AND 0xffff = take_bit 16 w" by (simp add: take_bit_eq_mask)
  then show ?thesis by (metis take_bit_eq_mod unsigned_take_bit_eq)
qed

lemma uint_add_nat_mod15: "uint ((w :: u16) + of_nat k) mod 2 ^ 15 = (uint w + int k) mod 2 ^ 15"
proof -
  have "w + of_nat k = word_of_int (uint w + int k)"
    by (simp add: wi_hom_add [symmetric])
  then have "uint (w + of_nat k) = (uint w + int k) mod 2 ^ 16"
    by (simp only: uint_word_of_int) simp
  then show ?thesis by (simp add: mod_mod_cancel)
qed

lemma newtag_distinct:
  assumes "0 < k" and "k < 2 ^ 15"
  shows "fst (newtag j lt) \<noteq> fst (newtag j' (lt + of_nat k))"
proof
  assume "fst (newtag j lt) = fst (newtag j' (lt + of_nat k))"
  then have "(ucast ((lt + 1) AND 0x7fff) :: u32) = ucast ((lt + of_nat k + 1) AND 0x7fff)"
    by (metis newtag_seq)
  then have "uint (ucast ((lt + 1) AND 0x7fff) :: u32) = uint (ucast ((lt + of_nat k + 1) AND 0x7fff) :: u32)"
    by simp
  then have "uint ((lt + 1) AND 0x7fff) = uint ((lt + of_nat k + 1) AND 0x7fff)"
    by (simp add: uint_up_ucast is_up)
  then have "uint (lt + 1) mod 2 ^ 15 = uint (lt + 1 + of_nat k) mod 2 ^ 15"
    by (simp only: and_7fff) (simp add: ac_simps)
  moreover have "uint (lt + 1 + of_nat k) mod 2 ^ 15 = (uint (lt + 1) + int k) mod 2 ^ 15"
    by (rule uint_add_nat_mod15)
  ultimately have "(0::int) mod 2 ^ 15 = int k mod 2 ^ 15"
    using mod_diff_cong [of "uint (lt + 1)" "2 ^ 15" "uint (lt + 1) + int k" "uint (lt + 1)" "uint (lt + 1)"]
    by simp
  then show False using assms by simp
qed

section \<open>Elapsed time\<close>

lemma sint_of_int_32: "- (2 ^ 31) \<le> i \<Longrightarrow> i < 2 ^ 31 \<Longrightarrow> sint (word_of_int i :: u32) = i"
  by (simp add: signed_of_int signed_take_bit_int_eq_self)

text \<open>The elapsed time \<open>tsince_hr\<close> computes from the time of day.\<close>

definition elapsed :: "timeval \<Rightarrow> timeval \<Rightarrow> int" where
  "elapsed now sent = (tv_sec now - tv_sec sent) * USEC_PER_SEC + (tv_usec now - tv_usec sent)"

lemma abs32:
  assumes "\<bar>e\<bar> < 2 ^ 31"
  shows "(if (word_of_int e :: u32) <s 0 then - word_of_int e else word_of_int e) = word_of_int \<bar>e\<bar>"
proof -
  have "sint (word_of_int e :: u32) = e" using assms by (intro sint_of_int_32) auto
  then show ?thesis by (simp add: word_sless_alt abs_if)
qed

lemma tsince_hr_elapsed:
  assumes "\<bar>elapsed now sent\<bar> < 2 ^ 31"
  shows "tsince_hr hz now jiffies sent sent_jiffs =
    (if USEC_PER_SEC div 4 < \<bar>elapsed now sent\<bar>
     then (ucast jiffies - sent_jiffs) * word_of_int (USEC_PER_SEC div hz)
     else word_of_int \<bar>elapsed now sent\<bar>)"
proof -
  have n0: "word_of_int (tv_usec now - tv_usec sent)
    + word_of_int ((tv_sec now - tv_sec sent) * USEC_PER_SEC) = (word_of_int (elapsed now sent) :: u32)"
    unfolding elapsed_def wi_hom_add by (rule arg_cong [where f = word_of_int]) simp
  have "sint (word_of_int \<bar>elapsed now sent\<bar> :: u32) = \<bar>elapsed now sent\<bar>"
    using assms by (intro sint_of_int_32) auto
  moreover have "sint (word_of_int (USEC_PER_SEC div 4) :: u32) = USEC_PER_SEC div 4"
    by (intro sint_of_int_32) (simp_all add: USEC_PER_SEC_def)
  ultimately have "word_of_int (USEC_PER_SEC div 4) <s (word_of_int \<bar>elapsed now sent\<bar> :: u32)
      \<longleftrightarrow> USEC_PER_SEC div 4 < \<bar>elapsed now sent\<bar>"
    by (simp only: word_sless_alt)
  then show ?thesis
    unfolding tsince_hr_def Let_def n0 abs32 [OF assms] by (simp only:)
qed

lemma tsince_hr_short:
  assumes "\<bar>elapsed now sent\<bar> \<le> USEC_PER_SEC div 4"
  shows "sint (tsince_hr hz now jiffies sent sent_jiffs) = \<bar>elapsed now sent\<bar>"
  using assms tsince_hr_elapsed [of now sent] sint_of_int_32 [of "\<bar>elapsed now sent\<bar>"]
  by (simp add: USEC_PER_SEC_def)

lemma tsince_hr_long:
  assumes "USEC_PER_SEC div 4 < \<bar>elapsed now sent\<bar>" and "\<bar>elapsed now sent\<bar> < 2 ^ 31"
    and j: "ucast jiffies = sent_jiffs + of_nat ticks"
    and "0 < hz" and "int ticks * (USEC_PER_SEC div hz) < 2 ^ 31"
  shows "sint (tsince_hr hz now jiffies sent sent_jiffs) = int ticks * (USEC_PER_SEC div hz)"
proof -
  have eq: "tsince_hr hz now jiffies sent sent_jiffs = word_of_int (int ticks * (USEC_PER_SEC div hz))"
    unfolding tsince_hr_elapsed [OF assms(2)] j using assms(1) by simp
  have "0 \<le> int ticks * (USEC_PER_SEC div hz)"
    using assms(4) by (simp add: pos_imp_zdiv_nonneg_iff USEC_PER_SEC_def)
  then show ?thesis
    unfolding eq using assms(5) by (intro sint_of_int_32) linarith+
qed

section \<open>The round trip estimator\<close>

lemma uint_drop_bit_div: "uint (drop_bit n (w :: 'a::len word)) = uint w div 2 ^ n"
proof -
  have "uint (drop_bit n w) = drop_bit n (uint w)"
    by (rule bit_eqI) (auto simp: bit_unsigned_iff bit_drop_bit_eq dest: bit_imp_le_length)
  then show ?thesis using drop_bit_eq_div [of n "uint w"] by simp
qed

lemma uint_add_of_int:
  "0 \<le> uint (w :: u32) + i \<Longrightarrow> uint w + i < 2 ^ 32 \<Longrightarrow> uint (w + word_of_int i) = uint w + i"
proof -
  assume a: "0 \<le> uint w + i" "uint w + i < 2 ^ 32"
  have "w + word_of_int i = word_of_int (uint w + i)"
    by (simp add: wi_hom_add [symmetric])
  then have "uint (w + word_of_int i) = (uint w + i) mod 2 ^ 32"
    by (simp only: uint_word_of_int) simp
  then show ?thesis using a by simp
qed

text \<open>The estimator stays in range: with every sample in \<open>[0, M]\<close>, the scaled average stays at
  most \<open>256 * M + 255\<close> and the scaled deviation at most \<open>8 * M + 7\<close>.\<close>

definition rtt_ok :: "int \<Rightarrow> u32 \<times> u32 \<Rightarrow> bool" where
  "rtt_ok M rd \<longleftrightarrow> uint (fst rd) \<le> 256 * M + 255 \<and> uint (snd rd) \<le> 8 * M + 7"

lemma ewma_bound:
  "(0::int) \<le> a \<Longrightarrow> a \<le> 256 * M + 255 \<Longrightarrow> 0 \<le> r \<Longrightarrow> r \<le> M \<Longrightarrow>
   0 \<le> a + (r - a div 256) \<and> a + (r - a div 256) \<le> 256 * M + 255"
  by linarith

lemma dev_bound:
  "(0::int) \<le> d \<Longrightarrow> d \<le> 8 * M + 7 \<Longrightarrow> 0 \<le> n \<Longrightarrow> n \<le> M \<Longrightarrow>
   0 \<le> d + (n - d div 8) \<and> d + (n - d div 8) \<le> 8 * M + 7"
  by linarith

lemma rtt_update_exact:
  assumes ok: "rtt_ok M (a, d)" and r: "0 \<le> rtt" "rtt \<le> M" and M: "M < 2 ^ 24"
    and upd: "rtt_update rtt (a, d) = (a', d')"
  shows "uint a' = uint a - uint a div 256 + rtt
    \<and> uint d' = uint d - uint d div 8 + \<bar>rtt - uint a div 256\<bar>"
proof -
  have ub: "uint a \<le> 256 * M + 255" "uint d \<le> 8 * M + 7" "0 \<le> uint a" "0 \<le> uint d"
    using ok by (simp_all add: rtt_ok_def)
  let ?n = "rtt - uint a div 256"
  have eq: "a' = a + word_of_int ?n" "d' = d + word_of_int (\<bar>?n\<bar> - uint d div 8)"
    using upd unfolding rtt_update_def Let_def by (simp_all only: prod.case prod.inject
        uint_drop_bit_div timing_consts) simp_all
  have n: "\<bar>?n\<bar> \<le> M" using ub r by linarith
  have "uint a' = uint a + ?n"
    unfolding eq by (rule uint_add_of_int) (use ewma_bound [OF ub(3,1) r] M in auto)
  moreover have "uint d' = uint d + (\<bar>?n\<bar> - uint d div 8)"
    unfolding eq by (rule uint_add_of_int) (use dev_bound [OF ub(4,2) _ n] M in auto)
  ultimately show ?thesis by linarith
qed

lemma rtt_update_ok:
  assumes "rtt_ok M rd" and "0 \<le> rtt" and "rtt \<le> M" and "M < 2 ^ 24"
  shows "rtt_ok M (rtt_update rtt rd)"
proof -
  obtain a d a' d' where rd: "rd = (a, d)" and u: "rtt_update rtt (a, d) = (a', d')"
    by (metis surj_pair)
  have ub: "0 \<le> uint a" "uint a \<le> 256 * M + 255" "0 \<le> uint d" "uint d \<le> 8 * M + 7"
    using assms(1) by (simp_all add: rd rtt_ok_def)
  have "\<bar>rtt - uint a div 256\<bar> \<le> M" using ub assms(2,3) by linarith
  from ewma_bound [OF ub(1,2) assms(2,3)] dev_bound [OF ub(3,4) abs_ge_zero this]
    rtt_update_exact [OF assms(1) [unfolded rd] assms(2-4) u]
  show ?thesis unfolding rd u rtt_ok_def by simp
qed

lemma rto_exact:
  assumes "rtt_ok M (a, d)" and "M < 2 ^ 23 - 1"
  shows "rto a d = max 1 (2 * uint a div 256 + uint d)"
proof -
  have "uint (2 * a) = 2 * uint a" and "uint (8 * d) = 8 * uint d"
    using assms by (simp_all add: rtt_ok_def uint_word_ariths)
  moreover have "(if t = 0 then 1 else t) = max 1 t" if "0 \<le> t" for t :: int
    using that by (simp add: max_def)
  moreover have "0 \<le> 2 * uint a div 256 + 8 * uint d div 8"
    by (simp add: pos_imp_zdiv_nonneg_iff)
  ultimately show ?thesis
    unfolding rto_def uint_drop_bit_div Let_def timing_consts by simp
qed

lemma fold_rtt_ok:
  "rtt_ok M rd \<Longrightarrow> \<forall>r\<in>set rs. 0 \<le> r \<and> r \<le> M \<Longrightarrow> M < 2 ^ 24 \<Longrightarrow> rtt_ok M (fold rtt_update rs rd)"
  by (induction rs arbitrary: rd) (simp_all add: rtt_update_ok)

lemma tick_diff:
  assumes "(0::int) \<le> e" and "e < 2 ^ 16"
  shows "(if (x + e) mod 2 ^ 16 - x mod 2 ^ 16 < 0 then (x + e) mod 2 ^ 16 - x mod 2 ^ 16 + 2 ^ 16
     else (x + e) mod 2 ^ 16 - x mod 2 ^ 16) = e"
proof -
  define q where "q = x mod 2 ^ 16"
  have q: "0 \<le> q" "q < 2 ^ 16" by (simp_all add: q_def)
  have "(x + e) mod 2 ^ 16 = (q + e) mod 2 ^ 16" by (simp add: q_def mod_add_left_eq)
  also have "\<dots> = (if q + e < 2 ^ 16 then q + e else q + e - 2 ^ 16)"
  proof (cases "q + e < 2 ^ 16")
    case False
    then have "(q + e) mod 2 ^ 16 = (q + e - 2 ^ 16) mod 2 ^ 16"
      by (intro mod_pos_geq) simp_all
    also have "\<dots> = q + e - 2 ^ 16"
      using False q assms by (intro mod_pos_pos_trivial) simp_all
    finally show ?thesis using False by simp
  qed (use q assms in simp)
  finally show ?thesis unfolding q_def [symmetric] using q assms by auto
qed

section \<open>Properties\<close>

text \<open>C17. Two tags that a device makes with fewer than 32768 tags in between differ, whatever the
  ticks they are made at, so a reply matches at most one of them.\<close>

theorem newtag_unique:
  assumes "0 < k" and "k < 2 ^ 15"
  shows "fst (newtag j lt) \<noteq> fst (newtag j' (lt + of_nat k))"
  by (rule newtag_distinct [OF assms])

theorem newtag_unique_witness: "fst (newtag 7 0xffff) \<noteq> fst (newtag 7 (0xffff + of_nat 32767))"
  using newtag_unique [of 32767 7 "0xffff" 7] by simp

text \<open>\<open>tsince\<close> recovers from a tag alone how many ticks ago it was made, plus one, for any
  age below 65536 ticks and across the wrap of the 16-bit tick.\<close>

theorem tsince_exact:
  assumes "e < 2 ^ 16"
  shows "tsince j2u (j + of_nat e) (fst (newtag j lt)) = j2u (e + 1)"
proof -
  have tag: "uint (fst (newtag j lt) AND 0xffff) = uint j mod 2 ^ 16"
    unfolding newtag_tick unsigned_ucast_eq and_ffff take_bit_eq_mod
    by (simp add: mod_pos_pos_trivial order.strict_trans1 [OF less_imp_le [OF pos_mod_bound]])
  have "j + of_nat e = word_of_int (uint j + int e)"
    by simp
  then have "uint (j + of_nat e) = (uint j + int e) mod 2 ^ 64"
    by (simp only: uint_word_of_int) simp
  then have now: "uint ((j + of_nat e) AND 0xffff) = (uint j + int e) mod 2 ^ 16"
    unfolding and_ffff by (simp add: mod_mod_cancel)
  have "0 \<le> int e" "int e < 2 ^ 16" using assms by auto
  note tick_diff [OF this, of "uint j"]
  then show ?thesis
    unfolding tsince_def Let_def now tag by (simp add: nat_add_distrib)
qed

theorem tsince_exact_witness: "tsince of_nat 2 (fst (newtag (- 1) 0)) = 4"
  using tsince_exact [of 3 of_nat "- 1" 0] by simp

text \<open>\<open>tsince_hr\<close> is the time since transmission: for up to a quarter of a second the distance
  of the two time-of-day readings, beyond that the elapsed ticks converted to microseconds, also
  when the 32-bit tick counter wrapped in between, as long as the value fits an \<open>int\<close>.\<close>

theorem tsince_hr_correct:
  assumes "\<bar>elapsed now sent\<bar> < 2 ^ 31" and "ucast jiffies = sent_jiffs + of_nat ticks"
    and "0 < hz" and "int ticks * (USEC_PER_SEC div hz) < 2 ^ 31"
  shows "sint (tsince_hr hz now jiffies sent sent_jiffs) =
    (if \<bar>elapsed now sent\<bar> \<le> USEC_PER_SEC div 4 then \<bar>elapsed now sent\<bar>
     else int ticks * (USEC_PER_SEC div hz))"
  using tsince_hr_short [of now sent hz jiffies sent_jiffs]
    tsince_hr_long [of now sent jiffies sent_jiffs ticks hz] assms
  by (cases "\<bar>elapsed now sent\<bar> \<le> USEC_PER_SEC div 4") auto

theorem tsince_hr_correct_witness:
  "sint (tsince_hr 1000 \<lparr>tv_sec = 12, tv_usec = 5\<rparr> 3 \<lparr>tv_sec = 10, tv_usec = 999999\<rparr> (- 1000))
     = 1003000"
  using tsince_hr_correct [of "\<lparr>tv_sec = 12, tv_usec = 5\<rparr>" "\<lparr>tv_sec = 10, tv_usec = 999999\<rparr>"
      3 "- 1000" 1003 1000]
  by (simp add: elapsed_def USEC_PER_SEC_def)

text \<open>The result is a signed 32-bit number, so a wait of more than 2147 seconds (36 minutes)
  at 1000 ticks a second already reads as negative, half of the range the comment in
  \<open>tsince_hr\<close> claims.\<close>

theorem tsince_hr_goes_negative:
  "sint (tsince_hr 1000 \<lparr>tv_sec = 100, tv_usec = 0\<rparr> 2147484 \<lparr>tv_sec = 0, tv_usec = 0\<rparr> 0) < 0"
proof -
  have e: "elapsed \<lparr>tv_sec = 100, tv_usec = 0\<rparr> \<lparr>tv_sec = 0, tv_usec = 0\<rparr> = 100000000"
    by (simp add: elapsed_def USEC_PER_SEC_def)
  have "tsince_hr 1000 \<lparr>tv_sec = 100, tv_usec = 0\<rparr> 2147484 \<lparr>tv_sec = 0, tv_usec = 0\<rparr> 0 = 2147484000"
    by (subst tsince_hr_elapsed) (simp_all add: e USEC_PER_SEC_def)
  then show ?thesis by simp
qed

text \<open>C24. The round trip estimator never wraps: from its initial values, with any sequence of
  samples of up to 8388606 microseconds, the retransmission timeout \<open>rto\<close> is exactly twice the
  average plus eight times the mean deviation, at least 1 and at most 83886068 microseconds.\<close>

theorem rto_bounded:
  assumes "\<forall>r\<in>set rs. 0 \<le> r \<and> r \<le> 8388606"
  defines "ad \<equiv> fold rtt_update rs (RTTAVG_INIT, RTTDEV_INIT)"
  shows "rto (fst ad) (snd ad) = max 1 (2 * uint (fst ad) div 256 + uint (snd ad))
    \<and> 1 \<le> rto (fst ad) (snd ad) \<and> rto (fst ad) (snd ad) \<le> 83886068"
proof -
  have "rtt_ok 8388606 ad"
    unfolding ad_def by (rule fold_rtt_ok) (use assms in \<open>simp_all add: rtt_ok_def RTT_INIT_values\<close>)
  then have ok: "rtt_ok 8388606 (fst ad, snd ad)" by simp
  then have b: "uint (fst ad) \<le> 256 * 8388606 + 255" "uint (snd ad) \<le> 8 * 8388606 + 7"
    by (simp_all add: rtt_ok_def)
  show ?thesis
    unfolding rto_exact [OF ok, simplified] using b by auto
qed

theorem rto_bounded_witness: "rto (fst (rtt_update 300 (RTTAVG_INIT, RTTDEV_INIT)))
    (snd (rtt_update 300 (RTTAVG_INIT, RTTDEV_INIT))) \<le> 83886068"
  using rto_bounded [of "[300]", THEN conjunct2, THEN conjunct2] by simp

text \<open>Beyond that range the 32-bit product \<open>2 * d->rttavg\<close> wraps: an average round trip of
  8.39 seconds gives a timeout of one microsecond.\<close>

theorem rto_wraps: "rto 0x80000000 0 = 1"
  by (simp add: rto_def timing_consts)

end
