(* ===== verification/Target.thy ===== *)
theory Target
  imports Prelude
begin

text \<open>
  One AoE target (\<open>struct aoetgt\<close>): the local interfaces it is reached through, its congestion
  window and its taint.  Operations of \<open>aoecmd.c\<close> on a single target: \<open>ifrotate\<close>, \<open>getif\<close>,
  \<open>ejectif\<close>, the interface part of \<open>setifbcnt\<close>, \<open>aoecmd_wreset\<close>, \<open>scorn\<close>, the window part of
  \<open>calc_rttavg\<close> and the loss accounting of \<open>rexmit_timer\<close>.  A network device is its address (a
  number); the null pointer is \<open>None\<close>.  Frames on the free list are frame addresses.
\<close>

section \<open>State\<close>

definition NAOEIFS :: nat where "NAOEIFS = 8"
definition MAX_TAINT :: int where "MAX_TAINT = 1000"

record aoeif =
  if_nd :: "nat option"
  if_lost :: u64
  if_bcnt :: int

record aoetgt =
  t_addr :: "u8 list"
  t_nframes :: u16
  t_ffree :: "nat list"
  t_ifs :: "aoeif list"
  t_ifp :: nat
  t_nout :: u16
  t_maxout :: u16
  t_next_cwnd :: u16
  t_ssthresh :: u16
  t_falloc :: nat
  t_lost :: u64
  t_taint :: int
  t_minbcnt :: int
  t_wpkts :: u32
  t_rpkts :: u32
  t_nout_probes :: u8

definition zero_if :: aoeif where
  "zero_if = \<lparr>if_nd = None, if_lost = 0, if_bcnt = 0\<rparr>"

text \<open>A target as \<open>aoe_kcalloc\<close> returns it, with \<open>ifp\<close> at the first interface.\<close>

definition zero_tgt :: aoetgt where
  "zero_tgt = \<lparr>t_addr = [], t_nframes = 0, t_ffree = [], t_ifs = replicate NAOEIFS zero_if,
     t_ifp = 0, t_nout = 0, t_maxout = 0, t_next_cwnd = 0, t_ssthresh = 0, t_falloc = 0,
     t_lost = 0, t_taint = 0, t_minbcnt = 0, t_wpkts = 0, t_rpkts = 0, t_nout_probes = 0\<rparr>"

section \<open>Operations\<close>

text \<open>\<open>ifrotate\<close>: whether an interface is left, and the target using the next one.\<close>

definition ifrotate :: "aoetgt \<Rightarrow> bool \<times> aoetgt" where
  "ifrotate t =
     (let ifp = t_ifp t + 1;
          ifp' = (if NAOEIFS \<le> ifp \<or> if_nd (t_ifs t ! ifp) = None then 0 else ifp)
      in if if_nd (t_ifs t ! ifp') = None then (False, t) else (True, t\<lparr>t_ifp := ifp'\<rparr>))"

fun getif_from :: "nat \<Rightarrow> aoeif list \<Rightarrow> nat option \<Rightarrow> nat option" where
  "getif_from i [] nd = None"
| "getif_from i (p # ps) nd = (if if_nd p = nd then Some i else getif_from (Suc i) ps nd)"

definition getif :: "aoetgt \<Rightarrow> nat option \<Rightarrow> nat option" where
  "getif t nd = getif_from 0 (t_ifs t) nd"

text \<open>
  \<open>ejectif\<close>: the entries above \<open>i\<close> move down by one and the last entry keeps its bytes but loses
  its device.  The released device is \<open>if_nd (t_ifs t ! i)\<close>.
\<close>

definition ejectif :: "aoetgt \<Rightarrow> nat \<Rightarrow> aoetgt" where
  "ejectif t i =
     (let ifs = t_ifs t; e = NAOEIFS - 1
      in t\<lparr>t_ifs := take i ifs @ take (e - i) (drop (i + 1) ifs) @ [(ifs ! e)\<lparr>if_nd := None\<rparr>]\<rparr>)"

text \<open>
  The loop of \<open>setifbcnt\<close>: it returns the scanned table, the device if it was not found, the
  minimum found and the number of entries passed.
\<close>

fun setif_scan :: "nat option \<Rightarrow> int \<Rightarrow> int \<Rightarrow> aoeif list \<Rightarrow> aoeif list \<times> nat option \<times> int \<times> nat" where
  "setif_scan nd bcnt minbcnt [] = ([], nd, minbcnt, 0)"
| "setif_scan nd bcnt minbcnt (p # ps) =
     (if if_nd p = None then (p # ps, nd, minbcnt, 0)
      else if if_nd p = nd then
        (case setif_scan None bcnt minbcnt ps of
           (qs, nd', m, k) \<Rightarrow> (p\<lparr>if_bcnt := bcnt\<rparr> # qs, nd', m, Suc k))
      else
        (case setif_scan nd bcnt (if minbcnt > if_bcnt p then if_bcnt p else minbcnt) ps of
           (qs, nd', m, k) \<Rightarrow> (p # qs, nd', m, Suc k)))"

text \<open>
  \<open>setifbcnt\<close> up to its call of \<open>setdbcnt\<close>: \<open>None\<close> when there are too many interfaces, else the
  target and whether a reference to the device was taken.
\<close>

definition setif :: "aoetgt \<Rightarrow> nat \<Rightarrow> int \<Rightarrow> (aoetgt \<times> bool) option" where
  "setif t nd bcnt =
     (case setif_scan (Some nd) bcnt bcnt (t_ifs t) of
        (ifs, None, m, k) \<Rightarrow> Some (t\<lparr>t_ifs := ifs, t_minbcnt := m\<rparr>, False)
      | (ifs, Some nd', m, k) \<Rightarrow>
          if k = NAOEIFS then None
          else Some (t\<lparr>t_ifs := ifs[k := (ifs ! k)\<lparr>if_nd := Some nd', if_bcnt := bcnt\<rparr>],
                       t_minbcnt := m\<rparr>, True))"

definition aoecmd_wreset :: "aoetgt \<Rightarrow> aoetgt" where
  "aoecmd_wreset t = t\<lparr>t_maxout := 1, t_ssthresh := t_nframes t div 2, t_next_cwnd := t_nframes t\<rparr>"

definition scorn :: "aoetgt \<Rightarrow> aoetgt" where
  "scorn t =
     (let n = t_taint t; a = n + 1; b = a + a * 2;
          c = (if n > b then n else b)
      in t\<lparr>t_taint := (if c > MAX_TAINT then MAX_TAINT else c)\<rparr>)"

text \<open>The congestion window part of \<open>calc_rttavg\<close>; \<open>next_cwnd--\<close> is evaluated only when the
  window is full.\<close>

definition cwnd_update :: "aoetgt \<Rightarrow> aoetgt" where
  "cwnd_update t =
     (if t_maxout t \<ge> t_nframes t then t
      else if t_maxout t < t_ssthresh t then t\<lparr>t_maxout := t_maxout t + 1\<rparr>
      else if t_nout t = t_maxout t then
        (if t_next_cwnd t = 0
         then t\<lparr>t_maxout := t_maxout t + 1, t_next_cwnd := t_maxout t + 1\<rparr>
         else t\<lparr>t_next_cwnd := t_next_cwnd t - 1\<rparr>)
      else t)"

text \<open>The accounting of an expired frame in \<open>rexmit_timer\<close>.\<close>

definition window_loss :: "aoetgt \<Rightarrow> aoetgt" where
  "window_loss t =
     (let t' = t\<lparr>t_lost := t_lost t + 1\<rparr>
      in if t_maxout t' \<noteq> 1 then t'\<lparr>t_ssthresh := t_maxout t' div 2, t_maxout := 1\<rparr> else t')"

section \<open>The interface table\<close>

abbreviation used :: "aoeif \<Rightarrow> bool" where
  "used p \<equiv> if_nd p \<noteq> None"

definition ifs_used :: "aoetgt \<Rightarrow> aoeif list" where
  "ifs_used t = takeWhile used (t_ifs t)"

definition nds :: "aoetgt \<Rightarrow> nat list" where
  "nds t = map (\<lambda>p. the (if_nd p)) (ifs_used t)"

text \<open>Used entries first, each device once, and \<open>ifp\<close> inside the array.\<close>

definition ifs_ok :: "aoetgt \<Rightarrow> bool" where
  "ifs_ok t \<longleftrightarrow> length (t_ifs t) = NAOEIFS
     \<and> (\<forall>p\<in>set (drop (length (ifs_used t)) (t_ifs t)). \<not> used p)
     \<and> distinct (nds t) \<and> t_ifp t < NAOEIFS"

lemma ifs_split:
  assumes "ifs_ok t"
  obtains fr where "t_ifs t = ifs_used t @ fr" and "\<forall>p\<in>set (ifs_used t). used p"
    and "\<forall>p\<in>set fr. \<not> used p" and "length (ifs_used t) + length fr = NAOEIFS"
proof -
  have "take (length (ifs_used t)) (t_ifs t) = ifs_used t"
    unfolding ifs_used_def by (rule takeWhile_eq_take [symmetric])
  then have "t_ifs t = ifs_used t @ drop (length (ifs_used t)) (t_ifs t)"
    by (metis append_take_drop_id)
  moreover have "\<forall>p\<in>set (ifs_used t). used p"
    by (auto simp: ifs_used_def dest: set_takeWhileD)
  ultimately show thesis
    using assms that by (metis length_append ifs_ok_def)
qed

lemma ifs_prefix:
  assumes "ifs_ok t" "i < NAOEIFS"
  shows "used (t_ifs t ! i) \<longleftrightarrow> i < length (nds t)"
proof -
  obtain fr where f: "t_ifs t = ifs_used t @ fr" "\<forall>p\<in>set (ifs_used t). used p" "\<forall>p\<in>set fr. \<not> used p"
    "length (ifs_used t) + length fr = NAOEIFS" using ifs_split [OF assms(1)] .
  show ?thesis
  proof (cases "i < length (ifs_used t)")
    case True
    then show ?thesis using f(2) nth_mem [OF True] by (subst f(1)) (simp add: nth_append nds_def)
  next
    case False
    then have "fr ! (i - length (ifs_used t)) \<in> set fr" using assms(2) f(4) by simp
    then show ?thesis using f(3) False by (subst f(1)) (simp add: nth_append nds_def)
  qed
qed

lemma ifs_okI:
  assumes "t_ifs t = us @ fr" and "\<forall>p\<in>set us. used p" and "\<forall>p\<in>set fr. \<not> used p"
    and "length us + length fr = NAOEIFS" and "distinct (map (\<lambda>p. the (if_nd p)) us)"
    and "t_ifp t < NAOEIFS"
  shows "ifs_ok t \<and> ifs_used t = us"
proof -
  have "ifs_used t = us"
    unfolding ifs_used_def assms(1) using assms(2,3)
    by (cases fr) (simp_all add: takeWhile_eq_all_conv [THEN iffD2])
  then show ?thesis using assms by (simp add: ifs_ok_def nds_def)
qed

lemma length_nds: "length (nds t) = length (ifs_used t)"
  by (simp add: nds_def)

lemma nds_le: "ifs_ok t \<Longrightarrow> length (nds t) \<le> NAOEIFS"
  by (metis ifs_split length_nds le_add1)

lemma used_nth: "ifs_ok t \<Longrightarrow> i < NAOEIFS \<Longrightarrow> used (t_ifs t ! i) \<longleftrightarrow> i < length (nds t)"
proof -
  assume ok: "ifs_ok t" and i: "i < NAOEIFS"
  obtain fr where "t_ifs t = ifs_used t @ fr" "\<forall>p\<in>set (ifs_used t). used p"
    "\<forall>p\<in>set fr. \<not> used p" "length (ifs_used t) + length fr = NAOEIFS"
    using ifs_split [OF ok] .
  then show ?thesis
    using i by (cases "i < length (ifs_used t)") (simp_all add: nth_append length_nds)
qed

lemma ifrotate_none: "ifs_ok t \<Longrightarrow> nds t = [] \<Longrightarrow> ifrotate t = (False, t)"
  using used_nth [of t 0] used_nth [of t "t_ifp t + 1"]
  by (auto simp: ifrotate_def Let_def NAOEIFS_def)

lemma ifrotate_some:
  assumes "ifs_ok t" and "nds t \<noteq> []"
  shows "ifrotate t = (True, t\<lparr>t_ifp := (if t_ifp t + 1 < length (nds t) then t_ifp t + 1 else 0)\<rparr>)"
proof -
  have "used (t_ifs t ! 0)" using used_nth [OF assms(1), of 0] assms(2) by (simp add: NAOEIFS_def)
  moreover have "NAOEIFS \<le> t_ifp t + 1 \<or> \<not> used (t_ifs t ! (t_ifp t + 1))
      \<longleftrightarrow> \<not> t_ifp t + 1 < length (nds t)"
    using used_nth [OF assms(1), of "t_ifp t + 1"] nds_le [OF assms(1)] by fastforce
  ultimately show ?thesis
    using used_nth [OF assms(1), of "t_ifp t + 1"] by (auto simp: ifrotate_def Let_def)
qed

lemma nds_ifp [simp]: "ifs_used (t\<lparr>t_ifp := n\<rparr>) = ifs_used t" "nds (t\<lparr>t_ifp := n\<rparr>) = nds t"
  by (simp_all add: nds_def ifs_used_def)

lemma ifs_ok_ifp: "ifs_ok t \<Longrightarrow> n < NAOEIFS \<Longrightarrow> ifs_ok (t\<lparr>t_ifp := n\<rparr>)"
  unfolding ifs_ok_def by simp

lemma ifrotate_keeps: "ifs_ok t \<Longrightarrow> ifs_ok (snd (ifrotate t)) \<and> nds (snd (ifrotate t)) = nds t"
proof (cases "nds t = []")
  case False
  assume ok: "ifs_ok t"
  then have "(if t_ifp t + 1 < length (nds t) then t_ifp t + 1 else 0) < NAOEIFS"
    using nds_le [OF ok] by (simp add: NAOEIFS_def)
  then show ?thesis using ok False by (simp add: ifrotate_some ifs_ok_ifp del: if_split)
qed (simp add: ifrotate_none)

lemma ejectif_ok:
  assumes ok: "ifs_ok t" and i: "i < length (nds t)"
  shows "ifs_ok (ejectif t i) \<and> nds (ejectif t i) = take i (nds t) @ drop (Suc i) (nds t)"
proof -
  obtain fr where sp: "t_ifs t = ifs_used t @ fr" "\<forall>p\<in>set (ifs_used t). used p"
    "\<forall>p\<in>set fr. \<not> used p" "length (ifs_used t) + length fr = NAOEIFS"
    using ifs_split [OF ok] .
  let ?us = "take i (ifs_used t) @ drop (Suc i) (ifs_used t)"
  let ?fr = "fr @ [(t_ifs t ! (NAOEIFS - 1))\<lparr>if_nd := None\<rparr>]"
  from i have iu: "i < length (ifs_used t)" by (simp add: length_nds)
  have "length (drop (i + 1) (t_ifs t)) = NAOEIFS - 1 - i"
    using sp by simp
  then have eq: "t_ifs (ejectif t i) = ?us @ ?fr"
    using iu sp by (simp add: ejectif_def Let_def)
  have "distinct (map (\<lambda>p. the (if_nd p)) (take i (ifs_used t)) @ map (\<lambda>p. the (if_nd p)) (drop (Suc i) (ifs_used t)))"
    using ok by (simp add: ifs_ok_def nds_def drop_map [symmetric] take_map [symmetric]
        set_take_disj_set_drop_if_distinct distinct_take distinct_drop)
  then have "ifs_ok (ejectif t i) \<and> ifs_used (ejectif t i) = ?us"
    by (intro ifs_okI [OF eq]) (use sp iu ok in \<open>auto simp: ejectif_def Let_def ifs_ok_def
        dest: in_set_takeD in_set_dropD\<close>)
  then show ?thesis by (simp add: nds_def take_map drop_map)
qed

lemma ejectif_unused:
  assumes ok: "ifs_ok t" and i: "length (nds t) \<le> i" "i < NAOEIFS"
  shows "ifs_ok (ejectif t i) \<and> nds (ejectif t i) = nds t"
proof -
  obtain fr where sp: "t_ifs t = ifs_used t @ fr" "\<forall>p\<in>set (ifs_used t). used p"
    "\<forall>p\<in>set fr. \<not> used p" "length (ifs_used t) + length fr = NAOEIFS"
    using ifs_split [OF ok] .
  let ?k = "i - length (ifs_used t)"
  let ?fr = "take ?k fr @ drop (Suc ?k) fr @ [(t_ifs t ! (NAOEIFS - 1))\<lparr>if_nd := None\<rparr>]"
  have iu: "length (ifs_used t) \<le> i" using i by (simp add: length_nds)
  have "length (drop (i + 1) (t_ifs t)) = NAOEIFS - 1 - i" using sp by simp
  moreover have "drop (i + 1) (t_ifs t) = drop (Suc ?k) fr" using iu sp(1) by (simp add: Suc_diff_le)
  ultimately have eq: "t_ifs (ejectif t i) = ifs_used t @ ?fr"
    using iu sp(1) by (simp add: ejectif_def Let_def)
  have "ifs_ok (ejectif t i) \<and> ifs_used (ejectif t i) = ifs_used t"
    by (intro ifs_okI [OF eq]) (use sp iu ok i in \<open>auto simp: ejectif_def Let_def ifs_ok_def nds_def
        dest: in_set_takeD in_set_dropD\<close>)
  then show ?thesis by (simp add: nds_def)
qed

text \<open>Entries may change in their counters.\<close>

lemma ifs_counters:
  assumes ok: "ifs_ok t" and m: "map if_nd ifs = map if_nd (t_ifs t)"
  shows "ifs_ok (t\<lparr>t_ifs := ifs\<rparr>) \<and> nds (t\<lparr>t_ifs := ifs\<rparr>) = nds t"
proof -
  have l: "length ifs = length (t_ifs t)" using m by (metis length_map)
  have tw: "map if_nd (takeWhile used ifs) = map if_nd (takeWhile used (t_ifs t))"
    using takeWhile_map [of "\<lambda>x. x \<noteq> None" if_nd ifs] takeWhile_map [of "\<lambda>x. x \<noteq> None" if_nd "t_ifs t"] m
    by (simp add: o_def)
  then have len: "length (takeWhile used ifs) = length (takeWhile used (t_ifs t))" by (metis length_map)
  have "map if_nd (drop n ifs) = map if_nd (drop n (t_ifs t))" for n using m by (metis drop_map)
  then have d: "if_nd ` set (drop n ifs) = if_nd ` set (drop n (t_ifs t))" for n by (metis set_map)
  have "map (the \<circ> if_nd) (takeWhile used ifs) = map (the \<circ> if_nd) (takeWhile used (t_ifs t))"
    using tw by (metis map_map)
  then have n: "nds (t\<lparr>t_ifs := ifs\<rparr>) = nds t" by (simp add: nds_def ifs_used_def o_def)
  have "(\<forall>p\<in>set xs. \<not> used p) \<longleftrightarrow> if_nd ` set xs \<subseteq> {None}" for xs by auto
  then have "(\<forall>p\<in>set (drop k ifs). \<not> used p) \<longleftrightarrow> (\<forall>p\<in>set (drop k (t_ifs t)). \<not> used p)" for k
    using d [of k] by (simp only:)
  moreover have "t_ifs (t\<lparr>t_ifs := ifs\<rparr>) = ifs" "t_ifp (t\<lparr>t_ifs := ifs\<rparr>) = t_ifp t" by simp_all
  ultimately show ?thesis using ok n l len
    by (simp only: ifs_ok_def ifs_used_def simp_thms) (elim conjE, assumption)
qed

definition others_min :: "nat option \<Rightarrow> aoeif list \<Rightarrow> int \<Rightarrow> int" where
  "others_min nd us m = Min (insert m (if_bcnt ` {p \<in> set us. if_nd p \<noteq> nd}))"

lemma others_min_Nil [simp]: "others_min nd [] m = m"
  by (simp add: others_min_def)

lemma others_min_Cons:
  "others_min nd (p # us) m =
     (if if_nd p = nd then others_min nd us m else others_min nd us (min m (if_bcnt p)))"
proof (cases "if_nd p = nd")
  case True
  then have "{q \<in> set (p # us). if_nd q \<noteq> nd} = {q \<in> set us. if_nd q \<noteq> nd}" by auto
  then show ?thesis using True by (simp add: others_min_def)
next
  case False
  let ?S = "if_bcnt ` {q \<in> set us. if_nd q \<noteq> nd}"
  have "if_bcnt ` {q \<in> set (p # us). if_nd q \<noteq> nd} = insert (if_bcnt p) ?S" using False by auto
  moreover have "Min (insert m (insert b ?S)) = Min (insert (min m b) ?S)" for b
  proof (cases "?S = {}")
    case False
    then show ?thesis by (simp add: min.assoc)
  qed (simp only: Min_singleton, simp)
  ultimately show ?thesis using False by (simp add: others_min_def)
qed

lemma others_min_absent: "nd \<notin> if_nd ` set us \<Longrightarrow> others_min nd us m = others_min None us m"
  if "\<forall>p\<in>set us. used p" for us
proof -
  assume "nd \<notin> if_nd ` set us"
  then have "{p \<in> set us. if_nd p \<noteq> nd} = {p \<in> set us. if_nd p \<noteq> None}" using that by auto
  then show ?thesis by (simp add: others_min_def)
qed

lemma setif_scan_spec:
  "\<forall>p\<in>set us. used p \<Longrightarrow> \<forall>p\<in>set fr. \<not> used p \<Longrightarrow> distinct (map if_nd us) \<Longrightarrow>
   setif_scan nd b m (us @ fr) =
     (map (\<lambda>p. if if_nd p = nd then p\<lparr>if_bcnt := b\<rparr> else p) us @ fr,
      if nd \<in> if_nd ` set us then None else nd, others_min nd us m, length us)"
proof (induction us arbitrary: nd m)
  case Nil
  then show ?case by (cases fr) auto
next
  case (Cons p us)
  show ?case
  proof (cases "if_nd p = nd")
    case True
    then have nin: "nd \<notin> if_nd ` set us" and nn: "None \<notin> if_nd ` set us"
      using Cons.prems by auto
    have "map (\<lambda>q. if if_nd q = None then q\<lparr>if_bcnt := b\<rparr> else q) us
        = map (\<lambda>q. if if_nd q = nd then q\<lparr>if_bcnt := b\<rparr> else q) us"
      using nin nn by (intro map_cong) (auto simp: image_iff)
    with True Cons nin nn others_min_absent [of us nd m] show ?thesis
      by (auto simp: others_min_Cons)
  next
    case False
    with Cons show ?thesis
      by (auto simp: others_min_Cons min_def not_le intro!: arg_cong [where f = "others_min nd us"])
  qed
qed

definition set_bcnt :: "nat option \<Rightarrow> int \<Rightarrow> aoeif \<Rightarrow> aoeif" where
  "set_bcnt nd b p = (if if_nd p = nd then p\<lparr>if_bcnt := b\<rparr> else p)"

lemma set_bcnt_nd [simp]: "if_nd (set_bcnt nd b p) = if_nd p"
  by (simp add: set_bcnt_def)

lemma setif_scan_tgt:
  assumes ok: "ifs_ok t"
  obtains fr where "t_ifs t = ifs_used t @ fr" and "\<forall>p\<in>set (ifs_used t). used p"
    and "\<forall>p\<in>set fr. \<not> used p" and "length (ifs_used t) + length fr = NAOEIFS"
    and "Some nd \<in> if_nd ` set (ifs_used t) \<longleftrightarrow> nd \<in> set (nds t)"
    and "setif_scan (Some nd) b b (t_ifs t) = (map (set_bcnt (Some nd) b) (ifs_used t) @ fr,
       if nd \<in> set (nds t) then None else Some nd, others_min (Some nd) (ifs_used t) b, length (ifs_used t))"
proof -
  obtain fr where sp: "t_ifs t = ifs_used t @ fr" "\<forall>p\<in>set (ifs_used t). used p"
    "\<forall>p\<in>set fr. \<not> used p" "length (ifs_used t) + length fr = NAOEIFS"
    using ifs_split [OF ok] .
  have "map if_nd (ifs_used t) = map Some (nds t)" using sp(2) by (auto simp: nds_def)
  moreover have "distinct (nds t)" using ok by (simp add: ifs_ok_def)
  ultimately have d: "distinct (map if_nd (ifs_used t))"
    by (simp only: distinct_map) (simp add: inj_on_def)
  have mem: "Some nd \<in> if_nd ` set (ifs_used t) \<longleftrightarrow> nd \<in> set (nds t)"
    using sp(2) by (force simp: nds_def)
  show thesis
    using that [OF sp mem] setif_scan_spec [OF sp(2,3) d, of "Some nd" b b] sp(1) mem
    by (simp add: set_bcnt_def [abs_def])
qed

text \<open>Setting the byte count of an interface: the devices in use afterwards, and the target's
  byte count is the least of its interfaces'.\<close>

lemma setif_ok:
  assumes ok: "ifs_ok t" and r: "setif t nd b = Some (t', held)"
  shows "ifs_ok t' \<and> held = (nd \<notin> set (nds t))
    \<and> nds t' = (if nd \<in> set (nds t) then nds t else nds t @ [nd])
    \<and> t_minbcnt t' = Min (if_bcnt ` set (ifs_used t'))"
proof -
  let ?us = "ifs_used t" and ?f = "set_bcnt (Some nd) b"
  obtain fr where sp: "t_ifs t = ?us @ fr" "\<forall>p\<in>set ?us. used p"
    "\<forall>p\<in>set fr. \<not> used p" "length ?us + length fr = NAOEIFS"
    and mem: "Some nd \<in> if_nd ` set ?us \<longleftrightarrow> nd \<in> set (nds t)"
    and scan: "setif_scan (Some nd) b b (t_ifs t) = (map ?f ?us @ fr,
       if nd \<in> set (nds t) then None else Some nd, others_min (Some nd) ?us b, length ?us)"
    using setif_scan_tgt [OF ok, of nd b] by blast
  have dn: "distinct (map (\<lambda>p. the (if_nd p)) ?us)" using ok by (simp add: ifs_ok_def nds_def)
  have keep: "map (\<lambda>p. the (if_nd p)) (map ?f ?us) = nds t" by (simp add: nds_def)
  have fu: "\<forall>p\<in>set (map ?f ?us). used p" using sp(2) by auto
  have ifp: "t_ifp t < NAOEIFS" using ok by (simp add: ifs_ok_def)
  show ?thesis
  proof (cases "nd \<in> set (nds t)")
    case True
    then have t': "t' = t\<lparr>t_ifs := map ?f ?us @ fr, t_minbcnt := others_min (Some nd) ?us b\<rparr>" "\<not> held"
      using r scan mem sp(1) by (auto simp: setif_def)
    have "ifs_ok t' \<and> ifs_used t' = map ?f ?us"
      by (rule ifs_okI [OF _ fu sp(3)]) (use t' sp dn ifp in \<open>simp_all add: o_def\<close>)
    moreover have "if_bcnt ` set (map ?f ?us) = insert b (if_bcnt ` {p \<in> set ?us. if_nd p \<noteq> Some nd})"
    proof -
      have "if_bcnt (?f p) = (if if_nd p = Some nd then b else if_bcnt p)" for p
        by (simp add: set_bcnt_def)
      then have "if_bcnt ` set (map ?f ?us) = (\<lambda>p. if if_nd p = Some nd then b else if_bcnt p) ` set ?us"
        by (simp only: set_map image_image)
      then show ?thesis using True mem by (force simp: image_iff)
    qed
    ultimately show ?thesis using True t' keep by (simp add: nds_def others_min_def)
  next
    case False
    then have id: "map ?f ?us = ?us"
      using mem by (intro map_idI) (auto simp: image_iff set_bcnt_def)
    obtain a bs where fr: "fr = a # bs" and t': "held"
      "t' = t\<lparr>t_ifs := (?us @ [a\<lparr>if_nd := Some nd, if_bcnt := b\<rparr>]) @ bs, t_minbcnt := others_min (Some nd) ?us b\<rparr>"
      using r scan mem sp False by (cases fr) (auto simp: setif_def id nth_append list_update_append split: if_splits)
    have "ifs_ok t' \<and> ifs_used t' = ?us @ [a\<lparr>if_nd := Some nd, if_bcnt := b\<rparr>]"
      by (rule ifs_okI) (use t' sp dn ifp fr False in \<open>auto simp: nds_def\<close>)
    moreover from False mem have "{p \<in> set ?us. if_nd p \<noteq> Some nd} = set ?us" by force
    ultimately show ?thesis using False t' by (simp add: nds_def others_min_def)
  qed
qed

lemma setif_full:
  assumes "ifs_ok t"
  shows "setif t nd b = None \<longleftrightarrow> nd \<notin> set (nds t) \<and> length (nds t) = NAOEIFS"
proof -
  have "snd (snd (snd (setif_scan (Some nd) b b (t_ifs t)))) = length (nds t)"
    and "fst (snd (setif_scan (Some nd) b b (t_ifs t))) = (if nd \<in> set (nds t) then None else Some nd)"
    by (rule setif_scan_tgt [OF assms, of nd b]; simp add: length_nds)+
  then show ?thesis by (auto simp: setif_def split: prod.splits option.splits)
qed

section \<open>Window and taint\<close>

lemma word_inc: "(x :: u16) < y \<Longrightarrow> x + 1 \<le> y \<and> unat (x + 1) = unat x + 1"
proof -
  assume "x < y"
  then have "unat x + 1 \<le> unat y" by (simp add: word_less_nat_alt)
  moreover have "unat y < 2 ^ 16" using unsigned_less [of y] by simp
  ultimately show ?thesis
    by (simp add: word_le_nat_alt unat_word_ariths)
qed

lemma cwnd_update_bounds:
  assumes "t_maxout t \<le> t_nframes t"
  shows "t_maxout (cwnd_update t) \<le> t_nframes t
    \<and> unat (t_maxout t) \<le> unat (t_maxout (cwnd_update t))
    \<and> unat (t_maxout (cwnd_update t)) \<le> unat (t_maxout t) + 1"
  using assms word_inc [of "t_maxout t" "t_nframes t"] by (auto simp: cwnd_update_def not_le)

lemma cwnd_update_slow:
  assumes "t_maxout t < t_ssthresh t" and "t_ssthresh t \<le> t_nframes t"
  shows "cwnd_update t = t\<lparr>t_maxout := t_maxout t + 1\<rparr> \<and> unat (t_maxout t + 1) = unat (t_maxout t) + 1"
  using assms word_inc [of "t_maxout t" "t_ssthresh t"] by (simp add: cwnd_update_def)

section \<open>Properties\<close>

text \<open>\<open>setifbcnt\<close> on a well-formed interface table: the device is in the table afterwards and
  no other one was lost, a reference is taken exactly when it is new, and the target's byte count
  is the least byte count of its interfaces.\<close>

theorem setifbcnt_min:
  assumes "ifs_ok t" and "setif t nd b = Some (t', held)"
  shows "ifs_ok t' \<and> held = (nd \<notin> set (nds t))
    \<and> nds t' = (if nd \<in> set (nds t) then nds t else nds t @ [nd])
    \<and> t_minbcnt t' = Min (if_bcnt ` set (ifs_used t'))"
  by (rule setif_ok [OF assms])

lemma zero_tgt_ifs: "ifs_ok zero_tgt \<and> nds zero_tgt = []"
proof -
  have "ifs_ok zero_tgt \<and> ifs_used zero_tgt = []"
    by (rule ifs_okI [where fr = "replicate NAOEIFS zero_if"])
      (simp_all add: zero_tgt_def zero_if_def NAOEIFS_def)
  then show ?thesis by (simp add: nds_def)
qed

text \<open>A target with one and with two interfaces, for concrete instances.\<close>

definition one_if :: aoetgt where
  "one_if = zero_tgt\<lparr>t_ifs := \<lparr>if_nd = Some 7, if_lost = 0, if_bcnt = 1024\<rparr> # replicate 7 zero_if,
     t_minbcnt := 1024\<rparr>"

definition two_ifs :: aoetgt where
  "two_ifs = zero_tgt\<lparr>t_ifs := \<lparr>if_nd = Some 7, if_lost = 0, if_bcnt = 1024\<rparr>
     # \<lparr>if_nd = Some 9, if_lost = 0, if_bcnt = 512\<rparr> # replicate 6 zero_if, t_minbcnt := 512\<rparr>"

lemma one_if_ok: "setif zero_tgt 7 1024 = Some (one_if, True)" "ifs_ok one_if" "nds one_if = [7]"
proof -
  have "replicate NAOEIFS zero_if = zero_if # replicate 7 zero_if"
    by (simp add: NAOEIFS_def eval_nat_numeral)
  then show s: "setif zero_tgt 7 1024 = Some (one_if, True)"
    by (simp add: setif_def zero_tgt_def one_if_def) (simp add: zero_if_def NAOEIFS_def)
  show "ifs_ok one_if" "nds one_if = [7]"
    using setif_ok [OF _ s] zero_tgt_ifs by simp_all
qed

lemma two_ifs_ok: "setif one_if 9 512 = Some (two_ifs, True)" "ifs_ok two_ifs" "nds two_ifs = [7, 9]"
proof -
  have "replicate 7 zero_if = zero_if # replicate 6 zero_if"
    by (simp add: eval_nat_numeral)
  then show s: "setif one_if 9 512 = Some (two_ifs, True)"
    by (simp add: setif_def one_if_def two_ifs_def) (simp add: zero_if_def NAOEIFS_def)
  show "ifs_ok two_ifs" "nds two_ifs = [7, 9]"
    using setif_ok [OF _ s] one_if_ok by simp_all
qed

theorem setifbcnt_min_witness: "t_minbcnt two_ifs = Min (if_bcnt ` set (ifs_used two_ifs))
    \<and> nds two_ifs = [7, 9]"
  using setifbcnt_min [OF _ two_ifs_ok(1)] one_if_ok by simp

text \<open>\<open>ifrotate\<close> visits the interfaces of a target round robin: \<open>m\<close> calls move \<open>ifp\<close> on by
  \<open>m\<close> places modulo the number of interfaces and change nothing else.\<close>

theorem ifrotate_round_robin:
  assumes "ifs_ok t" and "t_ifp t < length (nds t)"
  shows "((snd \<circ> ifrotate) ^^ m) t = t\<lparr>t_ifp := (t_ifp t + m) mod length (nds t)\<rparr>"
proof (induction m)
  case 0
  then show ?case using assms by simp
next
  case (Suc m)
  let ?n = "length (nds t)" and ?u = "t\<lparr>t_ifp := (t_ifp t + m) mod length (nds t)\<rparr>"
  have ne: "nds t \<noteq> []" using assms(2) by (cases "nds t") simp_all
  have lt: "(t_ifp t + m) mod ?n < ?n" using ne by (intro mod_less_divisor) simp
  then have "ifs_ok ?u" using ifs_ok_ifp [OF assms(1)] nds_le [OF assms(1)] by simp
  then have "snd (ifrotate ?u) = ?u\<lparr>t_ifp := (if t_ifp ?u + 1 < length (nds ?u) then t_ifp ?u + 1 else 0)\<rparr>"
    using ne by (subst ifrotate_some) simp_all
  then show ?case using Suc lt by (simp add: mod_Suc)
qed

theorem ifrotate_round_robin_witness: "t_ifp (((snd \<circ> ifrotate) ^^ 5) two_ifs) = 1"
proof -
  have "t_ifp two_ifs = 0" by (simp add: two_ifs_def zero_tgt_def)
  moreover have "length (nds two_ifs) = 2" by (simp add: two_ifs_ok(3))
  moreover have "((snd \<circ> ifrotate) ^^ 5) two_ifs = two_ifs\<lparr>t_ifp := (t_ifp two_ifs + 5) mod length (nds two_ifs)\<rparr>"
    by (rule ifrotate_round_robin) (use two_ifs_ok \<open>t_ifp two_ifs = 0\<close> in simp_all)
  ultimately show ?thesis by simp
qed

text \<open>\<open>ejectif\<close> under the guard of \<open>rexmit_timer\<close> (never the only interface) removes exactly
  that interface, keeps the order of the others, and leaves at least one.\<close>

theorem ejectif_keeps_one:
  assumes "ifs_ok t" and "i < length (nds t)" and "i \<noteq> 0 \<or> if_nd (t_ifs t ! 1) \<noteq> None"
  shows "ifs_ok (ejectif t i) \<and> nds (ejectif t i) = take i (nds t) @ drop (Suc i) (nds t)
    \<and> nds (ejectif t i) \<noteq> []"
proof -
  have "2 \<le> length (nds t)"
    using assms used_nth [OF assms(1), of 1] by (auto simp: NAOEIFS_def)
  with assms ejectif_ok [OF assms(1,2)] show ?thesis
    by (auto simp: length_0_conv [symmetric] simp del: length_0_conv)
qed

theorem ejectif_keeps_one_witness: "nds (ejectif two_ifs 0) = [9]"
  using ejectif_keeps_one [of two_ifs 0] two_ifs_ok by (simp add: two_ifs_def)

text \<open>A slow start: while the window is below \<open>ssthresh\<close>, every answered command opens it by
  one, so \<open>k\<close> answers open it by \<open>k\<close> up to \<open>ssthresh\<close>, and it never passes \<open>nframes\<close>.\<close>

theorem cwnd_slow_start:
  assumes "unat (t_maxout t) + k \<le> unat (t_ssthresh t)" and "t_ssthresh t \<le> t_nframes t"
  shows "unat (t_maxout ((cwnd_update ^^ k) t)) = unat (t_maxout t) + k
    \<and> t_maxout ((cwnd_update ^^ k) t) \<le> t_nframes t"
proof -
  have "unat (t_maxout ((cwnd_update ^^ k) t)) = unat (t_maxout t) + k
    \<and> t_ssthresh ((cwnd_update ^^ k) t) = t_ssthresh t \<and> t_nframes ((cwnd_update ^^ k) t) = t_nframes t"
    using assms(1)
  proof (induction k)
    case (Suc k)
    then show ?case
      using cwnd_update_slow [of "(cwnd_update ^^ k) t"] assms(2) by (simp add: word_less_nat_alt)
  qed simp
  then show ?thesis using assms by (simp add: word_le_nat_alt)
qed

theorem cwnd_slow_start_witness:
  "unat (t_maxout ((cwnd_update ^^ 3) (aoecmd_wreset (zero_tgt\<lparr>t_nframes := 16\<rparr>)))) = 4"
  using cwnd_slow_start [of "aoecmd_wreset (zero_tgt\<lparr>t_nframes := 16\<rparr>)" 3]
  by (simp add: aoecmd_wreset_def)

text \<open>The window never grows past the number of buffers the target advertised, and one answer
  opens it by at most one.\<close>

theorem cwnd_bounded:
  assumes "t_maxout t \<le> t_nframes t"
  shows "t_maxout (cwnd_update t) \<le> t_nframes t
    \<and> unat (t_maxout t) \<le> unat (t_maxout (cwnd_update t))
    \<and> unat (t_maxout (cwnd_update t)) \<le> unat (t_maxout t) + 1"
  by (rule cwnd_update_bounds [OF assms])

theorem cwnd_bounded_witness: "t_maxout (cwnd_update (zero_tgt\<lparr>t_nframes := 16, t_maxout := 16\<rparr>)) \<le> 16"
  using cwnd_bounded [of "zero_tgt\<lparr>t_nframes := 16, t_maxout := 16\<rparr>"] by simp

text \<open>Taint stays between 0 and \<open>MAX_TAINT\<close>; \<open>scorn\<close> takes it to \<open>3 * (taint + 1)\<close> or the
  cap, so it always ends above zero and the target is avoided.\<close>

theorem scorn_taints:
  assumes "0 \<le> t_taint t" and "t_taint t \<le> MAX_TAINT"
  shows "t_taint (scorn t) = min MAX_TAINT (3 * (t_taint t + 1))
    \<and> 0 < t_taint (scorn t) \<and> t_taint t \<le> t_taint (scorn t) \<and> t_taint (scorn t) \<le> MAX_TAINT"
  using assms by (simp add: scorn_def Let_def MAX_TAINT_def)

theorem scorn_taints_witness: "t_taint (scorn (zero_tgt\<lparr>t_taint := 999\<rparr>)) = 1000"
  using scorn_taints [of "zero_tgt\<lparr>t_taint := 999\<rparr>"] by (simp add: MAX_TAINT_def)

end
