(* ===== verification/Device.thy ===== *)
theory Device
  imports Wire Timing Target
begin

text \<open>
  The state the command code of the driver works on: the structs of \<open>aoe.h\<close> (\<open>struct buf\<close>,
  \<open>struct frame\<close>, \<open>struct aoedev\<close>; \<open>struct aoetgt\<close> is in \<open>Target\<close>), the kernel objects they
  point to (socket buffers, bios, requests) and the static variables of \<open>aoecmd.c\<close>.

  Objects reached by pointers live in stores indexed by addresses (numbers), so aliasing is as in
  the source: a frame is on one list at a time, and a cloned socket buffer shares its bytes with
  the original.  A NULL pointer is \<open>None\<close>.  A list of the source (\<open>struct list_head\<close>, the
  \<open>skb->next\<close> chain of the pool, the \<open>bi_next\<close> chain of a request) is the list of the addresses
  on it.  A buf that is back in its mempool is \<open>None\<close> in the store.  \<open>st\<close> holds the device whose lock is held as \<open>s_dev\<close>; a target pointer of that device
  is its index in \<open>targets\<close>.

  What the kernel decides is the record \<open>env\<close>: the clock, the outcome of each allocation, the
  addresses of network devices, module parameters, and the block layer functions the driver
  calls.  A handler runs with one reading of the clock.
\<close>

section \<open>Kernel objects\<close>

text \<open>\<open>struct bvec_iter\<close>.\<close>

record biter =
  bi_sector :: u64
  bi_size :: nat
  bi_idx :: nat
  bi_bvec_done :: nat

definition zero_iter :: biter where
  "zero_iter = \<lparr>bi_sector = 0, bi_size = 0, bi_idx = 0, bi_bvec_done = 0\<rparr>"

text \<open>A bio: its iterator, its direction, whether \<open>bi_error\<close> is set, and its vector of pages
  (page, offset, length).\<close>

type_synonym seg = "nat \<times> nat \<times> nat"

record bio =
  bio_iter :: biter
  bio_write :: bool
  bio_error :: bool
  bio_vec :: "seg list"

text \<open>A request: the chain of bios from \<open>rq->bio\<close> on and \<open>rq->special\<close>, which the driver uses as
  a count of unfinished bios.\<close>

record req =
  rq_bio :: "nat list"
  rq_special :: int

text \<open>
  A socket buffer of the driver.  \<open>sk_dataref\<close> is \<open>skb_shinfo(skb)->dataref\<close>: one for the buffer
  and one for each clone the network layer still holds.
\<close>

record skb =
  sk_h :: aoe_hdr
  sk_ah :: aoe_atahdr
  sk_len :: nat
  sk_data_len :: nat
  sk_truesize :: int
  sk_frags :: "seg list"
  sk_dev :: "nat option"
  sk_dataref :: nat

text \<open>A packet on the transmit queue: a clone, which shares the bytes of a buffer, or a
  configuration query with bytes of its own.\<close>

datatype txpkt =
    TxClone (tx_skb: nat) (tx_dev: "nat option") (tx_len: nat)
  | TxCfg aoe_hdr aoe_cfghdr nat

text \<open>A received packet and the network device it came in on.\<close>

record rskb =
  r_data :: "u8 list"
  r_dev :: nat

record gendisk =
  gd_disk_name :: string
  gd_capacity :: u64

record hd_geometry =
  g_heads :: u8
  g_sectors :: u8
  g_cylinders :: u16
  g_start :: u64

section \<open>Structs of the driver\<close>

definition NTARGETS :: nat where "NTARGETS = 4"
definition NSKBPOOLMAX :: nat where "NSKBPOOLMAX = 256"
definition NFACTIVE :: nat where "NFACTIVE = 61"
definition DEFAULTBCNT :: nat where "DEFAULTBCNT = 2 * 512"
definition HARD_SCORN_SECS :: u64 where "HARD_SCORN_SECS = 10"
definition ETH_ZLEN :: nat where "ETH_ZLEN = 60"
definition PAGE_SIZE :: nat where "PAGE_SIZE = 4096"

lemma PAGE_SIZE_pos [simp]: "0 < PAGE_SIZE" by (simp add: PAGE_SIZE_def)

definition DEVFL_UP :: u16 where "DEVFL_UP = 2 ^ 0"
definition DEVFL_TKILL :: u16 where "DEVFL_TKILL = 2 ^ 1"
definition DEVFL_EXT :: u16 where "DEVFL_EXT = 2 ^ 2"
definition DEVFL_GDALLOC :: u16 where "DEVFL_GDALLOC = 2 ^ 3"
definition DEVFL_GD_NOW :: u16 where "DEVFL_GD_NOW = 2 ^ 4"
definition DEVFL_KICKME :: u16 where "DEVFL_KICKME = 2 ^ 5"
definition DEVFL_NEWSIZE :: u16 where "DEVFL_NEWSIZE = 2 ^ 6"
definition DEVFL_FREEING :: u16 where "DEVFL_FREEING = 2 ^ 7"
definition DEVFL_FREED :: u16 where "DEVFL_FREED = 2 ^ 8"

lemmas devfl_defs = DEVFL_UP_def DEVFL_TKILL_def DEVFL_EXT_def DEVFL_GDALLOC_def
  DEVFL_GD_NOW_def DEVFL_KICKME_def DEVFL_NEWSIZE_def DEVFL_FREEING_def DEVFL_FREED_def

definition FFL_PROBE :: u8 where "FFL_PROBE = 2 ^ 0"

text \<open>The count \<open>nframesout\<close> is an integer here: the code decrements it before it looks at it.\<close>

record buf =
  b_nframesout :: int
  b_bio :: nat
  b_iter :: biter
  b_rq :: nat

record frame =
  f_tag :: u32
  f_sent :: timeval
  f_sent_jiffs :: u32
  f_waited :: u64
  f_waited_total :: u64
  f_d :: nat
  f_t :: nat
  f_skb :: "nat option"
  f_r_skb :: "rskb option"
  f_buf :: "nat option"
  f_iter :: biter
  f_nout :: u16
  f_flags :: u8

datatype timer_fn = DummyTimer | RexmitTimer

record aoedev =
  d_addr :: nat
  d_sysminor :: nat
  d_aoemajor :: u64
  d_rttavg :: u32
  d_rttdev :: u32
  d_aoeminor :: u16
  d_flags :: u16
  d_nopen :: u16
  d_fw_ver :: u16
  d_lasttag :: u16
  d_ref :: int
  d_gd :: "gendisk option"
  d_blkq :: "nat list option"
  d_geo :: hd_geometry
  d_ssize :: u64
  d_timer_fn :: timer_fn
  d_timer_expires :: "u64 option"
  d_skbpool :: "nat list"
  d_nskbpool :: nat
  d_bufpool :: bool
  d_ip_buf :: "nat option"
  d_ip_nxbio :: "nat list"
  d_ip_rq :: "nat option"
  d_maxbcnt :: nat
  d_factive :: "nat list list"
  d_rexmitq :: "nat list"
  d_targets :: "aoetgt list"
  d_ntargets :: nat
  d_tgt :: nat
  d_kicked :: nat
  d_ident :: "u8 list"

section \<open>The state and the environment\<close>

text \<open>Texts passed to \<open>aoechr_error\<close>, by the values they are formatted from.\<close>

datatype errtext =
    Retransmit bool u64 u16 u32 u64 u32 u64 u64 u16
  | UnexpectedRsp u16 u8 u32 u64 u64 u64
  | UnknownDevice u16 u8

text \<open>Calls out of the driver that leave no trace in the state, newest first: messages,
  scheduled work, bios ended through \<open>__blk_end_request\<close> with their error, requests with nothing
  left to end, wake-ups of the completion threads, the dereference of a NULL pointer, a \<open>WARN_ON\<close>, and
  socket buffers freed or given up for good.\<close>

datatype event =
    EvMsg errtext
  | EvWork
  | EvEnd nat nat bool
  | EvDone nat
  | EvWake nat
  | EvOops
  | EvWarn
  | EvFreeSkb nat
  | EvLeakSkb nat

record st =
  s_dev :: aoedev
  s_frames :: "nat \<Rightarrow> frame"
  s_nframe :: nat
  s_skbs :: "nat \<Rightarrow> skb"
  s_nskb :: nat
  s_bufs :: "nat \<Rightarrow> buf option"
  s_nbuf :: nat
  s_bios :: "nat \<Rightarrow> bio"
  s_reqs :: "nat \<Rightarrow> req"
  s_pages :: "nat \<Rightarrow> nat \<Rightarrow> u8"
  s_pgcnt :: "nat \<Rightarrow> int"
  s_txq :: "txpkt list"
  s_iocq :: "nat list list"
  s_active :: "bool list"
  s_ndref :: "nat \<Rightarrow> int"
  s_tick :: nat
  s_log :: "event list"

text \<open>
  \<open>e_alloc n\<close> is the outcome of the \<open>n\<close>th allocation or clone; \<open>e_advance\<close> is
  \<open>bio_advance_iter\<close>, \<open>e_segs\<close> the segments \<open>__bio_for_each_segment\<close> visits, \<open>e_head\<close> the head page of a
  compound page (\<open>compound_head\<close>) and \<open>e_end\<close> is
  \<open>__blk_end_request\<close> on a chain of bios: whether the request is still pending, and the chain
  left.
\<close>

record env =
  e_hz :: int
  e_jiffies :: u64
  e_now :: timeval
  e_j2us :: "nat \<Rightarrow> u32"
  e_alloc :: "nat \<Rightarrow> bool"
  e_ndaddr :: "nat \<Rightarrow> u8 list"
  e_mtu :: "nat \<Rightarrow> u32"
  e_empty_page :: nat
  e_deadsecs :: u64
  e_maxout :: int
  e_maxioc :: nat
  e_advance :: "bio \<Rightarrow> biter \<Rightarrow> nat \<Rightarrow> biter"
  e_segs :: "bio \<Rightarrow> biter \<Rightarrow> seg list"
  e_head :: "nat \<Rightarrow> nat"
  e_end :: "(nat \<Rightarrow> bio) \<Rightarrow> nat list \<Rightarrow> nat \<Rightarrow> bool \<times> nat list"

section \<open>Field access through pointers\<close>

abbreviation tgts :: "st \<Rightarrow> aoetgt list" where "tgts s \<equiv> d_targets (s_dev s)"
abbreviation tg :: "st \<Rightarrow> nat \<Rightarrow> aoetgt" where "tg s i \<equiv> d_targets (s_dev s) ! i"
abbreviation bf :: "st \<Rightarrow> nat \<Rightarrow> buf" where "bf s b \<equiv> the (s_bufs s b)"
abbreviation fr :: "st \<Rightarrow> nat \<Rightarrow> frame" where "fr s f \<equiv> s_frames s f"

definition upd_dev :: "(aoedev \<Rightarrow> aoedev) \<Rightarrow> st \<Rightarrow> st" where
  "upd_dev g s = s\<lparr>s_dev := g (s_dev s)\<rparr>"

definition upd_tgt :: "nat \<Rightarrow> (aoetgt \<Rightarrow> aoetgt) \<Rightarrow> st \<Rightarrow> st" where
  "upd_tgt i g s =
     s\<lparr>s_dev := (s_dev s)\<lparr>d_targets := (d_targets (s_dev s))[i := g (d_targets (s_dev s) ! i)]\<rparr>\<rparr>"

definition upd_fr :: "nat \<Rightarrow> (frame \<Rightarrow> frame) \<Rightarrow> st \<Rightarrow> st" where
  "upd_fr f g s = s\<lparr>s_frames := (s_frames s)(f := g (s_frames s f))\<rparr>"

definition upd_skb :: "nat \<Rightarrow> (skb \<Rightarrow> skb) \<Rightarrow> st \<Rightarrow> st" where
  "upd_skb k g s = s\<lparr>s_skbs := (s_skbs s)(k := g (s_skbs s k))\<rparr>"

definition upd_buf :: "nat \<Rightarrow> (buf \<Rightarrow> buf) \<Rightarrow> st \<Rightarrow> st" where
  "upd_buf b g s = s\<lparr>s_bufs := (s_bufs s)(b := map_option g (s_bufs s b))\<rparr>"

definition upd_bio :: "nat \<Rightarrow> (bio \<Rightarrow> bio) \<Rightarrow> st \<Rightarrow> st" where
  "upd_bio b g s = s\<lparr>s_bios := (s_bios s)(b := g (s_bios s b))\<rparr>"

definition upd_req :: "nat \<Rightarrow> (req \<Rightarrow> req) \<Rightarrow> st \<Rightarrow> st" where
  "upd_req r g s = s\<lparr>s_reqs := (s_reqs s)(r := g (s_reqs s r))\<rparr>"

definition emit :: "event \<Rightarrow> st \<Rightarrow> st" where
  "emit ev s = s\<lparr>s_log := ev # s_log s\<rparr>"

text \<open>An allocation that may fail.\<close>

definition alloc :: "env \<Rightarrow> st \<Rightarrow> bool \<times> st" where
  "alloc e s = (e_alloc e (s_tick s), s\<lparr>s_tick := Suc (s_tick s)\<rparr>)"

definition since :: "env \<Rightarrow> nat \<Rightarrow> st \<Rightarrow> u32" where
  "since e f s = tsince_hr (e_hz e) (e_now e) (e_jiffies e) (f_sent (fr s f)) (f_sent_jiffs (fr s f))"

lemmas upd_defs = upd_dev_def upd_tgt_def upd_fr_def upd_skb_def upd_buf_def upd_bio_def
  upd_req_def emit_def

text \<open>What \<open>aoe_kcalloc\<close> and \<open>alloc_skb\<close> return.\<close>

definition zero_frame :: frame where
  "zero_frame = \<lparr>f_tag = 0, f_sent = \<lparr>tv_sec = 0, tv_usec = 0\<rparr>, f_sent_jiffs = 0, f_waited = 0,
     f_waited_total = 0, f_d = 0, f_t = 0, f_skb = None, f_r_skb = None, f_buf = None,
     f_iter = zero_iter, f_nout = 0, f_flags = 0\<rparr>"

definition fresh_skb :: skb where
  "fresh_skb = \<lparr>sk_h = zero_hdr, sk_ah = zero_atahdr, sk_len = 0, sk_data_len = 0,
     sk_truesize = 0, sk_frags = [], sk_dev = None, sk_dataref = 1\<rparr>"

section \<open>What an update leaves alone\<close>

lemma upd_dev_sel [simp]:
  "s_dev (upd_dev g s) = g (s_dev s)"
  "s_frames (upd_dev g s) = s_frames s"
  "s_nframe (upd_dev g s) = s_nframe s"
  "s_skbs (upd_dev g s) = s_skbs s"
  "s_nskb (upd_dev g s) = s_nskb s"
  "s_bufs (upd_dev g s) = s_bufs s"
  "s_nbuf (upd_dev g s) = s_nbuf s"
  "s_bios (upd_dev g s) = s_bios s"
  "s_reqs (upd_dev g s) = s_reqs s"
  "s_pages (upd_dev g s) = s_pages s"
  "s_pgcnt (upd_dev g s) = s_pgcnt s"
  "s_txq (upd_dev g s) = s_txq s"
  "s_iocq (upd_dev g s) = s_iocq s"
  "s_active (upd_dev g s) = s_active s"
  "s_ndref (upd_dev g s) = s_ndref s"
  "s_tick (upd_dev g s) = s_tick s"
  "s_log (upd_dev g s) = s_log s"
  by (simp_all add: upd_dev_def)

lemma upd_tgt_sel [simp]:
  "s_dev (upd_tgt i g s) = (s_dev s)\<lparr>d_targets := (tgts s)[i := g (tg s i)]\<rparr>"
  "s_frames (upd_tgt i g s) = s_frames s"
  "s_nframe (upd_tgt i g s) = s_nframe s"
  "s_skbs (upd_tgt i g s) = s_skbs s"
  "s_nskb (upd_tgt i g s) = s_nskb s"
  "s_bufs (upd_tgt i g s) = s_bufs s"
  "s_nbuf (upd_tgt i g s) = s_nbuf s"
  "s_bios (upd_tgt i g s) = s_bios s"
  "s_reqs (upd_tgt i g s) = s_reqs s"
  "s_pages (upd_tgt i g s) = s_pages s"
  "s_pgcnt (upd_tgt i g s) = s_pgcnt s"
  "s_txq (upd_tgt i g s) = s_txq s"
  "s_iocq (upd_tgt i g s) = s_iocq s"
  "s_active (upd_tgt i g s) = s_active s"
  "s_ndref (upd_tgt i g s) = s_ndref s"
  "s_tick (upd_tgt i g s) = s_tick s"
  "s_log (upd_tgt i g s) = s_log s"
  by (simp_all add: upd_tgt_def)

lemma upd_fr_sel [simp]:
  "s_dev (upd_fr f g s) = s_dev s"
  "s_frames (upd_fr f g s) = (s_frames s)(f := g (fr s f))"
  "s_nframe (upd_fr f g s) = s_nframe s"
  "s_skbs (upd_fr f g s) = s_skbs s"
  "s_nskb (upd_fr f g s) = s_nskb s"
  "s_bufs (upd_fr f g s) = s_bufs s"
  "s_nbuf (upd_fr f g s) = s_nbuf s"
  "s_bios (upd_fr f g s) = s_bios s"
  "s_reqs (upd_fr f g s) = s_reqs s"
  "s_pages (upd_fr f g s) = s_pages s"
  "s_pgcnt (upd_fr f g s) = s_pgcnt s"
  "s_txq (upd_fr f g s) = s_txq s"
  "s_iocq (upd_fr f g s) = s_iocq s"
  "s_active (upd_fr f g s) = s_active s"
  "s_ndref (upd_fr f g s) = s_ndref s"
  "s_tick (upd_fr f g s) = s_tick s"
  "s_log (upd_fr f g s) = s_log s"
  by (simp_all add: upd_fr_def)

lemma upd_skb_sel [simp]:
  "s_dev (upd_skb k g s) = s_dev s"
  "s_frames (upd_skb k g s) = s_frames s"
  "s_nframe (upd_skb k g s) = s_nframe s"
  "s_skbs (upd_skb k g s) = (s_skbs s)(k := g (s_skbs s k))"
  "s_nskb (upd_skb k g s) = s_nskb s"
  "s_bufs (upd_skb k g s) = s_bufs s"
  "s_nbuf (upd_skb k g s) = s_nbuf s"
  "s_bios (upd_skb k g s) = s_bios s"
  "s_reqs (upd_skb k g s) = s_reqs s"
  "s_pages (upd_skb k g s) = s_pages s"
  "s_pgcnt (upd_skb k g s) = s_pgcnt s"
  "s_txq (upd_skb k g s) = s_txq s"
  "s_iocq (upd_skb k g s) = s_iocq s"
  "s_active (upd_skb k g s) = s_active s"
  "s_ndref (upd_skb k g s) = s_ndref s"
  "s_tick (upd_skb k g s) = s_tick s"
  "s_log (upd_skb k g s) = s_log s"
  by (simp_all add: upd_skb_def)

lemma upd_buf_sel [simp]:
  "s_dev (upd_buf b g s) = s_dev s"
  "s_frames (upd_buf b g s) = s_frames s"
  "s_nframe (upd_buf b g s) = s_nframe s"
  "s_skbs (upd_buf b g s) = s_skbs s"
  "s_nskb (upd_buf b g s) = s_nskb s"
  "s_bufs (upd_buf b g s) = (s_bufs s)(b := map_option g (s_bufs s b))"
  "s_nbuf (upd_buf b g s) = s_nbuf s"
  "s_bios (upd_buf b g s) = s_bios s"
  "s_reqs (upd_buf b g s) = s_reqs s"
  "s_pages (upd_buf b g s) = s_pages s"
  "s_pgcnt (upd_buf b g s) = s_pgcnt s"
  "s_txq (upd_buf b g s) = s_txq s"
  "s_iocq (upd_buf b g s) = s_iocq s"
  "s_active (upd_buf b g s) = s_active s"
  "s_ndref (upd_buf b g s) = s_ndref s"
  "s_tick (upd_buf b g s) = s_tick s"
  "s_log (upd_buf b g s) = s_log s"
  by (simp_all add: upd_buf_def)

lemma upd_bio_sel [simp]:
  "s_dev (upd_bio b g s) = s_dev s"
  "s_frames (upd_bio b g s) = s_frames s"
  "s_nframe (upd_bio b g s) = s_nframe s"
  "s_skbs (upd_bio b g s) = s_skbs s"
  "s_nskb (upd_bio b g s) = s_nskb s"
  "s_bufs (upd_bio b g s) = s_bufs s"
  "s_nbuf (upd_bio b g s) = s_nbuf s"
  "s_bios (upd_bio b g s) = (s_bios s)(b := g (s_bios s b))"
  "s_reqs (upd_bio b g s) = s_reqs s"
  "s_pages (upd_bio b g s) = s_pages s"
  "s_pgcnt (upd_bio b g s) = s_pgcnt s"
  "s_txq (upd_bio b g s) = s_txq s"
  "s_iocq (upd_bio b g s) = s_iocq s"
  "s_active (upd_bio b g s) = s_active s"
  "s_ndref (upd_bio b g s) = s_ndref s"
  "s_tick (upd_bio b g s) = s_tick s"
  "s_log (upd_bio b g s) = s_log s"
  by (simp_all add: upd_bio_def)

lemma upd_req_sel [simp]:
  "s_dev (upd_req r g s) = s_dev s"
  "s_frames (upd_req r g s) = s_frames s"
  "s_nframe (upd_req r g s) = s_nframe s"
  "s_skbs (upd_req r g s) = s_skbs s"
  "s_nskb (upd_req r g s) = s_nskb s"
  "s_bufs (upd_req r g s) = s_bufs s"
  "s_nbuf (upd_req r g s) = s_nbuf s"
  "s_bios (upd_req r g s) = s_bios s"
  "s_reqs (upd_req r g s) = (s_reqs s)(r := g (s_reqs s r))"
  "s_pages (upd_req r g s) = s_pages s"
  "s_pgcnt (upd_req r g s) = s_pgcnt s"
  "s_txq (upd_req r g s) = s_txq s"
  "s_iocq (upd_req r g s) = s_iocq s"
  "s_active (upd_req r g s) = s_active s"
  "s_ndref (upd_req r g s) = s_ndref s"
  "s_tick (upd_req r g s) = s_tick s"
  "s_log (upd_req r g s) = s_log s"
  by (simp_all add: upd_req_def)

lemma emit_sel [simp]:
  "s_dev (emit ev s) = s_dev s"
  "s_frames (emit ev s) = s_frames s"
  "s_nframe (emit ev s) = s_nframe s"
  "s_skbs (emit ev s) = s_skbs s"
  "s_nskb (emit ev s) = s_nskb s"
  "s_bufs (emit ev s) = s_bufs s"
  "s_nbuf (emit ev s) = s_nbuf s"
  "s_bios (emit ev s) = s_bios s"
  "s_reqs (emit ev s) = s_reqs s"
  "s_pages (emit ev s) = s_pages s"
  "s_pgcnt (emit ev s) = s_pgcnt s"
  "s_txq (emit ev s) = s_txq s"
  "s_iocq (emit ev s) = s_iocq s"
  "s_active (emit ev s) = s_active s"
  "s_ndref (emit ev s) = s_ndref s"
  "s_tick (emit ev s) = s_tick s"
  "s_log (emit ev s) = ev # s_log s"
  by (simp_all add: emit_def)

lemma alloc_sel [simp]:
  "s_dev (snd (alloc e s)) = s_dev s"
  "s_frames (snd (alloc e s)) = s_frames s"
  "s_nframe (snd (alloc e s)) = s_nframe s"
  "s_skbs (snd (alloc e s)) = s_skbs s"
  "s_nskb (snd (alloc e s)) = s_nskb s"
  "s_bufs (snd (alloc e s)) = s_bufs s"
  "s_nbuf (snd (alloc e s)) = s_nbuf s"
  "s_bios (snd (alloc e s)) = s_bios s"
  "s_reqs (snd (alloc e s)) = s_reqs s"
  "s_pages (snd (alloc e s)) = s_pages s"
  "s_pgcnt (snd (alloc e s)) = s_pgcnt s"
  "s_txq (snd (alloc e s)) = s_txq s"
  "s_iocq (snd (alloc e s)) = s_iocq s"
  "s_active (snd (alloc e s)) = s_active s"
  "s_ndref (snd (alloc e s)) = s_ndref s"
  "s_tick (snd (alloc e s)) = Suc (s_tick s)"
  "s_log (snd (alloc e s)) = s_log s"
  by (simp_all add: alloc_def)

lemma fst_alloc [simp]: "fst (alloc e s) = e_alloc e (s_tick s)"
  by (simp add: alloc_def)

lemma alloc_cases:
  "alloc e s = (r, s') \<Longrightarrow> s' = snd (alloc e s)"
  by simp

end
