(* ===== verification/Net.thy ===== *)
theory Net
  imports Device
begin

text \<open>
  The Ethernet side (\<open>aoenet.c\<close>): which network interfaces the driver may use, and the transmit
  thread.  The list of allowed interfaces is a text, scanned word by word on every packet; the scan
  is shown to agree with the words of the text.  C strings are lists of characters without the
  terminating NUL, and a pointer into a string is the rest of the string.
\<close>

section \<open>The list of interfaces\<close>

definition IFLISTSZ :: nat where "IFLISTSZ = 1024"

definition WHITESPACE :: string where
  "WHITESPACE = [CHR '' '', CHR 0x09, CHR 0x0B, CHR 0x0C, CHR 0x0A, CHR '','']"

fun aoe_strcspn :: "string \<Rightarrow> string \<Rightarrow> nat" where
  "aoe_strcspn [] reject = 0"
| "aoe_strcspn (c # s) reject = (if c \<in> set reject then 0 else Suc (aoe_strcspn s reject))"

text \<open>The C library: \<open>strspn\<close>, and \<open>strncmp\<close> up to its sign (a shorter string ends in NUL).\<close>

fun strspn :: "string \<Rightarrow> string \<Rightarrow> nat" where
  "strspn [] accept = 0"
| "strspn (c # s) accept = (if c \<in> set accept then Suc (strspn s accept) else 0)"

fun strncmp :: "string \<Rightarrow> string \<Rightarrow> nat \<Rightarrow> bool" where
  "strncmp s t 0 = False"
| "strncmp [] [] (Suc n) = False"
| "strncmp (a # s) (b # t) (Suc n) = (if a = b then strncmp s t n else True)"
| "strncmp (a # s) [] (Suc n) = True"
| "strncmp [] (b # t) (Suc n) = True"

lemma strncmp_take: "strncmp s t n \<longleftrightarrow> take n s \<noteq> take n t"
  by (induction s t n rule: strncmp.induct) auto

lemma aoe_strcspn_takeWhile: "aoe_strcspn s rej = length (takeWhile (\<lambda>c. c \<notin> set rej) s)"
  by (induction s) auto

lemma strspn_takeWhile: "strspn s acc = length (takeWhile (\<lambda>c. c \<in> set acc) s)"
  by (induction s) auto

text \<open>The loop of \<open>is_aoe_netif\<close>, from the pointer \<open>p\<close> into the list on.\<close>

function netif_loop :: "string \<Rightarrow> string \<Rightarrow> bool" where
  "netif_loop name p =
     (if p = [] then False
      else
        (let n = aoe_strcspn p WHITESPACE; q = drop n p;
             len = (if n \<noteq> 0 then n else length p)
         in if length name = len \<and> \<not> strncmp name p len then True
            else if n = 0 then False
            else netif_loop name (drop (strspn q WHITESPACE) q)))"
  by pat_completeness auto
termination by (relation "measure (\<lambda>(name, p). length p)") auto

declare netif_loop.simps [simp del]

definition is_aoe_netif :: "string \<Rightarrow> string \<Rightarrow> bool" where
  "is_aoe_netif aoe_iflist name =
     (if aoe_iflist = [] then True
      else netif_loop name (drop (strspn aoe_iflist WHITESPACE) aoe_iflist))"

text \<open>\<open>set_aoe_iflist\<close>: the user's bytes become the list; \<open>copied\<close> says whether
  \<open>copy_from_user\<close> could read them.  A list ends at its first NUL.\<close>

definition set_aoe_iflist :: "bool \<Rightarrow> string \<Rightarrow> string \<Rightarrow> errno option \<times> string" where
  "set_aoe_iflist copied user_str aoe_iflist =
     (if IFLISTSZ \<le> length user_str then (Some EINVAL, aoe_iflist)
      else if \<not> copied then (Some EFAULT, aoe_iflist)
      else (None, takeWhile (\<lambda>c. c \<noteq> CHR 0x00) user_str))"

section \<open>Words of a text\<close>

text \<open>A word of \<open>s\<close> is a longest part of it without separators.\<close>

definition is_word :: "string \<Rightarrow> string \<Rightarrow> bool" where
  "is_word w s \<longleftrightarrow> w \<noteq> [] \<and> set w \<inter> set WHITESPACE = {}
     \<and> (\<exists>u v. s = u @ w @ v \<and> (u = [] \<or> last u \<in> set WHITESPACE) \<and> (v = [] \<or> hd v \<in> set WHITESPACE))"

text \<open>Separators in front do not matter, and the words are the first word and those after it.\<close>

lemma is_word_sep:
  assumes "c \<in> set WHITESPACE"
  shows "is_word w (c # s) \<longleftrightarrow> is_word w s"
proof
  assume "is_word w s"
  then obtain u v where "s = u @ w @ v" "u = [] \<or> last u \<in> set WHITESPACE" "v = [] \<or> hd v \<in> set WHITESPACE"
    and w: "w \<noteq> []" "set w \<inter> set WHITESPACE = {}" by (auto simp: is_word_def)
  then have "c # s = (c # u) @ w @ v" "last (c # u) \<in> set WHITESPACE" "v = [] \<or> hd v \<in> set WHITESPACE"
    using assms by auto
  then show "is_word w (c # s)" using w unfolding is_word_def by blast
next
  assume "is_word w (c # s)"
  then obtain u v where e: "c # s = u @ w @ v" and uv: "u = [] \<or> last u \<in> set WHITESPACE" "v = [] \<or> hd v \<in> set WHITESPACE"
    and w: "w \<noteq> []" "set w \<inter> set WHITESPACE = {}" by (auto simp: is_word_def)
  have "u \<noteq> []" using e w assms by (cases w) auto
  then obtain u' where "u = c # u'" "s = u' @ w @ v" using e by (cases u) auto
  moreover have "u' = [] \<or> last u' \<in> set WHITESPACE" using uv(1) \<open>u = c # u'\<close> by (auto split: if_splits)
  ultimately show "is_word w s" using uv w unfolding is_word_def by blast
qed

lemma is_word_skip: "is_word w (dropWhile (\<lambda>c. c \<in> set WHITESPACE) s) \<longleftrightarrow> is_word w s"
  by (induction s) (auto simp: is_word_sep)

lemma is_word_first:
  assumes f: "f \<noteq> []" "set f \<inter> set WHITESPACE = {}" and r: "r = [] \<or> hd r \<in> set WHITESPACE"
  shows "is_word w (f @ r) \<longleftrightarrow> w = f \<or> is_word w r"
proof
  assume "is_word w (f @ r)"
  then obtain u v where e: "f @ r = u @ w @ v" and uv: "u = [] \<or> last u \<in> set WHITESPACE" "v = [] \<or> hd v \<in> set WHITESPACE"
    and w: "w \<noteq> []" "set w \<inter> set WHITESPACE = {}" by (auto simp: is_word_def)
  show "w = f \<or> is_word w r"
  proof (cases "u = []")
    case True
    then obtain x where "f = w @ x \<and> x @ r = v \<or> f @ x = w \<and> r = x @ v" using e by (auto simp: append_eq_append_conv2)
    then show ?thesis
      using f r uv w by (cases x) auto
  next
    case False
    then have l: "last u \<in> set WHITESPACE" using uv by simp
    from e obtain x where "f = u @ x \<and> x @ r = w @ v \<or> f @ x = u \<and> r = x @ w @ v"
      by (auto simp: append_eq_append_conv2)
    then show ?thesis
    proof
      assume "f = u @ x \<and> x @ r = w @ v"
      moreover have "last u \<in> set u" using False by simp
      ultimately show ?thesis using f(2) l by auto
    next
      assume a: "f @ x = u \<and> r = x @ w @ v"
      moreover have "last f \<notin> set WHITESPACE" using f last_in_set by fastforce
      ultimately have "x \<noteq> []" using l by auto
      then have "last x \<in> set WHITESPACE" using a l by auto
      then show ?thesis using a uv w unfolding is_word_def by blast
    qed
  qed
next
  assume "w = f \<or> is_word w r"
  then show "is_word w (f @ r)"
  proof
    assume "w = f"
    then show ?thesis using f r unfolding is_word_def by (metis append_Nil)
  next
    assume "is_word w r"
    then obtain u v where e: "r = u @ w @ v" and uv: "u = [] \<or> last u \<in> set WHITESPACE" "v = [] \<or> hd v \<in> set WHITESPACE"
      and w: "w \<noteq> []" "set w \<inter> set WHITESPACE = {}" by (auto simp: is_word_def)
    have "u \<noteq> []" using e w r by (cases w) auto
    then have "f @ r = (f @ u) @ w @ v" "last (f @ u) \<in> set WHITESPACE" using e uv by auto
    then show ?thesis using uv w unfolding is_word_def by blast
  qed
qed

lemma netif_loop_word:
  "p = [] \<or> hd p \<notin> set WHITESPACE \<Longrightarrow> netif_loop name p \<longleftrightarrow> is_word name p"
proof (induction name p rule: netif_loop.induct)
  case (1 name p)
  show ?case
  proof (cases "p = []")
    case True
    then show ?thesis by (simp add: netif_loop.simps is_word_def)
  next
    case False
    define f where "f = takeWhile (\<lambda>c. c \<notin> set WHITESPACE) p"
    define q where "q = dropWhile (\<lambda>c. c \<notin> set WHITESPACE) p"
    define q' where "q' = dropWhile (\<lambda>c. c \<in> set WHITESPACE) q"
    have p: "p = f @ q" by (simp add: f_def q_def)
    have f: "f \<noteq> []" "set f \<inter> set WHITESPACE = {}"
      using 1(2) False by (cases p; auto simp: f_def dest: set_takeWhileD)+
    have r: "q = [] \<or> hd q \<in> set WHITESPACE" unfolding q_def by (metis hd_dropWhile)
    have n: "aoe_strcspn p WHITESPACE = length f" by (simp add: aoe_strcspn_takeWhile f_def)
    have q': "q' = [] \<or> hd q' \<notin> set WHITESPACE" unfolding q'_def by (metis hd_dropWhile)
    have d: "drop (length f) p = q" by (simp add: p)
    have s: "drop (strspn q WHITESPACE) q = q'"
      by (simp add: strspn_takeWhile q'_def dropWhile_eq_drop)
    have t: "take (length f) p = f" by (simp add: p)
    have "netif_loop name p \<longleftrightarrow> (length name = length f \<and> name = f) \<or> netif_loop name q'"
      using f(1) False unfolding netif_loop.simps [of name p] Let_def n d s by (auto simp: strncmp_take t)
    moreover have "netif_loop name q' \<longleftrightarrow> is_word name q'" if "\<not> (length name = length f \<and> \<not> strncmp name p (length f))"
      using 1(1) [OF False refl refl refl] that f(1) q' unfolding n d s by simp
    moreover have "is_word name p \<longleftrightarrow> name = f \<or> is_word name q'"
      unfolding q'_def is_word_skip p by (rule is_word_first [OF f r])
    ultimately show ?thesis by (auto simp: strncmp_take t)
  qed
qed

text \<open>C23. An interface may be used exactly when the list is empty or names it as a word, where words
  are separated by blanks and commas; the scan always ends.\<close>

theorem is_aoe_netif_words:
  "is_aoe_netif aoe_iflist name \<longleftrightarrow> aoe_iflist = [] \<or> is_word name aoe_iflist"
proof -
  have "drop (strspn s WHITESPACE) s = dropWhile (\<lambda>c. c \<in> set WHITESPACE) s" for s
    by (simp add: strspn_takeWhile dropWhile_eq_drop)
  moreover have "dropWhile (\<lambda>c. c \<in> set WHITESPACE) s = [] \<or> hd (dropWhile (\<lambda>c. c \<in> set WHITESPACE) s) \<notin> set WHITESPACE" for s
    by (metis hd_dropWhile)
  ultimately show ?thesis by (simp add: is_aoe_netif_def netif_loop_word is_word_skip)
qed

end
