(* ===== verification/Frames.thy ===== *)
theory Frames
  imports Device
begin

text \<open>
  Frames and their socket buffers (\<open>aoecmd.c\<close>): the buffer pool, \<open>newtframe\<close> and
  \<open>aoe_freetframe\<close> on the free list of a target, \<open>newframe\<close> with its round robin over the targets,
  the hash of active frames (\<open>fhash\<close>, \<open>getframe\<close>) and the queue of deferred retransmissions
  (\<open>getframe_deferred\<close>).
\<close>

section \<open>Socket buffers\<close>

definition new_skb :: "env \<Rightarrow> st \<Rightarrow> nat option \<times> st" where
  "new_skb e s =
     (case alloc e s of
        (False, s1) \<Rightarrow> (None, s1)
      | (True, s1) \<Rightarrow>
          (Some (s_nskb s1),
           s1\<lparr>s_skbs := (s_skbs s1)(s_nskb s1 := fresh_skb), s_nskb := Suc (s_nskb s1)\<rparr>))"

definition skb_pool_put :: "nat \<Rightarrow> st \<Rightarrow> st" where
  "skb_pool_put k = upd_dev (\<lambda>d. d\<lparr>d_skbpool := d_skbpool d @ [k]\<rparr>)"

text \<open>The second half of \<open>skb_pool_get\<close>: a new buffer while the pool may grow.\<close>

definition skb_pool_new :: "env \<Rightarrow> st \<Rightarrow> nat option \<times> st" where
  "skb_pool_new e s =
     (if d_nskbpool (s_dev s) < NSKBPOOLMAX then
        (case new_skb e s of
           (None, s1) \<Rightarrow> (None, s1)
         | (Some k, s1) \<Rightarrow> (Some k, upd_dev (\<lambda>d. d\<lparr>d_nskbpool := d_nskbpool d + 1\<rparr>) s1))
      else (None, s))"

definition skb_pool_get :: "env \<Rightarrow> st \<Rightarrow> nat option \<times> st" where
  "skb_pool_get e s =
     (case d_skbpool (s_dev s) of
        [] \<Rightarrow> skb_pool_new e s
      | k # ks \<Rightarrow>
          if sk_dataref (s_skbs s k) = 1
          then (Some k, upd_dev (\<lambda>d. d\<lparr>d_skbpool := ks\<rparr>) s)
          else skb_pool_new e s)"

text \<open>The clone shares the bytes; it may not be had.\<close>

definition skb_clone :: "env \<Rightarrow> nat \<Rightarrow> st \<Rightarrow> txpkt option \<times> st" where
  "skb_clone e k s =
     (case alloc e s of
        (False, s1) \<Rightarrow> (None, s1)
      | (True, s1) \<Rightarrow>
          (Some (TxClone k (sk_dev (s_skbs s1 k)) (sk_len (s_skbs s1 k))),
           upd_skb k (\<lambda>x. x\<lparr>sk_dataref := sk_dataref x + 1\<rparr>) s1))"

text \<open>\<open>aoenet_xmit\<close>: the packets go to the end of the transmit queue.\<close>

definition aoenet_xmit :: "txpkt list \<Rightarrow> st \<Rightarrow> st" where
  "aoenet_xmit sl s = s\<lparr>s_txq := s_txq s @ sl\<rparr>"

section \<open>Frames of a target\<close>

definition aoe_freetframe :: "nat \<Rightarrow> st \<Rightarrow> st" where
  "aoe_freetframe f s =
     upd_tgt (f_t (fr s f)) (\<lambda>t. t\<lparr>t_ffree := f # t_ffree t\<rparr>)
       (upd_fr f (\<lambda>x. x\<lparr>f_buf := None, f_iter := zero_iter, f_r_skb := None, f_flags := 0\<rparr>) s)"

text \<open>The first half of \<open>newtframe\<close>: a frame off the free list, or a new one below the limit.\<close>

definition newtframe_get :: "env \<Rightarrow> nat \<Rightarrow> st \<Rightarrow> nat option \<times> st" where
  "newtframe_get e i s =
     (case t_ffree (tg s i) of
        [] \<Rightarrow>
          if t_falloc (tg s i) \<ge> NSKBPOOLMAX * 2 then (None, s)
          else (case alloc e s of
                  (False, s1) \<Rightarrow> (None, s1)
                | (True, s1) \<Rightarrow>
                    (let f = s_nframe s1;
                         s2 = s1\<lparr>s_frames := (s_frames s1)
                                  (f := zero_frame\<lparr>f_d := d_addr (s_dev s1), f_t := i\<rparr>),
                                 s_nframe := Suc f\<rparr>
                     in (Some f, upd_tgt i (\<lambda>t. t\<lparr>t_falloc := t_falloc t + 1\<rparr>) s2)))
      | f # fs \<Rightarrow> (Some f, upd_tgt i (\<lambda>t. t\<lparr>t_ffree := fs\<rparr>) s))"

text \<open>The second half: the frame gets a buffer that no clone shares; \<open>None\<close> is \<open>goto bail\<close>.\<close>

definition newtframe_skb :: "env \<Rightarrow> nat \<Rightarrow> st \<Rightarrow> nat option \<times> st" where
  "newtframe_skb e f s =
     (case (case f_skb (fr s f) of
              Some k \<Rightarrow> (Some k, s)
            | None \<Rightarrow>
                (case new_skb e s of
                   (k, s1) \<Rightarrow> (k, upd_fr f (\<lambda>x. x\<lparr>f_skb := k\<rparr>) s1))) of
        (None, s1) \<Rightarrow> (None, s1)
      | (Some k, s1) \<Rightarrow>
          if sk_dataref (s_skbs s1 k) \<noteq> 1 then
            (case skb_pool_get e s1 of
               (None, s2) \<Rightarrow> (None, s2)
             | (Some k', s2) \<Rightarrow>
                 (Some k', upd_fr f (\<lambda>x. x\<lparr>f_skb := Some k'\<rparr>) (skb_pool_put k s2)))
          else (Some k, s1))"

definition skb_reset :: "skb \<Rightarrow> skb" where
  "skb_reset x = x\<lparr>sk_truesize := sk_truesize x - int (sk_data_len x), sk_frags := [],
     sk_data_len := 0, sk_len := 0\<rparr>"

definition newtframe :: "env \<Rightarrow> nat \<Rightarrow> st \<Rightarrow> nat option \<times> st" where
  "newtframe e i s =
     (case newtframe_get e i s of
        (None, s1) \<Rightarrow> (None, s1)
      | (Some f, s1) \<Rightarrow>
          (case newtframe_skb e f s1 of
             (None, s2) \<Rightarrow> (None, aoe_freetframe f s2)
           | (Some k, s2) \<Rightarrow> (Some f, upd_skb k skb_reset s2)))"

section \<open>Choice of a target\<close>

text \<open>The target after \<open>tt\<close>, wrapping at the end of the array or at the first empty slot.\<close>

definition tgt_next :: "nat \<Rightarrow> st \<Rightarrow> nat" where
  "tgt_next tt s = (if tt + 1 \<ge> d_ntargets (s_dev s) \<or> tt + 1 \<ge> length (tgts s) then 0 else tt + 1)"

text \<open>An attempt to get a frame from target \<open>i\<close>, if its window, its taint and its interface allow.\<close>

definition tgt_try :: "env \<Rightarrow> bool \<Rightarrow> nat \<Rightarrow> st \<Rightarrow> nat option \<times> st" where
  "tgt_try e use_tainted i s =
     (let t = tg s i in
      if t_nout t < t_maxout t \<and> (use_tainted \<or> t_taint t = 0) \<and> if_nd (t_ifs t ! t_ifp t) \<noteq> None
      then newtframe e i s else (None, s))"

text \<open>
  The loop of \<open>newframe\<close>.  \<open>tt\<close> is the target looked at last; the arguments after it are
  \<open>use_tainted\<close>, \<open>has_untainted\<close> and \<open>totout\<close>.  The fuel bounds the number of targets visited;
  without it the result is \<open>None\<close>.
\<close>

fun newframe_loop :: "env \<Rightarrow> nat \<Rightarrow> nat \<Rightarrow> bool \<Rightarrow> bool \<Rightarrow> int \<Rightarrow> st \<Rightarrow> ((nat option \<times> int) \<times> st) option" where
  "newframe_loop e 0 tt ut hu tot s = None"
| "newframe_loop e (Suc n) tt ut hu tot s =
     (let i = tgt_next tt s; t = tg s i;
          hu1 = (hu \<or> t_taint t = 0);
          tot1 = (if t_taint t = 0 then tot + uint (t_nout t) else tot)
      in case tgt_try e ut i s of
           (Some f, s1) \<Rightarrow>
             Some ((Some f, tot1),
               upd_dev (\<lambda>d. d\<lparr>d_tgt := i\<rparr>) (upd_tgt i (\<lambda>t. snd (ifrotate t)) s1))
         | (None, s1) \<Rightarrow>
             if i = d_tgt (s_dev s1) then
               (if \<not> ut \<and> \<not> hu1 then newframe_loop e n i True hu1 tot1 s1
                else Some ((None, tot1), s1))
             else newframe_loop e n i ut hu1 tot1 s1)"

text \<open>Two rounds over the targets are enough (\<open>newframe_loop_total\<close>).\<close>

definition newframe :: "env \<Rightarrow> st \<Rightarrow> nat option \<times> st" where
  "newframe e s =
     (if tgts s = [] then (None, s)
      else case newframe_loop e (2 * length (tgts s)) (d_tgt (s_dev s)) False False 0 s of
             None \<Rightarrow> (None, s)
           | Some ((Some f, _), s1) \<Rightarrow> (Some f, s1)
           | Some ((None, totout), s1) \<Rightarrow>
               (None,
                if totout = 0
                then upd_dev (\<lambda>d. d\<lparr>d_kicked := d_kicked d + 1,
                       d_flags := setfl (d_flags d) DEVFL_KICKME\<rparr>) s1
                else s1))"

section \<open>Active and deferred frames\<close>

definition fbucket :: "u32 \<Rightarrow> nat" where
  "fbucket tag = unat tag mod NFACTIVE"

definition fhash :: "nat \<Rightarrow> st \<Rightarrow> st" where
  "fhash f s =
     (let n = fbucket (f_tag (fr s f))
      in upd_dev (\<lambda>d. d\<lparr>d_factive := (d_factive d)[n := d_factive d ! n @ [f]]\<rparr>) s)"

definition getframe :: "u32 \<Rightarrow> st \<Rightarrow> nat option \<times> st" where
  "getframe tag s =
     (let n = fbucket tag in
      case take_first (\<lambda>f. f_tag (fr s f) = tag) (d_factive (s_dev s) ! n) of
        None \<Rightarrow> (None, s)
      | Some (f, fs) \<Rightarrow> (Some f, upd_dev (\<lambda>d. d\<lparr>d_factive := (d_factive d)[n := fs]\<rparr>) s))"

definition getframe_deferred :: "u32 \<Rightarrow> st \<Rightarrow> nat option \<times> st" where
  "getframe_deferred tag s =
     (case take_first (\<lambda>f. f_tag (fr s f) = tag) (d_rexmitq (s_dev s)) of
        None \<Rightarrow> (None, s)
      | Some (f, fs) \<Rightarrow> (Some f, upd_dev (\<lambda>d. d\<lparr>d_rexmitq := fs\<rparr>) s))"

text \<open>\<open>t->ifp->nd\<close>, and the fault when it is NULL.\<close>

abbreviation cur_nd :: "aoetgt \<Rightarrow> nat option" where
  "cur_nd t \<equiv> if_nd (t_ifs t ! t_ifp t)"

definition deref_nd :: "nat \<Rightarrow> st \<Rightarrow> st" where
  "deref_nd i s = (if cur_nd (tg s i) = None then emit EvOops s else s)"

definition aoehdr_atainit :: "env \<Rightarrow> nat \<Rightarrow> nat \<Rightarrow> st \<Rightarrow> u32 \<times> st" where
  "aoehdr_atainit e i k s =
     (let (host_tag, lt) = newtag (e_jiffies e) (d_lasttag (s_dev s));
          t = tg s i;
          s1 = deref_nd i (upd_dev (\<lambda>d. d\<lparr>d_lasttag := lt\<rparr>) s)
      in (host_tag,
          upd_skb k (\<lambda>x. x\<lparr>sk_h := (sk_h x)\<lparr>h_src := e_ndaddr e (the (cur_nd t)),
            h_dst := t_addr t, h_type := ETH_P_AOE, h_verfl := AOE_HVER,
            h_major := ucast (d_aoemajor (s_dev s)), h_minor := ucast (d_aoeminor (s_dev s)),
            h_cmd := AOECMD_ATA, h_tag := host_tag\<rparr>\<rparr>) s1))"

end
