(* ===== verification/Xmit.thy ===== *)
theory Xmit
  imports Frames
begin

text \<open>
  Sending commands (\<open>aoecmd.c\<close>): building an ATA read or write from the next piece of a buf
  (\<open>nextbuf\<close>, \<open>aoecmd_ata_rw\<close>, \<open>ata_rw_frameinit\<close>), identify commands (\<open>aoecmd_ata_id\<close>),
  retransmission of a frame, possibly through another target (\<open>resend\<close>, \<open>reassign_frame\<close>,
  \<open>rexmit_deferred\<close>), probes of a tainted target (\<open>probe\<close>), and the loop \<open>aoecmd_work\<close>.
\<close>

section \<open>Building commands\<close>

definition ATA_CMD_PIO_READ :: u8 where "ATA_CMD_PIO_READ = 0x20"
definition ATA_CMD_PIO_READ_EXT :: u8 where "ATA_CMD_PIO_READ_EXT = 0x24"
definition ATA_CMD_PIO_WRITE :: u8 where "ATA_CMD_PIO_WRITE = 0x30"
definition ATA_CMD_PIO_WRITE_EXT :: u8 where "ATA_CMD_PIO_WRITE_EXT = 0x34"
definition ATA_CMD_ID_ATA :: u8 where "ATA_CMD_ID_ATA = 0xEC"

definition skb_fillup :: "env \<Rightarrow> bio \<Rightarrow> biter \<Rightarrow> skb \<Rightarrow> skb" where
  "skb_fillup e b it x =
     (let segs = e_segs e b it in if segs = [] then x else x\<lparr>sk_frags := segs\<rparr>)"

text \<open>\<open>skb_put\<close> of the two headers and their \<open>memset\<close>.\<close>

definition skb_put_hdrs :: "skb \<Rightarrow> skb" where
  "skb_put_hdrs x = x\<lparr>sk_len := sk_len x + 36, sk_h := zero_hdr, sk_ah := zero_atahdr\<rparr>"

text \<open>The ATA header of a read or write over \<open>it\<close>, on a device with or without LBA48.\<close>

definition ata_rw_header :: "bool \<Rightarrow> bool \<Rightarrow> biter \<Rightarrow> aoe_atahdr \<Rightarrow> aoe_atahdr" where
  "ata_rw_header ext wr it ah =
     (let writebit = (if wr then 0x10 else 0); extbit = (if ext then 0x4 else 0);
          ah1 = put_lba (ah\<lparr>ah_scnt := of_nat (bi_size it div 512)\<rparr>) (bi_sector it);
          ah2 = (if ext then ah1\<lparr>ah_aflags := setfl (ah_aflags ah1) AOEAFL_EXT\<rparr> else lba28_head ah1);
          ah3 = (if wr then ah2\<lparr>ah_aflags := setfl (ah_aflags ah2) AOEAFL_WRITE\<rparr> else ah2)
      in ah3\<lparr>ah_cmdstat := ATA_CMD_PIO_READ OR writebit OR extbit\<rparr>)"

definition buf_write :: "nat \<Rightarrow> st \<Rightarrow> bool" where
  "buf_write f s =
     (case f_buf (fr s f) of None \<Rightarrow> False | Some b \<Rightarrow> bio_write (s_bios s (b_bio (bf s b))))"

definition ata_rw_frameinit :: "env \<Rightarrow> nat \<Rightarrow> st \<Rightarrow> st" where
  "ata_rw_frameinit e f s =
     (let k = the (f_skb (fr s f)); i = f_t (fr s f);
          (tag, s1) = aoehdr_atainit e i k (upd_skb k skb_put_hdrs s);
          s2 = fhash f (upd_fr f (\<lambda>x. x\<lparr>f_tag := tag\<rparr>) s1);
          s3 = upd_tgt i (\<lambda>t. t\<lparr>t_nout := t_nout t + 1\<rparr>) s2;
          s4 = upd_fr f (\<lambda>x. x\<lparr>f_nout := t_nout (tg s3 i), f_waited := 0, f_waited_total := 0\<rparr>) s3;
          it = f_iter (fr s f); wr = buf_write f s;
          ext = hasfl (d_flags (s_dev s)) DEVFL_EXT;
          s5 = upd_skb k (\<lambda>x. x\<lparr>sk_ah := ata_rw_header ext wr it (sk_ah x)\<rparr>) s4;
          s6 = (if wr
                then upd_tgt i (\<lambda>t. t\<lparr>t_wpkts := t_wpkts t + 1\<rparr>)
                  (upd_skb k (\<lambda>x. (skb_fillup e (s_bios s (b_bio (bf s (the (f_buf (fr s f)))))) it x)
                     \<lparr>sk_len := sk_len x + bi_size it, sk_data_len := bi_size it,
                      sk_truesize := sk_truesize x + int (bi_size it)\<rparr>) s5)
                else upd_tgt i (\<lambda>t. t\<lparr>t_rpkts := t_rpkts t + 1\<rparr>) s5)
      in upd_skb k (\<lambda>x. x\<lparr>sk_dev := cur_nd (tg s6 i)\<rparr>) s6)"

text \<open>The tail that all senders share: clone the buffer, note the time, transmit.\<close>

definition xmit_frame :: "env \<Rightarrow> nat \<Rightarrow> st \<Rightarrow> st" where
  "xmit_frame e f s =
     (case skb_clone e (the (f_skb (fr s f))) s of
        (None, s1) \<Rightarrow> s1
      | (Some p, s1) \<Rightarrow>
          aoenet_xmit [p]
            (upd_fr f (\<lambda>x. x\<lparr>f_sent := e_now e, f_sent_jiffs := ucast (e_jiffies e)\<rparr>) s1))"

definition rqbiocnt :: "nat \<Rightarrow> st \<Rightarrow> int" where
  "rqbiocnt r s = int (length (rq_bio (s_reqs s r)))"

text \<open>The head pages of the segments of a bio, and a reference to each.\<close>

definition bio_heads :: "env \<Rightarrow> bio \<Rightarrow> nat list" where
  "bio_heads e x = map (\<lambda>(page, _, _). e_head e page) (e_segs e x (bio_iter x))"

definition bio_pageinc :: "env \<Rightarrow> nat \<Rightarrow> st \<Rightarrow> st" where
  "bio_pageinc e b s = s\<lparr>s_pgcnt := fold (\<lambda>p c. c(p := c p + 1)) (bio_heads e (s_bios s b)) (s_pgcnt s)\<rparr>"

definition bufinit :: "env \<Rightarrow> nat \<Rightarrow> nat \<Rightarrow> nat \<Rightarrow> st \<Rightarrow> st" where
  "bufinit e k rq b s =
     bio_pageinc e b (s\<lparr>s_bufs := (s_bufs s)(k \<mapsto>
       \<lparr>b_nframesout = 0, b_bio = b, b_iter = bio_iter (s_bios s b), b_rq = rq\<rparr>)\<rparr>)"

text \<open>The request in process, or the next one of the queue.\<close>

definition nextrq :: "nat list \<Rightarrow> st \<Rightarrow> (nat \<times> st) option" where
  "nextrq q s =
     (case d_ip_rq (s_dev s) of
        Some r \<Rightarrow> Some (r, s)
      | None \<Rightarrow>
          (case q of
             [] \<Rightarrow> None
           | r # q' \<Rightarrow>
               Some (r, upd_req r (\<lambda>x. x\<lparr>rq_special := rqbiocnt r s\<rparr>)
                 (upd_dev (\<lambda>d. d\<lparr>d_blkq := Some q', d_ip_rq := Some r,
                    d_ip_nxbio := rq_bio (s_reqs s r)\<rparr>) s))))"

definition nextbuf :: "env \<Rightarrow> st \<Rightarrow> nat option \<times> st" where
  "nextbuf e s =
     (case d_blkq (s_dev s) of
        None \<Rightarrow> (None, s)
      | Some q \<Rightarrow>
          (case d_ip_buf (s_dev s) of
             Some b \<Rightarrow> (Some b, s)
           | None \<Rightarrow>
               (case nextrq q s of
                  None \<Rightarrow> (None, s)
                | Some (r, s1) \<Rightarrow>
                    (case alloc e s1 of
                       (False, s2) \<Rightarrow> (None, s2)
                     | (True, s2) \<Rightarrow>
                         (case d_ip_nxbio (s_dev s2) of
                            [] \<Rightarrow> (None, emit EvOops s2)
                          | b # bs \<Rightarrow>
                              (let k = s_nbuf s2 in
                               (Some k,
                                upd_dev (\<lambda>d. d\<lparr>d_ip_nxbio := bs,
                                    d_ip_rq := (if bs = [] then None else d_ip_rq d),
                                    d_ip_buf := Some k\<rparr>)
                                  (bufinit e k r b (s2\<lparr>s_nbuf := Suc k\<rparr>)))))))))"

text \<open>The part of a buf that the next frame carries.\<close>

definition frame_bcnt :: "aoedev \<Rightarrow> biter \<Rightarrow> nat" where
  "frame_bcnt d it = min (if d_maxbcnt d \<noteq> 0 then d_maxbcnt d else DEFAULTBCNT) (bi_size it)"

text \<open>The frame \<open>f\<close> takes its piece of the buf \<open>b\<close>.\<close>

definition frame_take :: "env \<Rightarrow> nat \<Rightarrow> nat \<Rightarrow> st \<Rightarrow> st" where
  "frame_take e f b s =
     (let it = b_iter (bf s b); n = frame_bcnt (s_dev s) it;
          it' = e_advance e (s_bios s (b_bio (bf s b))) it n;
          s1 = upd_fr f (\<lambda>x. x\<lparr>f_buf := Some b, f_iter := it\<lparr>bi_size := n\<rparr>\<rparr>) s;
          s2 = upd_buf b (\<lambda>x. x\<lparr>b_iter := it'\<rparr>) s1;
          s3 = (if bi_size it' = 0 then upd_dev (\<lambda>d. d\<lparr>d_ip_buf := None\<rparr>) s2 else s2)
      in upd_buf b (\<lambda>x. x\<lparr>b_nframesout := b_nframesout x + 1\<rparr>) s3)"

definition aoecmd_ata_rw :: "env \<Rightarrow> st \<Rightarrow> bool \<times> st" where
  "aoecmd_ata_rw e s =
     (case nextbuf e s of
        (None, s1) \<Rightarrow> (False, s1)
      | (Some b, s1) \<Rightarrow>
          (case newframe e s1 of
             (None, s2) \<Rightarrow> (False, s2)
           | (Some f, s2) \<Rightarrow> (True, xmit_frame e f (ata_rw_frameinit e f (frame_take e f b s2)))))"

text \<open>
  \<open>aoecmd_ata_id\<close>: an identify command through the next target.  The clone is returned for the
  caller to transmit.
\<close>

definition aoecmd_ata_id :: "env \<Rightarrow> st \<Rightarrow> txpkt option \<times> st" where
  "aoecmd_ata_id e s =
     (case newframe e s of
        (None, s1) \<Rightarrow> (None, s1)
      | (Some f, s1) \<Rightarrow>
          (let i = d_tgt (s_dev s1); k = the (f_skb (fr s1 f));
               (tag, s2) = aoehdr_atainit e i k (upd_skb k skb_put_hdrs s1);
               s3 = fhash f (upd_fr f (\<lambda>x. x\<lparr>f_tag := tag\<rparr>) s2);
               s4 = upd_fr f (\<lambda>x. x\<lparr>f_waited := 0, f_waited_total := 0\<rparr>)
                      (upd_tgt i (\<lambda>t. t\<lparr>t_nout := t_nout t + 1\<rparr>) s3);
               s5 = upd_skb k (\<lambda>x. x\<lparr>sk_ah := (sk_ah x)\<lparr>ah_scnt := 1, ah_cmdstat := ATA_CMD_ID_ATA,
                      ah_lba3 := 0xa0\<rparr>, sk_dev := cur_nd (tg s4 i)\<rparr>) s4;
               s6 = upd_dev (\<lambda>d. d\<lparr>d_rttavg := RTTAVG_INIT, d_rttdev := RTTDEV_INIT,
                      d_timer_fn := RexmitTimer\<rparr>) s5
           in case skb_clone e k s6 of
                (None, s7) \<Rightarrow> (None, s7)
              | (Some p, s7) \<Rightarrow>
                  (Some p, upd_fr f (\<lambda>x. x\<lparr>f_sent := e_now e, f_sent_jiffs := ucast (e_jiffies e)\<rparr>) s7)))"

section \<open>Retransmission\<close>

text \<open>\<open>ktcomplete\<close>: the frame and its response go to a completion thread.\<close>

definition ktcomplete :: "nat \<Rightarrow> rskb option \<Rightarrow> st \<Rightarrow> st" where
  "ktcomplete f r s =
     (let s1 = upd_fr f (\<lambda>x. x\<lparr>f_r_skb := r\<rparr>) s;
          id = unat (d_aoeminor (s_dev s1)) mod length (s_iocq s1);
          id' = (if s_active s1 ! id then id else 0)
      in emit (EvWake id') (s1\<lparr>s_iocq := (s_iocq s1)[id' := s_iocq s1 ! id' @ [f]]\<rparr>))"

text \<open>\<open>resend\<close> with the target \<open>t\<close> after \<open>ifrotate\<close> and the new tag \<open>n\<close>, up to the clone.\<close>

definition resend_prep :: "env \<Rightarrow> nat \<Rightarrow> aoetgt \<Rightarrow> u32 \<Rightarrow> st \<Rightarrow> st" where
  "resend_prep e f t n s =
     (let k = the (f_skb (fr s f)); s2 = upd_tgt (f_t (fr s f)) (\<lambda>_. t) s; h = sk_h (s_skbs s2 k);
          s3 = (if hasfl (f_flags (fr s2 f)) FFL_PROBE then s2
                else emit (EvMsg (Retransmit (f_buf (fr s2 f) \<noteq> None) (d_aoemajor (s_dev s2))
                       (d_aoeminor (s_dev s2)) (f_tag (fr s2 f)) (e_jiffies e) n
                       (mac_addr (h_src h)) (mac_addr (h_dst h)) (t_nout t))) s2);
          s4 = fhash f (upd_fr f (\<lambda>x. x\<lparr>f_nout := t_nout t, f_tag := n\<rparr>) s3)
      in upd_skb k (\<lambda>x. x\<lparr>sk_h := (sk_h x)\<lparr>h_tag := n, h_dst := t_addr t,
           h_src := e_ndaddr e (the (cur_nd t))\<rparr>, sk_dev := cur_nd t\<rparr>) s4)"

definition resend :: "env \<Rightarrow> nat \<Rightarrow> st \<Rightarrow> st" where
  "resend e f s =
     (let (n, lt) = newtag (e_jiffies e) (d_lasttag (s_dev s));
          s1 = upd_dev (\<lambda>d. d\<lparr>d_lasttag := lt\<rparr>) s
      in case ifrotate (tg s1 (f_t (fr s1 f))) of
           (False, t) \<Rightarrow> ktcomplete f None s1
         | (True, t) \<Rightarrow> xmit_frame e f (resend_prep e f t n s1))"

definition reassign_frame :: "env \<Rightarrow> nat \<Rightarrow> st \<Rightarrow> nat option \<times> st" where
  "reassign_frame e f s =
     (case newframe e s of
        (None, s1) \<Rightarrow> (None, s1)
      | (Some nf, s1) \<Rightarrow>
          if f_t (fr s1 nf) = f_t (fr s1 f) then (None, aoe_freetframe nf s1)
          else
            (let x = fr s1 f; k = f_skb (fr s1 nf);
                 s2 = upd_fr nf (\<lambda>y. y\<lparr>f_skb := f_skb x, f_buf := f_buf x, f_iter := f_iter x,
                        f_waited := 0, f_waited_total := f_waited_total x, f_sent := f_sent x,
                        f_sent_jiffs := f_sent_jiffs x\<rparr>) s1
             in (Some nf, upd_fr f (\<lambda>y. y\<lparr>f_skb := k\<rparr>) s2)))"

text \<open>The zero pages a probe carries.\<close>

fun probe_frags :: "nat \<Rightarrow> nat \<Rightarrow> seg list" where
  "probe_frags page n =
     (if n = 0 then []
      else let m = (if n < PAGE_SIZE then n else PAGE_SIZE)
           in (page, 0, m) # probe_frags page (n - m))"

declare probe_frags.simps [simp del]

definition probe :: "env \<Rightarrow> nat \<Rightarrow> st \<Rightarrow> st" where
  "probe e i s =
     (case newtframe e i s of
        (None, s1) \<Rightarrow> s1
      | (Some f, s1) \<Rightarrow>
          (let n = (if d_maxbcnt (s_dev s1) \<noteq> 0 then d_maxbcnt (s_dev s1) else DEFAULTBCNT);
               s2 = upd_tgt i (\<lambda>t. snd (ifrotate t))
                      (upd_fr f (\<lambda>x. x\<lparr>f_flags := setfl (f_flags x) FFL_PROBE\<rparr>) s1);
               s3 = ata_rw_frameinit e f
                      (upd_fr f (\<lambda>x. x\<lparr>f_iter := (f_iter x)\<lparr>bi_size := n\<rparr>\<rparr>) s2);
               k = the (f_skb (fr s3 f))
           in xmit_frame e f
                (upd_skb k (\<lambda>x. x\<lparr>sk_frags := probe_frags (e_empty_page e) n,
                   sk_len := sk_len x + n, sk_data_len := n,
                   sk_truesize := sk_truesize x + int n\<rparr>) s3)))"

text \<open>\<open>count_targets\<close>: the targets, and those without taint.\<close>

definition count_targets :: "aoedev \<Rightarrow> nat \<times> nat" where
  "count_targets d =
     (length (d_targets d), length (filter (\<lambda>t. t_taint t = 0) (d_targets d)))"

definition is_probe :: "nat \<Rightarrow> st \<Rightarrow> bool" where
  "is_probe f s = hasfl (f_flags (fr s f)) FFL_PROBE"

text \<open>\<open>list_del\<close> and \<open>list_replace\<close> on the deferred queue.\<close>

definition rexmitq_del :: "nat \<Rightarrow> st \<Rightarrow> st" where
  "rexmitq_del f = upd_dev (\<lambda>d. d\<lparr>d_rexmitq := remove1 f (d_rexmitq d)\<rparr>)"

definition rexmitq_replace :: "nat \<Rightarrow> nat \<Rightarrow> st \<Rightarrow> st" where
  "rexmitq_replace f nf =
     upd_dev (\<lambda>d. d\<lparr>d_rexmitq := map (\<lambda>x. if x = f then nf else x) (d_rexmitq d)\<rparr>)"

text \<open>The end of the loop body of \<open>rexmit_deferred\<close>: the frame is sent if the window allows.\<close>

definition rexmit_send :: "env \<Rightarrow> nat \<Rightarrow> st \<Rightarrow> st" where
  "rexmit_send e f s =
     (let i = f_t (fr s f) in
      if t_nout (tg s i) \<ge> t_maxout (tg s i) then s
      else
        (let s1 = upd_tgt i (\<lambda>t. t\<lparr>t_nout := t_nout t + 1,
                    t_nout_probes := (if is_probe f s then t_nout_probes t + 1 else t_nout_probes t)\<rparr>)
                    (rexmitq_del f s);
             n = scast (since e f s1) :: u64
         in resend e f (upd_fr f (\<lambda>x. x\<lparr>f_waited := f_waited x + n,
                                        f_waited_total := f_waited_total x + n\<rparr>) s1)))"

definition stop_probe :: "nat \<Rightarrow> st \<Rightarrow> st" where
  "stop_probe f s =
     upd_dev (\<lambda>d. d\<lparr>d_flags := setfl (d_flags d) DEVFL_KICKME\<rparr>)
       (aoe_freetframe f (rexmitq_del f s))"

definition rexmit_one :: "env \<Rightarrow> nat \<Rightarrow> nat \<Rightarrow> st \<Rightarrow> st" where
  "rexmit_one e untainted f s =
     (let i = f_t (fr s f); t = tg s i in
      if t_taint t \<noteq> 0 then
        (if \<not> is_probe f s then
           (case reassign_frame e f s of
              (None, s1) \<Rightarrow> rexmit_send e f s1
            | (Some nf, s1) \<Rightarrow>
                (let s2 = (if t_nout_probes (tg s1 i) = 0 \<and> untainted > 0
                           then upd_tgt i (\<lambda>t. t\<lparr>t_nout_probes := t_nout_probes t + 1\<rparr>) (probe e i s1)
                           else s1)
                 in rexmit_send e nf (aoe_freetframe f (rexmitq_replace f nf s2))))
         else if untainted < 1 then stop_probe f s
         else if sint (since e f s) < t_taint t * rto (d_rttavg (s_dev s)) (d_rttdev (s_dev s)) then s
         else rexmit_send e f s)
      else if is_probe f s then stop_probe f s
      else rexmit_send e f s)"

primrec rexmit_loop :: "env \<Rightarrow> nat \<Rightarrow> nat list \<Rightarrow> st \<Rightarrow> st" where
  "rexmit_loop e untainted [] s = s"
| "rexmit_loop e untainted (f # fs) s = rexmit_loop e untainted fs (rexmit_one e untainted f s)"

definition rexmit_deferred :: "env \<Rightarrow> st \<Rightarrow> st" where
  "rexmit_deferred e s =
     rexmit_loop e (snd (count_targets (s_dev s))) (d_rexmitq (s_dev s)) s"

text \<open>
  \<open>while (aoecmd_ata_rw(d))\<close>; the fuel bounds the number of frames, and the window room of the
  targets is enough fuel (\<open>work_loop_total\<close>).
\<close>

fun work_loop :: "nat \<Rightarrow> env \<Rightarrow> st \<Rightarrow> st option" where
  "work_loop 0 e s = None"
| "work_loop (Suc n) e s =
     (case aoecmd_ata_rw e s of (True, s1) \<Rightarrow> work_loop n e s1 | (False, s1) \<Rightarrow> Some s1)"

definition tgt_room :: "aoetgt \<Rightarrow> nat" where
  "tgt_room t = unat (t_maxout t) - unat (t_nout t)"

definition room :: "st \<Rightarrow> nat" where
  "room s = sum_list (map tgt_room (tgts s))"

definition aoecmd_work :: "env \<Rightarrow> st \<Rightarrow> st" where
  "aoecmd_work e s =
     (let s1 = rexmit_deferred e s
      in case work_loop (Suc (room s1)) e s1 of None \<Rightarrow> s1 | Some s2 \<Rightarrow> s2)"

end
