(* ===== verification/Pool.thy ===== *)
theory Pool
  imports Prelude
begin

text \<open>
  An abstract account of where the frames of a device are: the part of the state that decides
  whether frames are lost, duplicated or counted wrongly.  A frame is on one of the hash chains of
  active frames, on the queue of deferred retransmissions, on the free list of its target, on a
  queue of the completion threads, or held by the code that runs.  The operations of the driver
  are shown to be moves of this account in \<open>FrameInv\<close>; here are the moves and what they keep.
\<close>

section \<open>The account\<close>

definition NBUCKETS :: nat where "NBUCKETS = 61"

text \<open>
  Per frame its owner (device, target), its tag and its buf; per target its free list, the number
  of frames made for it (\<open>falloc\<close>) and the number of commands outstanding (\<open>nout\<close>).
\<close>

record fv =
  v_addr :: nat
  v_act :: "nat list list"
  v_rex :: "nat list"
  v_free :: "nat list list"
  v_falloc :: "nat list"
  v_nout :: "u16 list"
  v_ioc :: "nat list list"
  v_nf :: nat
  v_own :: "nat \<Rightarrow> nat \<times> nat"
  v_tag :: "nat \<Rightarrow> u32"

definition actm :: "fv \<Rightarrow> nat multiset" where "actm v = mset (concat (v_act v))"
definition freem :: "fv \<Rightarrow> nat multiset" where "freem v = mset (concat (v_free v))"
definition iocm :: "fv \<Rightarrow> nat multiset" where "iocm v = mset (concat (v_ioc v))"

definition homes :: "fv \<Rightarrow> nat multiset" where
  "homes v = actm v + mset (v_rex v) + freem v + iocm v"

text \<open>The frames of target \<open>i\<close> in a collection.\<close>

definition cnt :: "fv \<Rightarrow> nat \<Rightarrow> nat multiset \<Rightarrow> nat" where
  "cnt v i M = size (filter_mset (\<lambda>f. v_own v f = (v_addr v, i)) M)"

text \<open>
  All frames \<open>T\<close> of the account: no frame twice, all made before, targets in range, and \<open>falloc\<close>
  of a target is the number of its frames, at most 512.
\<close>

definition pool_all :: "nat multiset \<Rightarrow> fv \<Rightarrow> bool" where
  "pool_all T v \<longleftrightarrow> (\<forall>f. count T f \<le> 1) \<and> (\<forall>f. f \<in># T \<longrightarrow> f < v_nf v)
     \<and> (\<forall>f. f \<in># T \<longrightarrow> fst (v_own v f) = v_addr v \<longrightarrow> snd (v_own v f) < length (v_free v))
     \<and> (\<forall>i < length (v_free v). v_falloc v ! i = cnt v i T \<and> cnt v i T \<le> 512)"

text \<open>The lists: held, active, deferred and completing frames are the device's, and a frame is free
  only at its own target.\<close>

definition pool_lists :: "nat multiset \<Rightarrow> fv \<Rightarrow> bool" where
  "pool_lists X v \<longleftrightarrow>
     (\<forall>f. f \<in># X + actm v + mset (v_rex v) + iocm v \<longrightarrow> fst (v_own v f) = v_addr v)
     \<and> (\<forall>i < length (v_free v). \<forall>f. f \<in> set (v_free v ! i) \<longrightarrow> v_own v f = (v_addr v, i))
     \<and> length (v_act v) = NBUCKETS \<and> v_ioc v \<noteq> []
     \<and> length (v_falloc v) = length (v_free v) \<and> length (v_nout v) = length (v_free v)"

definition pool_wk :: "nat multiset \<Rightarrow> fv \<Rightarrow> bool" where
  "pool_wk X v \<longleftrightarrow> pool_all (X + homes v) v \<and> pool_lists X v"

text \<open>An active frame is on the chain of its tag.\<close>

definition hash_ok :: "fv \<Rightarrow> bool" where
  "hash_ok v \<longleftrightarrow> (\<forall>n < NBUCKETS. \<forall>f. f \<in> set (v_act v ! n) \<longrightarrow> unat (v_tag v f) mod NBUCKETS = n)"

definition pool_ok :: "nat multiset \<Rightarrow> fv \<Rightarrow> bool" where
  "pool_ok X v \<longleftrightarrow> pool_wk X v \<and> hash_ok v"

text \<open>\<open>nout\<close> of a target counts its active frames and those of \<open>A\<close>.\<close>

definition nout_ok :: "nat multiset \<Rightarrow> fv \<Rightarrow> bool" where
  "nout_ok A v \<longleftrightarrow> (\<forall>i < length (v_nout v). v_nout v ! i = of_nat (cnt v i (A + actm v)))"

section \<open>Counting\<close>

lemma cnt_empty [simp]: "cnt v i {#} = 0"
  by (simp add: cnt_def)

lemma cnt_plus [simp]: "cnt v i (M + N) = cnt v i M + cnt v i N"
  by (simp add: cnt_def)

lemma cnt_add [simp]:
  "cnt v i (add_mset f M) = (if v_own v f = (v_addr v, i) then 1 else 0) + cnt v i M"
  by (simp add: cnt_def)

lemma cnt_mono: "M \<subseteq># N \<Longrightarrow> cnt v i M \<le> cnt v i N"
  by (simp add: cnt_def multiset_filter_mono size_mset_mono)

lemma cnt_cong:
  "v_addr w = v_addr v \<Longrightarrow> (\<And>f. f \<in># M \<Longrightarrow> v_own w f = v_own v f) \<Longrightarrow> cnt w i M = cnt v i M"
  unfolding cnt_def by (intro arg_cong [where f = size] filter_mset_cong) auto

lemma cnt_same [simp]:
  "cnt (v\<lparr>v_act := a\<rparr>) i M = cnt v i M" "cnt (v\<lparr>v_rex := r\<rparr>) i M = cnt v i M"
  "cnt (v\<lparr>v_free := fl\<rparr>) i M = cnt v i M" "cnt (v\<lparr>v_falloc := fa\<rparr>) i M = cnt v i M"
  "cnt (v\<lparr>v_nout := no\<rparr>) i M = cnt v i M" "cnt (v\<lparr>v_ioc := q\<rparr>) i M = cnt v i M"
  "cnt (v\<lparr>v_nf := n\<rparr>) i M = cnt v i M" "cnt (v\<lparr>v_tag := tg\<rparr>) i M = cnt v i M"
  by (simp_all add: cnt_def)

lemma pool_all_move:
  assumes "pool_wk X v" and "T = X + homes v" and "v_addr w = v_addr v" and "v_nf w = v_nf v"
    and "v_own w = v_own v" and "length (v_free w) = length (v_free v)" and "v_falloc w = v_falloc v"
  shows "pool_all T w"
proof -
  have "cnt w i M = cnt v i M" for i M using assms by (simp add: cnt_def)
  then show ?thesis using assms by (simp add: pool_wk_def pool_all_def del: cnt_plus)
qed

section \<open>Moves\<close>

lemma concat_update_append:
  "n < length xss \<Longrightarrow> mset (concat (xss[n := xss ! n @ [x]])) = add_mset x (mset (concat xss))"
  using mset_concat_update [of n xss "xss ! n @ [x]"] by simp

lemma concat_update_push:
  "n < length xss \<Longrightarrow> mset (concat (xss[n := x # xss ! n])) = add_mset x (mset (concat xss))"
  using mset_concat_update [of n xss "x # xss ! n"] by simp

lemma concat_update_pop:
  assumes "n < length xss" and "mset (xss ! n) = add_mset x (mset ys)"
  shows "mset (concat xss) = add_mset x (mset (concat (xss[n := ys])))"
  using mset_concat_update [OF assms(1), of ys] assms(2) by simp

lemma pool_owned_wk: "pool_wk X v \<Longrightarrow> f \<in># X \<Longrightarrow> fst (v_own v f) = v_addr v \<and> snd (v_own v f) < length (v_free v)"
  by (auto simp: pool_wk_def pool_lists_def pool_all_def)

lemma pool_inactive_wk:
  assumes "pool_wk X v" and "f \<in># X" and "n < length (v_act v)"
  shows "f \<notin> set (v_act v ! n)"
proof
  assume "f \<in> set (v_act v ! n)"
  then have "f \<in># actm v" using assms(3) by (auto simp: actm_def)
  then have "count (X + homes v) f \<ge> 2"
    using assms(2) by (simp add: homes_def flip: count_greater_zero_iff)
  moreover have "count (X + homes v) f \<le> 1" using assms(1) by (simp add: pool_wk_def pool_all_def)
  ultimately show False by linarith
qed

text \<open>\<open>fhash\<close>: a held frame becomes active.\<close>

definition v_hash :: "nat \<Rightarrow> fv \<Rightarrow> fv" where
  "v_hash f v = (let n = unat (v_tag v f) mod NBUCKETS in v\<lparr>v_act := (v_act v)[n := v_act v ! n @ [f]]\<rparr>)"

lemma v_hash_act: "length (v_act v) = NBUCKETS \<Longrightarrow> actm (v_hash f v) = add_mset f (actm v)"
  by (simp add: v_hash_def actm_def Let_def concat_update_append NBUCKETS_def)

lemma v_hash_sel [simp]:
  "v_own (v_hash f v) = v_own v" "v_addr (v_hash f v) = v_addr v" "v_free (v_hash f v) = v_free v"
  "v_falloc (v_hash f v) = v_falloc v" "v_rex (v_hash f v) = v_rex v" "v_ioc (v_hash f v) = v_ioc v"
  "v_nf (v_hash f v) = v_nf v" "v_nout (v_hash f v) = v_nout v" "v_tag (v_hash f v) = v_tag v"
  "length (v_act (v_hash f v)) = length (v_act v)"
  by (simp_all add: v_hash_def Let_def)

lemma pool_hash_wk:
  assumes "pool_wk (add_mset f X) v"
  shows "pool_wk X (v_hash f v)"
proof -
  have l: "length (v_act v) = NBUCKETS" using assms by (simp add: pool_wk_def pool_lists_def)
  have "X + homes (v_hash f v) = add_mset f X + homes v"
    using v_hash_act [OF l] by (simp add: homes_def freem_def iocm_def)
  then have "pool_all (X + homes (v_hash f v)) (v_hash f v)"
    by (rule pool_all_move [OF assms]) simp_all
  moreover have "pool_lists X (v_hash f v)"
    using assms l
    by (auto simp: pool_wk_def pool_lists_def v_hash_act iocm_def)
  ultimately show ?thesis by (simp add: pool_wk_def)
qed

text \<open>A frame leaves a hash chain: \<open>getframe\<close>, and \<open>list_move_tail\<close> in \<open>rexmit_timer\<close>.\<close>

lemma pool_unhash_wk:
  assumes ok: "pool_wk X v" and n: "n < NBUCKETS" and m: "mset (v_act v ! n) = add_mset f (mset fs)"
  shows "pool_wk (add_mset f X) (v\<lparr>v_act := (v_act v)[n := fs]\<rparr>)"
    and "actm v = add_mset f (actm (v\<lparr>v_act := (v_act v)[n := fs]\<rparr>))"
proof -
  let ?w = "v\<lparr>v_act := (v_act v)[n := fs]\<rparr>"
  have l: "length (v_act v) = NBUCKETS" using ok by (simp add: pool_wk_def pool_lists_def)
  show a: "actm v = add_mset f (actm ?w)"
    using concat_update_pop [of n "v_act v" f fs] n m l by (simp add: actm_def)
  have "add_mset f X + homes ?w = X + homes v" using a by (simp add: homes_def freem_def iocm_def)
  then have "pool_all (add_mset f X + homes ?w) ?w"
    by (rule pool_all_move [OF ok]) simp_all
  moreover have "set fs \<subseteq> set (v_act v ! n)" using m by (metis set_mset_add_mset_insert set_mset_mset subset_insertI)
  then have "pool_lists (add_mset f X) ?w"
    using ok n a
    by (auto simp: pool_wk_def pool_lists_def nth_list_update iocm_def split: if_splits)
  ultimately show "pool_wk (add_mset f X) ?w" by (simp add: pool_wk_def)
qed

text \<open>The deferred queue.\<close>

lemma pool_rex_wk:
  assumes "pool_wk X v" and "mset r + Y = mset (v_rex v) + X"
  shows "pool_wk Y (v\<lparr>v_rex := r\<rparr>)"
proof -
  let ?w = "v\<lparr>v_rex := r\<rparr>"
  have "Y + homes ?w = X + homes v"
    using assms(2) by (simp add: homes_def freem_def iocm_def actm_def ac_simps)
  then have "pool_all (Y + homes ?w) ?w"
    by (rule pool_all_move [OF assms(1)]) simp_all
  moreover have s: "set_mset (Y + mset r) = set_mset (X + mset (v_rex v))"
    using assms(2) by (simp add: ac_simps)
  have "pool_lists Y ?w"
    using assms(1) s unfolding pool_wk_def pool_lists_def
    by (auto simp: actm_def iocm_def set_eq_iff)
  ultimately show ?thesis by (simp add: pool_wk_def)
qed

text \<open>The completion queues.\<close>

lemma pool_ioc_put_wk:
  assumes ok: "pool_wk (add_mset f X) v" and "q < length (v_ioc v)"
  shows "pool_wk X (v\<lparr>v_ioc := (v_ioc v)[q := v_ioc v ! q @ [f]]\<rparr>)"
proof -
  let ?w = "v\<lparr>v_ioc := (v_ioc v)[q := v_ioc v ! q @ [f]]\<rparr>"
  have i: "iocm ?w = add_mset f (iocm v)" using concat_update_append [OF assms(2), of f] by (simp add: iocm_def)
  then have "X + homes ?w = add_mset f X + homes v" by (simp add: homes_def freem_def actm_def)
  then have "pool_all (X + homes ?w) ?w"
    by (rule pool_all_move [OF ok]) simp_all
  moreover have "pool_lists X ?w"
    using ok unfolding pool_wk_def pool_lists_def i by (auto simp: actm_def)
  ultimately show ?thesis by (simp add: pool_wk_def)
qed

lemma pool_ioc_get_wk:
  assumes ok: "pool_wk X v" and "q < length (v_ioc v)" and "v_ioc v ! q = f # fs"
  shows "pool_wk (add_mset f X) (v\<lparr>v_ioc := (v_ioc v)[q := fs]\<rparr>)"
proof -
  let ?w = "v\<lparr>v_ioc := (v_ioc v)[q := fs]\<rparr>"
  have i: "iocm v = add_mset f (iocm ?w)" using concat_update_pop [of q "v_ioc v" f fs] assms by (simp add: iocm_def)
  then have "add_mset f X + homes ?w = X + homes v" by (simp add: homes_def freem_def actm_def)
  then have "pool_all (add_mset f X + homes ?w) ?w"
    by (rule pool_all_move [OF ok]) simp_all
  moreover have "pool_lists (add_mset f X) ?w"
    using ok unfolding pool_wk_def pool_lists_def i by (auto simp: actm_def)
  ultimately show ?thesis by (simp add: pool_wk_def)
qed

text \<open>\<open>aoe_freetframe\<close>: a held frame goes to the free list of its target.\<close>

definition v_put :: "nat \<Rightarrow> fv \<Rightarrow> fv" where
  "v_put f v = (let i = snd (v_own v f) in v\<lparr>v_free := (v_free v)[i := f # v_free v ! i]\<rparr>)"

lemma v_put_sel [simp]:
  "v_own (v_put f v) = v_own v" "v_addr (v_put f v) = v_addr v" "v_act (v_put f v) = v_act v"
  "v_falloc (v_put f v) = v_falloc v" "v_rex (v_put f v) = v_rex v" "v_ioc (v_put f v) = v_ioc v"
  "v_nf (v_put f v) = v_nf v" "v_nout (v_put f v) = v_nout v" "v_tag (v_put f v) = v_tag v"
  "length (v_free (v_put f v)) = length (v_free v)" "actm (v_put f v) = actm v"
  by (simp_all add: v_put_def Let_def actm_def)

lemma pool_put_wk:
  assumes ok: "pool_wk (add_mset f X) v"
  shows "pool_wk X (v_put f v)"
proof -
  have o: "fst (v_own v f) = v_addr v" "snd (v_own v f) < length (v_free v)"
    using pool_owned_wk [OF ok, of f] by simp_all
  have "freem (v_put f v) = add_mset f (freem v)"
    using concat_update_push [OF o(2), of f] by (simp add: freem_def v_put_def Let_def)
  then have "X + homes (v_put f v) = add_mset f X + homes v"
    by (simp add: homes_def iocm_def)
  then have "pool_all (X + homes (v_put f v)) (v_put f v)"
    by (rule pool_all_move [OF ok]) simp_all
  moreover have "pool_lists X (v_put f v)"
    using ok o by (cases "v_own v f")
      (auto simp: pool_wk_def pool_lists_def v_put_def Let_def actm_def iocm_def nth_list_update split: if_splits)
  ultimately show ?thesis by (simp add: pool_wk_def)
qed

text \<open>\<open>newtframe\<close>: a free frame is taken, or a new frame is made.\<close>

lemma pool_take_wk:
  assumes ok: "pool_wk X v" and i: "i < length (v_free v)" and f: "v_free v ! i = f # fs"
  shows "pool_wk (add_mset f X) (v\<lparr>v_free := (v_free v)[i := fs]\<rparr>)"
proof -
  let ?w = "v\<lparr>v_free := (v_free v)[i := fs]\<rparr>"
  have "add_mset f X + homes ?w = X + homes v"
    using concat_update_pop [of i "v_free v" f fs] i f by (simp add: homes_def freem_def iocm_def actm_def)
  then have "pool_all (add_mset f X + homes ?w) ?w"
    by (rule pool_all_move [OF ok]) simp_all
  moreover have "v_own v f = (v_addr v, i)" using ok i f by (simp add: pool_wk_def pool_lists_def)
  then have "pool_lists (add_mset f X) ?w"
    using ok i f by (auto simp: pool_wk_def pool_lists_def actm_def iocm_def nth_list_update split: if_splits)
  ultimately show ?thesis by (simp add: pool_wk_def)
qed

definition v_new :: "nat \<Rightarrow> fv \<Rightarrow> fv" where
  "v_new i v = v\<lparr>v_nf := Suc (v_nf v), v_own := (v_own v)(v_nf v := (v_addr v, i)),
     v_tag := (v_tag v)(v_nf v := 0), v_falloc := (v_falloc v)[i := v_falloc v ! i + 1]\<rparr>"

lemma v_new_sel [simp]:
  "v_addr (v_new i v) = v_addr v" "v_free (v_new i v) = v_free v" "v_act (v_new i v) = v_act v"
  "v_rex (v_new i v) = v_rex v" "v_ioc (v_new i v) = v_ioc v" "v_nout (v_new i v) = v_nout v"
  "actm (v_new i v) = actm v" "homes (v_new i v) = homes v"
  "v_own (v_new i v) = (v_own v)(v_nf v := (v_addr v, i))"
  by (simp_all add: v_new_def actm_def homes_def freem_def iocm_def)

lemma cnt_new: "(\<And>f. f \<in># M \<Longrightarrow> f < v_nf v) \<Longrightarrow> cnt (v_new i v) j M = cnt v j M"
  by (rule cnt_cong) auto

lemma pool_old_wk: "pool_wk X v \<Longrightarrow> f \<in># X + homes v \<Longrightarrow> f < v_nf v"
  unfolding pool_wk_def pool_all_def by blast

lemma pool_new_wk:
  assumes ok: "pool_wk X v" and i: "i < length (v_free v)" and lim: "v_falloc v ! i < 512"
  shows "pool_wk (add_mset (v_nf v) X) (v_new i v)"
proof -
  let ?f = "v_nf v" and ?w = "v_new i v" and ?T = "X + homes v"
  have old: "f < ?f" if "f \<in># ?T" for f using pool_old_wk [OF ok that] .
  then have nin: "count ?T ?f = 0" by (metis count_inI less_irrefl)
  have c: "cnt ?w j ?T = cnt v j ?T" for j by (rule cnt_new) (rule old)
  have all: "pool_all ?T v" and ls: "pool_lists X v" using ok by (simp_all add: pool_wk_def)
  have "length (v_falloc v) = length (v_free v)" using ls by (simp add: pool_lists_def)
  then have fa: "v_falloc ?w ! j = v_falloc v ! j + (if j = i then 1 else 0)" if "j < length (v_free v)" for j
    using that i by (simp add: v_new_def nth_list_update)
  have "pool_all (add_mset ?f ?T) ?w"
    unfolding pool_all_def
  proof (intro conjI allI impI)
    fix f
    show "count (add_mset ?f ?T) f \<le> 1"
      using all nin by (cases "f = ?f") (simp_all add: pool_all_def)
    assume f: "f \<in># add_mset ?f ?T"
    then show "f < v_nf ?w" using old by (auto simp: v_new_def less_Suc_eq)
    assume "fst (v_own ?w f) = v_addr ?w"
    then show "snd (v_own ?w f) < length (v_free ?w)"
      using f all i by (cases "f = ?f") (auto simp: pool_all_def)
  next
    fix j assume j: "j < length (v_free ?w)"
    have cj: "v_falloc v ! j = cnt v j ?T" and lj: "cnt v j ?T \<le> 512"
      using all j by (simp_all add: pool_all_def)
    show "v_falloc ?w ! j = cnt ?w j (add_mset ?f ?T)"
      unfolding cnt_add c using fa [of j] j cj by simp
    show "cnt ?w j (add_mset ?f ?T) \<le> 512"
      unfolding cnt_add c using cj lj lim by auto
  qed
  moreover have "pool_lists (add_mset ?f X) ?w"
  proof -
    have o: "v_own ?w f = v_own v f \<and> v_tag ?w f = v_tag v f" if "f \<in># ?T" for f
      using old [OF that] by (simp add: v_new_def)
    have fm: "f \<in># ?T" if "j < length (v_free v)" "f \<in> set (v_free v ! j)" for f j
      using that by (auto simp: homes_def freem_def)
    have hm: "f \<in># ?T" if "f \<in># X + actm v + mset (v_rex v) + iocm v" for f
      using that by (auto simp: homes_def)
    show ?thesis
      unfolding pool_lists_def
    proof (intro conjI allI impI)
      have "iocm ?w = iocm v" by (simp add: iocm_def)
      moreover fix f assume "f \<in># add_mset ?f X + actm ?w + mset (v_rex ?w) + iocm ?w"
      ultimately show "fst (v_own ?w f) = v_addr ?w"
        using o hm ls by (cases "f = ?f") (auto simp: pool_lists_def)
    next
      fix j f assume "j < length (v_free ?w)" "f \<in> set (v_free ?w ! j)"
      then show "v_own ?w f = (v_addr ?w, j)" using o fm ls by (auto simp: pool_lists_def)
    qed (use ls in \<open>auto simp: pool_lists_def v_new_def\<close>)
  qed
  ultimately show ?thesis by (simp add: pool_wk_def)
qed

text \<open>A new tag for a held frame.\<close>

lemma pool_tag_wk:
  assumes ok: "pool_wk X v" and f: "f \<in># X"
  shows "pool_wk X (v\<lparr>v_tag := (v_tag v)(f := g)\<rparr>)"
proof -
  let ?w = "v\<lparr>v_tag := (v_tag v)(f := g)\<rparr>"
  have "pool_all (X + homes ?w) ?w"
    by (rule pool_all_move [OF ok]) (simp_all add: homes_def actm_def freem_def iocm_def)
  moreover have "pool_lists X ?w"
    using ok pool_inactive_wk [OF ok f] by (auto simp: pool_wk_def pool_lists_def actm_def iocm_def)
  ultimately show ?thesis by (simp add: pool_wk_def)
qed

lemma pool_nout_wk: "pool_wk X v \<Longrightarrow> length no = length (v_nout v) \<Longrightarrow> pool_wk X (v\<lparr>v_nout := no\<rparr>)"
  by (auto simp: pool_wk_def pool_lists_def pool_all_def homes_def actm_def freem_def iocm_def)

section \<open>Moves with the hash\<close>

lemma pool_okD: "pool_ok X v \<Longrightarrow> pool_wk X v"
  by (simp add: pool_ok_def)

lemmas pool_owned = pool_owned_wk [OF pool_okD]
lemmas pool_inactive = pool_inactive_wk [OF pool_okD]
lemmas pool_old = pool_old_wk [OF pool_okD]

lemma hash_same [simp]:
  "hash_ok (v\<lparr>v_rex := r\<rparr>) = hash_ok v" "hash_ok (v\<lparr>v_free := fl\<rparr>) = hash_ok v"
  "hash_ok (v\<lparr>v_ioc := q\<rparr>) = hash_ok v" "hash_ok (v\<lparr>v_nout := no\<rparr>) = hash_ok v"
  "hash_ok (v_put f v) = hash_ok v"
  by (simp_all add: hash_ok_def)

lemma pool_hash:
  assumes "pool_ok (add_mset f X) v"
  shows "pool_ok X (v_hash f v)"
proof -
  have "length (v_act v) = NBUCKETS" using assms by (simp add: pool_ok_def pool_wk_def pool_lists_def)
  then have "hash_ok (v_hash f v)"
    using assms by (auto simp: pool_ok_def hash_ok_def v_hash_def Let_def nth_list_update split: if_splits)
  then show ?thesis using pool_hash_wk assms by (simp add: pool_ok_def)
qed

lemma pool_unhash:
  assumes ok: "pool_ok X v" and n: "n < NBUCKETS" and m: "mset (v_act v ! n) = add_mset f (mset fs)"
  shows "pool_ok (add_mset f X) (v\<lparr>v_act := (v_act v)[n := fs]\<rparr>)"
    and "actm v = add_mset f (actm (v\<lparr>v_act := (v_act v)[n := fs]\<rparr>))"
proof -
  have l: "length (v_act v) = NBUCKETS" using ok by (simp add: pool_ok_def pool_wk_def pool_lists_def)
  have "set fs \<subseteq> set (v_act v ! n)" using m by (metis set_mset_add_mset_insert set_mset_mset subset_insertI)
  then have "hash_ok (v\<lparr>v_act := (v_act v)[n := fs]\<rparr>)"
    using ok n l by (auto simp: pool_ok_def hash_ok_def nth_list_update split: if_splits)
  then show "pool_ok (add_mset f X) (v\<lparr>v_act := (v_act v)[n := fs]\<rparr>)"
    using pool_unhash_wk(1) [OF pool_okD [OF ok] n m] by (simp add: pool_ok_def)
  show "actm v = add_mset f (actm (v\<lparr>v_act := (v_act v)[n := fs]\<rparr>))"
    by (rule pool_unhash_wk(2) [OF pool_okD [OF ok] n m])
qed

lemma pool_rex: "pool_ok X v \<Longrightarrow> mset r + Y = mset (v_rex v) + X \<Longrightarrow> pool_ok Y (v\<lparr>v_rex := r\<rparr>)"
  using pool_rex_wk [of X v r Y] by (simp add: pool_ok_def)

lemma pool_ioc_put:
  "pool_ok (add_mset f X) v \<Longrightarrow> q < length (v_ioc v) \<Longrightarrow> pool_ok X (v\<lparr>v_ioc := (v_ioc v)[q := v_ioc v ! q @ [f]]\<rparr>)"
  using pool_ioc_put_wk by (simp add: pool_ok_def)

lemma pool_ioc_get:
  "pool_ok X v \<Longrightarrow> q < length (v_ioc v) \<Longrightarrow> v_ioc v ! q = f # fs \<Longrightarrow>
   pool_ok (add_mset f X) (v\<lparr>v_ioc := (v_ioc v)[q := fs]\<rparr>)"
  using pool_ioc_get_wk by (simp add: pool_ok_def)

lemma pool_put: "pool_ok (add_mset f X) v \<Longrightarrow> pool_ok X (v_put f v)"
  using pool_put_wk by (simp add: pool_ok_def)

lemma pool_take:
  "pool_ok X v \<Longrightarrow> i < length (v_free v) \<Longrightarrow> v_free v ! i = f # fs \<Longrightarrow>
   pool_ok (add_mset f X) (v\<lparr>v_free := (v_free v)[i := fs]\<rparr>)"
  using pool_take_wk by (simp add: pool_ok_def)

lemma pool_new:
  assumes ok: "pool_ok X v" and "i < length (v_free v)" and "v_falloc v ! i < 512"
  shows "pool_ok (add_mset (v_nf v) X) (v_new i v)"
proof -
  have l: "length (v_act v) = NBUCKETS" using ok by (simp add: pool_ok_def pool_wk_def pool_lists_def)
  have "f < v_nf v" if "n < NBUCKETS" "f \<in> set (v_act v ! n)" for n f
    by (rule pool_old [OF ok]) (use that l in \<open>auto simp: homes_def actm_def\<close>)
  then have "hash_ok (v_new i v)" using ok by (fastforce simp: pool_ok_def hash_ok_def v_new_def)
  then show ?thesis using pool_new_wk assms by (simp add: pool_ok_def)
qed

lemma pool_tag:
  assumes ok: "pool_ok X v" and f: "f \<in># X"
  shows "pool_ok X (v\<lparr>v_tag := (v_tag v)(f := g)\<rparr>)"
proof -
  have l: "length (v_act v) = NBUCKETS" using ok by (simp add: pool_ok_def pool_wk_def pool_lists_def)
  have "hash_ok (v\<lparr>v_tag := (v_tag v)(f := g)\<rparr>)"
    using ok pool_inactive [OF ok f] l by (auto simp: pool_ok_def hash_ok_def)
  then show ?thesis using pool_tag_wk [OF pool_okD [OF ok] f] by (simp add: pool_ok_def)
qed

lemma pool_nout: "pool_ok X v \<Longrightarrow> length no = length (v_nout v) \<Longrightarrow> pool_ok X (v\<lparr>v_nout := no\<rparr>)"
  using pool_nout_wk by (simp add: pool_ok_def)

section \<open>Outstanding commands\<close>

lemma actm_same [simp]:
  "actm (v\<lparr>v_rex := r\<rparr>) = actm v" "actm (v\<lparr>v_free := fl\<rparr>) = actm v" "actm (v\<lparr>v_ioc := q\<rparr>) = actm v"
  "actm (v\<lparr>v_nout := no\<rparr>) = actm v" "actm (v\<lparr>v_tag := tgs\<rparr>) = actm v"
  by (simp_all add: actm_def)

lemma nout_same [simp]:
  "nout_ok A (v\<lparr>v_rex := r\<rparr>) = nout_ok A v" "nout_ok A (v\<lparr>v_free := fl\<rparr>) = nout_ok A v"
  "nout_ok A (v\<lparr>v_ioc := q\<rparr>) = nout_ok A v" "nout_ok A (v\<lparr>v_tag := tgs\<rparr>) = nout_ok A v"
  by (simp_all add: nout_ok_def)

lemma nout_put [simp]: "nout_ok A (v_put f v) = nout_ok A v"
  by (simp add: v_put_def Let_def)

lemma nout_new:
  assumes "pool_ok X v" and "set_mset A \<subseteq> set_mset (X + homes v)"
  shows "nout_ok A (v_new i v) = nout_ok A v"
proof -
  have "cnt (v_new i v) j (A + actm v) = cnt v j (A + actm v)" for j
    by (rule cnt_new) (use assms pool_old [OF assms(1)] in \<open>auto simp: homes_def\<close>)
  then show ?thesis by (simp add: nout_ok_def)
qed

lemma nout_hash:
  assumes "nout_ok (add_mset f A) v" and "length (v_act v) = NBUCKETS"
  shows "nout_ok A (v_hash f v)"
  using assms by (simp add: nout_ok_def v_hash_act cnt_def)

lemma nout_move: "actm v + A = actm w + B \<Longrightarrow> v_own w = v_own v \<Longrightarrow> v_addr w = v_addr v \<Longrightarrow>
    v_nout w = v_nout v \<Longrightarrow> nout_ok A v \<Longrightarrow> nout_ok B w"
  unfolding nout_ok_def cnt_def by (simp add: add.commute [of B] add.commute [of A])

lemma nout_inc:
  assumes "nout_ok A v" and "v_own v f = (v_addr v, i)"
  shows "nout_ok (add_mset f A) (v\<lparr>v_nout := (v_nout v)[i := v_nout v ! i + 1]\<rparr>)"
  using assms by (auto simp: nout_ok_def nth_list_update)

lemma nout_dec:
  assumes "nout_ok (add_mset f A) v" and "v_own v f = (v_addr v, i)"
  shows "nout_ok A (v\<lparr>v_nout := (v_nout v)[i := v_nout v ! i - 1]\<rparr>)"
  unfolding nout_ok_def
proof (intro allI impI)
  let ?w = "v\<lparr>v_nout := (v_nout v)[i := v_nout v ! i - 1]\<rparr>"
  fix j assume "j < length (v_nout ?w)"
  then show "v_nout ?w ! j = of_nat (cnt ?w j (A + actm ?w))"
    using assms by (cases "j = i") (auto simp: nout_ok_def)
qed

text \<open>The counter never wraps: it is the number of active frames, which \<open>falloc\<close> bounds.\<close>

lemma nout_exact:
  assumes "pool_ok X v" and "nout_ok {#} v" and "i < length (v_free v)"
  shows "unat (v_nout v ! i) = cnt v i (actm v) \<and> unat (v_nout v ! i) \<le> 512"
proof -
  have "cnt v i (actm v) \<le> cnt v i (X + homes v)" by (intro cnt_mono) (simp add: homes_def)
  moreover have "cnt v i (X + homes v) \<le> 512"
    using assms(1,3) by (simp add: pool_ok_def pool_wk_def pool_all_def del: cnt_plus)
  ultimately have "cnt v i (actm v) \<le> 512" by linarith
  moreover have "v_nout v ! i = of_nat (cnt v i (actm v))"
    using assms by (simp add: nout_ok_def pool_ok_def pool_wk_def pool_lists_def)
  ultimately show ?thesis by (simp add: unsigned_of_nat take_bit_nat_eq_self)
qed

end
