(* ===== verification/FrameInv.thy ===== *)
theory FrameInv
  imports Xmit Pool
begin

text \<open>
  The invariant of a device and what the sending side keeps of it.  \<open>view\<close> maps a state to the
  account of frames of \<open>Pool\<close>; updates that do not concern it rewrite away, and the others are
  moves of the account.  \<open>dev_ok X A s\<close> says that the account is right while the running code
  holds the frames \<open>X\<close>, of which \<open>A\<close> are already counted in \<open>nout\<close>, and that every target has an
  interface.
\<close>

section \<open>The account of a state\<close>

definition view :: "st \<Rightarrow> fv" where
  "view s = \<lparr>v_addr = d_addr (s_dev s), v_act = d_factive (s_dev s), v_rex = d_rexmitq (s_dev s),
     v_free = map t_ffree (tgts s), v_falloc = map t_falloc (tgts s), v_nout = map t_nout (tgts s),
     v_ioc = s_iocq s, v_nf = s_nframe s, v_own = (\<lambda>f. (f_d (fr s f), f_t (fr s f))),
     v_tag = (\<lambda>f. f_tag (fr s f))\<rparr>"

definition tgt_ok :: "aoetgt \<Rightarrow> bool" where
  "tgt_ok t \<longleftrightarrow> ifs_ok t \<and> nds t \<noteq> [] \<and> 0 \<le> t_taint t \<and> t_taint t \<le> MAX_TAINT"

definition tgts_ok :: "st \<Rightarrow> bool" where
  "tgts_ok s \<longleftrightarrow> list_all tgt_ok (tgts s) \<and> (tgts s \<noteq> [] \<longrightarrow> d_tgt (s_dev s) < length (tgts s))
     \<and> (tgts s = [] \<longrightarrow> d_tgt (s_dev s) = 0)
     \<and> 0 < d_ntargets (s_dev s) \<and> length (tgts s) \<le> d_ntargets (s_dev s) \<and> length (s_active s) = length (s_iocq s)"

definition dev_ok :: "nat multiset \<Rightarrow> nat multiset \<Rightarrow> st \<Rightarrow> bool" where
  "dev_ok X A s \<longleftrightarrow> pool_ok X (view s) \<and> nout_ok A (view s) \<and> tgts_ok s"

lemma NBUCKETS_NFACTIVE: "NBUCKETS = NFACTIVE"
  by (simp add: NBUCKETS_def NFACTIVE_def)

section \<open>Updates outside the account\<close>

lemma view_other [simp]:
  "view (upd_skb k g s) = view s" "view (upd_buf b g2 s) = view s" "view (upd_bio b g3 s) = view s"
  "view (upd_req r g4 s) = view s" "view (emit ev s) = view s" "view (snd (alloc e s)) = view s"
  "view (s\<lparr>s_skbs := sk\<rparr>) = view s" "view (s\<lparr>s_nskb := n\<rparr>) = view s"
  "view (s\<lparr>s_bufs := bu\<rparr>) = view s" "view (s\<lparr>s_nbuf := n\<rparr>) = view s"
  "view (s\<lparr>s_txq := q\<rparr>) = view s" "view (s\<lparr>s_ndref := nr\<rparr>) = view s"
  "view (s\<lparr>s_tick := tk\<rparr>) = view s" "view (s\<lparr>s_pages := pg\<rparr>) = view s" "view (s\<lparr>s_pgcnt := pc\<rparr>) = view s"
  "view (s\<lparr>s_active := ac\<rparr>) = view s"
  by (simp_all add: view_def)

lemma tgts_ok_other [simp]:
  "tgts_ok (upd_skb k g s) = tgts_ok s" "tgts_ok (upd_buf b g2 s) = tgts_ok s"
  "tgts_ok (upd_bio b g3 s) = tgts_ok s" "tgts_ok (upd_req r g4 s) = tgts_ok s"
  "tgts_ok (emit ev s) = tgts_ok s" "tgts_ok (snd (alloc e s)) = tgts_ok s"
  "tgts_ok (s\<lparr>s_skbs := sk\<rparr>) = tgts_ok s" "tgts_ok (s\<lparr>s_nskb := n\<rparr>) = tgts_ok s"
  "tgts_ok (s\<lparr>s_bufs := bu\<rparr>) = tgts_ok s" "tgts_ok (s\<lparr>s_nbuf := n\<rparr>) = tgts_ok s"
  "tgts_ok (s\<lparr>s_txq := q\<rparr>) = tgts_ok s" "tgts_ok (s\<lparr>s_ndref := nr\<rparr>) = tgts_ok s"
  "tgts_ok (s\<lparr>s_tick := tk\<rparr>) = tgts_ok s" "tgts_ok (s\<lparr>s_pages := pg\<rparr>) = tgts_ok s" "tgts_ok (s\<lparr>s_pgcnt := pc\<rparr>) = tgts_ok s"
  "tgts_ok (upd_fr f g5 s) = tgts_ok s" "tgts_ok (s\<lparr>s_frames := fs\<rparr>) = tgts_ok s"
  "tgts_ok (s\<lparr>s_nframe := n\<rparr>) = tgts_ok s"
  by (simp_all add: tgts_ok_def)

lemma view_upd_dev [simp]:
  "d_addr (g (s_dev s)) = d_addr (s_dev s) \<Longrightarrow> d_factive (g (s_dev s)) = d_factive (s_dev s) \<Longrightarrow>
   d_rexmitq (g (s_dev s)) = d_rexmitq (s_dev s) \<Longrightarrow> d_targets (g (s_dev s)) = d_targets (s_dev s) \<Longrightarrow>
   view (upd_dev g s) = view s"
  by (simp add: view_def)

lemma tgts_ok_upd_dev [simp]:
  "d_targets (g (s_dev s)) = d_targets (s_dev s) \<Longrightarrow> d_tgt (g (s_dev s)) = d_tgt (s_dev s) \<Longrightarrow>
   d_ntargets (g (s_dev s)) = d_ntargets (s_dev s) \<Longrightarrow> tgts_ok (upd_dev g s) = tgts_ok s"
  by (simp add: tgts_ok_def)

lemma map_update_same: "h (g (xs ! i)) = h (xs ! i) \<Longrightarrow> map h (xs[i := g (xs ! i)]) = map h xs"
  by (cases "i < length xs") (simp_all add: map_update list_update_same_conv list_update_beyond)

lemma view_upd_tgt [simp]:
  "t_ffree (g (tg s i)) = t_ffree (tg s i) \<Longrightarrow> t_falloc (g (tg s i)) = t_falloc (tg s i) \<Longrightarrow>
   t_nout (g (tg s i)) = t_nout (tg s i) \<Longrightarrow> view (upd_tgt i g s) = view s"
  by (simp add: view_def map_update_same)

lemma tgts_ok_upd_tgt:
  "tgts_ok s \<Longrightarrow> (i < length (tgts s) \<Longrightarrow> tgt_ok (tg s i) \<Longrightarrow> tgt_ok (g (tg s i))) \<Longrightarrow> tgts_ok (upd_tgt i g s)"
  by (cases "i < length (tgts s)")
    (auto simp: tgts_ok_def list_all_length nth_list_update)

lemma view_upd_fr [simp]:
  "f_d (g (fr s f)) = f_d (fr s f) \<Longrightarrow> f_t (g (fr s f)) = f_t (fr s f) \<Longrightarrow>
   f_tag (g (fr s f)) = f_tag (fr s f) \<Longrightarrow> view (upd_fr f g s) = view s"
  by (auto simp: view_def fun_eq_iff)

lemma view_sel [simp]:
  "v_addr (view s) = d_addr (s_dev s)" "v_act (view s) = d_factive (s_dev s)"
  "v_rex (view s) = d_rexmitq (s_dev s)" "v_free (view s) = map t_ffree (tgts s)"
  "v_falloc (view s) = map t_falloc (tgts s)" "v_nout (view s) = map t_nout (tgts s)"
  "v_ioc (view s) = s_iocq s" "v_nf (view s) = s_nframe s"
  "v_own (view s) f = (f_d (fr s f), f_t (fr s f))" "v_tag (view s) f = f_tag (fr s f)"
  by (simp_all add: view_def)

text \<open>A target keeps its invariant when only counters change.\<close>

lemma tgt_ok_cong:
  "t_ifs u = t_ifs t \<Longrightarrow> t_ifp u = t_ifp t \<Longrightarrow> t_taint u = t_taint t \<Longrightarrow> tgt_ok u = tgt_ok t"
  by (simp add: tgt_ok_def ifs_ok_def nds_def ifs_used_def)

lemma ifrotate_fields [simp]:
  "t_ffree (snd (ifrotate t)) = t_ffree t" "t_falloc (snd (ifrotate t)) = t_falloc t"
  "t_nout (snd (ifrotate t)) = t_nout t" "t_taint (snd (ifrotate t)) = t_taint t"
  "t_maxout (snd (ifrotate t)) = t_maxout t" "t_addr (snd (ifrotate t)) = t_addr t"
  "t_ifs (snd (ifrotate t)) = t_ifs t"
  by (simp_all add: ifrotate_def Let_def)

lemma tgt_ok_ifrotate: "tgt_ok t \<Longrightarrow> tgt_ok (snd (ifrotate t))"
  using ifrotate_keeps [of t] by (simp add: tgt_ok_def)

text \<open>With an interface left, rotation ends at an interface with a device.\<close>

lemma ifrotate_nd:
  assumes "tgt_ok t"
  shows "fst (ifrotate t)" and "cur_nd (snd (ifrotate t)) \<noteq> None"
proof -
  have ok: "ifs_ok t" and ne: "nds t \<noteq> []" using assms by (simp_all add: tgt_ok_def)
  have r: "ifrotate t = (True, t\<lparr>t_ifp := if t_ifp t + 1 < length (nds t) then t_ifp t + 1 else 0\<rparr>)"
    using ifrotate_some [OF ok ne] .
  then show "fst (ifrotate t)" by simp
  have "length (nds t) \<le> NAOEIFS" using nds_le [OF ok] .
  then show "cur_nd (snd (ifrotate t)) \<noteq> None"
    using used_nth [OF ok, of "if t_ifp t + 1 < length (nds t) then t_ifp t + 1 else 0"] ne r
    by (auto simp: NAOEIFS_def)
qed

lemma tgts_ok_nth: "tgts_ok s \<Longrightarrow> i < length (tgts s) \<Longrightarrow> tgt_ok (tg s i)"
  by (simp add: tgts_ok_def list_all_length)

section \<open>New frames\<close>

text \<open>What \<open>newtframe\<close> and \<open>newframe\<close> leave alone: everything but the socket buffers, the buffer
  pool, the free lists and the frames on them.\<close>

definition tcore :: "aoetgt \<Rightarrow> aoetgt" where
  "tcore t = t\<lparr>t_ffree := [], t_falloc := 0\<rparr>"

definition dcore :: "aoedev \<Rightarrow> aoedev" where
  "dcore d = d\<lparr>d_targets := map tcore (d_targets d), d_skbpool := [], d_nskbpool := 0\<rparr>"

definition score :: "st \<Rightarrow> st" where
  "score s = s\<lparr>s_dev := dcore (s_dev s), s_frames := (\<lambda>_. zero_frame), s_nframe := 0,
     s_skbs := (\<lambda>_. fresh_skb), s_nskb := 0, s_tick := 0\<rparr>"

definition chg :: "nat set \<Rightarrow> st \<Rightarrow> st \<Rightarrow> bool" where
  "chg S s s' \<longleftrightarrow> score s' = score s \<and> (\<forall>x. x \<notin> S \<longrightarrow> fr s' x = fr s x)"

definition fset :: "st \<Rightarrow> nat set" where
  "fset s = {x. x \<in># freem (view s) \<or> s_nframe s \<le> x}"

lemma chg_refl [simp]: "chg S s s"
  by (simp add: chg_def)

lemma chg_trans: "chg S s s' \<Longrightarrow> chg T s' s'' \<Longrightarrow> S \<subseteq> U \<Longrightarrow> T \<subseteq> U \<Longrightarrow> chg U s s''"
  unfolding chg_def by (metis subsetD)

lemma chg_mono: "chg S s s' \<Longrightarrow> S \<subseteq> U \<Longrightarrow> chg U s s'"
  unfolding chg_def by blast

lemma tcore_sel:
  assumes "tcore t = tcore u"
  shows "t_nout t = t_nout u" "t_maxout t = t_maxout u" "t_taint t = t_taint u" "t_ifs t = t_ifs u"
    "t_ifp t = t_ifp u" "t_addr t = t_addr u" "t_nout_probes t = t_nout_probes u" "tgt_ok t = tgt_ok u"
    "t_nframes t = t_nframes u" "t_minbcnt t = t_minbcnt u"
proof -
  have "t_nout (tcore t) = t_nout (tcore u)" "t_maxout (tcore t) = t_maxout (tcore u)"
    "t_taint (tcore t) = t_taint (tcore u)" "t_ifs (tcore t) = t_ifs (tcore u)"
    "t_ifp (tcore t) = t_ifp (tcore u)" "t_addr (tcore t) = t_addr (tcore u)"
    "t_nout_probes (tcore t) = t_nout_probes (tcore u)" "t_nframes (tcore t) = t_nframes (tcore u)"
    "t_minbcnt (tcore t) = t_minbcnt (tcore u)"
    using assms by (simp_all only:)
  then show "t_nout t = t_nout u" "t_maxout t = t_maxout u" "t_taint t = t_taint u" "t_ifs t = t_ifs u"
    "t_ifp t = t_ifp u" "t_addr t = t_addr u" "t_nout_probes t = t_nout_probes u" "tgt_ok t = tgt_ok u"
    "t_nframes t = t_nframes u" "t_minbcnt t = t_minbcnt u"
    by (simp_all add: tcore_def tgt_ok_cong [of t u])
qed

lemma score_sel:
  assumes "score s' = score s"
  shows "s_bufs s' = s_bufs s" "s_bios s' = s_bios s" "s_reqs s' = s_reqs s" "s_nbuf s' = s_nbuf s"
    "s_iocq s' = s_iocq s" "s_active s' = s_active s" "s_txq s' = s_txq s" "s_log s' = s_log s"
    "s_pages s' = s_pages s" "s_ndref s' = s_ndref s" "dcore (s_dev s') = dcore (s_dev s)"
    "s_pgcnt s' = s_pgcnt s"
  using assms by (cases s; cases s'; simp add: score_def)+

lemma dcore_sel:
  assumes "dcore d = dcore d'"
  shows "d_addr d = d_addr d'" "d_factive d = d_factive d'" "d_rexmitq d = d_rexmitq d'"
    "d_tgt d = d_tgt d'" "d_ntargets d = d_ntargets d'" "d_flags d = d_flags d'"
    "d_ip_buf d = d_ip_buf d'" "d_ip_rq d = d_ip_rq d'" "d_ip_nxbio d = d_ip_nxbio d'"
    "d_maxbcnt d = d_maxbcnt d'" "d_lasttag d = d_lasttag d'" "d_aoemajor d = d_aoemajor d'"
    "d_aoeminor d = d_aoeminor d'" "d_blkq d = d_blkq d'" "map tcore (d_targets d) = map tcore (d_targets d')"
  using assms by (cases d; cases d'; simp add: dcore_def)+

lemma list_all_tcore: "list_all tgt_ok (map tcore ts) = list_all tgt_ok ts"
proof -
  have "tgt_ok (tcore t) = tgt_ok t" for t by (rule tgt_ok_cong) (simp_all add: tcore_def)
  then show ?thesis by (simp add: list.pred_map o_def)
qed

lemma chg_map: "chg S s s' \<Longrightarrow> map tcore (tgts s') = map tcore (tgts s)"
  unfolding chg_def by (elim conjE) (rule dcore_sel(15) [OF score_sel(11)])

lemma chg_tgt:
  assumes "chg S s s'"
  shows "length (tgts s') = length (tgts s)" and "i < length (tgts s) \<Longrightarrow> tcore (tg s' i) = tcore (tg s i)"
proof -
  have m: "map tcore (tgts s') = map tcore (tgts s)" by (rule chg_map [OF assms])
  then show l: "length (tgts s') = length (tgts s)" by (metis length_map)
  show "i < length (tgts s) \<Longrightarrow> tcore (tg s' i) = tcore (tg s i)"
    using m l by (metis nth_map)
qed

lemma chg_tgts_ok:
  assumes "chg S s s'"
  shows "tgts_ok s' = tgts_ok s"
proof -
  have c: "score s' = score s" using assms by (simp add: chg_def)
  have "list_all tgt_ok (tgts s') = list_all tgt_ok (tgts s)"
    using chg_map [OF assms] list_all_tcore by metis
  moreover have "tgts s' = [] \<longleftrightarrow> tgts s = []" using chg_tgt(1) [OF assms] by (metis length_0_conv)
  ultimately show ?thesis
    unfolding tgts_ok_def score_sel(5,6) [OF c] dcore_sel(4,5) [OF score_sel(11) [OF c]] chg_tgt(1) [OF assms]
    by simp
qed

lemma score_upd [simp]:
  "score (upd_skb k g s) = score s" "score (snd (alloc e s)) = score s" "score (upd_fr f g2 s) = score s"
  "score (s\<lparr>s_skbs := sk\<rparr>) = score s" "score (s\<lparr>s_nskb := n\<rparr>) = score s"
  "score (s\<lparr>s_frames := fs\<rparr>) = score s" "score (s\<lparr>s_nframe := n\<rparr>) = score s"
  "score (s\<lparr>s_tick := n\<rparr>) = score s"
  by (simp_all add: score_def upd_defs alloc_def)

lemma score_upd_dev [simp]: "dcore (g (s_dev s)) = dcore (s_dev s) \<Longrightarrow> score (upd_dev g s) = score s"
  by (simp add: score_def upd_dev_def)

lemma score_upd_tgt [simp]: "tcore (g (tg s i)) = tcore (tg s i) \<Longrightarrow> score (upd_tgt i g s) = score s"
  by (simp add: score_def upd_tgt_def dcore_def map_update_same)

lemma new_skb_chg:
  assumes "new_skb e s = (r, s')"
  shows "chg {} s s'" and "view s' = view s"
    and "r = Some k \<Longrightarrow> sk_dataref (s_skbs s' k) = 1"
  using assms by (auto simp: new_skb_def alloc_def chg_def fresh_skb_def split: bool.splits)

lemma skb_pool_new_chg:
  assumes "skb_pool_new e s = (r, s')"
  shows "chg {} s s'" and "view s' = view s" and "r = Some k \<Longrightarrow> sk_dataref (s_skbs s' k) = 1"
proof -
  have "chg {} s s' \<and> view s' = view s \<and> (r = Some k \<longrightarrow> sk_dataref (s_skbs s' k) = 1)"
  proof (cases "d_nskbpool (s_dev s) < NSKBPOOLMAX")
    case True
    obtain r1 s1 where n: "new_skb e s = (r1, s1)" by fastforce
    note c = new_skb_chg [OF n]
    show ?thesis
      using assms True n c by (auto simp: skb_pool_new_def chg_def dcore_def split: option.splits)
  qed (use assms in \<open>auto simp: skb_pool_new_def\<close>)
  then show "chg {} s s'" and "view s' = view s" and "r = Some k \<Longrightarrow> sk_dataref (s_skbs s' k) = 1"
    by simp_all
qed

lemma skb_pool_get_chg:
  assumes "skb_pool_get e s = (r, s')"
  shows "chg {} s s'" and "view s' = view s" and "r = Some k \<Longrightarrow> sk_dataref (s_skbs s' k) = 1"
  using assms skb_pool_new_chg [of e s r s']
  by (auto simp: skb_pool_get_def chg_def dcore_def split: list.splits if_splits)

lemma freem_take: "i < length (tgts s) \<Longrightarrow> t_ffree (tg s i) = f # fs \<Longrightarrow> f \<in># freem (view s)"
  by (force simp: freem_def in_set_conv_nth)

text \<open>Updates of a free list, and the frame made by \<open>aoe_kcalloc\<close>.\<close>

lemma view_ffree:
  "i < length (tgts s) \<Longrightarrow> view (upd_tgt i (\<lambda>t. t\<lparr>t_ffree := fs\<rparr>) s) = (view s)\<lparr>v_free := (v_free (view s))[i := fs]\<rparr>"
  by (simp add: view_def map_update list_update_same_conv)

definition kcalloc_frame :: "nat \<Rightarrow> st \<Rightarrow> st" where
  "kcalloc_frame i s =
     upd_tgt i (\<lambda>t. t\<lparr>t_falloc := t_falloc t + 1\<rparr>)
       (s\<lparr>s_frames := (s_frames s)(s_nframe s := zero_frame\<lparr>f_d := d_addr (s_dev s), f_t := i\<rparr>),
          s_nframe := Suc (s_nframe s)\<rparr>)"

lemma view_kcalloc: "i < length (tgts s) \<Longrightarrow> view (kcalloc_frame i s) = v_new i (view s)"
  by (auto simp: kcalloc_frame_def view_def v_new_def map_update list_update_same_conv fun_eq_iff zero_frame_def)

lemma dev_okI: "pool_ok X (view s) \<Longrightarrow> nout_ok A (view s) \<Longrightarrow> tgts_ok s \<Longrightarrow> dev_ok X A s"
  by (simp add: dev_ok_def)

lemma dev_okD: "dev_ok X A s \<Longrightarrow> pool_ok X (view s) \<and> nout_ok A (view s) \<and> tgts_ok s"
  by (simp add: dev_ok_def)

lemma newtframe_get_cases:
  assumes "newtframe_get e i s = (r, s')"
  shows "(\<exists>f fs. t_ffree (tg s i) = f # fs \<and> r = Some f \<and> s' = upd_tgt i (\<lambda>t. t\<lparr>t_ffree := fs\<rparr>) s)
    \<or> (t_ffree (tg s i) = [] \<and> t_falloc (tg s i) < 512 \<and> r = Some (s_nframe s)
        \<and> s' = kcalloc_frame i (snd (alloc e s)))
    \<or> r = None \<and> (s' = s \<or> s' = snd (alloc e s))"
  using assms
  by (auto simp: newtframe_get_def kcalloc_frame_def alloc_def Let_def NSKBPOOLMAX_def
      split: list.splits if_splits bool.splits)

lemma newtframe_get_ok:
  assumes ok: "dev_ok X A s" and A: "set_mset A \<subseteq> set_mset (X + homes (view s))"
    and i: "i < length (tgts s)" and g: "newtframe_get e i s = (r, s')"
  shows "r = None \<Longrightarrow> dev_ok X A s'"
    and "r = Some f \<Longrightarrow> dev_ok (add_mset f X) A s' \<and> f_t (fr s' f) = i \<and> f \<in> fset s"
    and "chg (fset s) s s'"
proof -
  from newtframe_get_cases [OF g] consider
    (free) f fs where "t_ffree (tg s i) = f # fs" "r = Some f" "s' = upd_tgt i (\<lambda>t. t\<lparr>t_ffree := fs\<rparr>) s"
    | (new) "t_ffree (tg s i) = []" "t_falloc (tg s i) < 512" "r = Some (s_nframe s)"
      "s' = kcalloc_frame i (snd (alloc e s))"
    | (none) "r = None" "s' = s \<or> s' = snd (alloc e s)" by blast
  then have "(r = None \<longrightarrow> dev_ok X A s')
    \<and> (r = Some f \<longrightarrow> dev_ok (add_mset f X) A s' \<and> f_t (fr s' f) = i \<and> f \<in> fset s) \<and> chg (fset s) s s'" for f
  proof cases
    case (free f fs)
    have "pool_ok (add_mset f X) (view s')"
      using pool_take [of X "view s" i f fs] free ok i by (simp add: dev_ok_def view_ffree)
    moreover have "nout_ok A (view s')" using ok free i by (simp add: dev_ok_def view_ffree)
    moreover have c: "chg (fset s) s s'" using free by (simp add: chg_def tcore_def)
    moreover have "tgts_ok s'" using ok chg_tgts_ok [OF c] by (simp add: dev_ok_def)
    moreover have "f_t (fr s f) = i"
      using ok free i by (auto simp: dev_ok_def pool_ok_def pool_wk_def pool_lists_def)
    ultimately show ?thesis using free freem_take [OF i free(1)] by (auto simp: dev_ok_def fset_def)
  next
    case new
    have v: "view s' = v_new i (view s)" using new i by (simp add: view_kcalloc)
    have "pool_ok (add_mset (s_nframe s) X) (view s')"
      unfolding v using pool_new [of X "view s" i] new ok i by (simp add: dev_ok_def)
    moreover have "nout_ok A (view s')" unfolding v using ok nout_new [of X "view s" A i] A by (simp add: dev_ok_def)
    moreover have c: "chg (fset s) s s'" using new by (auto simp: chg_def kcalloc_frame_def tcore_def fset_def)
    moreover have "tgts_ok s'" using ok chg_tgts_ok [OF c] by (simp add: dev_ok_def)
    moreover have "f_t (fr s' (s_nframe s)) = i" using new by (simp add: kcalloc_frame_def)
    ultimately show ?thesis using new by (auto simp: dev_ok_def fset_def)
  next
    case none
    then show ?thesis using ok by (auto simp: dev_ok_def chg_def)
  qed
  then show "r = None \<Longrightarrow> dev_ok X A s'"
    and "r = Some f \<Longrightarrow> dev_ok (add_mset f X) A s' \<and> f_t (fr s' f) = i \<and> f \<in> fset s"
    and "chg (fset s) s s'" by blast+
qed

lemma newtframe_skb_chg:
  assumes "newtframe_skb e f s = (r, s')"
  shows "chg {f} s s'" and "view s' = view s"
    and "r = Some k \<Longrightarrow> f_skb (fr s' f) = Some k \<and> sk_dataref (s_skbs s' k) = 1"
    and "f_buf (fr s' f) = f_buf (fr s f) \<and> f_flags (fr s' f) = f_flags (fr s f)"
proof -
  define get where "get = (case f_skb (fr s f) of Some k \<Rightarrow> (Some k, s)
      | None \<Rightarrow> (case new_skb e s of (k, s1) \<Rightarrow> (k, upd_fr f (\<lambda>x. x\<lparr>f_skb := k\<rparr>) s1)))"
  obtain r1 s1 where g: "get = (r1, s1)" by fastforce
  have g1: "chg {f} s s1 \<and> view s1 = view s \<and> (\<forall>k. r1 = Some k \<longrightarrow> f_skb (fr s1 f) = Some k)
      \<and> f_buf (fr s1 f) = f_buf (fr s f) \<and> f_flags (fr s1 f) = f_flags (fr s f)"
  proof (cases "f_skb (fr s f)")
    case None
    obtain r0 s0 where n: "new_skb e s = (r0, s0)" by fastforce
    show ?thesis using g None n new_skb_chg [OF n] by (auto simp: get_def chg_def)
  next
    case (Some k)
    then show ?thesis using g by (auto simp: get_def)
  qed
  have "chg {f} s s' \<and> view s' = view s
      \<and> (r = Some k \<longrightarrow> f_skb (fr s' f) = Some k \<and> sk_dataref (s_skbs s' k) = 1)
      \<and> f_buf (fr s' f) = f_buf (fr s f) \<and> f_flags (fr s' f) = f_flags (fr s f)"
  proof (cases r1)
    case None
    then show ?thesis using assms g g1 by (auto simp: newtframe_skb_def get_def)
  next
    case (Some k1)
    show ?thesis
    proof (cases "sk_dataref (s_skbs s1 k1) = 1")
      case True
      then show ?thesis using assms g g1 Some by (auto simp: newtframe_skb_def get_def)
    next
      case False
      obtain r2 s2 where p: "skb_pool_get e s1 = (r2, s2)" by fastforce
      note c = skb_pool_get_chg [OF p]
      have "(r, s') = (case (r2, s2) of (None, s2) \<Rightarrow> (None, s2)
          | (Some k', s2) \<Rightarrow> (Some k', upd_fr f (\<lambda>x. x\<lparr>f_skb := Some k'\<rparr>) (skb_pool_put k1 s2)))"
        using assms g p False Some by (simp add: newtframe_skb_def flip: get_def)
      then show ?thesis
        using g1 c by (cases r2) (auto simp: skb_pool_put_def chg_def dcore_def)
    qed
  qed
  then show "chg {f} s s'" and "view s' = view s"
    and "r = Some k \<Longrightarrow> f_skb (fr s' f) = Some k \<and> sk_dataref (s_skbs s' k) = 1"
    and "f_buf (fr s' f) = f_buf (fr s f) \<and> f_flags (fr s' f) = f_flags (fr s f)"
    by simp_all
qed

text \<open>\<open>aoe_freetframe\<close>.\<close>

lemma view_freetframe:
  assumes "f_t (fr s f) < length (tgts s)"
  shows "view (aoe_freetframe f s) = v_put f (view s)"
proof -
  let ?g = "\<lambda>x. x\<lparr>f_buf := None, f_iter := zero_iter, f_r_skb := None, f_flags := 0\<rparr>"
  have "view (aoe_freetframe f s) = (view (upd_fr f ?g s))\<lparr>v_free :=
      (v_free (view s))[f_t (fr s f) := f # t_ffree (tg s (f_t (fr s f)))]\<rparr>"
    using assms by (simp add: aoe_freetframe_def view_def map_update list_update_same_conv)
  also have "view (upd_fr f ?g s) = view s" by simp
  finally show ?thesis using assms by (simp add: v_put_def Let_def)
qed

lemma freetframe_chg: "chg {f} s (aoe_freetframe f s)"
  by (simp add: aoe_freetframe_def chg_def tcore_def)

lemma freetframe_sel:
  "f_buf (fr (aoe_freetframe f s) f) = None" "f_flags (fr (aoe_freetframe f s) f) = 0"
  "f_t (fr (aoe_freetframe f s) x) = f_t (fr s x)" "s_nframe (aoe_freetframe f s) = s_nframe s"
  by (simp_all add: aoe_freetframe_def)

lemma dev_held: "dev_ok X A s \<Longrightarrow> f \<in># X \<Longrightarrow> f_d (fr s f) = d_addr (s_dev s) \<and> f_t (fr s f) < length (tgts s)"
  using pool_owned [of X "view s" f] by (simp add: dev_ok_def)

lemma dev_ok_free:
  assumes "dev_ok (add_mset f X) A s"
  shows "dev_ok X A (aoe_freetframe f s)"
proof (rule dev_okI)
  have v: "view (aoe_freetframe f s) = v_put f (view s)"
    by (rule view_freetframe) (use dev_held [OF assms, of f] in simp)
  then show "pool_ok X (view (aoe_freetframe f s))" using assms pool_put by (simp add: dev_ok_def)
  show "nout_ok A (view (aoe_freetframe f s))" using assms v by (simp add: dev_ok_def)
  show "tgts_ok (aoe_freetframe f s)"
    using assms chg_tgts_ok [OF freetframe_chg] by (simp add: dev_ok_def)
qed

lemma dev_ok_chg: "dev_ok X A s \<Longrightarrow> chg S s s' \<Longrightarrow> view s' = view s \<Longrightarrow> dev_ok X A s'"
  using chg_tgts_ok by (simp add: dev_ok_def)

lemma fset_view: "view s' = view s \<Longrightarrow> fset s' = fset s"
  unfolding fset_def by (metis view_sel(8))

lemma fset_get:
  assumes "newtframe_get e i s = (r, s')" and "i < length (tgts s)"
  shows "fset s' \<subseteq> fset s"
proof -
  have "fset s' \<subseteq> fset s" if "t_ffree (tg s i) = f # fs" "s' = upd_tgt i (\<lambda>t. t\<lparr>t_ffree := fs\<rparr>) s" for f fs
  proof -
    have "freem (view s) = add_mset f (freem (view s'))"
      using concat_update_pop [of i "v_free (view s)" f fs] that assms(2) by (simp add: freem_def view_ffree)
    then show ?thesis using that by (auto simp: fset_def)
  qed
  moreover have "fset (kcalloc_frame i (snd (alloc e s))) \<subseteq> fset s"
  proof -
    have "s_nframe (kcalloc_frame i (snd (alloc e s))) = Suc (s_nframe s)" by (simp add: kcalloc_frame_def)
    then show ?thesis using assms(2) by (auto simp: fset_def view_kcalloc freem_def)
  qed
  moreover have "fset (snd (alloc e s)) = fset s" by (rule fset_view) simp
  ultimately show ?thesis using newtframe_get_cases [OF assms(1)] by blast
qed

lemma fset_free: "f_t (fr s f) < length (tgts s) \<Longrightarrow> fset (aoe_freetframe f s) \<subseteq> insert f (fset s)"
  using concat_update_push [of "f_t (fr s f)" "map t_ffree (tgts s)" f]
  by (auto simp: fset_def view_freetframe freetframe_sel v_put_def freem_def Let_def
      dest: arg_cong [where f = set_mset])

lemma newtframe_ok:
  assumes ok: "dev_ok X A s" and A: "set_mset A \<subseteq> set_mset (X + homes (view s))"
    and i: "i < length (tgts s)" and n: "newtframe e i s = (r, s')"
  shows "r = None \<Longrightarrow> dev_ok X A s'"
    and "r = Some f \<Longrightarrow> dev_ok (add_mset f X) A s' \<and> f_t (fr s' f) = i \<and> f \<in> fset s
      \<and> (\<exists>k. f_skb (fr s' f) = Some k \<and> sk_dataref (s_skbs s' k) = 1)"
    and "chg (fset s) s s'" and "fset s' \<subseteq> fset s"
proof -
  obtain r1 s1 where g: "newtframe_get e i s = (r1, s1)" by fastforce
  note gok = newtframe_get_ok [OF ok A i g] and gf = fset_get [OF g i]
  have "(r = None \<longrightarrow> dev_ok X A s')
    \<and> (r = Some f \<longrightarrow> dev_ok (add_mset f X) A s' \<and> f_t (fr s' f) = i \<and> f \<in> fset s
        \<and> (\<exists>k. f_skb (fr s' f) = Some k \<and> sk_dataref (s_skbs s' k) = 1))
    \<and> chg (fset s) s s' \<and> fset s' \<subseteq> fset s" for f
  proof (cases r1)
    case None
    then show ?thesis using n g gok(1,3) gf by (simp add: newtframe_def)
  next
    case (Some f1)
    obtain r2 s2 where k: "newtframe_skb e f1 s1 = (r2, s2)" by fastforce
    note kok = newtframe_skb_chg [OF k]
    have o1: "dev_ok (add_mset f1 X) A s1" "f_t (fr s1 f1) = i" "f1 \<in> fset s"
      using gok(2) Some by auto
    have o2: "dev_ok (add_mset f1 X) A s2" using dev_ok_chg [OF o1(1) kok(1,2)] .
    have ft: "f_t (fr s2 f1) = i" using o1(2) arg_cong [OF kok(2), of "\<lambda>v. v_own v f1"] by simp
    have c2: "chg (fset s) s s2" using chg_trans [OF gok(3) kok(1)] o1(3) by blast
    have f2: "fset s2 \<subseteq> fset s" using fset_view [OF kok(2)] gf by simp
    have i2: "i < length (tgts s2)" using chg_tgt(1) [OF c2] i by simp
    show ?thesis
    proof (cases r2)
      case None
      then have s': "r = None" "s' = aoe_freetframe f1 s2" using n g Some k by (simp_all add: newtframe_def)
      moreover have "chg (fset s) s s'" using chg_trans [OF c2 freetframe_chg [of f1 s2]] o1(3) s' by blast
      moreover have "fset s' \<subseteq> fset s" using fset_free [of s2 f1] ft i2 f2 o1(3) s' by blast
      ultimately show ?thesis using dev_ok_free [OF o2] by simp
    next
      case (Some k)
      then have s': "r = Some f1" "s' = upd_skb k skb_reset s2"
        using n g \<open>r1 = Some f1\<close> \<open>newtframe_skb e f1 s1 = (r2, s2)\<close> by (simp_all add: newtframe_def)
      moreover have "chg (fset s) s s'" using c2 s' by (simp add: chg_def)
      moreover have "fset s' = fset s2" using s' by (intro fset_view) simp
      moreover have "dev_ok (add_mset f1 X) A s'" using o2 s' by (simp add: dev_ok_def)
      ultimately show ?thesis
        using kok(3) [OF Some] ft f2 o1(3) by (auto simp: skb_reset_def)
    qed
  qed
  then show "r = None \<Longrightarrow> dev_ok X A s'"
    and "r = Some f \<Longrightarrow> dev_ok (add_mset f X) A s' \<and> f_t (fr s' f) = i \<and> f \<in> fset s
      \<and> (\<exists>k. f_skb (fr s' f) = Some k \<and> sk_dataref (s_skbs s' k) = 1)"
    and "chg (fset s) s s'" and "fset s' \<subseteq> fset s" by blast+
qed

section \<open>The choice of a target\<close>

lemma chg_homes:
  assumes "chg S s s'"
  shows "actm (view s') = actm (view s)" "d_rexmitq (s_dev s') = d_rexmitq (s_dev s)" "iocm (view s') = iocm (view s)"
  using score_sel(5) dcore_sel(2,3) score_sel(11) assms unfolding chg_def actm_def iocm_def view_sel
  by metis+

text \<open>The frames already counted are held, or sit where \<open>newtframe\<close> does not take from.\<close>

definition counted :: "nat multiset \<Rightarrow> nat multiset \<Rightarrow> st \<Rightarrow> bool" where
  "counted X A s \<longleftrightarrow> set_mset A \<subseteq> set_mset (X + actm (view s) + mset (d_rexmitq (s_dev s)) + iocm (view s))"

lemma counted_homes: "counted X A s \<Longrightarrow> set_mset A \<subseteq> set_mset (X + homes (view s))"
  by (auto simp: counted_def homes_def)

lemma counted_chg: "chg S s s' \<Longrightarrow> counted X A s' = counted X A s"
  using chg_homes [of S s s'] by (simp add: counted_def)

lemma counted_empty [simp]: "counted X {#} s"
  by (simp add: counted_def)

text \<open>A frame from \<open>newframe\<close>: it belongs to the target now in use, which has window room and an
  interface, and its buffer is shared with no clone.\<close>

definition got_frame :: "st \<Rightarrow> nat \<Rightarrow> st \<Rightarrow> bool" where
  "got_frame s f s' \<longleftrightarrow>
     (\<exists>s1 i. chg (fset s) s s1 \<and> s' = upd_dev (\<lambda>d. d\<lparr>d_tgt := i\<rparr>) (upd_tgt i (\<lambda>t. snd (ifrotate t)) s1)
        \<and> i < length (tgts s) \<and> f_t (fr s' f) = i \<and> t_nout (tg s i) < t_maxout (tg s i)) \<and> f \<in> fset s
        \<and> (\<exists>k. f_skb (fr s' f) = Some k \<and> sk_dataref (s_skbs s' k) = 1)"

definition tgt_dist :: "nat \<Rightarrow> nat \<Rightarrow> nat \<Rightarrow> nat" where
  "tgt_dist n tt g = (if tt < g then g - tt else n - tt + g)"

lemma tgt_try_ok:
  assumes ok: "dev_ok X A s" and A: "counted X A s" and i: "i < length (tgts s)"
    and r: "tgt_try e ut i s = (r, s1)"
  shows "r = None \<Longrightarrow> dev_ok X A s1" and "chg (fset s) s s1" and "fset s1 \<subseteq> fset s"
    and "r = Some f \<Longrightarrow> newtframe e i s = (Some f, s1) \<and> t_nout (tg s i) < t_maxout (tg s i)"
    and "d_tgt (s_dev s1) = d_tgt (s_dev s)" and "length (tgts s1) = length (tgts s)"
    and "counted X A s1"
proof -
  have c: "(r = None \<longrightarrow> dev_ok X A s1) \<and> chg (fset s) s s1 \<and> fset s1 \<subseteq> fset s"
  proof (cases "newtframe e i s = (r, s1)")
    case True
    then show ?thesis using newtframe_ok [OF ok counted_homes [OF A] i True] by simp
  qed (use ok r in \<open>auto simp: tgt_try_def Let_def split: if_splits\<close>)
  then show "r = None \<Longrightarrow> dev_ok X A s1" and cc: "chg (fset s) s s1" and "fset s1 \<subseteq> fset s" by simp_all
  show "r = Some f \<Longrightarrow> newtframe e i s = (Some f, s1) \<and> t_nout (tg s i) < t_maxout (tg s i)"
    using r by (simp add: tgt_try_def Let_def split: if_splits)
  show "d_tgt (s_dev s1) = d_tgt (s_dev s)"
    using cc dcore_sel(4) [OF score_sel(11)] unfolding chg_def by blast
  show "length (tgts s1) = length (tgts s)" by (rule chg_tgt(1) [OF cc])
  show "counted X A s1" using A counted_chg [OF cc] by simp
qed

lemma tgt_next_ok:
  assumes "dev_ok X A s" and "tt < length (tgts s)"
  shows "tgt_next tt s = (if tt + 1 = length (tgts s) then 0 else tt + 1)" and "tgt_next tt s < length (tgts s)"
proof -
  have "length (tgts s) \<le> d_ntargets (s_dev s)" using assms(1) by (simp add: dev_ok_def tgts_ok_def)
  then show "tgt_next tt s = (if tt + 1 = length (tgts s) then 0 else tt + 1)"
    and "tgt_next tt s < length (tgts s)"
    using assms(2) by (auto simp: tgt_next_def)
qed

lemma dev_ok_upd_tgt:
  assumes "dev_ok X A s" and "view (upd_tgt i g s) = view s"
    and "i < length (tgts s) \<Longrightarrow> tgt_ok (tg s i) \<Longrightarrow> tgt_ok (g (tg s i))"
  shows "dev_ok X A (upd_tgt i g s)"
  using assms tgts_ok_upd_tgt [of s i g] by (simp add: dev_ok_def)

lemma newframe_found:
  assumes ok: "dev_ok X A s" and A: "counted X A s" and i: "i < length (tgts s)"
    and n: "newtframe e i s = (Some f, s1)" and c: "chg S s0 s" "S \<subseteq> fset s0" "fset s \<subseteq> fset s0"
    and w: "t_nout (tg s i) < t_maxout (tg s i)"
  defines "s' \<equiv> upd_dev (\<lambda>d. d\<lparr>d_tgt := i\<rparr>) (upd_tgt i (\<lambda>t. snd (ifrotate t)) s1)"
  shows "dev_ok (add_mset f X) A s'" and "got_frame s0 f s'" and "fset s' \<subseteq> fset s0"
proof -
  note nok = newtframe_ok [OF ok counted_homes [OF A] i n]
  have n2: "dev_ok (add_mset f X) A s1" "f_t (fr s1 f) = i" "f \<in> fset s"
    "\<exists>k. f_skb (fr s1 f) = Some k \<and> sk_dataref (s_skbs s1 k) = 1"
    using nok(2) [OF refl] by auto
  have l: "length (tgts s1) = length (tgts s)" using chg_tgt(1) [OF nok(3)] .
  have "dev_ok (add_mset f X) A (upd_tgt i (\<lambda>t. snd (ifrotate t)) s1)"
    by (rule dev_ok_upd_tgt [OF n2(1)]) (simp_all add: tgt_ok_ifrotate)
  then show "dev_ok (add_mset f X) A s'"
    using i l by (auto simp: dev_ok_def s'_def tgts_ok_def)
  have "chg (fset s0) s0 s1" using chg_trans [OF c(1) nok(3)] c(2,3) by blast
  moreover have "i < length (tgts s0)" using chg_tgt(1) [OF c(1)] i by simp
  moreover have "t_nout (tg s0 i) < t_maxout (tg s0 i)"
    using w chg_tgt(2) [OF c(1)] \<open>i < length (tgts s0)\<close> tcore_sel(1,2) by metis
  ultimately show "got_frame s0 f s'"
    using n2 c(3) unfolding got_frame_def s'_def by auto
  have "fset s' = fset s1" unfolding s'_def by (rule fset_view) simp
  then show "fset s' \<subseteq> fset s0" using nok(4) c(3) by blast
qed

lemma newframe_loop_ok:
  assumes "dev_ok X A s" and "counted X A s" and "tt < length (tgts s)"
    and "chg (fset s0) s0 s" and "fset s \<subseteq> fset s0"
    and "newframe_loop e n tt ut hu tot s = Some ((r, tot'), s')"
  shows "(r = None \<longrightarrow> dev_ok X A s' \<and> chg (fset s0) s0 s')
    \<and> (\<forall>f. r = Some f \<longrightarrow> dev_ok (add_mset f X) A s' \<and> got_frame s0 f s') \<and> fset s' \<subseteq> fset s0"
  using assms
proof (induction n arbitrary: tt ut hu tot s)
  case 0
  then show ?case by simp
next
  case (Suc n)
  let ?i = "tgt_next tt s"
  have i: "?i < length (tgts s)" by (rule tgt_next_ok(2) [OF Suc.prems(1,3)])
  obtain r1 s1 where r: "tgt_try e ut ?i s = (r1, s1)" by fastforce
  note t = tgt_try_ok [OF Suc.prems(1,2) i r]
  have c: "chg (fset s0) s0 s1" "fset s1 \<subseteq> fset s0"
    using chg_trans [OF Suc.prems(4) t(2)] Suc.prems(5) t(3) by blast+
  show ?case
  proof (cases r1)
    case None
    have i1: "?i < length (tgts s1)" using i t(6) by simp
    note ih = Suc.IH [OF t(1) [OF None] t(7) i1 c]
    from Suc.prems(6) r None consider (again) hu1 tot1 ut1 where
        "newframe_loop e n ?i ut1 hu1 tot1 s1 = Some ((r, tot'), s')"
      | (stop) "r = None" "s' = s1" by (auto simp: Let_def split: if_splits)
    then show ?thesis
    proof cases
      case again
      then show ?thesis by (rule ih)
    next
      case stop
      then show ?thesis using t(1) [OF None] c by simp
    qed
  next
    case (Some f)
    have "r = Some f" and
      "s' = upd_dev (\<lambda>d. d\<lparr>d_tgt := ?i\<rparr>) (upd_tgt ?i (\<lambda>t. snd (ifrotate t)) s1)"
      using Suc.prems(6) r Some by (simp_all add: Let_def)
    moreover have "newtframe e ?i s = (Some f, s1)" "t_nout (tg s ?i) < t_maxout (tg s ?i)"
      using t(4) [OF Some] by simp_all
    note nf = newframe_found [OF Suc.prems(1,2) i this(1) Suc.prems(4) subset_refl Suc.prems(5) this(2)]
    ultimately show ?thesis using nf by simp
  qed
qed

text \<open>Enough fuel: a round and the rest of the current one.\<close>

lemma newframe_loop_total:
  assumes "dev_ok X A s" and "counted X A s" and "tt < length (tgts s)"
    and "d_tgt (s_dev s) = g" and "g < length (tgts s)" and "length (tgts s) = m"
    and "tgt_dist m tt g + (if ut then 0 else m) \<le> n"
  shows "newframe_loop e n tt ut hu tot s \<noteq> None"
  using assms
proof (induction n arbitrary: tt ut hu tot s)
  case 0
  then show ?case by (auto simp: tgt_dist_def split: if_splits)
next
  case (Suc n)
  let ?i = "tgt_next tt s"
  note nx = tgt_next_ok [OF Suc.prems(1,3)]
  obtain r1 s1 where r: "tgt_try e ut ?i s = (r1, s1)" by fastforce
  note t = tgt_try_ok [OF Suc.prems(1,2) nx(2) r]
  show ?case
  proof (cases r1)
    case (Some f)
    then show ?thesis using r by (simp add: Let_def)
  next
    case None
    have l: "?i < length (tgts s1)" "d_tgt (s_dev s1) = g" "g < length (tgts s1)" "length (tgts s1) = m"
      using nx(2) t(5,6) Suc.prems(4-6) by simp_all
    note ih = Suc.IH [OF t(1) [OF None] t(7) l]
    show ?thesis
    proof (cases "?i = g")
      case True
      have "tgt_dist m ?i g = m" using True Suc.prems(5,6) by (simp add: tgt_dist_def)
      moreover have "tgt_dist m tt g \<ge> 1" using Suc.prems(3,5,6) by (auto simp: tgt_dist_def)
      ultimately have "newframe_loop e n ?i True hu1 tot1 s1 \<noteq> None" if "\<not> ut" for hu1 tot1
        using ih [of True] Suc.prems(7) that by auto
      then show ?thesis using r None True l(2) by (auto simp: Let_def)
    next
      case False
      have "tgt_dist m tt g = Suc (tgt_dist m ?i g)"
        using False nx Suc.prems(3,5,6) by (auto simp: tgt_dist_def split: if_splits)
      then have "newframe_loop e n ?i ut hu1 tot1 s1 \<noteq> None" for hu1 tot1
        using ih [of ut] Suc.prems(7) by auto
      then show ?thesis using r None False l(2) by (auto simp: Let_def)
    qed
  qed
qed

text \<open>\<open>newframe\<close> returns: with a frame of the target now in use, or without and then only
  \<open>kicked\<close> and \<open>KICKME\<close> may change besides the free lists.\<close>

lemma newframe_returns:
  assumes "dev_ok X A s" and "counted X A s" and "tgts s \<noteq> []"
  shows "newframe_loop e (2 * length (tgts s)) (d_tgt (s_dev s)) False False 0 s \<noteq> None"
proof -
  have g: "d_tgt (s_dev s) < length (tgts s)" using assms by (simp add: dev_ok_def tgts_ok_def)
  show ?thesis
    by (rule newframe_loop_total [OF assms(1,2) g refl g refl]) (use g in \<open>simp add: tgt_dist_def\<close>)
qed

definition no_frame :: "st \<Rightarrow> st \<Rightarrow> bool" where
  "no_frame s s' \<longleftrightarrow> (\<exists>s1 k fl. chg (fset s) s s1 \<and> s' = upd_dev (\<lambda>d. d\<lparr>d_kicked := k, d_flags := fl\<rparr>) s1
      \<and> (fl = d_flags (s_dev s) \<or> fl = setfl (d_flags (s_dev s)) DEVFL_KICKME))"

lemma no_frame_chg: "chg (fset s) s s1 \<Longrightarrow> no_frame s s1"
proof -
  assume c: "chg (fset s) s s1"
  have "d_flags (s_dev s1) = d_flags (s_dev s)"
    using c dcore_sel(6) [OF score_sel(11)] unfolding chg_def by blast
  moreover have "s1 = upd_dev (\<lambda>d. d\<lparr>d_kicked := d_kicked (s_dev s1), d_flags := d_flags (s_dev s1)\<rparr>) s1"
    by (simp add: upd_dev_def)
  ultimately show ?thesis using c unfolding no_frame_def by metis
qed

lemma newframe_ok:
  assumes ok: "dev_ok X A s" and A: "counted X A s" and n: "newframe e s = (r, s')"
  shows "r = None \<Longrightarrow> dev_ok X A s' \<and> no_frame s s'"
    and "r = Some f \<Longrightarrow> dev_ok (add_mset f X) A s' \<and> got_frame s f s'"
    and "fset s' \<subseteq> fset s"
proof -
  have "(r = None \<longrightarrow> dev_ok X A s' \<and> no_frame s s')
    \<and> (r = Some f \<longrightarrow> dev_ok (add_mset f X) A s' \<and> got_frame s f s') \<and> fset s' \<subseteq> fset s"
  proof (cases "tgts s = []")
    case True
    then have "r = None" "s' = s" using n by (simp_all add: newframe_def)
    then show ?thesis using ok no_frame_chg [OF chg_refl] by auto
  next
    case False
    have g: "d_tgt (s_dev s) < length (tgts s)" using ok False by (simp add: dev_ok_def tgts_ok_def)
    obtain r1 tot s1 where l: "newframe_loop e (2 * length (tgts s)) (d_tgt (s_dev s)) False False 0 s = Some ((r1, tot), s1)"
      using newframe_returns [OF ok A False] by fastforce
    note lo = newframe_loop_ok [OF ok A g chg_refl subset_refl l]
    show ?thesis
    proof (cases r1)
      case (Some f1)
      then have "r = Some f1" "s' = s1" using n l False by (simp_all add: newframe_def)
      then show ?thesis using lo Some by auto
    next
      case None
      have fl: "d_flags (s_dev s1) = d_flags (s_dev s)"
        using lo None dcore_sel(6) [OF score_sel(11)] unfolding chg_def by blast
      let ?u = "upd_dev (\<lambda>d. d\<lparr>d_kicked := d_kicked d + 1, d_flags := setfl (d_flags d) DEVFL_KICKME\<rparr>) s1"
      have s': "r = None" "s' = (if tot = 0 then ?u else s1)" using n l False None by (simp_all add: newframe_def)
      have u: "?u = upd_dev (\<lambda>d. d\<lparr>d_kicked := d_kicked (s_dev s1) + 1, d_flags := setfl (d_flags (s_dev s)) DEVFL_KICKME\<rparr>) s1"
        using fl by (simp add: upd_dev_def)
      have v: "view s' = view s1" and t: "tgts_ok s' = tgts_ok s1" using s' by simp_all
      have "no_frame s s'"
      proof (cases "tot = 0")
        case True
        then have "s' = upd_dev (\<lambda>d. d\<lparr>d_kicked := d_kicked (s_dev s1) + 1, d_flags := setfl (d_flags (s_dev s)) DEVFL_KICKME\<rparr>) s1"
          using s'(2) u by simp
        then show ?thesis unfolding no_frame_def using lo None by blast
      qed (use lo None s'(2) no_frame_chg in simp)
      then show ?thesis using lo None s'(1) v t fset_view [OF v] by (simp add: dev_ok_def)
    qed
  qed
  then show "r = None \<Longrightarrow> dev_ok X A s' \<and> no_frame s s'"
    and "r = Some f \<Longrightarrow> dev_ok (add_mset f X) A s' \<and> got_frame s f s'" and "fset s' \<subseteq> fset s"
    by simp_all
qed

end
