(* ===== verification/Ledger.thy ===== *)
theory Ledger
  imports Xmit
begin

text \<open>
  What sending leaves alone.  The fields of a device that name it, decide over its life and count
  its references, up to the flag \<open>DEVFL_KICKME\<close>, are the same after every function that builds,
  sends or resends a command, and so are the completion queues, unless \<open>resend\<close> finds no interface.
\<close>

definition lv :: "aoedev \<Rightarrow> u16 \<times> gendisk option \<times> bool \<times> int \<times> u16 \<times> u64 \<times> u16 \<times> nat \<times> nat" where
  "lv d = (clrfl (d_flags d) DEVFL_KICKME, d_gd d, d_blkq d = None, d_ref d, d_nopen d, d_aoemajor d,
     d_aoeminor d, d_sysminor d, d_addr d)"

definition lb :: "st \<Rightarrow> _" where
  "lb s = (lv (s_dev s), s_iocq s)"

lemma lv_targets [simp]: "lv (d\<lparr>d_targets := ts\<rparr>) = lv d"
  by (simp add: lv_def)

lemma lb_eq: "lb s' = lb s \<longleftrightarrow> lv (s_dev s') = lv (s_dev s) \<and> s_iocq s' = s_iocq s"
  by (simp add: lb_def)

lemma lb_lv: "lb s' = lb s \<Longrightarrow> lv (s_dev s') = lv (s_dev s)"
  and lb_ioc: "lb s' = lb s \<Longrightarrow> s_iocq s' = s_iocq s"
  by (simp_all add: lb_def)

lemma lb_upd [simp]:
  "lb (upd_skb k g s) = lb s" "lb (upd_fr f g1 s) = lb s" "lb (upd_tgt i g2 s) = lb s" "lb (upd_buf b g3 s) = lb s"
  "lb (upd_bio b g4 s) = lb s" "lb (upd_req r g5 s) = lb s" "lb (emit ev s) = lb s" "lb (snd (alloc e s)) = lb s"
  "lb (aoenet_xmit sl s) = lb s" "lb (s\<lparr>s_tick := t\<rparr>) = lb s" "lb (s\<lparr>s_skbs := sk\<rparr>) = lb s" "lb (s\<lparr>s_nskb := n\<rparr>) = lb s"
  "lb (s\<lparr>s_frames := fs\<rparr>) = lb s" "lb (s\<lparr>s_nframe := n\<rparr>) = lb s" "lb (s\<lparr>s_bufs := bu\<rparr>) = lb s" "lb (s\<lparr>s_nbuf := n\<rparr>) = lb s"
  "lb (s\<lparr>s_ndref := nr\<rparr>) = lb s" "lb (s\<lparr>s_pages := pg\<rparr>) = lb s" "lb (s\<lparr>s_pgcnt := pc\<rparr>) = lb s"
  by (simp_all add: lb_def lv_def alloc_def aoenet_xmit_def)

lemma lb_upd_dev: "lv (g (s_dev s)) = lv (s_dev s) \<Longrightarrow> lb (upd_dev g s) = lb s"
  by (simp add: lb_def)

lemma kickme_masked [simp]:
  "clrfl (setfl w DEVFL_KICKME) DEVFL_KICKME = clrfl w DEVFL_KICKME"
  "clrfl (clrfl w DEVFL_KICKME) DEVFL_KICKME = clrfl w DEVFL_KICKME"
  by (auto simp: clrfl_def setfl_def intro!: bit_eqI simp: bit_simps)

lemma lb_new_skb [simp]: "lb (snd (new_skb e s)) = lb s"
  by (simp add: new_skb_def alloc_def split: bool.split)

lemma lb_pool_new [simp]: "lb (snd (skb_pool_new e s)) = lb s"
  using lb_new_skb [of e s]
  by (auto simp: skb_pool_new_def lb_def lv_def split: prod.splits option.splits simp del: lb_new_skb)

lemma lb_pool_get [simp]: "lb (snd (skb_pool_get e s)) = lb s"
  by (auto simp: skb_pool_get_def lb_upd_dev lv_def split: list.splits)

lemma lb_pool_put [simp]: "lb (skb_pool_put k s) = lb s"
  by (simp add: skb_pool_put_def lb_upd_dev lv_def)

lemma lb_clone [simp]: "lb (snd (skb_clone e k s)) = lb s"
  by (simp add: skb_clone_def alloc_def split: bool.split)

lemma lb_freetframe [simp]: "lb (aoe_freetframe f s) = lb s"
  by (simp add: aoe_freetframe_def)

lemma lb_newtframe_get [simp]: "lb (snd (newtframe_get e i s)) = lb s"
  by (simp add: newtframe_get_def alloc_def Let_def split: list.split bool.split)

lemma lb_newtframe_skb [simp]: "lb (snd (newtframe_skb e f s)) = lb s"
proof -
  obtain k s1 where n: "new_skb e s = (k, s1)" by fastforce
  then have 1: "lb s1 = lb s" using lb_new_skb [of e s] by simp
  have p: "lb s3 = lb s2" if "skb_pool_get e s2 = (r, s3)" for r s2 s3 using lb_pool_get [of e s2] that by simp
  show ?thesis
    using 1 by (auto simp: newtframe_skb_def n split: option.splits prod.splits dest!: p)
qed

lemma lb_newtframe [simp]: "lb (snd (newtframe e i s)) = lb s"
proof -
  have g: "lb s1 = lb s" if "newtframe_get e i s = (r, s1)" for r s1 using lb_newtframe_get [of e i s] that by simp
  have k: "lb s2 = lb s1" if "newtframe_skb e f s1 = (r, s2)" for r f s1 s2 using lb_newtframe_skb [of e f s1] that by simp
  show ?thesis by (auto simp: newtframe_def split: prod.splits option.splits dest!: g k)
qed

lemma lb_tgt_try [simp]: "lb (snd (tgt_try e u i s)) = lb s"
  by (simp add: tgt_try_def Let_def)

lemma lb_newframe_loop: "newframe_loop e n tt ut hu tot s = Some (r, s') \<Longrightarrow> lb s' = lb s"
proof (induction n arbitrary: tt ut hu tot s)
  case (Suc n)
  obtain f s1 where t: "tgt_try e ut (tgt_next tt s) s = (f, s1)" by fastforce
  then have 1: "lb s1 = lb s" using lb_tgt_try [of e ut "tgt_next tt s" s] by simp
  have "lb (upd_dev (\<lambda>d. d\<lparr>d_tgt := j\<rparr>) x) = lb x" for j x by (rule lb_upd_dev) (simp add: lv_def)
  with Suc t 1 show ?case by (auto simp: Let_def split: option.splits if_splits)
qed simp

lemma lb_newframe [simp]: "lb (snd (newframe e s)) = lb s"
proof -
  have "lb (upd_dev (\<lambda>d. d\<lparr>d_kicked := d_kicked d + 1, d_flags := setfl (d_flags d) DEVFL_KICKME\<rparr>) x) = lb x" for x
    by (rule lb_upd_dev) (simp add: lv_def)
  then show ?thesis by (auto simp: newframe_def split: option.splits dest!: lb_newframe_loop)
qed

lemma lb_fhash [simp]: "lb (fhash f s) = lb s"
  by (simp add: fhash_def Let_def lb_upd_dev lv_def)

lemma lb_deref_nd [simp]: "lb (deref_nd i s) = lb s"
  by (simp add: deref_nd_def)

lemma lb_atainit [simp]: "lb (snd (aoehdr_atainit e i k s)) = lb s"
  by (simp add: aoehdr_atainit_def Let_def split_def lb_upd_dev lv_def)

lemma lb_if [simp]: "lb s1 = lb s \<Longrightarrow> lb s2 = lb s \<Longrightarrow> lb (if b then s1 else s2) = lb s"
  by simp

lemma lb_frameinit [simp]: "lb (ata_rw_frameinit e f s) = lb s"
  by (simp add: ata_rw_frameinit_def Let_def split_def)

lemma lb_xmit_frame [simp]: "lb (xmit_frame e f s) = lb s"
proof -
  obtain p s1 where c: "skb_clone e (the (f_skb (fr s f))) s = (p, s1)" by fastforce
  then have "lb s1 = lb s" using lb_clone [of e "the (f_skb (fr s f))" s] by simp
  then show ?thesis by (simp add: xmit_frame_def c split: option.split)
qed

lemma lb_frame_take [simp]: "lb (frame_take e f b s) = lb s"
  by (simp add: frame_take_def Let_def lb_upd_dev lv_def)

lemma lb_nextbuf [simp]: "lb (snd (nextbuf e s)) = lb s"
proof (cases "d_blkq (s_dev s)")
  case (Some q)
  have n: "lb s1 = lb s" if "nextrq q s = Some (r, s1)" for r s1
    using that Some by (auto simp: nextrq_def lb_upd_dev lv_def split: option.splits list.splits)
  have "lb (upd_dev (\<lambda>d. d\<lparr>d_ip_nxbio := bs, d_ip_rq := h d, d_ip_buf := k\<rparr>) x) = lb x" for bs h k x
    by (rule lb_upd_dev) (simp add: lv_def)
  then show ?thesis
    using Some by (auto simp: nextbuf_def bufinit_def bio_pageinc_def alloc_def Let_def split: option.splits list.splits bool.splits dest!: n)
qed (simp add: nextbuf_def)

lemma lb_ata_rw [simp]: "lb (snd (aoecmd_ata_rw e s)) = lb s"
proof -
  have b: "lb s1 = lb s" if "nextbuf e s = (r, s1)" for r s1 using lb_nextbuf [of e s] that by simp
  have f: "lb s2 = lb s1" if "newframe e s1 = (r, s2)" for r s1 s2 using lb_newframe [of e s1] that by simp
  show ?thesis by (auto simp: aoecmd_ata_rw_def split: prod.splits option.splits dest!: b f)
qed

lemma lb_ata_id [simp]: "lb (snd (aoecmd_ata_id e s)) = lb s"
proof -
  have f: "lb s1 = lb s" if "newframe e s = (r, s1)" for r s1 using lb_newframe [of e s] that by simp
  have c: "lb x2 = lb x1" if "skb_clone e k x1 = (r, x2)" for r k x1 x2 using lb_clone [of e k x1] that by simp
  have a: "lb x2 = lb x1" if "aoehdr_atainit e i k x1 = (r, x2)" for i r k x1 x2 using lb_atainit [of e i k x1] that by simp
  have t: "lb (upd_dev (\<lambda>d. d\<lparr>d_rttavg := x, d_rttdev := y, d_timer_fn := z\<rparr>) w) = lb w" for x y z w
    by (rule lb_upd_dev) (simp add: lv_def)
  show ?thesis by (auto simp: aoecmd_ata_id_def Let_def t split: prod.splits option.splits dest!: f c a)
qed

lemma lb_reassign [simp]: "lb (snd (reassign_frame e f s)) = lb s"
proof -
  have f: "lb s1 = lb s" if "newframe e s = (r, s1)" for r s1 using lb_newframe [of e s] that by simp
  show ?thesis by (auto simp: reassign_frame_def Let_def split: prod.splits option.splits dest!: f)
qed

lemma lb_probe [simp]: "lb (probe e i s) = lb s"
proof -
  have f: "lb s1 = lb s" if "newtframe e i s = (r, s1)" for r s1 using lb_newtframe [of e i s] that by simp
  show ?thesis by (auto simp: probe_def Let_def split: prod.splits option.splits dest!: f)
qed

lemma lb_rexmitq [simp]: "lb (rexmitq_del f s) = lb s" "lb (rexmitq_replace f nf s) = lb s"
  by (simp_all add: rexmitq_del_def rexmitq_replace_def lb_upd_dev lv_def)

lemma lb_stop_probe [simp]: "lb (stop_probe f s) = lb s"
  by (subst (2) lb_rexmitq(1) [of f, symmetric], subst (2) lb_freetframe [of f, symmetric])
    (simp add: stop_probe_def lb_upd_dev lv_def del: lb_rexmitq lb_freetframe)

lemma lb_resend_prep [simp]: "lb (resend_prep e f t n s) = lb s"
  by (simp add: resend_prep_def Let_def)

section \<open>Resending\<close>

text \<open>The device is left alone even when a frame cannot be sent again.\<close>

lemma lv_ktcomplete [simp]: "lv (s_dev (ktcomplete f r s)) = lv (s_dev s)"
  by (simp add: ktcomplete_def Let_def)


lemma lv_resend [simp]: "lv (s_dev (resend e f s)) = lv (s_dev s)"
proof -
  obtain n lt where t: "newtag (e_jiffies e) (d_lasttag (s_dev s)) = (n, lt)" by fastforce
  let ?s1 = "upd_dev (\<lambda>d. d\<lparr>d_lasttag := lt\<rparr>) s"
  have 1: "lb ?s1 = lb s" by (simp add: lb_upd_dev lv_def)
  have "lv (s_dev (ktcomplete f None ?s1)) = lv (s_dev s)" using lb_lv [OF 1] by simp
  moreover have "lv (s_dev (xmit_frame e f (resend_prep e f u n ?s1))) = lv (s_dev s)" for u
    by (rule lb_lv) (simp add: 1)
  ultimately show ?thesis by (simp add: resend_def Let_def t split: prod.split bool.split)
qed

lemma lv_rexmit_send [simp]: "lv (s_dev (rexmit_send e f s)) = lv (s_dev s)"
  by (simp add: rexmit_send_def Let_def lb_lv [OF lb_rexmitq(1)])

lemma lv_rexmit_one [simp]: "lv (s_dev (rexmit_one e u f s)) = lv (s_dev s)"
proof -
  have r: "lb s1 = lb s" if "reassign_frame e f s = (r, s1)" for r s1 using lb_reassign [of e f s] that by simp
  show ?thesis
    by (auto simp: rexmit_one_def Let_def lb_lv [OF lb_stop_probe] lb_lv [OF lb_freetframe] lb_lv [OF lb_rexmitq(2)]
        lb_lv [OF lb_probe] lb_lv [OF r] split: prod.splits option.splits)
qed

lemma lv_rexmit_loop [simp]: "lv (s_dev (rexmit_loop e u fs s)) = lv (s_dev s)"
  by (induction fs arbitrary: s) simp_all

lemma lv_rexmit_deferred [simp]: "lv (s_dev (rexmit_deferred e s)) = lv (s_dev s)"
  by (simp add: rexmit_deferred_def)

lemma lb_work_loop: "work_loop n e s = Some s' \<Longrightarrow> lb s' = lb s"
proof (induction n arbitrary: s)
  case (Suc n)
  obtain b s1 where r: "aoecmd_ata_rw e s = (b, s1)" by fastforce
  then have "lb s1 = lb s" using lb_ata_rw [of e s] by simp
  then show ?case using Suc r by (cases b) auto
qed simp

lemma lv_work [simp]: "lv (s_dev (aoecmd_work e s)) = lv (s_dev s)"
  using lb_lv [OF lb_work_loop]
  by (auto simp: aoecmd_work_def Let_def simp del: work_loop.simps split: option.split)

end
