(* ===== verification/SendInv.thy ===== *)
theory SendInv
  imports FrameInv Ledger
begin

text \<open>
  The sending side keeps the invariant: building and transmitting a command, retransmission with
  and without a change of target, probes, and the loop \<open>aoecmd_work\<close>, which ends.
\<close>

section \<open>Moves of the account\<close>

lemma view_fhash: "view (fhash f s) = v_hash f (view s)"
  by (simp add: fhash_def v_hash_def Let_def fbucket_def NBUCKETS_NFACTIVE view_def)

lemma view_tag: "f_tag (g (fr s f)) = tag \<Longrightarrow> f_d (g (fr s f)) = f_d (fr s f) \<Longrightarrow> f_t (g (fr s f)) = f_t (fr s f) \<Longrightarrow>
    view (upd_fr f g s) = (view s)\<lparr>v_tag := (v_tag (view s))(f := tag)\<rparr>"
  by (auto simp: view_def fun_eq_iff)

lemma view_nout: "i < length (tgts s) \<Longrightarrow> t_ffree (g (tg s i)) = t_ffree (tg s i) \<Longrightarrow>
    t_falloc (g (tg s i)) = t_falloc (tg s i) \<Longrightarrow>
    view (upd_tgt i g s) = (view s)\<lparr>v_nout := (v_nout (view s))[i := t_nout (g (tg s i))]\<rparr>"
  by (simp add: view_def map_update list_update_same_conv)

lemma fhash_sel [simp]:
  "s_frames (fhash f s) = s_frames s" "s_skbs (fhash f s) = s_skbs s" "s_bufs (fhash f s) = s_bufs s"
  "s_bios (fhash f s) = s_bios s" "tgts (fhash f s) = tgts s" "s_reqs (fhash f s) = s_reqs s"
  "d_rexmitq (s_dev (fhash f s)) = d_rexmitq (s_dev s)" "s_iocq (fhash f s) = s_iocq s"
  "s_nframe (fhash f s) = s_nframe s" "d_ip_buf (s_dev (fhash f s)) = d_ip_buf (s_dev s)"
  "d_addr (s_dev (fhash f s)) = d_addr (s_dev s)" "s_nbuf (fhash f s) = s_nbuf s"
  by (simp_all add: fhash_def Let_def)

lemma tgts_ok_fhash [simp]: "tgts_ok (fhash f s) = tgts_ok s"
  by (simp add: fhash_def Let_def)

text \<open>A held frame becomes active under a new tag and is counted.\<close>

lemma dev_ok_activate:
  assumes ok: "dev_ok (add_mset f X) A s" and i: "f_t (fr s f) = i"
    and v: "view s' = v_hash f ((view s)\<lparr>v_tag := (v_tag (view s))(f := tag),
        v_nout := (v_nout (view s))[i := v_nout (view s) ! i + 1]\<rparr>)"
    and t: "tgts_ok s'"
  shows "dev_ok X A s'"
proof (rule dev_okI [OF _ _ t])
  let ?w = "(view s)\<lparr>v_tag := (v_tag (view s))(f := tag)\<rparr>"
  let ?u = "?w\<lparr>v_nout := (v_nout ?w)[i := v_nout ?w ! i + 1]\<rparr>"
  have p: "pool_ok (add_mset f X) (view s)" "nout_ok A (view s)" using ok by (simp_all add: dev_ok_def)
  have "pool_ok (add_mset f X) ?w" by (rule pool_tag [OF p(1)]) simp
  then have u: "pool_ok (add_mset f X) ?u" by (rule pool_nout) simp
  then show "pool_ok X (view s')" using v pool_hash by simp
  have "v_own ?w f = (v_addr ?w, i)" using dev_held [OF ok, of f] i by simp
  then have "nout_ok (add_mset f A) ?u" using p(2) by (intro nout_inc) simp_all
  then show "nout_ok A (view s')"
    using v nout_hash [of f A ?u] p(1) by (simp add: pool_ok_def pool_wk_def pool_lists_def)
qed

text \<open>A held and counted frame becomes active again.\<close>

lemma dev_ok_reactivate:
  assumes ok: "dev_ok (add_mset f X) (add_mset f A) s"
    and v: "view s' = v_hash f ((view s)\<lparr>v_tag := (v_tag (view s))(f := tag)\<rparr>)" and t: "tgts_ok s'"
  shows "dev_ok X A s'"
proof (rule dev_okI [OF _ _ t])
  let ?w = "(view s)\<lparr>v_tag := (v_tag (view s))(f := tag)\<rparr>"
  have p: "pool_ok (add_mset f X) (view s)" "nout_ok (add_mset f A) (view s)" using ok by (simp_all add: dev_ok_def)
  have "pool_ok (add_mset f X) ?w" by (rule pool_tag [OF p(1)]) simp
  then show "pool_ok X (view s')" using v pool_hash by simp
  show "nout_ok A (view s')"
    using v nout_hash [of f A ?w] p by (simp add: pool_ok_def pool_wk_def pool_lists_def)
qed

section \<open>Building and transmitting\<close>

lemma deref_nd_same [simp]:
  "view (deref_nd i s) = view s" "s_dev (deref_nd i s) = s_dev s" "s_frames (deref_nd i s) = s_frames s"
  "tgts_ok (deref_nd i s) = tgts_ok s" "s_bufs (deref_nd i s) = s_bufs s" "s_skbs (deref_nd i s) = s_skbs s"
  "s_bios (deref_nd i s) = s_bios s" "s_iocq (deref_nd i s) = s_iocq s" "s_nframe (deref_nd i s) = s_nframe s"
  "s_nbuf (deref_nd i s) = s_nbuf s" "s_reqs (deref_nd i s) = s_reqs s"
  by (simp_all add: deref_nd_def)

lemma view_if: "view (if b then s else s') = (if b then view s else view s')"
  by simp

lemma ata_rw_frameinit_view:
  assumes "f_t (fr s f) < length (tgts s)"
  shows "view (ata_rw_frameinit e f s) = v_hash f ((view s)\<lparr>
      v_tag := (v_tag (view s))(f := fst (newtag (e_jiffies e) (d_lasttag (s_dev s)))),
      v_nout := (v_nout (view s))[f_t (fr s f) := v_nout (view s) ! f_t (fr s f) + 1]\<rparr>)"
  using assms
  by (simp add: ata_rw_frameinit_def aoehdr_atainit_def Let_def split_def view_if view_fhash view_tag
      view_nout v_hash_def)

lemma tgts_ok_counters [simp]:
  "tgts_ok (upd_tgt i (\<lambda>t. t\<lparr>t_nout := n t\<rparr>) s) = tgts_ok s"
  "tgts_ok (upd_tgt i (\<lambda>t. t\<lparr>t_wpkts := w t\<rparr>) s) = tgts_ok s"
  "tgts_ok (upd_tgt i (\<lambda>t. t\<lparr>t_rpkts := r t\<rparr>) s) = tgts_ok s"
  "tgts_ok (upd_tgt i (\<lambda>t. t\<lparr>t_nout_probes := p t\<rparr>) s) = tgts_ok s"
  "tgts_ok (upd_tgt i (\<lambda>t. t\<lparr>t_nout := n t, t_nout_probes := p t\<rparr>) s) = tgts_ok s"
  "tgts_ok (upd_tgt i (\<lambda>t. t\<lparr>t_lost := l t\<rparr>) s) = tgts_ok s"
proof -
  have "tgts_ok (upd_tgt i g s) = tgts_ok s"
    if "\<And>t. t_ifs (g t) = t_ifs t" "\<And>t. t_ifp (g t) = t_ifp t" "\<And>t. t_taint (g t) = t_taint t" for g
  proof (cases "i < length (tgts s)")
    case True
    have "tgt_ok (g t) = tgt_ok t" for t by (rule tgt_ok_cong) (simp_all add: that)
    then have "tgt_ok ((tgts s)[i := g (tg s i)] ! n) = tgt_ok (tg s n)" for n
      using True by (cases "n = i") simp_all
    then have "list_all tgt_ok ((tgts s)[i := g (tg s i)]) = list_all tgt_ok (tgts s)"
      by (simp add: list_all_length)
    then show ?thesis by (simp add: tgts_ok_def)
  qed (simp add: tgts_ok_def list_update_beyond)
  then show
    "tgts_ok (upd_tgt i (\<lambda>t. t\<lparr>t_nout := n t\<rparr>) s) = tgts_ok s"
    "tgts_ok (upd_tgt i (\<lambda>t. t\<lparr>t_wpkts := w t\<rparr>) s) = tgts_ok s"
    "tgts_ok (upd_tgt i (\<lambda>t. t\<lparr>t_rpkts := r t\<rparr>) s) = tgts_ok s"
    "tgts_ok (upd_tgt i (\<lambda>t. t\<lparr>t_nout_probes := p t\<rparr>) s) = tgts_ok s"
    "tgts_ok (upd_tgt i (\<lambda>t. t\<lparr>t_nout := n t, t_nout_probes := p t\<rparr>) s) = tgts_ok s"
    "tgts_ok (upd_tgt i (\<lambda>t. t\<lparr>t_lost := l t\<rparr>) s) = tgts_ok s"
    by simp_all
qed

lemma tgts_ok_if: "tgts_ok (if b then s else s') = (if b then tgts_ok s else tgts_ok s')"
  by simp

lemma ata_rw_frameinit_tgts: "tgts_ok (ata_rw_frameinit e f s) = tgts_ok s"
  by (simp add: ata_rw_frameinit_def aoehdr_atainit_def Let_def split_def tgts_ok_if)

lemma ata_rw_frameinit_ok:
  assumes "dev_ok (add_mset f X) A s"
  shows "dev_ok X A (ata_rw_frameinit e f s)"
  by (rule dev_ok_activate [OF assms refl ata_rw_frameinit_view])
    (use dev_held [OF assms, of f] assms in \<open>simp_all add: ata_rw_frameinit_tgts dev_ok_def\<close>)

lemma skb_clone_same:
  "skb_clone e k s = (r, s') \<Longrightarrow> view s' = view s \<and> tgts_ok s' = tgts_ok s \<and> s_frames s' = s_frames s
     \<and> s_dev s' = s_dev s \<and> s_bufs s' = s_bufs s"
  by (auto simp: skb_clone_def alloc_def split: bool.splits)

lemma xmit_frame_same [simp]:
  "view (xmit_frame e f s) = view s" "tgts_ok (xmit_frame e f s) = tgts_ok s"
  "s_dev (xmit_frame e f s) = s_dev s" "s_bufs (xmit_frame e f s) = s_bufs s"
proof -
  obtain r s1 where c: "skb_clone e (the (f_skb (fr s f))) s = (r, s1)" by fastforce
  show "view (xmit_frame e f s) = view s" "tgts_ok (xmit_frame e f s) = tgts_ok s"
    "s_dev (xmit_frame e f s) = s_dev s" "s_bufs (xmit_frame e f s) = s_bufs s"
    using skb_clone_same [OF c] c by (auto simp: xmit_frame_def aoenet_xmit_def split: option.splits)
qed

lemma dev_ok_xmit [simp]: "dev_ok X A (xmit_frame e f s) = dev_ok X A s"
  by (simp add: dev_ok_def)

lemma nextbuf_same:
  assumes "nextbuf e s = (r, s')"
  shows "view s' = view s \<and> tgts_ok s' = tgts_ok s \<and> tgts s' = tgts s"
proof -
  have n: "view s1 = view s \<and> tgts_ok s1 = tgts_ok s \<and> tgts s1 = tgts s" if "nextrq q s = Some (rq, s1)" for q rq s1
    using that by (auto simp: nextrq_def split: option.splits list.splits)
  show ?thesis
    using assms n
    by (auto simp: nextbuf_def bufinit_def bio_pageinc_def alloc_def Let_def split: option.splits list.splits bool.splits)
qed

lemma frame_take_same [simp]:
  "view (frame_take e f b s) = view s" "tgts_ok (frame_take e f b s) = tgts_ok s" "tgts (frame_take e f b s) = tgts s"
  "f_t (fr (frame_take e f b s) x) = f_t (fr s x)"
  by (simp_all add: frame_take_def Let_def)

lemma dev_ok_same: "view s' = view s \<Longrightarrow> tgts_ok s' = tgts_ok s \<Longrightarrow> dev_ok X A s' = dev_ok X A s"
  by (simp add: dev_ok_def)

lemma counted_same: "view s' = view s \<Longrightarrow> counted X A s' = counted X A s"
  unfolding counted_def by (metis view_sel(3))

lemma aoecmd_ata_rw_ok:
  assumes ok: "dev_ok X A s" and A: "counted X A s" and r: "aoecmd_ata_rw e s = (r, s')"
  shows "dev_ok X A s'"
proof -
  obtain b s1 where nb: "nextbuf e s = (b, s1)" by fastforce
  note n = nextbuf_same [OF nb]
  have ok1: "dev_ok X A s1" and A1: "counted X A s1"
    using n ok A dev_ok_same counted_same by metis+
  show ?thesis
  proof (cases b)
    case None
    then show ?thesis using r nb ok1 by (simp add: aoecmd_ata_rw_def)
  next
    case (Some b1)
    obtain f s2 where nf: "newframe e s1 = (f, s2)" by fastforce
    note nfo = newframe_ok [OF ok1 A1 nf]
    show ?thesis
    proof (cases f)
      case None
      then show ?thesis using r nb Some nf nfo(1) by (simp add: aoecmd_ata_rw_def)
    next
      case (Some f1)
      have "dev_ok (add_mset f1 X) A (frame_take e f1 b1 s2)" using nfo(2) [OF Some] by (simp add: dev_ok_def)
      then have "dev_ok X A (ata_rw_frameinit e f1 (frame_take e f1 b1 s2))" by (rule ata_rw_frameinit_ok)
      then show ?thesis using r nb nf Some \<open>b = Some b1\<close> by (auto simp: aoecmd_ata_rw_def)
    qed
  qed
qed

section \<open>Retransmission\<close>

abbreviation rexq :: "st \<Rightarrow> nat list" where "rexq s \<equiv> d_rexmitq (s_dev s)"

lemma ata_rw_frameinit_rexq [simp]: "rexq (ata_rw_frameinit e f s) = rexq s"
  by (simp add: ata_rw_frameinit_def aoehdr_atainit_def Let_def split_def)

lemma freetframe_rexq [simp]: "rexq (aoe_freetframe f s) = rexq s"
  by (simp add: aoe_freetframe_def)

lemma resend_eq:
  assumes "tgt_ok (tg s (f_t (fr s f)))"
  shows "resend e f s = xmit_frame e f (resend_prep e f (snd (ifrotate (tg s (f_t (fr s f)))))
    (fst (newtag (e_jiffies e) (d_lasttag (s_dev s)))) (upd_dev (\<lambda>d. d\<lparr>d_lasttag := d_lasttag (s_dev s) + 1\<rparr>) s))"
proof -
  obtain t where "ifrotate (tg s (f_t (fr s f))) = (True, t)"
    using ifrotate_nd(1) [OF assms] by (metis prod.collapse)
  then show ?thesis by (simp add: resend_def Let_def split_def)
qed

lemma resend_prep_view:
  assumes "t_ffree t = t_ffree (tg s (f_t (fr s f)))" "t_falloc t = t_falloc (tg s (f_t (fr s f)))"
    "t_nout t = t_nout (tg s (f_t (fr s f)))"
  shows "view (resend_prep e f t n s) = v_hash f ((view s)\<lparr>v_tag := (v_tag (view s))(f := n)\<rparr>)"
  using assms by (simp add: resend_prep_def Let_def view_if view_fhash view_tag)

lemma resend_prep_same:
  "tgts_ok (resend_prep e f t n s) = tgts_ok (upd_tgt (f_t (fr s f)) (\<lambda>_. t) s)"
  "rexq (resend_prep e f t n s) = rexq s"
  by (simp_all add: resend_prep_def Let_def tgts_ok_if)

lemma resend_ok:
  assumes ok: "dev_ok (add_mset f X) (add_mset f A) s"
  shows "dev_ok X A (resend e f s)" and "rexq (resend e f s) = rexq s" and "s_iocq (resend e f s) = s_iocq s"
proof -
  have i: "f_t (fr s f) < length (tgts s)" using dev_held [OF ok, of f] by simp
  have t: "tgt_ok (tg s (f_t (fr s f)))" using ok i by (simp add: dev_ok_def tgts_ok_nth)
  let ?s1 = "upd_dev (\<lambda>d. d\<lparr>d_lasttag := d_lasttag (s_dev s) + 1\<rparr>) s"
  let ?p = "resend_prep e f (snd (ifrotate (tg s (f_t (fr s f))))) (fst (newtag (e_jiffies e) (d_lasttag (s_dev s)))) ?s1"
  have "tgts_ok (upd_tgt (f_t (fr s f)) (\<lambda>_. snd (ifrotate (tg s (f_t (fr s f))))) ?s1)"
    by (rule tgts_ok_upd_tgt) (use ok in \<open>simp_all add: dev_ok_def tgt_ok_ifrotate\<close>)
  then have to: "tgts_ok ?p" by (simp add: resend_prep_same)
  have v: "view ?p = v_hash f ((view s)\<lparr>v_tag := (v_tag (view s))(f := fst (newtag (e_jiffies e) (d_lasttag (s_dev s))))\<rparr>)"
    by (subst resend_prep_view) simp_all
  show "dev_ok X A (resend e f s)"
    using dev_ok_reactivate [OF ok v to] by (simp add: resend_eq [OF t])
  show "rexq (resend e f s) = rexq s"
    by (simp add: resend_eq [OF t] resend_prep_same)
  have "lb ?s1 = lb s" by (simp add: lb_upd_dev lv_def)
  then have "lb (resend e f s) = lb s" by (simp add: resend_eq [OF t])
  then show "s_iocq (resend e f s) = s_iocq s" by (simp add: lb_eq)
qed

text \<open>\<open>got_frame\<close>, seen from the caller.\<close>

lemma got_frameE:
  assumes "got_frame s f s'"
  obtains s1 i where "chg (fset s) s s1" and "s_frames s' = s_frames s1" and "view s' = view s1"
    and "rexq s' = rexq s1" and "s_bufs s' = s_bufs s1" and "f \<in> fset s" and "f_t (fr s' f) = i"
    and "d_tgt (s_dev s') = i" and "i < length (tgts s)" and "t_nout (tg s i) < t_maxout (tg s i)"
    and "tgts s' = (tgts s1)[i := snd (ifrotate (tg s1 i))]" and "s_skbs s' = s_skbs s1"
    and "\<exists>k. f_skb (fr s' f) = Some k \<and> sk_dataref (s_skbs s' k) = 1"
    and "s' = upd_dev (\<lambda>d. d\<lparr>d_tgt := i\<rparr>) (upd_tgt i (\<lambda>t. snd (ifrotate t)) s1)"
proof -
  obtain s1 i where s1: "chg (fset s) s s1"
    "s' = upd_dev (\<lambda>d. d\<lparr>d_tgt := i\<rparr>) (upd_tgt i (\<lambda>t. snd (ifrotate t)) s1)"
    "i < length (tgts s)" "f_t (fr s' f) = i" "t_nout (tg s i) < t_maxout (tg s i)" "f \<in> fset s"
    "\<exists>k. f_skb (fr s' f) = Some k \<and> sk_dataref (s_skbs s' k) = 1"
    using assms unfolding got_frame_def by blast
  have e: "s_frames s' = s_frames s1" "view s' = view s1" "rexq s' = rexq s1" "s_bufs s' = s_bufs s1"
    "d_tgt (s_dev s') = i" "tgts s' = (tgts s1)[i := snd (ifrotate (tg s1 i))]" "s_skbs s' = s_skbs s1"
    unfolding s1(2) by simp_all
  show thesis by (rule that [OF s1(1) e(1-4) s1(6,4) e(5) s1(3,5) e(6,7) s1(7,2)])
qed

lemma got_frame_rexq: "got_frame s f s' \<Longrightarrow> rexq s' = rexq s"
  by (elim got_frameE) (simp add: chg_homes(2))

lemma no_frame_rexq: "no_frame s s' \<Longrightarrow> rexq s' = rexq s"
  unfolding no_frame_def using chg_homes(2) by fastforce

lemma got_frame_old: "got_frame s f s' \<Longrightarrow> x \<notin> fset s \<Longrightarrow> fr s' x = fr s x"
  by (elim got_frameE) (simp add: chg_def)

lemma no_frame_old: "no_frame s s' \<Longrightarrow> x \<notin> fset s \<Longrightarrow> fr s' x = fr s x"
  by (auto simp: no_frame_def chg_def)

lemma busy_not_fset:
  assumes ok: "pool_ok X (view s)" and x: "x \<in># X + actm (view s) + mset (rexq s) + iocm (view s)"
  shows "x \<notin> fset s"
proof
  assume "x \<in> fset s"
  moreover have "x < s_nframe s" using pool_old [OF ok, of x] x by (auto simp: homes_def)
  ultimately have "x \<in># freem (view s)" by (simp add: fset_def)
  moreover have "count (X + homes (view s)) x
      = count (X + actm (view s) + mset (rexq s) + iocm (view s)) x + count (freem (view s)) x"
    by (simp add: homes_def)
  moreover have "count (X + homes (view s)) x \<le> 1" using ok by (simp add: pool_ok_def pool_wk_def pool_all_def)
  moreover have "0 < count (X + actm (view s) + mset (rexq s) + iocm (view s)) x"
    using x by (simp only: count_greater_zero_iff)
  moreover have "0 < count (freem (view s)) x" using calculation(1) by simp
  ultimately show False by linarith
qed

lemma counted_got: "got_frame s f s' \<Longrightarrow> counted X A s \<Longrightarrow> counted (add_mset f X) A s'"
proof (elim got_frameE)
  fix s1 assume "chg (fset s) s s1" "counted X A s" "view s' = view s1"
  then have "counted X A s'" using counted_chg counted_same by metis
  then show ?thesis by (auto simp: counted_def)
qed

lemma probe_ok:
  assumes ok: "dev_ok X A s" and A: "counted X A s" and i: "i < length (tgts s)"
  shows "dev_ok X A (probe e i s)" and "rexq (probe e i s) = rexq s"
proof -
  obtain r s1 where n: "newtframe e i s = (r, s1)" by fastforce
  note no = newtframe_ok [OF ok counted_homes [OF A] i n]
  have q: "rexq s1 = rexq s" using chg_homes(2) [OF no(3)] .
  have "dev_ok X A (probe e i s) \<and> rexq (probe e i s) = rexq s"
  proof (cases r)
    case None
    then show ?thesis using n no(1) q by (simp add: probe_def)
  next
    case (Some f)
    let ?s2 = "upd_tgt i (\<lambda>t. snd (ifrotate t)) (upd_fr f (\<lambda>x. x\<lparr>f_flags := setfl (f_flags x) FFL_PROBE\<rparr>) s1)"
    have "dev_ok (add_mset f X) A (upd_fr f (\<lambda>x. x\<lparr>f_flags := setfl (f_flags x) FFL_PROBE\<rparr>) s1)"
      using no(2) [OF Some] by (simp add: dev_ok_def)
    then have "dev_ok (add_mset f X) A ?s2"
      by (rule dev_ok_upd_tgt) (simp_all add: tgt_ok_ifrotate)
    then have "dev_ok X A (ata_rw_frameinit e f (upd_fr f (\<lambda>x. x\<lparr>f_iter := (f_iter x)\<lparr>bi_size := m\<rparr>\<rparr>) ?s2))" for m
      by (intro ata_rw_frameinit_ok) (simp add: dev_ok_def)
    then show ?thesis using n Some q by (simp add: probe_def Let_def dev_ok_def)
  qed
  then show "dev_ok X A (probe e i s)" and "rexq (probe e i s) = rexq s" by simp_all
qed

lemma reassign_ok:
  assumes ok: "dev_ok X A s" and A: "counted X A s" and r: "reassign_frame e f s = (r, s')"
  shows "r = None \<Longrightarrow> dev_ok X A s'" and "r = Some nf \<Longrightarrow> dev_ok (add_mset nf X) A s' \<and> counted (add_mset nf X) A s'
      \<and> nf \<in> fset s \<and> length (tgts s') = length (tgts s)"
    and "rexq s' = rexq s"
proof -
  obtain r1 s1 where n: "newframe e s = (r1, s1)" by fastforce
  note no = newframe_ok [OF ok A n]
  have "(r = None \<longrightarrow> dev_ok X A s') \<and> rexq s' = rexq s
    \<and> (r = Some nf \<longrightarrow> dev_ok (add_mset nf X) A s' \<and> counted (add_mset nf X) A s' \<and> nf \<in> fset s
        \<and> length (tgts s') = length (tgts s))"
  proof (cases r1)
    case None
    then show ?thesis using r n no(1) no_frame_rexq by (auto simp: reassign_frame_def)
  next
    case (Some g)
    have g: "dev_ok (add_mset g X) A s1" "got_frame s g s1" using no(2) Some by simp_all
    have q: "rexq s1 = rexq s" by (rule got_frame_rexq [OF g(2)])
    have c: "counted (add_mset g X) A s1" by (rule counted_got [OF g(2) A])
    have l: "g \<in> fset s \<and> length (tgts s1) = length (tgts s)" using g(2) by (elim got_frameE) (simp add: chg_tgt(1))
    show ?thesis
    proof (cases "f_t (fr s1 g) = f_t (fr s1 f)")
      case True
      then show ?thesis using r n Some dev_ok_free [OF g(1)] q by (auto simp: reassign_frame_def)
    next
      case False
      have "r = Some g" "view s' = view s1" "tgts_ok s' = tgts_ok s1" "rexq s' = rexq s1" "tgts s' = tgts s1"
        using r n Some False by (auto simp: reassign_frame_def Let_def)
      then show ?thesis
        using g(1) c l q dev_ok_same [of s' s1 "add_mset g X" A] counted_same [of s' s1 "add_mset g X" A] by auto
    qed
  qed
  then show "r = None \<Longrightarrow> dev_ok X A s'" and "rexq s' = rexq s" and "r = Some nf \<Longrightarrow> dev_ok (add_mset nf X) A s'
    \<and> counted (add_mset nf X) A s' \<and> nf \<in> fset s \<and> length (tgts s') = length (tgts s)"
    by simp_all
qed

text \<open>Taking a frame off the deferred queue.\<close>

lemma view_rexq: "view (upd_dev (\<lambda>d. d\<lparr>d_rexmitq := q d\<rparr>) s) = (view s)\<lparr>v_rex := q (s_dev s)\<rparr>"
  by (simp add: view_def)

lemma tgts_ok_rexq [simp]: "tgts_ok (upd_dev (\<lambda>d. d\<lparr>d_rexmitq := q d\<rparr>) s) = tgts_ok s"
  by simp

lemma rexmitq_del_ok:
  assumes ok: "dev_ok X A s" and f: "f \<in> set (rexq s)"
  shows "dev_ok (add_mset f X) A (rexmitq_del f s)"
proof (rule dev_okI)
  have "mset (remove1 f (rexq s)) + add_mset f X = mset (v_rex (view s)) + X" using f by simp
  then show "pool_ok (add_mset f X) (view (rexmitq_del f s))"
    unfolding rexmitq_del_def view_rexq by (rule pool_rex [rotated]) (use ok in \<open>simp add: dev_ok_def\<close>)
qed (use ok in \<open>simp_all add: rexmitq_del_def view_rexq dev_ok_def\<close>)

lemma mset_replace1:
  "distinct xs \<Longrightarrow> f \<in> set xs \<Longrightarrow> mset (map (\<lambda>x. if x = f then g else x) xs) + {#f#} = add_mset g (mset xs)"
proof (induction xs)
  case (Cons x xs)
  show ?case
  proof (cases "x = f")
    case True
    then have "map (\<lambda>x. if x = f then g else x) xs = xs" using Cons.prems(1) by (intro map_idI) auto
    then show ?thesis using True by simp
  next
    case False
    then show ?thesis using Cons by simp
  qed
qed simp

lemma pool_rexq_distinct: "pool_ok X (view s) \<Longrightarrow> distinct (rexq s)"
proof -
  assume ok: "pool_ok X (view s)"
  have "count (mset (rexq s)) f \<le> 1" for f
  proof -
    have "count (X + homes (view s)) f \<le> 1" using ok by (simp add: pool_ok_def pool_wk_def pool_all_def)
    then show ?thesis by (simp add: homes_def)
  qed
  then show ?thesis by (simp add: distinct_count_atmost_1) (metis One_nat_def count_greater_zero_iff le_antisym less_Suc_eq_le less_Suc0 not_less set_mset_mset)
qed

lemma rexmitq_replace_ok:
  assumes ok: "dev_ok (add_mset g X) A s" and f: "f \<in> set (rexq s)"
  shows "dev_ok (add_mset f X) A (rexmitq_replace f g s)"
proof (rule dev_okI)
  have d: "distinct (rexq s)" using ok pool_rexq_distinct [of "add_mset g X" s] by (simp add: dev_ok_def)
  have "mset (map (\<lambda>x. if x = f then g else x) (rexq s)) + add_mset f X = mset (v_rex (view s)) + add_mset g X"
    using mset_replace1 [OF d f, of g] by simp
  then show "pool_ok (add_mset f X) (view (rexmitq_replace f g s))"
    unfolding rexmitq_replace_def view_rexq by (rule pool_rex [rotated]) (use ok in \<open>simp add: dev_ok_def\<close>)
qed (use ok in \<open>simp_all add: rexmitq_replace_def view_rexq dev_ok_def\<close>)

lemma rexmit_send_ok:
  assumes ok: "dev_ok X A s" and f: "f \<in> set (rexq s)"
  shows "dev_ok X A (rexmit_send e f s)" and "set (rexq s) - {f} \<subseteq> set (rexq (rexmit_send e f s))"
    and "s_iocq (rexmit_send e f s) = s_iocq s"
proof -
  let ?i = "f_t (fr s f)" and ?d = "rexmitq_del f s"
  let ?g = "\<lambda>t. t\<lparr>t_nout := t_nout t + 1,
    t_nout_probes := (if is_probe f s then t_nout_probes t + 1 else t_nout_probes t)\<rparr>"
  have d: "dev_ok (add_mset f X) A ?d" by (rule rexmitq_del_ok [OF ok f])
  have fd: "f_t (fr ?d f) = ?i" by (simp add: rexmitq_del_def)
  have i: "?i < length (tgts ?d)" using dev_held [OF d, of f] fd by simp
  have v: "view (upd_tgt ?i ?g ?d) = (view ?d)\<lparr>v_nout := (v_nout (view ?d))[?i := v_nout (view ?d) ! ?i + 1]\<rparr>"
    using i by (simp add: view_nout)
  have "dev_ok (add_mset f X) (add_mset f A) (upd_tgt ?i ?g ?d)"
  proof (rule dev_okI)
    show "pool_ok (add_mset f X) (view (upd_tgt ?i ?g ?d))"
      unfolding v by (rule pool_nout) (use d in \<open>simp_all add: dev_ok_def\<close>)
    show "nout_ok (add_mset f A) (view (upd_tgt ?i ?g ?d))"
      unfolding v by (rule nout_inc) (use d dev_held [OF d, of f] fd in \<open>simp_all add: dev_ok_def\<close>)
    show "tgts_ok (upd_tgt ?i ?g ?d)" using d by (simp add: dev_ok_def)
  qed
  then have u: "dev_ok (add_mset f X) (add_mset f A)
      (upd_fr f (\<lambda>x. x\<lparr>f_waited := f_waited x + n, f_waited_total := f_waited_total x + n\<rparr>) (upd_tgt ?i ?g ?d))" for n
    by (simp add: dev_ok_def)
  show "dev_ok X A (rexmit_send e f s)"
    unfolding rexmit_send_def Let_def using ok resend_ok(1) [OF u] by simp
  show "s_iocq (rexmit_send e f s) = s_iocq s"
    unfolding rexmit_send_def Let_def using resend_ok(3) [OF u] by (simp add: rexmitq_del_def)
  have "rexq (resend e f (upd_fr f (\<lambda>x. x\<lparr>f_waited := f_waited x + n, f_waited_total := f_waited_total x + n\<rparr>)
      (upd_tgt ?i ?g ?d))) = remove1 f (rexq s)" for n
    using resend_ok(2) [OF u] by (simp add: rexmitq_del_def)
  moreover have "set (rexq s) - {f} \<subseteq> set (remove1 f (rexq s))" by (intro subsetI) simp
  ultimately show "set (rexq s) - {f} \<subseteq> set (rexq (rexmit_send e f s))"
    unfolding rexmit_send_def Let_def by auto
qed

lemma stop_probe_ok:
  assumes ok: "dev_ok X A s" and f: "f \<in> set (rexq s)"
  shows "dev_ok X A (stop_probe f s)" and "set (rexq s) - {f} \<subseteq> set (rexq (stop_probe f s))"
proof -
  show "dev_ok X A (stop_probe f s)"
    using dev_ok_free [OF rexmitq_del_ok [OF ok f]] by (simp add: stop_probe_def dev_ok_def)
  show "set (rexq s) - {f} \<subseteq> set (rexq (stop_probe f s))"
    by (intro subsetI) (simp add: stop_probe_def rexmitq_del_def)
qed

lemma rexmit_one_ok:
  assumes ok: "dev_ok X A s" and A: "counted X A s" and f: "f \<in> set (rexq s)"
  shows "dev_ok X A (rexmit_one e u f s) \<and> set (rexq s) - {f} \<subseteq> set (rexq (rexmit_one e u f s))
    \<and> s_iocq (rexmit_one e u f s) = s_iocq s"
proof -
  let ?i = "f_t (fr s f)"
  have fi: "?i < length (tgts s)" using dev_held [OF rexmitq_del_ok [OF ok f], of f] by (simp add: rexmitq_del_def)
  obtain r s1 where r: "reassign_frame e f s = (r, s1)" by fastforce
  note ro = reassign_ok [OF ok A r]
  define q where "q = (case r of None \<Rightarrow> rexmit_send e f s1
      | Some nf \<Rightarrow> rexmit_send e nf (aoe_freetframe f (rexmitq_replace f nf
          (if t_nout_probes (tg s1 ?i) = 0 \<and> u > 0
           then upd_tgt ?i (\<lambda>t. t\<lparr>t_nout_probes := t_nout_probes t + 1\<rparr>) (probe e ?i s1) else s1))))"
  have i1: "s_iocq s1 = s_iocq s" using lb_reassign [of e f s] r by (simp add: lb_eq)
  have "dev_ok X A q \<and> set (rexq s) - {f} \<subseteq> set (rexq q) \<and> s_iocq q = s_iocq s"
  proof (cases r)
    case None
    then show ?thesis using rexmit_send_ok [OF ro(1)] ro(3) f i1 by (simp add: q_def)
  next
    case (Some nf)
    have o1: "dev_ok (add_mset nf X) A s1" "counted (add_mset nf X) A s1" "?i < length (tgts s1)"
      using ro(2) [OF Some] fi by simp_all
    define s2 where "s2 = (if t_nout_probes (tg s1 ?i) = 0 \<and> u > 0
      then upd_tgt ?i (\<lambda>t. t\<lparr>t_nout_probes := t_nout_probes t + 1\<rparr>) (probe e ?i s1) else s1)"
    have o2: "dev_ok (add_mset nf X) A s2" and q2: "rexq s2 = rexq s"
      using o1(1) probe_ok [OF o1, of e] ro(3) by (simp_all add: s2_def dev_ok_def)
    have f2: "f \<in> set (rexq s2)" using q2 f by simp
    let ?s3 = "aoe_freetframe f (rexmitq_replace f nf s2)"
    have o3: "dev_ok X A ?s3" by (rule dev_ok_free [OF rexmitq_replace_ok [OF o2 f2]])
    have q3: "rexq ?s3 = map (\<lambda>x. if x = f then nf else x) (rexq s)"
      using q2 by (simp add: rexmitq_replace_def)
    then have n3: "nf \<in> set (rexq ?s3)" and m3: "set (rexq s) - {f} \<subseteq> set (rexq ?s3)" using f by auto
    have "nf \<notin> set (rexq s)"
      using busy_not_fset [of X s nf] ok ro(2) [OF Some] by (auto simp: dev_ok_def)
    then have "set (rexq s) - {f} \<subseteq> set (rexq ?s3) - {nf}" using m3 by auto
    moreover have "lb ?s3 = lb s1" by (simp add: s2_def)
    then have "s_iocq ?s3 = s_iocq s" using i1 by (simp only: lb_eq)
    ultimately show ?thesis
      using rexmit_send_ok [OF o3 n3, of e] Some by (auto simp: q_def s2_def [symmetric])
  qed
  moreover have "rexmit_one e u f s \<in> {q, stop_probe f s, s, rexmit_send e f s}"
    unfolding rexmit_one_def Let_def r q_def by (simp split: option.splits)
  ultimately show ?thesis
    using stop_probe_ok [OF ok f] rexmit_send_ok [OF ok f, of e] ok lb_ioc [OF lb_stop_probe, of f s] by auto
qed

lemma rexmit_loop_ok:
  "dev_ok X A s \<Longrightarrow> counted X A s \<Longrightarrow> set fs \<subseteq> set (rexq s) \<Longrightarrow> distinct fs \<Longrightarrow>
   (\<And>s'. dev_ok X A s' \<Longrightarrow> counted X A s') \<Longrightarrow>
   dev_ok X A (rexmit_loop e u fs s) \<and> s_iocq (rexmit_loop e u fs s) = s_iocq s"
proof (induction fs arbitrary: s)
  case (Cons f fs)
  then have "dev_ok X A (rexmit_one e u f s)" "set fs \<subseteq> set (rexq (rexmit_one e u f s))"
    "s_iocq (rexmit_one e u f s) = s_iocq s"
    using rexmit_one_ok [of X A s f e u] by auto
  then show ?case using Cons by simp
qed simp

lemma rexmit_deferred_ok:
  assumes "dev_ok X {#} s"
  shows "dev_ok X {#} (rexmit_deferred e s)" and "s_iocq (rexmit_deferred e s) = s_iocq s"
proof -
  have "dev_ok X {#} (rexmit_deferred e s) \<and> s_iocq (rexmit_deferred e s) = s_iocq s"
    unfolding rexmit_deferred_def
    by (rule rexmit_loop_ok) (use assms pool_rexq_distinct in \<open>auto simp: dev_ok_def\<close>)
  then show "dev_ok X {#} (rexmit_deferred e s)" and "s_iocq (rexmit_deferred e s) = s_iocq s" by simp_all
qed

section \<open>The work loop\<close>

lemma work_loop_ok: "dev_ok X {#} s \<Longrightarrow> work_loop n e s = Some s' \<Longrightarrow> dev_ok X {#} s'"
proof (induction n arbitrary: s)
  case (Suc n)
  obtain b s1 where r: "aoecmd_ata_rw e s = (b, s1)" by fastforce
  have "dev_ok X {#} s1" by (rule aoecmd_ata_rw_ok [OF Suc.prems(1) counted_empty r])
  then show ?case using Suc r by (cases b) simp_all
qed simp

lemma aoecmd_work_ok:
  assumes "dev_ok X {#} s"
  shows "dev_ok X {#} (aoecmd_work e s)" and "lb (aoecmd_work e s) = lb s"
proof -
  note r = rexmit_deferred_ok [OF assms, of e]
  show "dev_ok X {#} (aoecmd_work e s)"
    using r(1) work_loop_ok by (auto simp: aoecmd_work_def Let_def simp del: work_loop.simps split: option.splits)
  have "lb (rexmit_deferred e s) = lb s" using r(2) by (simp add: lb_eq)
  then show "lb (aoecmd_work e s) = lb s"
    by (auto simp: aoecmd_work_def Let_def lb_work_loop simp del: work_loop.simps split: option.splits)
qed

text \<open>Every command sent uses up window room, so the loop ends.\<close>

lemma ata_rw_frameinit_tgt:
  assumes "f_t (fr s f) = i" and "i < length (tgts s)"
  shows "length (tgts (ata_rw_frameinit e f s)) = length (tgts s)"
    and "j \<noteq> i \<Longrightarrow> tg (ata_rw_frameinit e f s) j = tg s j"
    and "t_nout (tg (ata_rw_frameinit e f s) i) = t_nout (tg s i) + 1"
    and "t_maxout (tg (ata_rw_frameinit e f s) i) = t_maxout (tg s i)"
  using assms by (simp_all add: ata_rw_frameinit_def aoehdr_atainit_def Let_def split_def)

lemma room_step:
  assumes "length (tgts s') = length (tgts s)" and "i < length (tgts s)"
    and "\<And>j. j \<noteq> i \<Longrightarrow> j < length (tgts s) \<Longrightarrow> tgt_room (tg s' j) = tgt_room (tg s j)"
    and "tgt_room (tg s' i) < tgt_room (tg s i)"
  shows "room s' < room s"
proof -
  have "map tgt_room (tgts s') = (map tgt_room (tgts s))[i := tgt_room (tg s' i)]"
    using assms(1-3) by (intro nth_equalityI) (auto simp: nth_list_update)
  moreover have "tgt_room (tg s i) \<le> sum_list (map tgt_room (tgts s))"
    using elem_le_sum_list [of i "map tgt_room (tgts s)"] assms(2) by simp
  ultimately show ?thesis using assms(2,4) by (simp add: room_def sum_list_update)
qed

lemma tgt_room_inc:
  "t_nout t < t_maxout t \<Longrightarrow> t_nout u = t_nout t + 1 \<Longrightarrow> t_maxout u = t_maxout t \<Longrightarrow> tgt_room u < tgt_room t"
  using word_inc [of "t_nout t" "t_maxout t"] by (simp add: tgt_room_def word_less_nat_alt)

lemma aoecmd_ata_rw_room:
  assumes ok: "dev_ok X A s" and A: "counted X A s" and r: "aoecmd_ata_rw e s = (True, s')"
  shows "room s' < room s"
proof -
  obtain b s1 where nb: "nextbuf e s = (Some b, s1)"
    using r by (auto simp: aoecmd_ata_rw_def split: prod.splits option.splits)
  obtain f s2 where nf: "newframe e s1 = (Some f, s2)"
    and s': "s' = xmit_frame e f (ata_rw_frameinit e f (frame_take e f b s2))"
    using r nb by (auto simp: aoecmd_ata_rw_def split: prod.splits option.splits)
  note n = nextbuf_same [OF nb]
  have ok1: "dev_ok X A s1" and A1: "counted X A s1" using n ok A dev_ok_same counted_same by metis+
  have "got_frame s1 f s2" using newframe_ok(2) [OF ok1 A1 nf] by simp
  then obtain s3 i where g: "chg (fset s1) s1 s3" "f_t (fr s2 f) = i" "i < length (tgts s1)"
    "t_nout (tg s1 i) < t_maxout (tg s1 i)" "tgts s2 = (tgts s3)[i := snd (ifrotate (tg s3 i))]"
    by (elim got_frameE) blast
  have l2: "length (tgts s2) = length (tgts s1)" using g(5) chg_tgt(1) [OF g(1)] by simp
  have t2: "t_nout (tg s2 j) = t_nout (tg s1 j) \<and> t_maxout (tg s2 j) = t_maxout (tg s1 j)" if "j < length (tgts s1)" for j
    using tcore_sel(1,2) [OF chg_tgt(2) [OF g(1) that]] that g(5) chg_tgt(1) [OF g(1)]
    by (cases "j = i") simp_all
  let ?s3 = "frame_take e f b s2"
  have "f_t (fr ?s3 f) = i" "i < length (tgts ?s3)" using g l2 by simp_all
  note a = ata_rw_frameinit_tgt [OF this, where e = e]
  have ts: "tgts s = tgts s1" "tgts s' = tgts (ata_rw_frameinit e f ?s3)" using n s' by simp_all
  show ?thesis
  proof (rule room_step [of s' s i])
    show "length (tgts s') = length (tgts s)" "i < length (tgts s)" using a(1) ts l2 g(3) by simp_all
    show "tgt_room (tg s' j) = tgt_room (tg s j)" if "j \<noteq> i" "j < length (tgts s)" for j
      using a(2) [OF that(1)] t2 [of j] that ts by (simp add: tgt_room_def)
    show "tgt_room (tg s' i) < tgt_room (tg s i)"
      using tgt_room_inc [of "tg s i" "tg s' i"] a(3,4) t2 [OF g(3)] g(4) ts by simp
  qed
qed

lemma work_loop_total: "dev_ok X {#} s \<Longrightarrow> room s < n \<Longrightarrow> work_loop n e s \<noteq> None"
proof (induction n arbitrary: s)
  case (Suc n)
  obtain b s1 where r: "aoecmd_ata_rw e s = (b, s1)" by fastforce
  show ?case
  proof (cases b)
    case True
    then have "room s1 < n" using aoecmd_ata_rw_room [OF Suc.prems(1) counted_empty] r Suc.prems(2) by fastforce
    then show ?thesis
      using Suc.IH [OF aoecmd_ata_rw_ok [OF Suc.prems(1) counted_empty r]] r True by simp
  qed (use r in simp)
qed simp

end
