(* ===== verification/Complete.thy ===== *)
theory Complete
  imports Xmit
begin

text \<open>
  Completion and failure (\<open>aoecmd.c\<close>, \<open>aoedev.c\<close>, \<open>aoeblk.c\<close>): a response is matched with its frame
  and handed to a completion thread (\<open>aoecmd_ata_rsp\<close>, \<open>ktiocomplete\<close>), a buf ends when its last
  frame is done (\<open>aoe_end_buf\<close>, \<open>aoe_end_request\<close>), frames that wait too long are collected by
  \<open>rexmit_timer\<close>, and \<open>aoedev_downdev\<close> fails everything in progress.

  \<open>__blk_run_queue\<close> calls the request function of the queue, \<open>aoeblk_request\<close>.  Messages
  to the kernel log are left out.
\<close>

section \<open>Ending requests\<close>

text \<open>
  The loop of \<open>aoe_end_request\<close>: one \<open>__blk_end_request\<close> per bio while it says that the request is
  pending.  The fuel is the number of bios.
\<close>

fun end_loop :: "env \<Rightarrow> nat \<Rightarrow> nat \<Rightarrow> bool \<Rightarrow> st \<Rightarrow> st option" where
  "end_loop e 0 r fastfail s = None"
| "end_loop e (Suc n) r fastfail s =
     (case rq_bio (s_reqs s r) of
        [] \<Rightarrow> Some (emit EvOops s)
      | b # _ \<Rightarrow>
          (let err = (fastfail \<or> bio_error (s_bios s b));
               (more, bs) = e_end e (s_bios s) (rq_bio (s_reqs s r)) (bi_size (bio_iter (s_bios s b)));
               s1 = upd_req r (\<lambda>x. x\<lparr>rq_bio := bs\<rparr>) (emit (EvEnd r b err) s)
           in if more then end_loop e n r fastfail s1 else Some (emit (EvDone r) s1)))"

definition end_bios :: "env \<Rightarrow> nat \<Rightarrow> bool \<Rightarrow> st \<Rightarrow> st" where
  "end_bios e r fastfail s =
     (let s1 = (if d_ip_rq (s_dev s) = Some r then upd_dev (\<lambda>d. d\<lparr>d_ip_rq := None\<rparr>) s else s)
      in case end_loop e (Suc (length (rq_bio (s_reqs s1 r)))) r fastfail s1 of None \<Rightarrow> s1 | Some s2 \<Rightarrow> s2)"

text \<open>\<open>while ((rq = blk_peek_request(q)))\<close>: every pending request is started and fails.\<close>

primrec fail_reqs :: "env \<Rightarrow> nat list \<Rightarrow> st \<Rightarrow> st" where
  "fail_reqs e [] s = s"
| "fail_reqs e (r # q) s =
     fail_reqs e q (end_bios e r True (upd_dev (\<lambda>d. d\<lparr>d_blkq := Some q\<rparr>) s))"

definition fail_queue :: "env \<Rightarrow> st \<Rightarrow> st" where
  "fail_queue e s = (case d_blkq (s_dev s) of None \<Rightarrow> s | Some q \<Rightarrow> fail_reqs e q s)"

definition aoeblk_request :: "env \<Rightarrow> st \<Rightarrow> st" where
  "aoeblk_request e s =
     (if \<not> hasfl (d_flags (s_dev s)) DEVFL_UP then fail_queue e s else aoecmd_work e s)"

definition aoe_end_request :: "env \<Rightarrow> nat \<Rightarrow> bool \<Rightarrow> st \<Rightarrow> st" where
  "aoe_end_request e r fastfail s =
     (let s1 = end_bios e r fastfail s in if fastfail then s1 else aoeblk_request e s1)"

definition aoe_bio_pagedec :: "env \<Rightarrow> nat \<Rightarrow> st \<Rightarrow> st" where
  "aoe_bio_pagedec e b s = s\<lparr>s_pgcnt := fold (\<lambda>p c. c(p := c p - 1)) (bio_heads e (s_bios s b)) (s_pgcnt s)\<rparr>"

definition aoe_end_buf :: "env \<Rightarrow> nat \<Rightarrow> st \<Rightarrow> st" where
  "aoe_end_buf e b s =
     (let s1 = (if d_ip_buf (s_dev s) = Some b then upd_dev (\<lambda>d. d\<lparr>d_ip_buf := None\<rparr>) s else s);
          r = b_rq (bf s1 b);
          s2 = aoe_bio_pagedec e (b_bio (bf s1 b)) s1;
          n = rq_special (s_reqs s2 r) - 1;
          s3 = upd_req r (\<lambda>x. x\<lparr>rq_special := n\<rparr>) (s2\<lparr>s_bufs := (s_bufs s2)(b := None)\<rparr>)
      in if n = 0 then aoe_end_request e r False s3 else s3)"

definition aoe_failbuf :: "env \<Rightarrow> nat option \<Rightarrow> st \<Rightarrow> st" where
  "aoe_failbuf e bo s =
     (case bo of
        None \<Rightarrow> s
      | Some b \<Rightarrow>
          (let s1 = upd_bio (b_bio (bf s b)) (\<lambda>x. x\<lparr>bio_error := True\<rparr>)
                      (upd_buf b (\<lambda>x. x\<lparr>b_iter := (b_iter x)\<lparr>bi_size := 0\<rparr>\<rparr>) s)
           in if b_nframesout (bf s1 b) = 0 then aoe_end_buf e b s1 else s1))"

section \<open>Responses\<close>

text \<open>\<open>calc_rttavg\<close>: the estimator, and the window of the target when there is one.\<close>

definition calc_rttavg :: "nat option \<Rightarrow> int \<Rightarrow> st \<Rightarrow> st" where
  "calc_rttavg ti rtt s =
     (let (avg, dev) = rtt_update rtt (d_rttavg (s_dev s), d_rttdev (s_dev s));
          s1 = upd_dev (\<lambda>d. d\<lparr>d_rttavg := avg, d_rttdev := dev\<rparr>) s
      in case ti of None \<Rightarrow> s1 | Some i \<Rightarrow> upd_tgt i cwnd_update s1)"

fun gettgt_from :: "nat \<Rightarrow> aoetgt list \<Rightarrow> u8 list \<Rightarrow> nat option" where
  "gettgt_from i [] addr = None"
| "gettgt_from i (t # ts) addr = (if t_addr t = addr then Some i else gettgt_from (Suc i) ts addr)"

definition gettgt :: "aoedev \<Rightarrow> u8 list \<Rightarrow> nat option" where
  "gettgt d addr = gettgt_from 0 (d_targets d) addr"

text \<open>
  \<open>aoecmd_ata_rsp\<close> once the device is found: the socket buffer that the caller must free, or
  \<open>None\<close> when a completion thread has it.  The code releases the lock of the device before \<open>ktcomplete\<close>; the frame is
  then in no list of the device, so what another handler does in between does not touch it.
\<close>

definition ata_rsp_work :: "env \<Rightarrow> nat \<Rightarrow> rskb \<Rightarrow> st \<Rightarrow> st" where
  "ata_rsp_work e f r s = ktcomplete f (Some r) (aoecmd_work e s)"

definition aoecmd_ata_rsp :: "env \<Rightarrow> rskb \<Rightarrow> st \<Rightarrow> rskb option \<times> st" where
  "aoecmd_ata_rsp e r s =
     (let h = hdr_of (r_data r); n = h_tag h in
      case getframe n s of
        (Some f, s1) \<Rightarrow>
          (let i = f_t (fr s1 f);
               s2 = calc_rttavg (Some i) (sint (since e f s1)) s1;
               s3 = upd_tgt i (\<lambda>t. t\<lparr>t_nout := t_nout t - 1,
                      t_nout_probes := (if is_probe f s1 then t_nout_probes t - 1 else t_nout_probes t)\<rparr>) s2
           in (None, ata_rsp_work e f r s3))
      | (None, s1) \<Rightarrow>
          (case getframe_deferred n s1 of
             (Some f, s2) \<Rightarrow> (None, ata_rsp_work e f r (calc_rttavg None (sint (since e f s2)) s2))
           | (None, s2) \<Rightarrow>
               (let s3 = calc_rttavg None (sint (tsince (e_j2us e) (e_jiffies e) n)) s2;
                    s4 = (case gettgt (s_dev s3) (h_src h) of
                            None \<Rightarrow> s3
                          | Some i \<Rightarrow> upd_tgt i (\<lambda>t. t\<lparr>t_lost := t_lost t - 1\<rparr>) s3);
                    s5 = upd_dev (\<lambda>d. d\<lparr>d_ref := d_ref d - 1\<rparr>) s4
                in (Some r, emit (EvMsg (UnexpectedRsp (h_major h) (h_minor h) n (e_jiffies e)
                      (mac_addr (h_src h)) (mac_addr (h_dst h)))) s5))))"

section \<open>Identify data\<close>

definition get_le16 :: "u8 list \<Rightarrow> nat \<Rightarrow> u16" where
  "get_le16 bs i = ucast (bs ! i) OR push_bit 8 (ucast (bs ! (i + 1)))"

fun get_le :: "nat \<Rightarrow> u8 list \<Rightarrow> nat \<Rightarrow> u64" where
  "get_le 0 bs i = 0"
| "get_le (Suc n) bs i = ucast (bs ! i) OR push_bit 8 (get_le n bs (i + 1))"

text \<open>\<open>ata_ident_fixstring\<close>: the bytes of \<open>ns\<close> 16-bit words from \<open>i\<close> on are swapped in pairs.\<close>

fun ata_ident_fixstring :: "nat \<Rightarrow> nat \<Rightarrow> u8 list \<Rightarrow> u8 list" where
  "ata_ident_fixstring i 0 bs = bs"
| "ata_ident_fixstring i (Suc ns) bs =
     ata_ident_fixstring (i + 2) ns (bs[i := bs ! (i + 1), i + 1 := bs ! i])"

definition ataid_complete :: "u8 list \<Rightarrow> st \<Rightarrow> st" where
  "ataid_complete ident s =
     (let n = get_le16 ident 166 OR get_le16 ident 172;
          ext = hasfl n (2 ^ 10);
          ssize = (if ext then get_le 8 ident 200 else get_le 4 ident 120);
          geo = (if ext
                 then \<lparr>g_heads = 255, g_sectors = 63, g_cylinders = ucast ssize div (255 * 63), g_start = 0\<rparr>
                 else \<lparr>g_heads = ucast (get_le16 ident 110), g_sectors = ucast (get_le16 ident 112),
                       g_cylinders = get_le16 ident 108, g_start = 0\<rparr>);
          fixed = ata_ident_fixstring 54 20 (ata_ident_fixstring 46 4 (ata_ident_fixstring 20 10 ident));
          s1 = upd_dev (\<lambda>d. d\<lparr>d_flags := (if ext then setfl (d_flags d) DEVFL_EXT else clrfl (d_flags d) DEVFL_EXT),
                 d_geo := geo, d_ident := take 512 fixed, d_ssize := ssize\<rparr>) s
      in if hasfl (d_flags (s_dev s1)) (DEVFL_GDALLOC OR DEVFL_NEWSIZE) then s1
         else emit EvWork
           (upd_dev (\<lambda>d. case d_gd d of
                Some gd \<Rightarrow> d\<lparr>d_gd := Some (gd\<lparr>gd_capacity := ssize\<rparr>), d_flags := setfl (d_flags d) DEVFL_NEWSIZE\<rparr>
              | None \<Rightarrow> d\<lparr>d_flags := setfl (d_flags d) DEVFL_GDALLOC\<rparr>) s1))"

section \<open>The completion thread\<close>

text \<open>\<open>bvcpy\<close>: the payload goes to the pages of the bio, segment by segment.\<close>

fun bvcpy :: "u8 list \<Rightarrow> seg list \<Rightarrow> (nat \<Rightarrow> nat \<Rightarrow> u8) \<Rightarrow> (nat \<Rightarrow> nat \<Rightarrow> u8)" where
  "bvcpy bs [] pages = pages"
| "bvcpy bs ((page, off, len) # segs) pages =
     bvcpy (drop len bs) segs
       (pages(page := (\<lambda>j. if off \<le> j \<and> j < off + len then bs ! (j - off) else pages page j)))"

definition fail_bio :: "nat \<Rightarrow> st \<Rightarrow> st" where
  "fail_bio f s =
     (case f_buf (fr s f) of
        None \<Rightarrow> s
      | Some b \<Rightarrow> upd_bio (b_bio (bf s b)) (\<lambda>x. x\<lparr>bio_error := True\<rparr>) s)"

definition if_alive :: "nat \<Rightarrow> nat \<Rightarrow> st \<Rightarrow> st" where
  "if_alive i nd s =
     (case getif (tg s i) (Some nd) of
        None \<Rightarrow> s
      | Some p \<Rightarrow> upd_tgt i (\<lambda>t. t\<lparr>t_ifs := (t_ifs t)[p := (t_ifs t ! p)\<lparr>if_lost := 0\<rparr>]\<rparr>) s)"

text \<open>\<open>ktiocomplete\<close> up to the label \<open>out\<close>, for a response \<open>r\<close> of at least the two headers.\<close>

definition ktio_rsp :: "env \<Rightarrow> nat \<Rightarrow> rskb \<Rightarrow> st \<Rightarrow> st" where
  "ktio_rsp e f r s =
     (let ahout = sk_ah (s_skbs s (the (f_skb (fr s f))));
          ahin = atahdr_of (drop 24 (r_data r)); data = drop 36 (r_data r);
          n = unat (ah_scnt ahout) * 512; cmd = ah_cmdstat ahout
      in if ah_cmdstat ahin AND 0xa9 \<noteq> 0 then fail_bio f s
         else if cmd = ATA_CMD_PIO_READ \<or> cmd = ATA_CMD_PIO_READ_EXT then
           (if length data < n then fail_bio f s
            else if n > bi_size (f_iter (fr s f)) then fail_bio f s
            else
              (let bio = s_bios s (b_bio (bf s (the (f_buf (fr s f)))));
                   segs = e_segs e bio ((f_iter (fr s f))\<lparr>bi_size := n\<rparr>)
               in if_alive (f_t (fr s f)) (r_dev r) (s\<lparr>s_pages := bvcpy data segs (s_pages s)\<rparr>)))
         else if cmd = ATA_CMD_PIO_WRITE \<or> cmd = ATA_CMD_PIO_WRITE_EXT then
           if_alive (f_t (fr s f)) (r_dev r) s
         else if cmd = ATA_CMD_ID_ATA then
           (if length data < 512 then s
            else case alloc e s of (False, s1) \<Rightarrow> s1 | (True, s1) \<Rightarrow> ataid_complete data s1)
         else s)"

definition ktio_check :: "env \<Rightarrow> nat \<Rightarrow> st \<Rightarrow> st" where
  "ktio_check e f s =
     (if is_probe f s then s
      else case f_r_skb (fr s f) of None \<Rightarrow> fail_bio f s | Some r \<Rightarrow> ktio_rsp e f r s)"

text \<open>A response redeems its target a little, and may send the next probe.\<close>

definition redeem :: "env \<Rightarrow> nat \<Rightarrow> st \<Rightarrow> st" where
  "redeem e i s =
     (if t_taint (tg s i) > 0 then
        (let s1 = upd_tgt i (\<lambda>t. t\<lparr>t_taint := t_taint t - 1\<rparr>) s
         in if t_taint (tg s1 i) > 0 \<and> t_nout_probes (tg s1 i) = 0
               \<and> snd (count_targets (s_dev s1)) > 0
            then upd_tgt i (\<lambda>t. t\<lparr>t_nout_probes := t_nout_probes t + 1\<rparr>) (probe e i s1)
            else s1)
      else s)"

definition buf_frame_done :: "env \<Rightarrow> nat option \<Rightarrow> st \<Rightarrow> st" where
  "buf_frame_done e bo s =
     (case bo of
        None \<Rightarrow> s
      | Some b \<Rightarrow>
          (let s1 = upd_buf b (\<lambda>x. x\<lparr>b_nframesout := b_nframesout x - 1\<rparr>) s
           in if b_nframesout (bf s1 b) = 0 \<and> bi_size (b_iter (bf s1 b)) = 0
              then aoe_end_buf e b s1 else s1))"

definition ktio_out :: "env \<Rightarrow> nat \<Rightarrow> st \<Rightarrow> st" where
  "ktio_out e f s =
     (let bo = f_buf (fr s f); s1 = redeem e (f_t (fr s f)) s
      in upd_dev (\<lambda>d. d\<lparr>d_ref := d_ref d - 1\<rparr>) (buf_frame_done e bo (aoe_freetframe f s1)))"

text \<open>The code takes the lock of the device for the end of a frame and again for \<open>aoedev_put\<close>; here both are one step,
  after which the reference is given up.\<close>

definition ktiocomplete :: "env \<Rightarrow> nat \<Rightarrow> st \<Rightarrow> st" where
  "ktiocomplete e f s = ktio_out e f (ktio_check e f s)"

text \<open>One round of the loop of \<open>ktio\<close>: the head of completion queue \<open>q\<close> is taken and completed,
  and the thread of the device is spawned if it is not running yet (the flag says whether
  \<open>aoe_ktstart\<close> succeeds).\<close>

definition ktio_one :: "env \<Rightarrow> bool \<Rightarrow> nat \<Rightarrow> st \<Rightarrow> st" where
  "ktio_one e started q s =
     (case s_iocq s ! q of
        [] \<Rightarrow> s
      | f # fs \<Rightarrow>
          (let s1 = ktiocomplete e f (s\<lparr>s_iocq := (s_iocq s)[q := fs]\<rparr>);
               actual_id = unat (d_aoeminor (s_dev s1)) mod length (s_iocq s1)
           in if \<not> s_active s1 ! actual_id \<and> started
              then s1\<lparr>s_active := (s_active s1)[actual_id := True]\<rparr> else s1))"

section \<open>Failure\<close>

text \<open>The common end of a frame that fails: \<open>downdev_frame\<close> and \<open>aoe_flush_iocq_by_index\<close>, with
  the frame already off its list.\<close>

definition fail_frame :: "env \<Rightarrow> nat \<Rightarrow> st \<Rightarrow> st" where
  "fail_frame e f s =
     aoe_freetframe f
       (case f_buf (fr s f) of
          None \<Rightarrow> s
        | Some b \<Rightarrow> aoe_failbuf e (Some b) (upd_buf b (\<lambda>x. x\<lparr>b_nframesout := b_nframesout x - 1\<rparr>) s))"

primrec downdev_bucket :: "env \<Rightarrow> nat \<Rightarrow> nat list \<Rightarrow> st \<Rightarrow> st" where
  "downdev_bucket e n [] s = s"
| "downdev_bucket e n (f # fs) s =
     downdev_bucket e n fs
       (fail_frame e f (upd_dev (\<lambda>d. d\<lparr>d_factive := (d_factive d)[n := remove1 f (d_factive d ! n)]\<rparr>) s))"

primrec downdev_active :: "env \<Rightarrow> nat list \<Rightarrow> st \<Rightarrow> st" where
  "downdev_active e [] s = s"
| "downdev_active e (n # ns) s = downdev_active e ns (downdev_bucket e n (d_factive (s_dev s) ! n) s)"

primrec downdev_rexmit :: "env \<Rightarrow> nat list \<Rightarrow> st \<Rightarrow> st" where
  "downdev_rexmit e [] s = s"
| "downdev_rexmit e (f # fs) s = downdev_rexmit e fs (fail_frame e f (rexmitq_del f s))"

text \<open>\<open>aoe_failip\<close>: the buf and the request in process fail, with the bios not yet started.\<close>

primrec fail_bios :: "nat \<Rightarrow> nat list \<Rightarrow> st \<Rightarrow> st" where
  "fail_bios r [] s = s"
| "fail_bios r (b # bs) s =
     fail_bios r bs
       (upd_req r (\<lambda>x. x\<lparr>rq_special := rq_special x - 1\<rparr>)
         (upd_dev (\<lambda>d. d\<lparr>d_ip_nxbio := bs\<rparr>) (upd_bio b (\<lambda>x. x\<lparr>bio_error := True\<rparr>) s)))"

definition aoe_failip :: "env \<Rightarrow> st \<Rightarrow> st" where
  "aoe_failip e s =
     (let s1 = aoe_failbuf e (d_ip_buf (s_dev s)) s in
      case d_ip_rq (s_dev s1) of
        None \<Rightarrow> s1
      | Some r \<Rightarrow>
          (let s2 = fail_bios r (d_ip_nxbio (s_dev s1)) s1
           in if rq_special (s_reqs s2 r) = 0 then aoe_end_request e r False s2 else s2))"

definition set_capacity0 :: "aoedev \<Rightarrow> aoedev" where
  "set_capacity0 d = d\<lparr>d_gd := map_option (\<lambda>gd. gd\<lparr>gd_capacity := 0\<rparr>) (d_gd d)\<rparr>"

definition aoedev_downdev :: "env \<Rightarrow> st \<Rightarrow> st" where
  "aoedev_downdev e s =
     (let s1 = upd_dev (\<lambda>d. d\<lparr>d_flags := clrfl (d_flags d) DEVFL_UP\<rparr>) s;
          s2 = downdev_active e [0..<NFACTIVE] s1;
          s3 = downdev_rexmit e (d_rexmitq (s_dev s2)) s2;
          s4 = upd_dev (\<lambda>d. d\<lparr>d_targets := map (\<lambda>t. (aoecmd_wreset t)\<lparr>t_nout := 0\<rparr>) (d_targets d)\<rparr>) s3;
          s5 = aoe_failip e s4;
          s6 = fail_queue e s5
      in upd_dev set_capacity0 s6)"

text \<open>\<open>aoe_flush_iocq_by_index\<close>: the queue is emptied at once and its frames fail.\<close>

primrec flush_frames :: "env \<Rightarrow> nat list \<Rightarrow> st \<Rightarrow> st" where
  "flush_frames e [] s = s"
| "flush_frames e (f # fs) s =
     flush_frames e fs (upd_dev (\<lambda>d. d\<lparr>d_ref := d_ref d - 1\<rparr>) (fail_frame e f s))"

definition aoe_flush_iocq_by_index :: "env \<Rightarrow> nat \<Rightarrow> st \<Rightarrow> st" where
  "aoe_flush_iocq_by_index e q s =
     flush_frames e (s_iocq s ! q) (s\<lparr>s_iocq := (s_iocq s)[q := []]\<rparr>)"

section \<open>The retransmission timer\<close>

definition expired :: "env \<Rightarrow> int \<Rightarrow> st \<Rightarrow> nat \<Rightarrow> bool" where
  "expired e timeout s f = (\<not> sint (since e f s) < timeout)"

definition usec64 :: u64 where "usec64 = 1000000"

definition dead_frame :: "env \<Rightarrow> nat \<Rightarrow> st \<Rightarrow> bool" where
  "dead_frame e f s =
     (e_deadsecs e \<noteq> 0
      \<and> (f_waited_total (fr s f) + scast (since e f s)) div usec64 > e_deadsecs e
      \<and> \<not> is_probe f s)"

text \<open>The interface a lost frame went out on: one more loss, and it is given up after too many
  unless it is the only one.\<close>

definition if_loss :: "nat \<Rightarrow> nat option \<Rightarrow> st \<Rightarrow> st" where
  "if_loss i nd s =
     (case getif (tg s i) nd of
        None \<Rightarrow> s
      | Some p \<Rightarrow>
          (let s1 = upd_tgt i (\<lambda>t. t\<lparr>t_ifs := (t_ifs t)[p := (t_ifs t ! p)\<lparr>if_lost := if_lost (t_ifs t ! p) + 1\<rparr>]\<rparr>) s;
               t = tg s1 i
           in if if_lost (t_ifs t ! p) > ucast (t_nframes t) * 2 \<and> (p \<noteq> 0 \<or> if_nd (t_ifs t ! 1) \<noteq> None)
              then (case if_nd (t_ifs t ! p) of
                      None \<Rightarrow> emit EvOops (upd_tgt i (\<lambda>t. ejectif t p) s1)
                    | Some n \<Rightarrow> (upd_tgt i (\<lambda>t. ejectif t p) s1)
                                 \<lparr>s_ndref := (s_ndref s1)(n := s_ndref s1 n - 1)\<rparr>)
              else s1))"

text \<open>\<open>aoe_deadsecs / utgts\<close>, a quotient of two \<open>int\<close> that is then extended to the unsigned type of \<open>n\<close>.\<close>

definition deadsecs_share :: "u64 \<Rightarrow> nat \<Rightarrow> u64" where
  "deadsecs_share x utgts = (if sint x < 0 then - ((- x) div of_nat utgts) else x div of_nat utgts)"

definition expire_frame :: "env \<Rightarrow> nat \<Rightarrow> nat \<Rightarrow> st \<Rightarrow> st" where
  "expire_frame e utgts f s =
     (let i = f_t (fr s f);
          n = (f_waited (fr s f) + scast (since e f s)) div usec64;
          s1 = (if e_deadsecs e \<noteq> 0 \<and> utgts > 0
                   \<and> (n > deadsecs_share (e_deadsecs e) utgts \<or> n > HARD_SCORN_SECS)
                then upd_tgt i scorn s else s);
          s2 = upd_tgt i window_loss s1;
          s3 = (if is_probe f s2
                then upd_tgt i (\<lambda>t. t\<lparr>t_nout_probes := t_nout_probes t - 1\<rparr>) s2
                else if_loss i (sk_dev (s_skbs s2 (the (f_skb (fr s2 f))))) s2);
          s4 = upd_dev (\<lambda>d. d\<lparr>d_rexmitq := d_rexmitq d @ [f]\<rparr>) s3
      in upd_tgt i (\<lambda>t. t\<lparr>t_nout := t_nout t - 1\<rparr>) s4)"

text \<open>The loop over the collected frames: whether it ran to its end, or the device was taken
  down for a frame that waited too long.\<close>

primrec expire_loop :: "env \<Rightarrow> nat \<Rightarrow> nat list \<Rightarrow> st \<Rightarrow> bool \<times> st" where
  "expire_loop e utgts [] s = (True, s)"
| "expire_loop e utgts (f # fs) s =
     (if dead_frame e f s
      then (False, aoedev_downdev e
             (upd_dev (\<lambda>d. d\<lparr>d_factive := (d_factive d)[0 := (f # fs) @ d_factive d ! 0]\<rparr>) s))
      else expire_loop e utgts fs (expire_frame e utgts f s))"

definition rexmit_timer :: "env \<Rightarrow> st \<Rightarrow> st" where
  "rexmit_timer e s =
     (let timeout = rto (d_rttavg (s_dev s)) (d_rttdev (s_dev s));
          utgts = fst (count_targets (s_dev s))
      in if hasfl (d_flags (s_dev s)) DEVFL_TKILL then s
         else
           (let flist = concat (map (takeWhile (expired e timeout s)) (d_factive (s_dev s)));
                s1 = upd_dev (\<lambda>d. d\<lparr>d_factive := map (dropWhile (expired e timeout s)) (d_factive d)\<rparr>) s;
                s2 = (case expire_loop e utgts flist s1 of
                        (True, s2) \<Rightarrow> rexmit_deferred e s2
                      | (False, s2) \<Rightarrow> s2);
                s3 = (if hasfl (d_flags (s_dev s2)) DEVFL_KICKME \<and> d_blkq (s_dev s2) \<noteq> None
                      then aoeblk_request e (upd_dev (\<lambda>d. d\<lparr>d_flags := clrfl (d_flags d) DEVFL_KICKME\<rparr>) s2)
                      else s2)
            in upd_dev (\<lambda>d. d\<lparr>d_timer_expires := Some (e_jiffies e + of_int (e_hz e div 10))\<rparr>) s3))"

end
