(* ===== verification/Carry.thy ===== *)
theory Carry
  imports FrameInv Complete
begin

text \<open>
  What leaves the bufs of requests alone.  \<open>bk\<close> is the part of the state the account of bufs is about:
  the free frames, the buf each frame carries a piece of, which frames are probes, the bufs, the buf in
  process, the page counts and the bios but for their error; most functions keep it.
\<close>

section \<open>The part of the state\<close>

definition fb :: "st \<Rightarrow> nat \<Rightarrow> nat option" where
  "fb s f = f_buf (fr s f)"

definition pb :: "st \<Rightarrow> nat \<Rightarrow> bool" where
  "pb s f = is_probe f s"

definition bsh :: "st \<Rightarrow> nat \<Rightarrow> bio" where
  "bsh s b = (s_bios s b)\<lparr>bio_error := False\<rparr>"

definition bk :: "st \<Rightarrow> _" where
  "bk s = (fset s, fb s, pb s, s_bufs s, d_ip_buf (s_dev s), s_nbuf s, s_pgcnt s, bsh s)"

lemmas bk_defs = bk_def fb_def pb_def is_probe_def bsh_def fun_eq_iff

lemma bk_sel:
  assumes "bk s' = bk s"
  shows "fset s' = fset s" "fb s' = fb s" "s_bufs s' = s_bufs s" "d_ip_buf (s_dev s') = d_ip_buf (s_dev s)"
    "s_nbuf s' = s_nbuf s" "pb s' = pb s" "s_pgcnt s' = s_pgcnt s" "bsh s' = bsh s"
  using assms by (simp_all add: bk_def)

lemma fset_eq: "fset s = {x. (\<exists>t\<in>set (tgts s). x \<in> set (t_ffree t)) \<or> s_nframe s \<le> x}"
  by (auto simp: fset_def freem_def)

lemma bk_upd [simp]:
  "bk (upd_skb k g s) = bk s" "bk (s\<lparr>s_txq := tq\<rparr>) = bk s" "bk (upd_req r g2 s) = bk s" "bk (emit ev s) = bk s"
  "bk (aoenet_xmit sl s) = bk s" "bk (s\<lparr>s_tick := t\<rparr>) = bk s" "bk (s\<lparr>s_skbs := sk\<rparr>) = bk s" "bk (s\<lparr>s_nskb := n\<rparr>) = bk s"
  "bk (s\<lparr>s_ndref := nr\<rparr>) = bk s" "bk (s\<lparr>s_pages := pg\<rparr>) = bk s" "bk (s\<lparr>s_iocq := q\<rparr>) = bk s" "bk (s\<lparr>s_active := ac\<rparr>) = bk s"
  "bk (snd (alloc e s)) = bk s"
  by (simp_all add: bk_defs fset_eq alloc_def aoenet_xmit_def)

lemma bk_upd_bio [simp]: "bk (upd_bio b (\<lambda>x. x\<lparr>bio_error := c\<rparr>) s) = bk s"
  by (simp add: bk_defs fset_eq)

lemma bk_upd_fr [simp]: "f_buf (g (fr s f)) = f_buf (fr s f) \<Longrightarrow> f_flags (g (fr s f)) = f_flags (fr s f) \<Longrightarrow> bk (upd_fr f g s) = bk s"
  by (simp add: bk_defs fset_eq)

lemma bk_upd_dev [simp]:
  "d_targets (g (s_dev s)) = tgts s \<Longrightarrow> d_ip_buf (g (s_dev s)) = d_ip_buf (s_dev s) \<Longrightarrow> bk (upd_dev g s) = bk s"
  by (simp add: bk_defs fset_eq)

lemma ffree_update: "t_ffree (g (ts ! i)) = t_ffree (ts ! i) \<Longrightarrow> map t_ffree (ts[i := g (ts ! i)]) = map t_ffree ts"
  by (cases "i < length ts") (simp_all add: map_update list_update_same_conv list_update_beyond)

lemma bk_upd_tgt [simp]: "t_ffree (g (tg s i)) = t_ffree (tg s i) \<Longrightarrow> bk (upd_tgt i g s) = bk s"
  using ffree_update [of g "tgts s" i] by (simp add: bk_defs fset_def freem_def)

lemma bk_if [simp]: "bk s1 = bk s \<Longrightarrow> bk s2 = bk s \<Longrightarrow> bk (if b then s1 else s2) = bk s"
  by simp

section \<open>What leaves the bufs alone\<close>

lemma bk_new_skb [simp]: "bk (snd (new_skb e s)) = bk s"
  by (simp add: new_skb_def alloc_def split: bool.split)

lemma bk_clone [simp]: "bk (snd (skb_clone e k s)) = bk s"
  by (simp add: skb_clone_def alloc_def split: bool.split)

lemma bk_fhash [simp]: "bk (fhash f s) = bk s"
  by (simp add: fhash_def Let_def)

lemma bk_deref_nd [simp]: "bk (deref_nd i s) = bk s"
  by (simp add: deref_nd_def)

lemma bk_atainit [simp]: "bk (snd (aoehdr_atainit e i k s)) = bk s"
  by (simp add: aoehdr_atainit_def Let_def split_def)

lemma bk_frameinit [simp]: "bk (ata_rw_frameinit e f s) = bk s"
  by (simp add: ata_rw_frameinit_def Let_def split_def)

lemma bk_xmit_frame [simp]: "bk (xmit_frame e f s) = bk s"
proof -
  obtain p s1 where c: "skb_clone e (the (f_skb (fr s f))) s = (p, s1)" by fastforce
  then have "bk s1 = bk s" using bk_clone [of e "the (f_skb (fr s f))" s] by simp
  then show ?thesis by (simp add: xmit_frame_def c split: option.split)
qed

lemma bk_rexmitq [simp]: "bk (rexmitq_del f s) = bk s" "bk (rexmitq_replace f nf s) = bk s"
  by (simp_all add: rexmitq_del_def rexmitq_replace_def)

lemma bk_ktcomplete [simp]: "bk (ktcomplete f r s) = bk s"
  by (simp add: ktcomplete_def Let_def)

lemma bk_resend [simp]: "bk (resend e f s) = bk s"
proof -
  obtain n lt where t: "newtag (e_jiffies e) (d_lasttag (s_dev s)) = (n, lt)" by fastforce
  obtain b u where i: "ifrotate (tg s (f_t (fr s f))) = (b, u)" by fastforce
  have u: "t_ffree u = t_ffree (tg s (f_t (fr s f)))" using i by (auto simp: ifrotate_def Let_def split: if_splits)
  show ?thesis by (simp add: resend_def resend_prep_def Let_def t i u split: bool.split)
qed

lemma bk_getframe [simp]: "bk (snd (getframe tag s)) = bk s" "bk (snd (getframe_deferred tag s)) = bk s"
  by (auto simp: getframe_def getframe_deferred_def Let_def split: option.split)

lemma bk_rttavg [simp]: "bk (calc_rttavg ti rtt s) = bk s"
  by (simp add: calc_rttavg_def cwnd_update_def Let_def split_def split: option.split)

lemma bk_fail_bio [simp]: "bk (fail_bio f s) = bk s"
  by (simp add: fail_bio_def split: option.split)

lemma bk_if_alive [simp]: "bk (if_alive i nd s) = bk s"
  by (simp add: if_alive_def split: option.split)

lemma bk_ataid [simp]: "bk (ataid_complete data s) = bk s"
  by (simp add: ataid_complete_def Let_def split: option.split)

lemma bk_ktio_rsp [simp]: "bk (ktio_rsp e f r s) = bk s"
  unfolding ktio_rsp_def Let_def
  by (intro bk_if) (simp_all add: alloc_def split: bool.split)

lemma bk_ktio_check [simp]: "bk (ktio_check e f s) = bk s"
  by (simp add: ktio_check_def split: option.split)

lemma bk_if_loss [simp]: "bk (if_loss i nd s) = bk s"
  by (simp add: if_loss_def ejectif_def Let_def split: option.split)

lemma bk_expire_frame [simp]: "bk (expire_frame e u f s) = bk s"
  by (simp add: expire_frame_def scorn_def window_loss_def Let_def)


end
