(* ===== verification/CompleteInv.thy ===== *)
theory CompleteInv
  imports SendInv Carry
begin

text \<open>
  Completion and failure keep the invariant of the device: a response moves its frame to a
  completion queue and corrects \<open>nout\<close>, the completion thread frees it, the timer moves expired
  frames to the deferred queue, and \<open>aoedev_downdev\<close> leaves no frame active or deferred.
\<close>

section \<open>Ending requests\<close>

text \<open>What ending bios leaves alone: everything but the requests, \<open>ip.rq\<close> and what is on the queue.\<close>

definition ecore :: "st \<Rightarrow> st" where
  "ecore s = s\<lparr>s_dev := (s_dev s)\<lparr>d_ip_rq := None, d_blkq := map_option (\<lambda>_. []) (d_blkq (s_dev s))\<rparr>,
     s_reqs := (\<lambda>_. \<lparr>rq_bio = [], rq_special = 0\<rparr>), s_log := []\<rparr>"

definition ends :: "st \<Rightarrow> st \<Rightarrow> bool" where
  "ends s s' \<longleftrightarrow> ecore s' = ecore s"

lemma ends_refl [simp]: "ends s s"
  by (simp add: ends_def)

lemma ends_trans: "ends s s' \<Longrightarrow> ends s' s'' \<Longrightarrow> ends s s''"
  by (simp add: ends_def)

lemma ends_steps:
  "ends s (emit ev s)" "ends s (upd_req r g s)" "ends s (upd_dev (\<lambda>d. d\<lparr>d_ip_rq := x\<rparr>) s)"
  "d_blkq (s_dev s) \<noteq> None \<Longrightarrow> ends s (upd_dev (\<lambda>d. d\<lparr>d_blkq := Some y\<rparr>) s)"
  by (auto simp: ends_def ecore_def upd_defs)

lemma ends_dev:
  assumes "ends s s'"
  shows "(s_dev s')\<lparr>d_ip_rq := None, d_blkq := map_option (\<lambda>_. []) (d_blkq (s_dev s'))\<rparr>
    = (s_dev s)\<lparr>d_ip_rq := None, d_blkq := map_option (\<lambda>_. []) (d_blkq (s_dev s))\<rparr>"
proof -
  have "s_dev (ecore s') = s_dev (ecore s)" using assms by (simp only: ends_def)
  then show ?thesis by (simp add: ecore_def)
qed

lemma ends_dev_same:
  assumes "ends s s'"
  shows "tgts s' = tgts s" "d_flags (s_dev s') = d_flags (s_dev s)" "d_factive (s_dev s') = d_factive (s_dev s)"
    "rexq s' = rexq s" "d_ip_buf (s_dev s') = d_ip_buf (s_dev s)" "d_addr (s_dev s') = d_addr (s_dev s)"
    "d_tgt (s_dev s') = d_tgt (s_dev s)" "d_ntargets (s_dev s') = d_ntargets (s_dev s)"
    "d_ip_nxbio (s_dev s') = d_ip_nxbio (s_dev s)" "d_blkq (s_dev s') = None \<longleftrightarrow> d_blkq (s_dev s) = None"
  using arg_cong [OF ends_dev [OF assms], of d_targets] arg_cong [OF ends_dev [OF assms], of d_flags]
    arg_cong [OF ends_dev [OF assms], of d_factive] arg_cong [OF ends_dev [OF assms], of d_rexmitq]
    arg_cong [OF ends_dev [OF assms], of d_ip_buf] arg_cong [OF ends_dev [OF assms], of d_addr]
    arg_cong [OF ends_dev [OF assms], of d_tgt] arg_cong [OF ends_dev [OF assms], of d_ntargets]
    arg_cong [OF ends_dev [OF assms], of d_ip_nxbio] arg_cong [OF ends_dev [OF assms], of "\<lambda>d. d_blkq d = None"]
  by simp_all

lemma ends_st_same:
  assumes "ends s s'"
  shows "s_frames s' = s_frames s" "s_bufs s' = s_bufs s" "s_bios s' = s_bios s" "s_iocq s' = s_iocq s"
    "s_active s' = s_active s" "s_nframe s' = s_nframe s" "s_nbuf s' = s_nbuf s" "s_skbs s' = s_skbs s"
  using assms unfolding ends_def by (cases s; cases s'; simp add: ecore_def)+

lemma ends_view:
  assumes "ends s s'"
  shows "view s' = view s" "tgts_ok s' = tgts_ok s"
  unfolding view_def tgts_ok_def ends_dev_same [OF assms] ends_st_same [OF assms] by simp_all

lemmas ends_same = ends_view ends_dev_same ends_st_same

lemma end_loop_ends: "end_loop e n r ff s = Some s' \<Longrightarrow> ends s s'"
proof (induction n arbitrary: s)
  case (Suc n)
  show ?case
  proof (cases "rq_bio (s_reqs s r)")
    case Nil
    then show ?thesis using Suc.prems ends_steps(1) by auto
  next
    case (Cons b bs)
    obtain more cs where c: "e_end e (s_bios s) (b # bs) (bi_size (bio_iter (s_bios s b))) = (more, cs)" by fastforce
    let ?s1 = "upd_req r (\<lambda>x. x\<lparr>rq_bio := cs\<rparr>) (emit (EvEnd r b (ff \<or> bio_error (s_bios s b))) s)"
    have 1: "ends s ?s1" by (rule ends_trans [OF ends_steps(1) ends_steps(2)])
    show ?thesis
    proof (cases more)
      case True
      then have "ends ?s1 s'" using Suc.IH Suc.prems Cons c by simp
      then show ?thesis using ends_trans [OF 1] by simp
    next
      case False
      then have "s' = emit (EvDone r) ?s1" using Suc.prems Cons c by simp
      then show ?thesis using ends_trans [OF 1 ends_steps(1)] by simp
    qed
  qed
qed simp

lemma end_bios_ends: "ends s (end_bios e r ff s)"
proof -
  let ?s1 = "if d_ip_rq (s_dev s) = Some r then upd_dev (\<lambda>d. d\<lparr>d_ip_rq := None\<rparr>) s else s"
  have "ends s ?s1" using ends_steps(3) by simp
  moreover have "ends ?s1 s2" if "end_loop e n r ff ?s1 = Some s2" for n s2
    by (rule end_loop_ends [OF that])
  ultimately show ?thesis
    unfolding end_bios_def Let_def by (auto split: option.split intro: ends_trans simp del: end_loop.simps)
qed

lemma fail_reqs_ends: "d_blkq (s_dev s) \<noteq> None \<Longrightarrow> ends s (fail_reqs e q s)"
proof (induction q arbitrary: s)
  case (Cons r q)
  let ?s1 = "end_bios e r True (upd_dev (\<lambda>d. d\<lparr>d_blkq := Some q\<rparr>) s)"
  have 1: "ends s ?s1" by (rule ends_trans [OF ends_steps(4) end_bios_ends]) (rule Cons.prems)
  then have "d_blkq (s_dev ?s1) \<noteq> None" using ends_dev_same(10) [OF 1] Cons.prems by blast
  then show ?case using ends_trans [OF 1 Cons.IH] by simp
qed simp

lemma fail_queue_ends: "ends s (fail_queue e s)"
  by (simp add: fail_queue_def fail_reqs_ends split: option.splits)

lemma dev_ok_ends: "dev_ok X A s \<Longrightarrow> ends s s' \<Longrightarrow> dev_ok X A s'"
  using ends_same(1,2) dev_ok_same by metis

lemma aoeblk_request_ok: "dev_ok X {#} s \<Longrightarrow> dev_ok X {#} (aoeblk_request e s)"
  by (auto simp: aoeblk_request_def aoecmd_work_ok intro: dev_ok_ends [OF _ fail_queue_ends])

lemma aoe_end_request_ok: "dev_ok X {#} s \<Longrightarrow> dev_ok X {#} (aoe_end_request e r ff s)"
  using dev_ok_ends [OF _ end_bios_ends] by (auto simp: aoe_end_request_def Let_def aoeblk_request_ok)

lemma pagedec_same [simp]:
  "view (aoe_bio_pagedec e b s) = view s" "tgts_ok (aoe_bio_pagedec e b s) = tgts_ok s"
  "s_dev (aoe_bio_pagedec e b s) = s_dev s" "s_bufs (aoe_bio_pagedec e b s) = s_bufs s"
  "s_reqs (aoe_bio_pagedec e b s) = s_reqs s" "s_iocq (aoe_bio_pagedec e b s) = s_iocq s"
  by (simp_all add: aoe_bio_pagedec_def)

lemma aoe_end_buf_ok: "dev_ok X {#} s \<Longrightarrow> dev_ok X {#} (aoe_end_buf e b s)"
  by (auto simp: aoe_end_buf_def Let_def dev_ok_def [of X "{#}" "upd_req _ _ _"] intro!: aoe_end_request_ok)
    (auto simp: dev_ok_def)

lemma aoe_failbuf_ok: "dev_ok X {#} s \<Longrightarrow> dev_ok X {#} (aoe_failbuf e bo s)"
proof -
  assume "dev_ok X {#} s"
  moreover from this have "dev_ok X {#} (upd_bio k g (upd_buf b h s))" for k g b h by (simp add: dev_ok_def)
  ultimately show ?thesis by (auto simp: aoe_failbuf_def Let_def aoe_end_buf_ok split: option.splits)
qed

section \<open>Responses\<close>

lemma view_iocq: "view (s\<lparr>s_iocq := q\<rparr>) = (view s)\<lparr>v_ioc := q\<rparr>"
  by (simp add: view_def)

lemma ktcomplete_ok:
  assumes ok: "dev_ok (add_mset f X) A s"
  shows "dev_ok X A (ktcomplete f r s)"
proof -
  let ?s1 = "upd_fr f (\<lambda>x. x\<lparr>f_r_skb := r\<rparr>) s"
  let ?i = "unat (d_aoeminor (s_dev ?s1)) mod length (s_iocq ?s1)"
  let ?q = "if s_active ?s1 ! ?i then ?i else 0"
  have ne: "s_iocq s \<noteq> []" using ok by (simp add: dev_ok_def pool_ok_def pool_wk_def pool_lists_def)
  then have q: "?q < length (v_ioc (view s))" by simp
  have e: "ktcomplete f r s = emit (EvWake ?q) (?s1\<lparr>s_iocq := (s_iocq ?s1)[?q := s_iocq ?s1 ! ?q @ [f]]\<rparr>)"
    by (simp add: ktcomplete_def Let_def)
  show ?thesis
  proof (rule dev_okI)
    show "pool_ok X (view (ktcomplete f r s))"
      using pool_ioc_put [OF _ q, of f X] ok unfolding e view_other view_iocq by (simp add: dev_ok_def)
    show "nout_ok A (view (ktcomplete f r s))"
      using ok unfolding e view_other view_iocq by (simp add: dev_ok_def)
    show "tgts_ok (ktcomplete f r s)"
      using ok unfolding e by (simp add: dev_ok_def tgts_ok_def)
  qed
qed

lemma view_factive: "view (upd_dev (\<lambda>d. d\<lparr>d_factive := q d\<rparr>) s) = (view s)\<lparr>v_act := q (s_dev s)\<rparr>"
  by (simp add: view_def)

lemma fbucket_less: "fbucket tag < NBUCKETS"
  by (simp add: fbucket_def NBUCKETS_NFACTIVE NFACTIVE_def)

lemma getframe_cases:
  assumes "getframe tag s = (r, s')"
  obtains "r = None" "s' = s" "\<forall>f\<in>set (d_factive (s_dev s) ! fbucket tag). f_tag (fr s f) \<noteq> tag"
  | f fs where "r = Some f" "f_tag (fr s f) = tag" "mset (d_factive (s_dev s) ! fbucket tag) = add_mset f (mset fs)"
      "s' = upd_dev (\<lambda>d. d\<lparr>d_factive := (d_factive d)[fbucket tag := fs]\<rparr>) s"
proof (cases "take_first (\<lambda>f. f_tag (fr s f) = tag) (d_factive (s_dev s) ! fbucket tag)")
  case None
  then have "\<forall>f\<in>set (d_factive (s_dev s) ! fbucket tag). f_tag (fr s f) \<noteq> tag"
    by (simp only: take_first_None simp_thms)
  then show ?thesis using assms that(1) None by (simp add: getframe_def Let_def)
next
  case (Some p)
  then obtain f fs where "take_first (\<lambda>f. f_tag (fr s f) = tag) (d_factive (s_dev s) ! fbucket tag) = Some (f, fs)"
    by (cases p) auto
  then show ?thesis
    using assms that(2) [of f fs] take_first_head [of _ _ f fs] take_first_mset [of _ _ f fs]
    by (auto simp: getframe_def Let_def)
qed

lemma getframe_ok:
  assumes ok: "dev_ok X A s" and g: "getframe tag s = (Some f, s')"
  shows "dev_ok (add_mset f X) (add_mset f A) s'"
  using g
proof (rule getframe_cases)
  fix g fs assume g: "Some f = Some g" "mset (d_factive (s_dev s) ! fbucket tag) = add_mset g (mset fs)"
    and s': "s' = upd_dev (\<lambda>d. d\<lparr>d_factive := (d_factive d)[fbucket tag := fs]\<rparr>) s"
  have v: "view s' = (view s)\<lparr>v_act := (v_act (view s))[fbucket tag := fs]\<rparr>"
    unfolding s' view_factive by simp
  have m: "mset (v_act (view s) ! fbucket tag) = add_mset f (mset fs)" using g by simp
  have p: "pool_ok X (view s)" "nout_ok A (view s)" using ok by (simp_all add: dev_ok_def)
  note u = pool_unhash [OF p(1) fbucket_less m]
  show ?thesis
  proof (rule dev_okI)
    show "pool_ok (add_mset f X) (view s')" using u(1) v by simp
    show "nout_ok (add_mset f A) (view s')"
      by (rule nout_move [OF _ _ _ _ p(2)]) (use u(2) v in simp_all)
    show "tgts_ok s'" using ok s' by (simp add: dev_ok_def)
  qed
qed simp

lemma getframe_deferred_ok:
  assumes ok: "dev_ok X A s" and g: "getframe_deferred tag s = (Some f, s')"
  shows "dev_ok (add_mset f X) A s'"
proof -
  obtain fs where t: "take_first (\<lambda>f. f_tag (fr s f) = tag) (rexq s) = Some (f, fs)"
    and s': "s' = upd_dev (\<lambda>d. d\<lparr>d_rexmitq := fs\<rparr>) s"
    using g by (auto simp: getframe_deferred_def split: option.splits)
  have "mset fs + add_mset f X = mset (v_rex (view s)) + X" using take_first_mset [OF t] by simp
  then have "pool_ok (add_mset f X) (view s')"
    unfolding s' view_rexq by (rule pool_rex [rotated]) (use ok in \<open>simp add: dev_ok_def\<close>)
  then show ?thesis using ok s' by (intro dev_okI) (simp_all add: dev_ok_def view_rexq)
qed

lemma cwnd_update_sel [simp]:
  "t_ffree (cwnd_update t) = t_ffree t" "t_falloc (cwnd_update t) = t_falloc t" "t_nout (cwnd_update t) = t_nout t"
  "t_ifs (cwnd_update t) = t_ifs t" "t_ifp (cwnd_update t) = t_ifp t" "t_taint (cwnd_update t) = t_taint t"
  by (simp_all add: cwnd_update_def)

lemma calc_rttavg_ok: "dev_ok X A s \<Longrightarrow> dev_ok X A (calc_rttavg ti rtt s)"
proof -
  assume "dev_ok X A s"
  then have o: "dev_ok X A (upd_dev (\<lambda>d. d\<lparr>d_rttavg := a, d_rttdev := b\<rparr>) s)" for a b by (simp add: dev_ok_def)
  have "dev_ok X A (upd_tgt i cwnd_update (upd_dev (\<lambda>d. d\<lparr>d_rttavg := a, d_rttdev := b\<rparr>) s))" for i a b
    by (rule dev_ok_upd_tgt [OF o]) (simp_all add: tgt_ok_cong [of "cwnd_update _" "_"])
  then show ?thesis using o by (simp add: calc_rttavg_def Let_def split_def split: option.splits)
qed

lemma calc_rttavg_sel [simp]:
  "s_frames (calc_rttavg ti rtt s) = s_frames s" "length (tgts (calc_rttavg ti rtt s)) = length (tgts s)"
  "d_addr (s_dev (calc_rttavg ti rtt s)) = d_addr (s_dev s)"
  by (simp_all add: calc_rttavg_def Let_def split_def split: option.splits)

text \<open>One command fewer is outstanding.\<close>

lemma dev_ok_nout_dec:
  assumes ok: "dev_ok X (add_mset f A) s" and o: "f_d (fr s f) = d_addr (s_dev s)" "f_t (fr s f) = i"
    and i: "i < length (tgts s)"
    and g: "t_ffree (g (tg s i)) = t_ffree (tg s i)" "t_falloc (g (tg s i)) = t_falloc (tg s i)"
      "t_nout (g (tg s i)) = t_nout (tg s i) - 1"
    and t: "tgts_ok (upd_tgt i g s)"
  shows "dev_ok X A (upd_tgt i g s)"
proof (rule dev_okI [OF _ _ t])
  have v: "view (upd_tgt i g s) = (view s)\<lparr>v_nout := (v_nout (view s))[i := v_nout (view s) ! i - 1]\<rparr>"
    using i g by (simp add: view_nout)
  show "pool_ok X (view (upd_tgt i g s))" unfolding v by (rule pool_nout) (use ok in \<open>simp_all add: dev_ok_def\<close>)
  show "nout_ok A (view (upd_tgt i g s))"
    unfolding v by (rule nout_dec) (use ok o in \<open>simp_all add: dev_ok_def\<close>)
qed

lemma ata_rsp_work_ok: "dev_ok (add_mset f X) {#} s \<Longrightarrow> dev_ok X {#} (ata_rsp_work e f r s)"
  unfolding ata_rsp_work_def by (intro ktcomplete_ok aoecmd_work_ok)

lemma lb_getframe [simp]: "lb (snd (getframe tag s)) = lb s" "lb (snd (getframe_deferred tag s)) = lb s"
  by (auto simp: getframe_def getframe_deferred_def Let_def lb_upd_dev lv_def split: option.split)

lemma lb_rttavg [simp]: "lb (calc_rttavg ti rtt s) = lb s"
  by (simp add: calc_rttavg_def Let_def split_def lb_upd_dev lv_def split: option.split)

text \<open>A response belongs to an active frame or a deferred one, or it is late.\<close>

lemma ata_rsp_cases:
  assumes ok: "dev_ok X {#} s"
  obtains (frame) f s' where "dev_ok (add_mset f X) {#} s'" "lb s' = lb s" "bk s' = bk s"
      "aoecmd_ata_rsp e r s = (None, ata_rsp_work e f r s')"
  | (late) m s' where "dev_ok X {#} s'" "lb s' = lb s" "bk s' = bk s"
      "aoecmd_ata_rsp e r s = (Some r, emit m (upd_dev (\<lambda>d. d\<lparr>d_ref := d_ref d - 1\<rparr>) s'))"
proof -
  let ?n = "h_tag (hdr_of (r_data r))"
  obtain a s1 where g: "getframe ?n s = (a, s1)" by fastforce
  have 1: "lb s1 = lb s" "bk s1 = bk s" using lb_getframe(1) [of ?n s] bk_getframe(1) [of ?n s] g by simp_all
  show thesis
  proof (cases a)
    case (Some f)
    let ?i = "f_t (fr s1 f)"
    let ?s2 = "calc_rttavg (Some ?i) (sint (since e f s1)) s1"
    let ?g = "\<lambda>t. t\<lparr>t_nout := t_nout t - 1,
      t_nout_probes := (if is_probe f s1 then t_nout_probes t - 1 else t_nout_probes t)\<rparr>"
    have o1: "dev_ok (add_mset f X) {#f#} s1" using getframe_ok [OF ok] g Some by simp
    have o2: "dev_ok (add_mset f X) {#f#} ?s2" by (rule calc_rttavg_ok [OF o1])
    have "dev_ok (add_mset f X) {#} (upd_tgt ?i ?g ?s2)"
      by (rule dev_ok_nout_dec [OF o2]) (use dev_held [OF o1, of f] o2 in \<open>simp_all add: dev_ok_def\<close>)
    then show thesis by (rule frame) (use 1 g Some in \<open>simp_all add: aoecmd_ata_rsp_def Let_def\<close>)
  next
    case None
    then have "s1 = s" using g by (auto elim: getframe_cases)
    obtain b s2 where d: "getframe_deferred ?n s = (b, s2)" by fastforce
    have 2: "lb s2 = lb s" "bk s2 = bk s" using lb_getframe(2) [of ?n s] bk_getframe(2) [of ?n s] d by simp_all
    show thesis
    proof (cases b)
      case (Some f)
      have "dev_ok (add_mset f X) {#} s2" using getframe_deferred_ok [OF ok] d Some by simp
      then have "dev_ok (add_mset f X) {#} (calc_rttavg None (sint (since e f s2)) s2)" by (rule calc_rttavg_ok)
      then show thesis
        by (rule frame) (use 2 g \<open>a = None\<close> \<open>s1 = s\<close> d Some in \<open>simp_all add: aoecmd_ata_rsp_def Let_def\<close>)
    next
      case None
      have "s2 = s" using d None by (auto simp: getframe_deferred_def split: option.splits)
      let ?s3 = "calc_rttavg None (sint (tsince (e_j2us e) (e_jiffies e) ?n)) s"
      let ?s4 = "case gettgt (s_dev ?s3) (h_src (hdr_of (r_data r))) of None \<Rightarrow> ?s3
        | Some i \<Rightarrow> upd_tgt i (\<lambda>t. t\<lparr>t_lost := t_lost t - 1\<rparr>) ?s3"
      have "dev_ok X {#} ?s3" by (rule calc_rttavg_ok [OF ok])
      then have "dev_ok X {#} ?s4" by (simp add: dev_ok_def split: option.split)
      moreover have "lb ?s4 = lb s" "bk ?s4 = bk s" by (simp_all split: option.split)
      ultimately show thesis
        by (rule late) (use g \<open>a = None\<close> \<open>s1 = s\<close> d None \<open>s2 = s\<close> in \<open>simp add: aoecmd_ata_rsp_def Let_def\<close>)
    qed
  qed
qed

lemma aoecmd_ata_rsp_ok:
  assumes ok: "dev_ok X {#} s"
  shows "dev_ok X {#} (snd (aoecmd_ata_rsp e r s))"
  by (rule ata_rsp_cases [OF ok, of e r]) (simp add: ata_rsp_work_ok, simp add: dev_ok_def)

section \<open>The completion thread\<close>

lemma map_nd_update: "map if_nd (ifs[p := (ifs ! p)\<lparr>if_lost := l\<rparr>]) = map if_nd ifs"
  by (cases "p < length ifs") (simp_all add: map_update list_update_same_conv list_update_beyond)

lemma tgt_ok_counters:
  "tgt_ok t \<Longrightarrow> tgt_ok (t\<lparr>t_ifs := (t_ifs t)[p := (t_ifs t ! p)\<lparr>if_lost := l\<rparr>]\<rparr>)"
  using ifs_counters [of t, OF _ map_nd_update] by (simp add: tgt_ok_def)

lemma if_cases: "P x \<Longrightarrow> P y \<Longrightarrow> P (if b then x else y)"
  by simp

lemma if_alive_ok: "dev_ok X A s \<Longrightarrow> dev_ok X A (if_alive i nd s)"
  by (auto simp: if_alive_def tgt_ok_counters split: option.splits intro: dev_ok_upd_tgt)

lemma fail_bio_ok: "dev_ok X A (fail_bio f s) = dev_ok X A s"
  by (simp add: fail_bio_def dev_ok_def split: option.splits)

lemma ataid_complete_ok: "dev_ok X A (ataid_complete ident s) = dev_ok X A s"
proof -
  have "view (upd_dev g s) = view s \<and> tgts_ok (upd_dev g s) = tgts_ok s"
    if "\<And>d. d_addr (g d) = d_addr d" "\<And>d. d_factive (g d) = d_factive d" "\<And>d. d_rexmitq (g d) = d_rexmitq d"
      "\<And>d. d_targets (g d) = d_targets d" "\<And>d. d_tgt (g d) = d_tgt d" "\<And>d. d_ntargets (g d) = d_ntargets d" for g s
    using that by simp
  then show ?thesis
    by (simp add: ataid_complete_def Let_def dev_ok_def split: option.splits)
qed

lemma ktio_rsp_ok:
  assumes ok: "dev_ok X A s"
  shows "dev_ok X A (ktio_rsp e f r s)"
proof -
  have p: "dev_ok X A (s\<lparr>s_pages := pg\<rparr>)" for pg using ok by (simp add: dev_ok_def)
  have a: "dev_ok X A (case alloc e s of (False, s1) \<Rightarrow> s1 | (True, s1) \<Rightarrow> ataid_complete d s1)" for d
  proof -
    have "dev_ok X A (s\<lparr>s_tick := Suc (s_tick s)\<rparr>)" using ok by (simp add: dev_ok_def)
    then show ?thesis by (cases "e_alloc e (s_tick s)") (simp_all add: alloc_def ataid_complete_ok)
  qed
  show ?thesis
    unfolding ktio_rsp_def Let_def
    by (intro if_cases [where P = "dev_ok X A"]) (simp_all add: fail_bio_ok if_alive_ok p a ok)
qed

lemma ktio_check_ok: "dev_ok X A s \<Longrightarrow> dev_ok X A (ktio_check e f s)"
  by (simp add: ktio_check_def fail_bio_ok ktio_rsp_ok split: option.splits)

lemma tgt_ok_taint:
  "tgt_ok (t\<lparr>t_taint := x\<rparr>) \<longleftrightarrow> ifs_ok t \<and> nds t \<noteq> [] \<and> 0 \<le> x \<and> x \<le> MAX_TAINT"
proof -
  have "ifs_used (t\<lparr>t_taint := x\<rparr>) = ifs_used t" by (simp add: ifs_used_def)
  then have "nds (t\<lparr>t_taint := x\<rparr>) = nds t" "ifs_ok (t\<lparr>t_taint := x\<rparr>) = ifs_ok t"
    by (simp_all add: nds_def ifs_ok_def)
  then show ?thesis by (simp add: tgt_ok_def)
qed

lemma redeem_ok:
  assumes ok: "dev_ok X {#} s" and i: "i < length (tgts s)"
  shows "dev_ok X {#} (redeem e i s)"
proof (cases "t_taint (tg s i) > 0")
  case True
  let ?s1 = "upd_tgt i (\<lambda>t. t\<lparr>t_taint := t_taint t - 1\<rparr>) s"
  have keep: "tgt_ok (t\<lparr>t_taint := t_taint t - 1\<rparr>)" if "tgt_ok t" "t_taint t > 0" for t
    unfolding tgt_ok_taint using that by (simp add: tgt_ok_def)
  have o: "dev_ok X {#} ?s1" by (rule dev_ok_upd_tgt [OF ok]) (use keep True in simp_all)
  have "dev_ok X {#} (probe e i ?s1)" by (rule probe_ok(1) [OF o counted_empty]) (use i in simp)
  then show ?thesis using True o by (simp add: redeem_def Let_def dev_ok_def)
qed (use ok in \<open>simp add: redeem_def\<close>)

lemma buf_frame_done_ok: "dev_ok X {#} s \<Longrightarrow> dev_ok X {#} (buf_frame_done e bo s)"
proof -
  assume "dev_ok X {#} s"
  moreover from this have "dev_ok X {#} (upd_buf b h s)" for b h by (simp add: dev_ok_def)
  ultimately show ?thesis by (auto simp: buf_frame_done_def Let_def aoe_end_buf_ok split: option.splits)
qed

lemma ktiocomplete_ok:
  assumes "dev_ok (add_mset f X) {#} s"
  shows "dev_ok X {#} (ktiocomplete e f s)"
proof -
  let ?s1 = "ktio_check e f s"
  have o: "dev_ok (add_mset f X) {#} ?s1" by (rule ktio_check_ok [OF assms])
  have "dev_ok (add_mset f X) {#} (redeem e (f_t (fr ?s1 f)) ?s1)"
    by (rule redeem_ok [OF o]) (use dev_held [OF o, of f] in simp)
  then have "dev_ok X {#} (aoe_freetframe f (redeem e (f_t (fr ?s1 f)) ?s1))" by (rule dev_ok_free)
  then have "dev_ok X {#} (buf_frame_done e (f_buf (fr ?s1 f)) (aoe_freetframe f (redeem e (f_t (fr ?s1 f)) ?s1)))"
    by (rule buf_frame_done_ok)
  then show ?thesis by (simp add: ktiocomplete_def ktio_out_def Let_def dev_ok_def)
qed

lemma dev_ok_ioc_get:
  assumes ok: "dev_ok X A s" and q: "q < length (s_iocq s)" and f: "s_iocq s ! q = f # fs"
  shows "dev_ok (add_mset f X) A (s\<lparr>s_iocq := (s_iocq s)[q := fs]\<rparr>)"
proof -
  have p: "pool_ok (add_mset f X) ((view s)\<lparr>v_ioc := (v_ioc (view s))[q := fs]\<rparr>)"
    by (rule pool_ioc_get) (use ok q f in \<open>simp_all add: dev_ok_def\<close>)
  then show ?thesis
    by (intro dev_okI) (use ok in \<open>simp_all add: view_iocq dev_ok_def tgts_ok_def\<close>)
qed

lemma ktio_one_ok:
  assumes ok: "dev_ok X {#} s" and q: "q < length (s_iocq s)"
  shows "dev_ok X {#} (ktio_one e b q s)"
proof (cases "s_iocq s ! q")
  case (Cons f fs)
  let ?s0 = "s\<lparr>s_iocq := (s_iocq s)[q := fs]\<rparr>"
  have "dev_ok X {#} (ktiocomplete e f ?s0)" by (rule ktiocomplete_ok [OF dev_ok_ioc_get [OF ok q Cons]])
  then show ?thesis using Cons by (simp add: ktio_one_def Let_def dev_ok_def tgts_ok_def)
qed (use ok in \<open>simp add: ktio_one_def\<close>)

lemma fail_frame_ok:
  assumes "dev_ok (add_mset f X) {#} s"
  shows "dev_ok X {#} (fail_frame e f s)"
proof -
  have "dev_ok (add_mset f X) {#} (upd_buf b h s)" for b h using assms by (simp add: dev_ok_def)
  then show ?thesis
    using assms by (auto simp: fail_frame_def intro!: dev_ok_free aoe_failbuf_ok split: option.splits)
qed

lemma flush_frames_ok:
  "dev_ok (mset fs + X) {#} s \<Longrightarrow> dev_ok X {#} (flush_frames e fs s)"
proof (induction fs arbitrary: s)
  case (Cons f fs)
  then have "dev_ok (mset fs + X) {#} (fail_frame e f s)" by (intro fail_frame_ok) simp
  then have "dev_ok (mset fs + X) {#} (upd_dev (\<lambda>d. d\<lparr>d_ref := d_ref d - 1\<rparr>) (fail_frame e f s))"
    by (simp add: dev_ok_def)
  then show ?case using Cons.IH by simp
qed simp

section \<open>Taking a device down\<close>

text \<open>While \<open>DEVFL_UP\<close> is clear, ending a request fails the queue and sends nothing.\<close>

abbreviation is_up :: "st \<Rightarrow> bool" where "is_up s \<equiv> hasfl (d_flags (s_dev s)) DEVFL_UP"

text \<open>What failing bufs leaves alone.\<close>

definition bcore :: "st \<Rightarrow> st" where
  "bcore s = (ecore s)\<lparr>s_dev := (s_dev (ecore s))\<lparr>d_ip_buf := None, d_ip_nxbio := []\<rparr>,
     s_bufs := (\<lambda>_. None), s_bios := (\<lambda>_. undefined), s_pgcnt := (\<lambda>_. 0)\<rparr>"

definition fails :: "st \<Rightarrow> st \<Rightarrow> bool" where
  "fails s s' \<longleftrightarrow> bcore s' = bcore s"

lemma fails_refl [simp]: "fails s s"
  by (simp add: fails_def)

lemma fails_trans: "fails s s' \<Longrightarrow> fails s' s'' \<Longrightarrow> fails s s''"
  by (simp add: fails_def)

lemma fails_ends: "ends s s' \<Longrightarrow> fails s s'"
  by (simp add: fails_def ends_def bcore_def)

lemma fails_steps:
  "fails s (upd_buf b g s)" "fails s (upd_bio b h s)" "fails s (upd_dev (\<lambda>d. d\<lparr>d_ip_buf := x\<rparr>) s)"
  "fails s (upd_dev (\<lambda>d. d\<lparr>d_ip_nxbio := y\<rparr>) s)" "fails s (s\<lparr>s_bufs := z\<rparr>)" "fails s (upd_req r k s)"
  "fails s (aoe_bio_pagedec e b s)"
  by (simp_all add: fails_def bcore_def ecore_def upd_defs aoe_bio_pagedec_def)

lemma fails_dev:
  assumes "fails s s'"
  shows "(s_dev s')\<lparr>d_ip_rq := None, d_blkq := map_option (\<lambda>_. []) (d_blkq (s_dev s')), d_ip_buf := None, d_ip_nxbio := []\<rparr>
    = (s_dev s)\<lparr>d_ip_rq := None, d_blkq := map_option (\<lambda>_. []) (d_blkq (s_dev s)), d_ip_buf := None, d_ip_nxbio := []\<rparr>"
proof -
  have "s_dev (bcore s') = s_dev (bcore s)" using assms by (simp only: fails_def)
  then show ?thesis by (simp add: bcore_def ecore_def)
qed

lemma fails_same:
  assumes "fails s s'"
  shows "tgts s' = tgts s" "d_flags (s_dev s') = d_flags (s_dev s)" "d_factive (s_dev s') = d_factive (s_dev s)"
    "rexq s' = rexq s" "d_addr (s_dev s') = d_addr (s_dev s)" "d_tgt (s_dev s') = d_tgt (s_dev s)"
    "d_ntargets (s_dev s') = d_ntargets (s_dev s)"
  using arg_cong [OF fails_dev [OF assms], of d_targets] arg_cong [OF fails_dev [OF assms], of d_flags]
    arg_cong [OF fails_dev [OF assms], of d_factive] arg_cong [OF fails_dev [OF assms], of d_rexmitq]
    arg_cong [OF fails_dev [OF assms], of d_addr] arg_cong [OF fails_dev [OF assms], of d_tgt]
    arg_cong [OF fails_dev [OF assms], of d_ntargets]
  by simp_all

lemma fails_life:
  assumes "fails s s'"
  shows "d_gd (s_dev s') = d_gd (s_dev s)" "d_blkq (s_dev s') = None \<longleftrightarrow> d_blkq (s_dev s) = None"
    "d_ref (s_dev s') = d_ref (s_dev s)" "d_nopen (s_dev s') = d_nopen (s_dev s)"
    "d_aoemajor (s_dev s') = d_aoemajor (s_dev s)" "d_aoeminor (s_dev s') = d_aoeminor (s_dev s)"
    "d_sysminor (s_dev s') = d_sysminor (s_dev s)"
  using arg_cong [OF fails_dev [OF assms], of d_gd] arg_cong [OF fails_dev [OF assms], of "\<lambda>d. d_blkq d = None"]
    arg_cong [OF fails_dev [OF assms], of d_ref] arg_cong [OF fails_dev [OF assms], of d_nopen]
    arg_cong [OF fails_dev [OF assms], of d_aoemajor] arg_cong [OF fails_dev [OF assms], of d_aoeminor]
    arg_cong [OF fails_dev [OF assms], of d_sysminor]
  by simp_all

lemma fails_st_same:
  assumes "fails s s'"
  shows "s_frames s' = s_frames s" "s_iocq s' = s_iocq s" "s_active s' = s_active s" "s_nframe s' = s_nframe s"
  using assms unfolding fails_def by (cases s; cases s'; simp add: bcore_def ecore_def)+

lemma fails_view:
  assumes "fails s s'"
  shows "view s' = view s" "tgts_ok s' = tgts_ok s"
  unfolding view_def tgts_ok_def fails_same [OF assms] fails_st_same [OF assms] by simp_all

lemma aoe_end_request_down: "\<not> is_up s \<Longrightarrow> ends s (aoe_end_request e r ff s)"
proof -
  assume u: "\<not> is_up s"
  let ?s1 = "end_bios e r ff s"
  have 1: "ends s ?s1" by (rule end_bios_ends)
  then have "\<not> is_up ?s1" using u ends_same(4) by simp
  then show ?thesis
    using 1 ends_trans [OF 1 fail_queue_ends]
    by (cases ff) (simp_all add: aoe_end_request_def aoeblk_request_def Let_def)
qed

lemma aoe_end_buf_down:
  assumes "\<not> is_up s"
  shows "fails s (aoe_end_buf e b s)"
proof -
  let ?s1 = "if d_ip_buf (s_dev s) = Some b then upd_dev (\<lambda>d. d\<lparr>d_ip_buf := None\<rparr>) s else s"
  let ?s0 = "aoe_bio_pagedec e (b_bio (bf ?s1 b)) ?s1"
  let ?s2 = "\<lambda>r n. upd_req r (\<lambda>x. x\<lparr>rq_special := n\<rparr>) (?s0\<lparr>s_bufs := (s_bufs ?s0)(b := None)\<rparr>)"
  have "fails s ?s1" using fails_steps(3) by simp
  then have "fails s ?s0" using fails_trans [OF _ fails_steps(7)] by blast
  then have 2: "fails s (?s2 r n)" for r n
    using fails_trans [OF fails_trans [OF _ fails_steps(5)] fails_steps(6)] by blast
  then have "\<not> is_up (?s2 r n)" for r n using fails_same(2) [OF 2] assms by (simp only: not_False_eq_True)
  then have "fails s (aoe_end_request e r False (?s2 r n))" for r n
    using fails_trans [OF 2 fails_ends [OF aoe_end_request_down]] by blast
  then show ?thesis using 2 by (simp add: aoe_end_buf_def Let_def)
qed

lemma aoe_failbuf_down:
  assumes "\<not> is_up s"
  shows "fails s (aoe_failbuf e bo s)"
proof (cases bo)
  case (Some b)
  let ?s1 = "upd_bio (b_bio (bf s b)) (\<lambda>x. x\<lparr>bio_error := True\<rparr>)
      (upd_buf b (\<lambda>x. x\<lparr>b_iter := (b_iter x)\<lparr>bi_size := 0\<rparr>\<rparr>) s)"
  have 1: "fails s ?s1" by (rule fails_trans [OF fails_steps(1,2)])
  then have "\<not> is_up ?s1" using fails_same(2) [OF 1] assms by (simp only: not_False_eq_True)
  then show ?thesis
    using 1 fails_trans [OF 1 aoe_end_buf_down] Some by (simp add: aoe_failbuf_def Let_def)
qed (simp add: aoe_failbuf_def)

text \<open>The states inside \<open>aoedev_downdev\<close>: the account of frames is right but for \<open>nout\<close> and the
  hash.\<close>

definition down_ok :: "nat multiset \<Rightarrow> st \<Rightarrow> bool" where
  "down_ok X s \<longleftrightarrow> pool_wk X (view s) \<and> tgts_ok s \<and> \<not> is_up s"

lemma fail_frame_down:
  assumes ok: "down_ok (add_mset f X) s"
  shows "down_ok X (fail_frame e f s)" and "d_factive (s_dev (fail_frame e f s)) = d_factive (s_dev s)"
    and "rexq (fail_frame e f s) = rexq s"
proof -
  define s1 where "s1 = (case f_buf (fr s f) of None \<Rightarrow> s
    | Some b \<Rightarrow> aoe_failbuf e (Some b) (upd_buf b (\<lambda>x. x\<lparr>b_nframesout := b_nframesout x - 1\<rparr>) s))"
  have u: "\<not> is_up s" using ok by (simp add: down_ok_def)
  have "fails s (aoe_failbuf e (Some b) (upd_buf b h s))" for b h
    by (rule fails_trans [OF fails_steps(1) aoe_failbuf_down]) (use u in simp)
  then have 1: "fails s s1" by (simp add: s1_def split: option.splits)
  note v = fails_view [OF 1] fails_same [OF 1] fails_st_same [OF 1]
  have e: "fail_frame e f s = aoe_freetframe f s1" by (simp add: fail_frame_def s1_def)
  have "f_t (fr s f) < length (tgts s)"
    using pool_owned_wk [of "add_mset f X" "view s" f] ok by (simp add: down_ok_def)
  then have w: "view (fail_frame e f s) = v_put f (view s)"
    unfolding e using view_freetframe [of s1 f] v(1,3,10) by simp
  have "tgts_ok (fail_frame e f s)"
    unfolding e using chg_tgts_ok [OF freetframe_chg] v(2) ok by (simp add: down_ok_def)
  moreover have "\<not> is_up (fail_frame e f s)" unfolding e using v(4) u by (simp add: aoe_freetframe_def)
  ultimately show "down_ok X (fail_frame e f s)"
    using pool_put_wk ok unfolding down_ok_def w by simp
  show "d_factive (s_dev (fail_frame e f s)) = d_factive (s_dev s)" "rexq (fail_frame e f s) = rexq s"
    unfolding e using v(5,6) by (simp_all add: aoe_freetframe_def)
qed

lemma downdev_bucket_ok:
  assumes "down_ok {#} s" and "n < NBUCKETS" and "d_factive (s_dev s) ! n = fs" and "length (d_factive (s_dev s)) = NBUCKETS"
  shows "down_ok {#} (downdev_bucket e n fs s)
    \<and> d_factive (s_dev (downdev_bucket e n fs s)) = (d_factive (s_dev s))[n := []]
    \<and> rexq (downdev_bucket e n fs s) = rexq s"
  using assms
proof (induction fs arbitrary: s)
  case Nil
  then show ?case using list_update_id [of "d_factive (s_dev s)" n] by simp
next
  case (Cons f fs)
  let ?d = "upd_dev (\<lambda>d. d\<lparr>d_factive := (d_factive d)[n := remove1 f (d_factive d ! n)]\<rparr>) s"
  have f: "d_factive (s_dev ?d) = (d_factive (s_dev s))[n := fs]" using Cons.prems(3) by simp
  have v: "view ?d = (view s)\<lparr>v_act := (v_act (view s))[n := fs]\<rparr>"
    unfolding view_factive using Cons.prems(3) by simp
  have "pool_wk {#f#} (view ?d)"
    unfolding v by (rule pool_unhash_wk(1)) (use Cons.prems in \<open>simp_all add: down_ok_def\<close>)
  then have "down_ok (add_mset f {#}) ?d" using Cons.prems(1) by (simp add: down_ok_def)
  note d = fail_frame_down [OF this, of e]
  have l: "length (d_factive (s_dev (fail_frame e f ?d))) = NBUCKETS"
    "d_factive (s_dev (fail_frame e f ?d)) ! n = fs"
    using d(2) f Cons.prems(2,4) by simp_all
  show ?case
    using Cons.IH [OF d(1) Cons.prems(2) l(2,1)] d(2,3) f by simp
qed

lemma downdev_active_ok:
  assumes "down_ok {#} s" and "set ns \<subseteq> {..<NBUCKETS}" and "length (d_factive (s_dev s)) = NBUCKETS"
  shows "down_ok {#} (downdev_active e ns s) \<and> length (d_factive (s_dev (downdev_active e ns s))) = NBUCKETS
    \<and> (\<forall>n<NBUCKETS. d_factive (s_dev (downdev_active e ns s)) ! n = (if n \<in> set ns then [] else d_factive (s_dev s) ! n))
    \<and> rexq (downdev_active e ns s) = rexq s"
  using assms
proof (induction ns arbitrary: s)
  case (Cons n ns)
  let ?s1 = "downdev_bucket e n (d_factive (s_dev s) ! n) s"
  have n: "n < NBUCKETS" using Cons.prems(2) by simp
  have b: "down_ok {#} ?s1" "d_factive (s_dev ?s1) = (d_factive (s_dev s))[n := []]" "rexq ?s1 = rexq s"
    using downdev_bucket_ok [OF Cons.prems(1) n refl Cons.prems(3)] by simp_all
  have "length (d_factive (s_dev ?s1)) = NBUCKETS" using b(2) Cons.prems(3) by simp
  with Cons.IH [OF b(1) _ this] Cons.prems(2,3) b(2,3) n show ?case
    by (auto simp: nth_list_update)
qed simp

lemma downdev_rexmit_ok:
  assumes "down_ok {#} s" and "rexq s = fs"
  shows "down_ok {#} (downdev_rexmit e fs s) \<and> d_factive (s_dev (downdev_rexmit e fs s)) = d_factive (s_dev s)
    \<and> rexq (downdev_rexmit e fs s) = []"
  using assms
proof (induction fs arbitrary: s)
  case (Cons f fs)
  have v: "view (rexmitq_del f s) = (view s)\<lparr>v_rex := fs\<rparr>"
    unfolding rexmitq_del_def view_rexq using Cons.prems(2) by simp
  have "pool_wk {#f#} (view (rexmitq_del f s))"
    unfolding v by (rule pool_rex_wk) (use Cons.prems in \<open>simp_all add: down_ok_def\<close>)
  then have "down_ok (add_mset f {#}) (rexmitq_del f s)"
    using Cons.prems(1) by (simp add: down_ok_def rexmitq_del_def)
  note d = fail_frame_down [OF this, of e]
  have "rexq (fail_frame e f (rexmitq_del f s)) = fs" using d(3) Cons.prems(2) by (simp add: rexmitq_del_def)
  with Cons.IH [OF d(1) this] d(2) show ?case by (simp add: rexmitq_del_def)
qed simp

lemma fail_bios_fails: "fails s (fail_bios r bs s)"
proof (induction bs arbitrary: s)
  case (Cons b bs)
  have "fails s (upd_req r k (upd_dev (\<lambda>d. d\<lparr>d_ip_nxbio := bs\<rparr>) (upd_bio b h s)))" for k h
    by (rule fails_trans [OF fails_trans [OF fails_steps(2,4)] fails_steps(6)])
  then show ?case using fails_trans [OF _ Cons.IH] by simp
qed simp

lemma aoe_failip_down:
  assumes "\<not> is_up s"
  shows "fails s (aoe_failip e s)"
proof -
  let ?s1 = "aoe_failbuf e (d_ip_buf (s_dev s)) s"
  have 1: "fails s ?s1" by (rule aoe_failbuf_down [OF assms])
  have 2: "fails s (fail_bios r bs ?s1)" for r bs by (rule fails_trans [OF 1 fail_bios_fails])
  then have "\<not> is_up (fail_bios r bs ?s1)" for r bs
    using fails_same(2) [OF 2] assms by (simp only: not_False_eq_True)
  then have "fails s (aoe_end_request e r False (fail_bios r bs ?s1))" for r bs
    using fails_trans [OF 2 fails_ends [OF aoe_end_request_down]] by blast
  then show ?thesis using 1 2 by (simp add: aoe_failip_def Let_def split: option.splits)
qed

lemma tgt_ok_wreset: "tgt_ok ((aoecmd_wreset t)\<lparr>t_nout := 0\<rparr>) = tgt_ok t"
  by (rule tgt_ok_cong) (simp_all add: aoecmd_wreset_def)

lemma down_windows:
  assumes ok: "down_ok {#} s" and e: "concat (d_factive (s_dev s)) = []"
  shows "dev_ok {#} {#} (upd_dev (\<lambda>d. d\<lparr>d_targets := map (\<lambda>t. (aoecmd_wreset t)\<lparr>t_nout := 0\<rparr>) (d_targets d)\<rparr>) s)"
    (is "dev_ok {#} {#} ?s")
proof (rule dev_okI)
  have v: "view ?s = (view s)\<lparr>v_nout := map (\<lambda>_. 0) (tgts s)\<rparr>"
    by (simp add: view_def aoecmd_wreset_def o_def)
  have "pool_wk {#} (view ?s)"
    unfolding v by (rule pool_nout_wk) (use ok in \<open>simp_all add: down_ok_def\<close>)
  moreover have "hash_ok (view ?s)"
  proof -
    have "length (d_factive (s_dev s)) = NBUCKETS" using ok by (simp add: down_ok_def pool_wk_def pool_lists_def)
    then show ?thesis using e unfolding v hash_ok_def by (auto simp: in_set_conv_nth) (metis nth_mem list.set(1) empty_iff)
  qed
  ultimately show "pool_ok {#} (view ?s)" by (simp add: pool_ok_def)
  have "actm (view s) = {#}" using e by (simp add: actm_def del: concat_eq_Nil_conv)
  then show "nout_ok {#} (view ?s)" unfolding v nout_ok_def by simp
  show "tgts_ok ?s"
    using ok by (auto simp: down_ok_def tgts_ok_def list_all_length tgt_ok_wreset)
qed

lemma set_capacity0_same: "view (upd_dev set_capacity0 s) = view s" "tgts_ok (upd_dev set_capacity0 s) = tgts_ok s"
  by (simp_all add: set_capacity0_def)

lemma aoedev_downdev_ok:
  assumes p: "pool_wk {#} (view s)" and t: "tgts_ok s"
  shows "dev_ok {#} {#} (aoedev_downdev e s)" and "concat (d_factive (s_dev (aoedev_downdev e s))) = []"
    and "rexq (aoedev_downdev e s) = []" and "\<not> is_up (aoedev_downdev e s)"
proof -
  let ?s1 = "upd_dev (\<lambda>d. d\<lparr>d_flags := clrfl (d_flags d) DEVFL_UP\<rparr>) s"
  let ?s2 = "downdev_active e [0..<NFACTIVE] ?s1"
  let ?s3 = "downdev_rexmit e (rexq ?s2) ?s2"
  let ?s4 = "upd_dev (\<lambda>d. d\<lparr>d_targets := map (\<lambda>t. (aoecmd_wreset t)\<lparr>t_nout := 0\<rparr>) (d_targets d)\<rparr>) ?s3"
  have l: "length (d_factive (s_dev ?s1)) = NBUCKETS" using p by (simp add: pool_wk_def pool_lists_def)
  have "\<not> hasfl (clrfl w DEVFL_UP) DEVFL_UP" for w by (simp add: DEVFL_UP_def hasfl_clrfl_pow [of 0 w 0, simplified])
  then have d: "down_ok {#} ?s1" using p t by (simp add: down_ok_def)
  have ns: "set [0..<NFACTIVE] \<subseteq> {..<NBUCKETS}" by (auto simp: NBUCKETS_NFACTIVE)
  note a = downdev_active_ok [OF d ns l, of e]
  have "\<forall>xs\<in>set (d_factive (s_dev ?s2)). xs = []"
    using a by (auto simp: NBUCKETS_NFACTIVE in_set_conv_nth)
  with a have a: "down_ok {#} ?s2" "concat (d_factive (s_dev ?s2)) = []" by simp_all
  have r: "down_ok {#} ?s3" "concat (d_factive (s_dev ?s3)) = []" "rexq ?s3 = []"
    using downdev_rexmit_ok [OF a(1) refl, of e] a(2) by simp_all
  have 4: "dev_ok {#} {#} ?s4" "\<not> is_up ?s4" "concat (d_factive (s_dev ?s4)) = []" "rexq ?s4 = []"
    using down_windows [OF r(1,2)] r by (simp_all add: down_ok_def)
  have f: "fails ?s4 (fail_queue e (aoe_failip e ?s4))"
    by (rule fails_trans [OF aoe_failip_down [OF 4(2)] fails_ends [OF fail_queue_ends]])
  have e: "aoedev_downdev e s = upd_dev set_capacity0 (fail_queue e (aoe_failip e ?s4))"
    by (simp add: aoedev_downdev_def Let_def)
  show "dev_ok {#} {#} (aoedev_downdev e s)"
    unfolding e dev_ok_def set_capacity0_same fails_view [OF f] using 4(1) by (simp add: dev_ok_def)
  show "concat (d_factive (s_dev (aoedev_downdev e s))) = []" "rexq (aoedev_downdev e s) = []"
    "\<not> is_up (aoedev_downdev e s)"
    unfolding e using fails_same [OF f] 4 by (simp_all add: set_capacity0_def)
qed

end
