(* ===== verification/TimerInv.thy ===== *)
theory TimerInv
  imports CompleteInv
begin

text \<open>
  The retransmission timer keeps the invariant: frames that have waited too long are taken off
  their hash chains together and one by one put on the deferred queue, or all of them come back
  when one has waited so long that the device is taken down.  Emptying a completion queue keeps the
  invariant too.
\<close>

section \<open>Emptying a completion queue\<close>

lemma pool_ioc_clear:
  assumes ok: "pool_ok X v" and q: "q < length (v_ioc v)"
  shows "pool_ok (mset (v_ioc v ! q) + X) (v\<lparr>v_ioc := (v_ioc v)[q := []]\<rparr>)" (is "pool_ok ?X ?w")
proof -
  have wk: "pool_wk X v" by (rule pool_okD [OF ok])
  have i: "iocm v = mset (v_ioc v ! q) + iocm ?w"
    using mset_concat_update [OF q, of "[]"] by (simp add: add.commute iocm_def)
  then have "?X + homes ?w = X + homes v" by (simp add: homes_def actm_def freem_def)
  then have "pool_all (?X + homes ?w) ?w" by (intro pool_all_move [OF wk]) simp_all
  moreover have "pool_lists ?X ?w"
    using wk q unfolding pool_wk_def pool_lists_def i by (auto simp: actm_def)
  ultimately show ?thesis using ok by (simp add: pool_ok_def pool_wk_def)
qed

lemma dev_ok_ioc_clear:
  assumes ok: "dev_ok X A s" and q: "q < length (s_iocq s)"
  shows "dev_ok (mset (s_iocq s ! q) + X) A (s\<lparr>s_iocq := (s_iocq s)[q := []]\<rparr>)" (is "dev_ok _ _ ?s")
proof (rule dev_okI)
  show "pool_ok (mset (s_iocq s ! q) + X) (view ?s)"
    unfolding view_iocq using pool_ioc_clear [of X "view s" q] ok q by (simp add: dev_ok_def)
qed (use ok in \<open>simp_all add: view_iocq dev_ok_def tgts_ok_def\<close>)

lemma aoe_flush_iocq_ok:
  assumes ok: "dev_ok {#} {#} s" and q: "q < length (s_iocq s)"
  shows "dev_ok {#} {#} (aoe_flush_iocq_by_index e q s)"
  unfolding aoe_flush_iocq_by_index_def by (intro flush_frames_ok dev_ok_ioc_clear [OF ok q])

section \<open>A lost frame\<close>

lemma getif_from_nth: "getif_from i ps nd = Some p \<Longrightarrow> i \<le> p \<and> p < i + length ps \<and> if_nd (ps ! (p - i)) = nd"
proof (induction ps arbitrary: i)
  case (Cons q ps)
  show ?case
  proof (cases "if_nd q = nd")
    case False
    then have "Suc i \<le> p \<and> p < Suc i + length ps \<and> if_nd (ps ! (p - Suc i)) = nd"
      using Cons.prems by (intro Cons.IH) simp
    then show ?thesis by (auto simp: nth_Cons')
  qed (use Cons.prems in auto)
qed simp

lemma getif_less: "tgt_ok t \<Longrightarrow> getif t nd = Some p \<Longrightarrow> p < NAOEIFS"
  using getif_from_nth [of 0 "t_ifs t" nd p] by (simp add: getif_def tgt_ok_def ifs_ok_def)

lemma ejectif_sel [simp]:
  "t_ffree (ejectif t p) = t_ffree t" "t_falloc (ejectif t p) = t_falloc t" "t_nout (ejectif t p) = t_nout t"
  "t_taint (ejectif t p) = t_taint t"
  by (simp_all add: ejectif_def Let_def)

text \<open>The guard of the timer: an interface is ejected only when another one stays.\<close>

lemma tgt_ok_ejectif:
  assumes ok: "tgt_ok t" and p: "p < NAOEIFS" and guard: "p \<noteq> 0 \<or> if_nd (t_ifs t ! 1) \<noteq> None"
  shows "tgt_ok (ejectif t p)"
proof (cases "p < length (nds t)")
  case True
  have "2 \<le> length (nds t)"
    using guard True used_nth [of t 1] ok by (auto simp: NAOEIFS_def tgt_ok_def)
  moreover have "ifs_ok (ejectif t p)" "nds (ejectif t p) = take p (nds t) @ drop (Suc p) (nds t)"
    using ejectif_ok [of t p] ok True by (simp_all add: tgt_ok_def)
  ultimately show ?thesis using ok by (auto simp: tgt_ok_def)
next
  case False
  then show ?thesis using ejectif_unused [of t p] ok p by (simp add: tgt_ok_def)
qed

lemma if_loss_ok:
  assumes ok: "dev_ok X A s" and i: "i < length (tgts s)"
  shows "dev_ok X A (if_loss i nd s)"
proof (cases "getif (tg s i) nd")
  case (Some p)
  have t: "tgt_ok (tg s i)" using ok i by (simp add: dev_ok_def tgts_ok_nth)
  have p: "p < NAOEIFS" by (rule getif_less [OF t Some])
  let ?s1 = "upd_tgt i (\<lambda>t. t\<lparr>t_ifs := (t_ifs t)[p := (t_ifs t ! p)\<lparr>if_lost := if_lost (t_ifs t ! p) + 1\<rparr>]\<rparr>) s"
  have 1: "dev_ok X A ?s1" by (rule dev_ok_upd_tgt [OF ok]) (simp_all add: tgt_ok_counters)
  then have "dev_ok X A (upd_tgt i (\<lambda>t. ejectif t p) ?s1)"
    if "p \<noteq> 0 \<or> if_nd (t_ifs (tg ?s1 i) ! 1) \<noteq> None"
    by (rule dev_ok_upd_tgt) (use that p tgt_ok_ejectif in simp_all)
  then show ?thesis using 1 Some by (auto simp: if_loss_def Let_def dev_ok_def split: option.split)
qed (simp add: if_loss_def ok)

text \<open>A collected frame becomes a deferred one, and is no longer outstanding.\<close>

lemma scorn_sel [simp]:
  "t_ffree (scorn t) = t_ffree t" "t_falloc (scorn t) = t_falloc t" "t_nout (scorn t) = t_nout t"
  by (simp_all add: scorn_def Let_def)

lemma tgt_ok_scorn: "tgt_ok t \<Longrightarrow> tgt_ok (scorn t)"
  by (simp add: scorn_def Let_def tgt_ok_taint) (simp add: tgt_ok_def MAX_TAINT_def)

lemma window_loss_sel [simp]:
  "t_ffree (window_loss t) = t_ffree t" "t_falloc (window_loss t) = t_falloc t" "t_nout (window_loss t) = t_nout t"
  "t_ifs (window_loss t) = t_ifs t" "t_ifp (window_loss t) = t_ifp t" "t_taint (window_loss t) = t_taint t"
  by (simp_all add: window_loss_def Let_def)

lemma tgt_ok_window_loss: "tgt_ok t \<Longrightarrow> tgt_ok (window_loss t)"
  by (simp add: tgt_ok_cong [of "window_loss t" t])

lemma if_loss_same [simp]:
  "s_frames (if_loss i nd s) = s_frames s" "d_addr (s_dev (if_loss i nd s)) = d_addr (s_dev s)"
  "length (tgts (if_loss i nd s)) = length (tgts s)" "rexq (if_loss i nd s) = rexq s"
  by (simp_all add: if_loss_def Let_def split: option.splits)

lemma expire_frame_ok:
  assumes ok: "dev_ok (add_mset f X) (add_mset f A) s"
  shows "dev_ok X A (expire_frame e u f s)"
proof -
  define i where "i = f_t (fr s f)"
  define n where "n = (f_waited (fr s f) + scast (since e f s)) div usec64"
  define s1 where "s1 = (if e_deadsecs e \<noteq> 0 \<and> u > 0 \<and> (n > deadsecs_share (e_deadsecs e) u \<or> n > HARD_SCORN_SECS)
    then upd_tgt i scorn s else s)"
  define s2 where "s2 = upd_tgt i window_loss s1"
  define s3 where "s3 = (if is_probe f s2 then upd_tgt i (\<lambda>t. t\<lparr>t_nout_probes := t_nout_probes t - 1\<rparr>) s2
    else if_loss i (sk_dev (s_skbs s2 (the (f_skb (fr s2 f))))) s2)"
  define s4 where "s4 = upd_dev (\<lambda>d. d\<lparr>d_rexmitq := d_rexmitq d @ [f]\<rparr>) s3"
  have e: "expire_frame e u f s = upd_tgt i (\<lambda>t. t\<lparr>t_nout := t_nout t - 1\<rparr>) s4"
    by (simp only: expire_frame_def Let_def i_def n_def s1_def s2_def s3_def s4_def)
  have o: "f_d (fr s f) = d_addr (s_dev s)" "i < length (tgts s)"
    using pool_owned [of "add_mset f X" "view s" f] ok by (simp_all add: dev_ok_def i_def)
  have "dev_ok (add_mset f X) (add_mset f A) s1"
    unfolding s1_def by (rule if_cases) (simp_all add: ok dev_ok_upd_tgt tgt_ok_scorn)
  then have 2: "dev_ok (add_mset f X) (add_mset f A) s2"
    unfolding s2_def by (simp add: dev_ok_upd_tgt tgt_ok_window_loss)
  have l2: "length (tgts s2) = length (tgts s)" "s_frames s2 = s_frames s" "d_addr (s_dev s2) = d_addr (s_dev s)"
    by (simp_all add: s2_def s1_def)
  have "tgt_ok (t\<lparr>t_nout_probes := x\<rparr>) = tgt_ok t" for t x by (rule tgt_ok_cong) simp_all
  then have 3: "dev_ok (add_mset f X) (add_mset f A) s3"
    unfolding s3_def using 2 o l2 by (cases "is_probe f s2") (simp_all add: dev_ok_upd_tgt if_loss_ok)
  have l3: "length (tgts s3) = length (tgts s)" "s_frames s3 = s_frames s" "d_addr (s_dev s3) = d_addr (s_dev s)"
    by (simp_all add: s3_def l2)
  have v: "view s4 = (view s3)\<lparr>v_rex := v_rex (view s3) @ [f]\<rparr>" by (simp add: s4_def view_def)
  have "pool_ok X (view s4)" unfolding v by (rule pool_rex [of "add_mset f X"]) (use 3 in \<open>simp_all add: dev_ok_def\<close>)
  moreover have "nout_ok (add_mset f A) (view s4)" using 3 unfolding v by (simp add: dev_ok_def)
  moreover have t4: "tgts_ok s4" using 3 by (simp add: s4_def dev_ok_def)
  ultimately have 4: "dev_ok X (add_mset f A) s4" by (rule dev_okI)
  have "tgt_ok (t\<lparr>t_nout := x\<rparr>) = tgt_ok t" for t x by (rule tgt_ok_cong) simp_all
  then have "tgts_ok (upd_tgt i (\<lambda>t. t\<lparr>t_nout := t_nout t - 1\<rparr>) s4)" by (intro tgts_ok_upd_tgt [OF t4]) simp
  then show ?thesis
    unfolding e by (intro dev_ok_nout_dec [OF 4]) (use o l3 in \<open>simp_all add: s4_def i_def\<close>)
qed

section \<open>The timer\<close>

lemma pool_act_wk:
  assumes ok: "pool_wk X v" and m: "mset (concat a) + Y = actm v + X" and l: "length a = length (v_act v)"
  shows "pool_wk Y (v\<lparr>v_act := a\<rparr>)" (is "pool_wk Y ?w")
proof -
  have "Y + homes ?w = X + homes v"
    using m by (simp add: homes_def actm_def freem_def iocm_def ac_simps)
  then have "pool_all (Y + homes ?w) ?w" by (intro pool_all_move [OF ok]) simp_all
  moreover have "f \<in># Y + actm ?w \<longleftrightarrow> f \<in># X + actm v" for f
    using m by (simp add: actm_def add.commute)
  then have "pool_lists Y ?w" using ok l by (auto simp: pool_wk_def pool_lists_def iocm_def)
  ultimately show ?thesis by (simp add: pool_wk_def)
qed

lemma mset_take_drop_concat:
  "mset (concat (map (dropWhile P) xss)) + mset (concat (map (takeWhile P) xss)) = mset (concat xss)"
proof (induction xss)
  case (Cons xs xss)
  have "mset xs = mset (takeWhile P xs) + mset (dropWhile P xs)"
    using mset_append [of "takeWhile P xs" "dropWhile P xs"] by simp
  then show ?case using Cons.IH by (simp add: ac_simps)
qed simp

lemma collect_ok:
  fixes P :: "nat \<Rightarrow> bool"
  assumes ok: "dev_ok {#} {#} s"
  defines "fl \<equiv> concat (map (takeWhile P) (d_factive (s_dev s)))"
  shows "dev_ok (mset fl) (mset fl) (upd_dev (\<lambda>d. d\<lparr>d_factive := map (dropWhile P) (d_factive d)\<rparr>) s)"
    (is "dev_ok _ _ ?s")
proof (rule dev_okI)
  let ?a = "map (dropWhile P) (d_factive (s_dev s))"
  have v: "view ?s = (view s)\<lparr>v_act := ?a\<rparr>" by (simp add: view_factive)
  have m: "mset (concat ?a) + mset fl = actm (view s)"
    unfolding fl_def mset_take_drop_concat by (simp add: actm_def)
  have wk: "pool_wk {#} (view s)" "hash_ok (view s)" "nout_ok {#} (view s)"
    using ok by (simp_all add: dev_ok_def pool_ok_def)
  have "hash_ok (view ?s)"
    using wk unfolding v hash_ok_def by (auto simp: pool_wk_def pool_lists_def dest: set_dropWhileD)
  moreover have "pool_wk (mset fl) (view ?s)"
    unfolding v by (rule pool_act_wk [OF wk(1)]) (simp_all add: m)
  ultimately show "pool_ok (mset fl) (view ?s)" by (simp add: pool_ok_def)
  show "nout_ok (mset fl) (view ?s)"
    unfolding v by (rule nout_move [OF _ _ _ _ wk(3)]) (use m in \<open>simp_all add: actm_def\<close>)
  show "tgts_ok ?s" using ok by (simp add: dev_ok_def)
qed

lemma expire_loop_ok:
  "dev_ok (mset fs) (mset fs) s \<Longrightarrow> dev_ok {#} {#} (snd (expire_loop e u fs s))"
proof (induction fs arbitrary: s)
  case (Cons f fs)
  let ?s = "upd_dev (\<lambda>d. d\<lparr>d_factive := (d_factive d)[0 := (f # fs) @ d_factive d ! 0]\<rparr>) s"
  have wk: "pool_wk (mset (f # fs)) (view s)" using Cons.prems by (simp add: dev_ok_def pool_ok_def)
  then have "0 < length (d_factive (s_dev s))" by (simp add: pool_wk_def pool_lists_def NBUCKETS_def)
  from mset_concat_update [OF this, of "(f # fs) @ d_factive (s_dev s) ! 0"]
  have "pool_wk {#} (view ?s)"
    unfolding view_factive by (intro pool_act_wk [OF wk]) (simp_all add: actm_def)
  moreover have "tgts_ok ?s" using Cons.prems by (simp add: dev_ok_def)
  ultimately have "dev_ok {#} {#} (aoedev_downdev e ?s)" by (rule aoedev_downdev_ok)
  moreover have "dev_ok {#} {#} (snd (expire_loop e u fs (expire_frame e u f s)))"
    using Cons.prems by (intro Cons.IH expire_frame_ok) simp
  ultimately show ?case by simp
qed simp

lemma rexmit_timer_ok:
  assumes ok: "dev_ok {#} {#} s"
  shows "dev_ok {#} {#} (rexmit_timer e s)"
proof (cases "hasfl (d_flags (s_dev s)) DEVFL_TKILL")
  case False
  define P where "P = expired e (rto (d_rttavg (s_dev s)) (d_rttdev (s_dev s))) s"
  define u where "u = fst (count_targets (s_dev s))"
  define s1 where "s1 = upd_dev (\<lambda>d. d\<lparr>d_factive := map (dropWhile P) (d_factive d)\<rparr>) s"
  define r where "r = expire_loop e u (concat (map (takeWhile P) (d_factive (s_dev s)))) s1"
  define s2 where "s2 = (case r of (True, x) \<Rightarrow> rexmit_deferred e x | (False, x) \<Rightarrow> x)"
  define s3 where "s3 = (if hasfl (d_flags (s_dev s2)) DEVFL_KICKME \<and> d_blkq (s_dev s2) \<noteq> None
    then aoeblk_request e (upd_dev (\<lambda>d. d\<lparr>d_flags := clrfl (d_flags d) DEVFL_KICKME\<rparr>) s2) else s2)"
  have e: "rexmit_timer e s = upd_dev (\<lambda>d. d\<lparr>d_timer_expires := Some (e_jiffies e + of_int (e_hz e div 10))\<rparr>) s3"
    by (simp only: rexmit_timer_def Let_def P_def u_def s1_def r_def s2_def s3_def False if_False)
  have "dev_ok {#} {#} (snd r)"
    unfolding r_def s1_def by (rule expire_loop_ok [OF collect_ok [OF ok]])
  then have 2: "dev_ok {#} {#} s2"
    by (auto simp: s2_def rexmit_deferred_ok split: prod.split bool.split)
  have "dev_ok {#} {#} (upd_dev (\<lambda>d. d\<lparr>d_flags := clrfl (d_flags d) DEVFL_KICKME\<rparr>) s2)"
    using 2 by (simp add: dev_ok_def)
  with 2 have "dev_ok {#} {#} s3" by (simp add: s3_def aoeblk_request_ok)
  then show ?thesis unfolding e by (simp add: dev_ok_def)
qed (simp add: rexmit_timer_def ok)

end
