(* ===== verification/Config.thy ===== *)
theory Config
  imports Net TimerInv
begin

text \<open>
  Discovery and configuration (\<open>aoecmd.c\<close>): the broadcast of configuration queries, and what a
  response to one does to the device it names (\<open>aoecmd_cfg_rsp\<close>): a target is found or added, the
  frame size of the interface it came in on is recorded, and a device that is not open is identified
  anew.  All of it keeps the invariant of the device.
\<close>

section \<open>Configuration queries\<close>

text \<open>A network device of the kernel: its address and its name.\<close>

record netdev =
  n_id :: nat
  n_name :: string

definition cfg_hdr :: "env \<Rightarrow> nat \<Rightarrow> u16 \<Rightarrow> u8 \<Rightarrow> aoe_hdr" where
  "cfg_hdr e nd aoemajor aoeminor =
     zero_hdr\<lparr>h_dst := replicate 6 0xff, h_src := e_ndaddr e nd, h_type := ETH_P_AOE,
       h_verfl := AOE_HVER, h_major := aoemajor, h_minor := aoeminor, h_cmd := AOECMD_CFG\<rparr>"

text \<open>\<open>aoecmd_cfg_pkts\<close>: one query per allowed interface, each in front of the ones before
  (\<open>skb->next = sl\<close>).  The references to the interface taken and dropped in one round cancel.\<close>

fun cfg_pkts_loop ::
  "env \<Rightarrow> string \<Rightarrow> u16 \<Rightarrow> u8 \<Rightarrow> netdev list \<Rightarrow> txpkt list \<Rightarrow> st \<Rightarrow> txpkt list \<times> st" where
  "cfg_pkts_loop e iflist aoemajor aoeminor [] sl s = (sl, s)"
| "cfg_pkts_loop e iflist aoemajor aoeminor (ifp # ndl) sl s =
     (if \<not> is_aoe_netif iflist (n_name ifp) then cfg_pkts_loop e iflist aoemajor aoeminor ndl sl s
      else case new_skb e s of
             (None, s1) \<Rightarrow> cfg_pkts_loop e iflist aoemajor aoeminor ndl sl s1
           | (Some _, s1) \<Rightarrow>
               cfg_pkts_loop e iflist aoemajor aoeminor ndl
                 (TxCfg (cfg_hdr e (n_id ifp) aoemajor aoeminor) zero_cfghdr (n_id ifp) # sl) s1)"

definition aoecmd_cfg_pkts :: "env \<Rightarrow> string \<Rightarrow> netdev list \<Rightarrow> u16 \<Rightarrow> u8 \<Rightarrow> st \<Rightarrow> txpkt list \<times> st" where
  "aoecmd_cfg_pkts e iflist ndl aoemajor aoeminor s = cfg_pkts_loop e iflist aoemajor aoeminor ndl [] s"

definition aoecmd_cfg :: "env \<Rightarrow> string \<Rightarrow> netdev list \<Rightarrow> u16 \<Rightarrow> u8 \<Rightarrow> st \<Rightarrow> st" where
  "aoecmd_cfg e iflist ndl aoemajor aoeminor s =
     (case aoecmd_cfg_pkts e iflist ndl aoemajor aoeminor s of (sl, s1) \<Rightarrow> aoenet_xmit sl s1)"

section \<open>Targets\<close>

definition grow_targets :: "env \<Rightarrow> st \<Rightarrow> nat option \<times> st" where
  "grow_targets e s =
     (let oldn = d_ntargets (s_dev s); newn = oldn * 2
      in case alloc e s of
           (False, s1) \<Rightarrow> (None, s1)
         | (True, s1) \<Rightarrow> (Some oldn, upd_dev (\<lambda>d. d\<lparr>d_ntargets := newn\<rparr>) s1))"

text \<open>A new target, with \<open>ifp\<close> at the first interface.\<close>

definition new_tgt :: "u8 list \<Rightarrow> u16 \<Rightarrow> aoetgt" where
  "new_tgt addr nframes =
     (let t = aoecmd_wreset (zero_tgt\<lparr>t_nframes := nframes, t_addr := addr\<rparr>)
      in t\<lparr>t_maxout := t_nframes t div 2\<rparr>)"

definition addtgt :: "env \<Rightarrow> u8 list \<Rightarrow> u16 \<Rightarrow> st \<Rightarrow> nat option \<times> st" where
  "addtgt e addr nframes s =
     (let tt = length (tgts s);
          (slot, s1) = (if tt = d_ntargets (s_dev s) then grow_targets e s else (Some tt, s))
      in case slot of
           None \<Rightarrow> (None, s1)
         | Some i \<Rightarrow>
             (case alloc e s1 of
                (False, s2) \<Rightarrow> (None, s2)
              | (True, s2) \<Rightarrow>
                  (Some i, upd_dev (\<lambda>d. d\<lparr>d_targets := d_targets d @ [new_tgt addr nframes]\<rparr>) s2)))"

fun min_bcnt :: "aoetgt list \<Rightarrow> int \<Rightarrow> int" where
  "min_bcnt [] bcnt = bcnt"
| "min_bcnt (t # ts) bcnt =
     min_bcnt ts (if bcnt = 0 \<or> bcnt > t_minbcnt t then t_minbcnt t else bcnt)"

definition setdbcnt :: "aoedev \<Rightarrow> aoedev" where
  "setdbcnt d =
     (let bcnt = unat (word_of_int (min_bcnt (d_targets d) 0) :: u64)
      in if bcnt \<noteq> d_maxbcnt d then d\<lparr>d_maxbcnt := bcnt\<rparr> else d)"

definition setifbcnt :: "nat \<Rightarrow> nat \<Rightarrow> int \<Rightarrow> st \<Rightarrow> st" where
  "setifbcnt i nd bcnt s =
     (case setif (tg s i) nd bcnt of
        None \<Rightarrow> s
      | Some (t, held) \<Rightarrow>
          (let s1 = upd_tgt i (\<lambda>_. t) s;
               s2 = (if held then s1\<lparr>s_ndref := (s_ndref s1)(nd := s_ndref s1 nd + 1)\<rparr> else s1)
           in upd_dev setdbcnt s2))"

section \<open>Configuration responses\<close>

text \<open>The three addresses that are refused, the cap on the number of frames (\<open>aoe_maxout\<close> is an
  \<open>int\<close> module parameter) and the payload that fits one frame, in 16 bits.\<close>

definition cfg_valid :: "aoe_hdr \<Rightarrow> bool" where
  "cfg_valid h \<longleftrightarrow> h_major h \<noteq> 0xfff \<and> h_major h \<noteq> 0xffff \<and> h_minor h \<noteq> 0xff"

definition cfg_nframes :: "env \<Rightarrow> aoe_cfghdr \<Rightarrow> u16" where
  "cfg_nframes e ch = (if uint (ch_bufcnt ch) > e_maxout e then word_of_int (e_maxout e) else ch_bufcnt ch)"

definition cfg_bcnt :: "u32 \<Rightarrow> u8 \<Rightarrow> u16" where
  "cfg_bcnt mtu scnt =
     (let n = (ucast mtu - 36) div 512;
          n' = (if n > ucast scnt then ucast scnt else n)
      in if n' \<noteq> 0 then n' * 512 else of_nat DEFAULTBCNT)"

text \<open>The part of \<open>aoecmd_cfg_rsp\<close> that runs with the device locked, up to the label \<open>bail\<close>: the
  packets to send.\<close>

definition cfg_tgt :: "env \<Rightarrow> u8 list \<Rightarrow> u16 \<Rightarrow> st \<Rightarrow> nat option \<times> st" where
  "cfg_tgt e src n s =
     (case gettgt (s_dev s) src of
        Some i \<Rightarrow>
          (Some i, upd_tgt i (\<lambda>t. let t' = t\<lparr>t_nframes := n\<rparr> in if n < t_maxout t' then aoecmd_wreset t' else t') s)
      | None \<Rightarrow> addtgt e src n s)"

definition cfg_ident :: "env \<Rightarrow> u16 \<Rightarrow> st \<Rightarrow> txpkt list \<times> st" where
  "cfg_ident e fwver s =
     (if d_nopen (s_dev s) = 0 then
        (case aoecmd_ata_id e (upd_dev (\<lambda>d. d\<lparr>d_fw_ver := fwver\<rparr>) s) of
           (None, s1) \<Rightarrow> ([], s1)
         | (Some p, s1) \<Rightarrow> ([p], s1))
      else ([], s))"

definition cfg_rsp_dev :: "env \<Rightarrow> rskb \<Rightarrow> st \<Rightarrow> txpkt list \<times> st" where
  "cfg_rsp_dev e r s =
     (let h = hdr_of (r_data r); ch = cfghdr_of (drop 24 (r_data r))
      in case cfg_tgt e (h_src h) (cfg_nframes e ch) s of
           (None, s1) \<Rightarrow> ([], s1)
         | (Some i, s1) \<Rightarrow>
             cfg_ident e (ch_fwver ch)
               (setifbcnt i (r_dev r) (uint (cfg_bcnt (e_mtu e (r_dev r)) (ch_scnt ch))) s1))"

definition aoecmd_cleanslate :: "aoedev \<Rightarrow> aoedev" where
  "aoecmd_cleanslate d =
     d\<lparr>d_rttavg := RTTAVG_INIT, d_rttdev := RTTDEV_INIT, d_maxbcnt := 0,
       d_targets := map aoecmd_wreset (d_targets d)\<rparr>"

section \<open>The invariant\<close>

lemma cfg_pkts_same: "chg {} s (snd (cfg_pkts_loop e l maj mi ndl sl s)) \<and> view (snd (cfg_pkts_loop e l maj mi ndl sl s)) = view s"
proof (induction ndl arbitrary: sl s)
  case (Cons ifp ndl)
  obtain r s1 where n: "new_skb e s = (r, s1)" by fastforce
  show ?case
    using Cons.IH [where s = s] Cons.IH [where s = s1] new_skb_chg(1,2) [OF n]
    by (auto simp: n split: option.split intro: chg_trans)
qed simp

lemma dev_ok_unmoved: "dev_ok X A s \<Longrightarrow> chg S s s' \<Longrightarrow> view s' = view s \<Longrightarrow> dev_ok X A s'"
  by (simp add: dev_ok_def chg_tgts_ok)

lemma aoecmd_cfg_ok: "dev_ok X A s \<Longrightarrow> dev_ok X A (aoecmd_cfg e l ndl maj mi s)"
proof -
  assume ok: "dev_ok X A s"
  obtain sl s1 where c: "aoecmd_cfg_pkts e l ndl maj mi s = (sl, s1)" by fastforce
  then have "dev_ok X A s1"
    using cfg_pkts_same [of s e l maj mi ndl "[]"] dev_ok_unmoved [OF ok, of "{}" s1] by (simp add: aoecmd_cfg_pkts_def)
  then show ?thesis by (simp add: aoecmd_cfg_def c aoenet_xmit_def dev_ok_def)
qed

text \<open>A target without frames joins the account.\<close>

definition v_addtgt :: "fv \<Rightarrow> fv" where
  "v_addtgt v = v\<lparr>v_free := v_free v @ [[]], v_falloc := v_falloc v @ [0], v_nout := v_nout v @ [0]\<rparr>"

lemma v_addtgt_sel [simp]:
  "v_addr (v_addtgt v) = v_addr v" "v_act (v_addtgt v) = v_act v" "v_rex (v_addtgt v) = v_rex v"
  "v_ioc (v_addtgt v) = v_ioc v" "v_nf (v_addtgt v) = v_nf v" "v_own (v_addtgt v) = v_own v"
  "v_tag (v_addtgt v) = v_tag v" "homes (v_addtgt v) = homes v" "actm (v_addtgt v) = actm v"
  "cnt (v_addtgt v) i M = cnt v i M" "hash_ok (v_addtgt v) = hash_ok v"
  "v_free (v_addtgt v) = v_free v @ [[]]" "v_falloc (v_addtgt v) = v_falloc v @ [0]"
  "v_nout (v_addtgt v) = v_nout v @ [0]"
  by (simp_all add: v_addtgt_def homes_def actm_def freem_def iocm_def cnt_def hash_ok_def)

lemma pool_no_tgt:
  assumes "pool_wk X v" and "M \<subseteq># X + homes v"
  shows "cnt v (length (v_free v)) M = 0"
proof -
  have "v_own v f \<noteq> (v_addr v, length (v_free v))" if "f \<in># M" for f
  proof
    assume o: "v_own v f = (v_addr v, length (v_free v))"
    have "f \<in># X + homes v" by (rule mset_subset_eqD [OF assms(2) that])
    then have "fst (v_own v f) = v_addr v \<longrightarrow> snd (v_own v f) < length (v_free v)"
      using assms(1) unfolding pool_wk_def pool_all_def by blast
    then show False using o by simp
  qed
  then have "filter_mset (\<lambda>f. v_own v f = (v_addr v, length (v_free v))) M = {#}"
    by simp
  then show ?thesis by (simp add: cnt_def)
qed

lemma pool_addtgt:
  assumes ok: "pool_ok X v"
  shows "pool_ok X (v_addtgt v)"
proof -
  have wk: "pool_wk X v" by (rule pool_okD [OF ok])
  then have l: "length (v_falloc v) = length (v_free v)" "length (v_nout v) = length (v_free v)"
    by (simp_all add: pool_wk_def pool_lists_def)
  have z: "cnt v (length (v_free v)) (X + homes v) = 0" by (rule pool_no_tgt [OF wk]) simp
  have "pool_all (X + homes v) (v_addtgt v)"
    unfolding pool_all_def
  proof (intro conjI allI impI)
    fix i assume "i < length (v_free (v_addtgt v))"
    then consider "i < length (v_free v)" | "i = length (v_free v)" by (auto simp: less_Suc_eq)
    then show "v_falloc (v_addtgt v) ! i = cnt (v_addtgt v) i (X + homes v)"
      "cnt (v_addtgt v) i (X + homes v) \<le> 512"
      using wk z l by (cases; simp add: pool_wk_def pool_all_def nth_append del: cnt_plus)+
  qed (use wk in \<open>auto simp: pool_wk_def pool_all_def intro: less_SucI simp del: cnt_plus\<close>)
  moreover have "pool_lists X (v_addtgt v)"
    using wk l by (auto simp: pool_wk_def pool_lists_def nth_append less_Suc_eq actm_def iocm_def split: if_splits)
  ultimately show ?thesis using ok by (simp add: pool_ok_def pool_wk_def)
qed

lemma nout_addtgt:
  assumes ok: "pool_ok X v" and n: "nout_ok A v" and A: "A \<subseteq># X"
  shows "nout_ok A (v_addtgt v)"
proof -
  have wk: "pool_wk X v" by (rule pool_okD [OF ok])
  have "A + actm v \<subseteq># X + homes v"
    using A by (intro subset_mset.add_mono) (simp_all add: homes_def)
  then have "cnt v (length (v_free v)) (A + actm v) = 0" by (rule pool_no_tgt [OF wk])
  moreover have "length (v_nout v) = length (v_free v)" using wk by (simp add: pool_wk_def pool_lists_def)
  ultimately show ?thesis
    using n by (auto simp: nout_ok_def nth_append less_Suc_eq simp del: cnt_plus)
qed

text \<open>Setting the byte count of an interface makes a target complete.\<close>

lemma setif_sel:
  assumes "setif t nd b = Some (t', h)"
  shows "t_ffree t' = t_ffree t" "t_falloc t' = t_falloc t" "t_nout t' = t_nout t" "t_taint t' = t_taint t"
  using assms by (auto simp: setif_def split: prod.splits option.splits if_splits)

lemma tgt_ok_setif:
  assumes "ifs_ok t" and "0 \<le> t_taint t" and "t_taint t \<le> MAX_TAINT" and "setif t nd b = Some (t', h)"
  shows "tgt_ok t'"
  using setif_ok [OF assms(1,4)] setif_sel(4) [OF assms(4)] assms(2,3) by (auto simp: tgt_ok_def)

lemma setdbcnt_sel [simp]:
  "d_addr (setdbcnt d) = d_addr d" "d_factive (setdbcnt d) = d_factive d" "d_rexmitq (setdbcnt d) = d_rexmitq d"
  "d_targets (setdbcnt d) = d_targets d" "d_tgt (setdbcnt d) = d_tgt d" "d_ntargets (setdbcnt d) = d_ntargets d"
  by (simp_all add: setdbcnt_def Let_def)

lemma setifbcnt_old:
  assumes ok: "dev_ok X A s" and i: "i < length (tgts s)"
  shows "dev_ok X A (setifbcnt i nd b s)"
proof (cases "setif (tg s i) nd b")
  case (Some th)
  obtain t h where r: "setif (tg s i) nd b = Some (t, h)" using Some by (cases th) simp
  have t: "tgt_ok (tg s i)" using ok i by (simp add: dev_ok_def tgts_ok_nth)
  have "dev_ok X A (upd_tgt i (\<lambda>_. t) s)"
    by (rule dev_ok_upd_tgt [OF ok])
      (use setif_sel [OF r] tgt_ok_setif [OF _ _ _ r] t in \<open>simp_all add: tgt_ok_def\<close>)
  then show ?thesis using r by (auto simp: setifbcnt_def Let_def dev_ok_def)
qed (simp add: setifbcnt_def ok)

lemma new_tgt_sel:
  "t_ffree (new_tgt a n) = []" "t_falloc (new_tgt a n) = 0" "t_nout (new_tgt a n) = 0" "t_taint (new_tgt a n) = 0"
  "ifs_ok (new_tgt a n)" "nds (new_tgt a n) = []"
proof -
  have i: "t_ifs (new_tgt a n) = t_ifs zero_tgt" "t_ifp (new_tgt a n) = t_ifp zero_tgt"
    by (simp_all add: new_tgt_def Let_def aoecmd_wreset_def)
  show "ifs_ok (new_tgt a n)" "nds (new_tgt a n) = []"
    using zero_tgt_ifs unfolding ifs_ok_def nds_def ifs_used_def i by blast+
qed (simp_all add: new_tgt_def Let_def aoecmd_wreset_def zero_tgt_def)

lemma setif_new: "\<exists>t. setif (new_tgt a n) nd b = Some (t, True)"
proof -
  have "setif (new_tgt a n) nd b \<noteq> None"
    using setif_full [of "new_tgt a n" nd b] new_tgt_sel(5,6) [of a n] by (simp add: NAOEIFS_def)
  then obtain t h where r: "setif (new_tgt a n) nd b = Some (t, h)" by fastforce
  then have h using setif_ok [OF new_tgt_sel(5) r] by (simp add: new_tgt_sel(6))
  with r show ?thesis by auto
qed

text \<open>A new target and its first interface, in one step.\<close>

lemma addtgt_ok:
  assumes ok: "dev_ok X A s" and r: "addtgt e a n s = (r, s')"
  shows "r = None \<Longrightarrow> dev_ok X A s'"
    and "r = Some i \<Longrightarrow> i = length (tgts s) \<and> tgts s' = tgts s @ [new_tgt a n] \<and> view s' = v_addtgt (view s)
      \<and> length (tgts s') \<le> d_ntargets (s_dev s') \<and> 0 < d_ntargets (s_dev s') \<and> d_tgt (s_dev s') = d_tgt (s_dev s)
      \<and> s_active s' = s_active s \<and> s_iocq s' = s_iocq s"
proof -
  define g where "g = (if length (tgts s) = d_ntargets (s_dev s) then grow_targets e s else (Some (length (tgts s)), s))"
  obtain sl s1 where g1: "g = (sl, s1)" by fastforce
  have l: "length (tgts s) \<le> d_ntargets (s_dev s)" "0 < d_ntargets (s_dev s)"
    using ok by (simp_all add: dev_ok_def tgts_ok_def)
  have "view s1 = view s \<and> tgts s1 = tgts s \<and> tgts_ok s1 = tgts_ok s \<and> d_tgt (s_dev s1) = d_tgt (s_dev s)
      \<and> s_active s1 = s_active s \<and> s_iocq s1 = s_iocq s
      \<and> (\<forall>i. sl = Some i \<longrightarrow> i = length (tgts s) \<and> length (tgts s) < d_ntargets (s_dev s1))"
    using g1 l by (auto simp: g_def grow_targets_def alloc_def Let_def tgts_ok_def split: if_splits bool.splits)
  note a = this
  have e: "addtgt e a n s = (case sl of None \<Rightarrow> (None, s1) | Some i \<Rightarrow>
     (case alloc e s1 of (False, s2) \<Rightarrow> (None, s2)
      | (True, s2) \<Rightarrow> (Some i, upd_dev (\<lambda>d. d\<lparr>d_targets := d_targets d @ [new_tgt a n]\<rparr>) s2)))"
    by (simp add: addtgt_def Let_def g1 [unfolded g_def])
  show "r = None \<Longrightarrow> dev_ok X A s'"
    using r e a ok by (auto simp: dev_ok_def alloc_def split: option.splits bool.splits)
  have v: "view (upd_dev (\<lambda>d. d\<lparr>d_targets := d_targets d @ [new_tgt a n]\<rparr>) s2) = v_addtgt (view s2)" for s2
    by (simp add: view_def v_addtgt_def new_tgt_sel)
  show "r = Some i \<Longrightarrow> i = length (tgts s) \<and> tgts s' = tgts s @ [new_tgt a n] \<and> view s' = v_addtgt (view s)
      \<and> length (tgts s') \<le> d_ntargets (s_dev s') \<and> 0 < d_ntargets (s_dev s') \<and> d_tgt (s_dev s') = d_tgt (s_dev s)
      \<and> s_active s' = s_active s \<and> s_iocq s' = s_iocq s"
    using r e a by (auto simp: alloc_def v split: option.splits bool.splits)
qed

lemma setifbcnt_new:
  assumes ok: "dev_ok X A s" and A: "A \<subseteq># X" and r: "addtgt e a n s = (Some i, s')"
  shows "dev_ok X A (setifbcnt i nd b s') \<and> i < length (tgts (setifbcnt i nd b s'))"
proof -
  note a = addtgt_ok(2) [OF ok r refl]
  obtain t where t: "setif (new_tgt a n) nd b = Some (t, True)" using setif_new by blast
  have tn: "tgt_ok t"
    by (rule tgt_ok_setif [OF _ _ _ t]) (simp_all add: new_tgt_sel MAX_TAINT_def)
  let ?s = "upd_tgt i (\<lambda>_. t) s'"
  have "view ?s = view s'" using a setif_sel [OF t] by (simp add: view_upd_tgt)
  then have v: "view ?s = v_addtgt (view s)" using a by simp
  have "pool_ok X (view ?s)" "nout_ok A (view ?s)"
    unfolding v using ok A pool_addtgt nout_addtgt by (auto simp: dev_ok_def)
  moreover have "tgts_ok ?s"
    using ok a tn by (auto simp: dev_ok_def tgts_ok_def list_update_append)
  ultimately have "dev_ok X A ?s" by (rule dev_okI)
  then show ?thesis using a t by (simp add: setifbcnt_def Let_def dev_ok_def)
qed

text \<open>The identify command is one more outstanding command.\<close>

lemma aoecmd_ata_id_ok:
  assumes ok: "dev_ok X A s" and A: "counted X A s"
  shows "dev_ok X A (snd (aoecmd_ata_id e s))"
proof -
  obtain r s1 where n: "newframe e s = (r, s1)" by fastforce
  note no = newframe_ok [OF ok A n]
  show ?thesis
  proof (cases r)
    case None
    then show ?thesis using no(1) n by (simp add: aoecmd_ata_id_def)
  next
    case (Some f)
    have g: "dev_ok (add_mset f X) A s1" "got_frame s f s1" using no(2) Some by simp_all
    have i: "d_tgt (s_dev s1) = f_t (fr s1 f)" using g(2) by (elim got_frameE) simp
    have l: "f_t (fr s1 f) < length (tgts s1)" using dev_held [OF g(1), of f] by simp
    define k where "k = the (f_skb (fr s1 f))"
    define i where "i = d_tgt (s_dev s1)"
    define a where "a = aoehdr_atainit e i k (upd_skb k skb_put_hdrs s1)"
    define s3 where "s3 = fhash f (upd_fr f (\<lambda>x. x\<lparr>f_tag := fst a\<rparr>) (snd a))"
    define s4 where "s4 = upd_fr f (\<lambda>x. x\<lparr>f_waited := 0, f_waited_total := 0\<rparr>)
                      (upd_tgt i (\<lambda>t. t\<lparr>t_nout := t_nout t + 1\<rparr>) s3)"
    define s6 where "s6 = upd_dev (\<lambda>d. d\<lparr>d_rttavg := RTTAVG_INIT, d_rttdev := RTTDEV_INIT, d_timer_fn := RexmitTimer\<rparr>)
      (upd_skb k (\<lambda>x. x\<lparr>sk_ah := (sk_ah x)\<lparr>ah_scnt := 1, ah_cmdstat := ATA_CMD_ID_ATA,
                      ah_lba3 := 0xa0\<rparr>, sk_dev := cur_nd (tg s4 i)\<rparr>) s4)"
    obtain p s7 where c: "skb_clone e k s6 = (p, s7)" by fastforce
    have e: "snd (aoecmd_ata_id e s) = (case p of None \<Rightarrow> s7
        | Some _ \<Rightarrow> upd_fr f (\<lambda>x. x\<lparr>f_sent := e_now e, f_sent_jiffs := ucast (e_jiffies e)\<rparr>) s7)"
      using c unfolding s6_def s4_def s3_def a_def i_def k_def
      by (simp add: aoecmd_ata_id_def n Some Let_def split_def split: option.split)
    have va: "view (snd a) = view s1" "tgts_ok (snd a) = tgts_ok s1" "tgts (snd a) = tgts s1" "s_frames (snd a) = s_frames s1"
      by (simp_all add: a_def aoehdr_atainit_def Let_def split_def)
    have "view s6 = v_hash f ((view s1)\<lparr>v_tag := (v_tag (view s1))(f := fst a),
        v_nout := (v_nout (view s1))[f_t (fr s1 f) := v_nout (view s1) ! f_t (fr s1 f) + 1]\<rparr>)"
      using l i_def i va unfolding s6_def s4_def s3_def
      by (simp add: view_fhash view_tag view_nout v_hash_def Let_def)
    moreover have "tgts_ok s6" using g(1) va unfolding s6_def s4_def s3_def by (simp add: dev_ok_def fhash_def Let_def)
    ultimately have "dev_ok X A s6" by (rule dev_ok_activate [OF g(1) refl])
    then have "dev_ok X A s7" using skb_clone_same [OF c] by (simp add: dev_ok_def)
    then show ?thesis unfolding e by (simp add: dev_ok_def split: option.split)
  qed
qed

lemma gettgt_from_less: "gettgt_from i ts addr = Some j \<Longrightarrow> i \<le> j \<and> j < i + length ts \<and> t_addr (ts ! (j - i)) = addr"
proof (induction ts arbitrary: i)
  case (Cons t ts)
  show ?case
  proof (cases "t_addr t = addr")
    case False
    then have "Suc i \<le> j \<and> j < Suc i + length ts \<and> t_addr (ts ! (j - Suc i)) = addr"
      using Cons.prems by (intro Cons.IH) simp
    then show ?thesis by (auto simp: nth_Cons')
  qed (use Cons.prems in auto)
qed simp

lemma gettgt_less: "gettgt d addr = Some i \<Longrightarrow> i < length (d_targets d) \<and> t_addr (d_targets d ! i) = addr"
  using gettgt_from_less [of 0 "d_targets d" addr i] by (simp add: gettgt_def)

text \<open>The device once the target of a response is known and its interface is up to date.\<close>

lemma cfg_tgt_ok:
  assumes ok: "dev_ok {#} {#} s" and c: "cfg_tgt e src n s = (q, s1)"
  shows "q = None \<Longrightarrow> dev_ok {#} {#} s1" and "q = Some i \<Longrightarrow> dev_ok {#} {#} (setifbcnt i nd b s1)"
proof -
  have "(q = None \<longrightarrow> dev_ok {#} {#} s1) \<and> (q = Some i \<longrightarrow> dev_ok {#} {#} (setifbcnt i nd b s1))"
  proof (cases "gettgt (s_dev s) src")
    case None
    then have a: "addtgt e src n s = (q, s1)" using c by (simp add: cfg_tgt_def)
    show ?thesis
    proof (cases q)
      case (Some j)
      show ?thesis using setifbcnt_new [OF ok _ a [unfolded Some]] Some by (cases "i = j") simp_all
    qed (use addtgt_ok(1) [OF ok a] in simp)
  next
    case (Some j)
    define g where "g = (\<lambda>t. let t' = t\<lparr>t_nframes := n\<rparr> in if n < t_maxout t' then aoecmd_wreset t' else t')"
    have s1: "q = Some j" "s1 = upd_tgt j g s" using c Some by (simp_all add: cfg_tgt_def g_def)
    have gs: "t_ffree (g t) = t_ffree t" "t_falloc (g t) = t_falloc t" "t_nout (g t) = t_nout t" for t
      by (simp_all add: g_def Let_def aoecmd_wreset_def)
    have gt: "tgt_ok (g t) = tgt_ok t" for t
      by (rule tgt_ok_cong) (simp_all add: g_def Let_def aoecmd_wreset_def)
    have "dev_ok {#} {#} s1" unfolding s1 by (rule dev_ok_upd_tgt [OF ok]) (simp_all add: gs gt)
    then show ?thesis using gettgt_less [OF Some] s1 by (auto intro: setifbcnt_old)
  qed
  then show "q = None \<Longrightarrow> dev_ok {#} {#} s1" and "q = Some i \<Longrightarrow> dev_ok {#} {#} (setifbcnt i nd b s1)" by simp_all
qed

lemma cfg_rsp_dev_ok:
  assumes ok: "dev_ok {#} {#} s"
  shows "dev_ok {#} {#} (snd (cfg_rsp_dev e r s))"
proof -
  define h where "h = hdr_of (r_data r)"
  define ch where "ch = cfghdr_of (drop 24 (r_data r))"
  define b where "b = uint (cfg_bcnt (e_mtu e (r_dev r)) (ch_scnt ch))"
  obtain q s1 where c: "cfg_tgt e (h_src h) (cfg_nframes e ch) s = (q, s1)" by fastforce
  have id: "dev_ok {#} {#} (snd (cfg_ident e v s2))" if "dev_ok {#} {#} s2" for s2 v
    using that aoecmd_ata_id_ok [of "{#}" "{#}" "upd_dev (\<lambda>d. d\<lparr>d_fw_ver := v\<rparr>) s2" e]
    by (auto simp: cfg_ident_def dev_ok_def split: prod.splits option.splits)
  have e: "snd (cfg_rsp_dev e r s) = (case q of None \<Rightarrow> s1 | Some i \<Rightarrow> snd (cfg_ident e (ch_fwver ch) (setifbcnt i (r_dev r) b s1)))"
    using c by (simp add: cfg_rsp_dev_def Let_def h_def ch_def b_def split: option.split)
  show ?thesis unfolding e using cfg_tgt_ok [OF ok c] by (auto simp: id split: option.split)
qed

lemma aoecmd_cleanslate_ok:
  assumes "dev_ok X A s"
  shows "dev_ok X A (upd_dev aoecmd_cleanslate s)"
proof -
  have "tgt_ok (aoecmd_wreset t) = tgt_ok t" for t by (rule tgt_ok_cong) (simp_all add: aoecmd_wreset_def)
  then have "tgts_ok (upd_dev aoecmd_cleanslate s) = tgts_ok s"
    by (simp add: tgts_ok_def aoecmd_cleanslate_def list.pred_map o_def)
  moreover have "view (upd_dev aoecmd_cleanslate s) = view s"
    by (simp add: view_def aoecmd_cleanslate_def aoecmd_wreset_def o_def)
  ultimately show ?thesis using assms by (simp add: dev_ok_def)
qed

end
