(* ===== verification/Blk.thy ===== *)
theory Blk
  imports Config
begin

text \<open>
  The block device side (\<open>aoeblk.c\<close>) and the deferred work of \<open>aoecmd.c\<close> that may sleep: opening and
  closing the disk, its geometry and identity, and the creation of the disk by a worker while
  responses, the timer and the flush command go on.  The last is a state machine over the flags of
  the device; its invariant shows that the warnings of \<open>aoeblk_gdalloc\<close> cannot fire.
\<close>

section \<open>Flags\<close>

lemma hasfl_dev [flag_simps]:
  "hasfl w DEVFL_UP \<longleftrightarrow> bit w 0" "hasfl w DEVFL_TKILL \<longleftrightarrow> bit w 1" "hasfl w DEVFL_EXT \<longleftrightarrow> bit w 2"
  "hasfl w DEVFL_GDALLOC \<longleftrightarrow> bit w 3" "hasfl w DEVFL_GD_NOW \<longleftrightarrow> bit w 4" "hasfl w DEVFL_KICKME \<longleftrightarrow> bit w 5"
  "hasfl w DEVFL_NEWSIZE \<longleftrightarrow> bit w 6" "hasfl w DEVFL_FREEING \<longleftrightarrow> bit w 7" "hasfl w DEVFL_FREED \<longleftrightarrow> bit w 8"
  unfolding devfl_defs hasfl_bit by simp_all

lemma bit_setfl_pow: "bit (setfl (w :: u16) (2 ^ i)) j \<longleftrightarrow> i < 16 \<and> j = i \<or> bit w j"
  by (auto simp: setfl_def bit_or_iff bit_pow2_word)

lemma bit_clrfl_pow: "bit (clrfl (w :: 'a::len word) (2 ^ i)) j \<longleftrightarrow> j \<noteq> i \<and> bit w j"
  by (auto simp: clrfl_def bit_and_iff bit_not_iff bit_pow2_word possible_bit_def dest: bit_imp_le_length)

lemma bit_dev [flag_simps]:
  "bit (setfl w DEVFL_UP) j \<longleftrightarrow> j = 0 \<or> bit w j" "bit (setfl w DEVFL_TKILL) j \<longleftrightarrow> j = 1 \<or> bit w j"
  "bit (setfl w DEVFL_EXT) j \<longleftrightarrow> j = 2 \<or> bit w j" "bit (setfl w DEVFL_GDALLOC) j \<longleftrightarrow> j = 3 \<or> bit w j"
  "bit (setfl w DEVFL_GD_NOW) j \<longleftrightarrow> j = 4 \<or> bit w j" "bit (setfl w DEVFL_KICKME) j \<longleftrightarrow> j = 5 \<or> bit w j"
  "bit (setfl w DEVFL_NEWSIZE) j \<longleftrightarrow> j = 6 \<or> bit w j" "bit (setfl w DEVFL_FREEING) j \<longleftrightarrow> j = 7 \<or> bit w j"
  "bit (setfl w DEVFL_FREED) j \<longleftrightarrow> j = 8 \<or> bit w j"
  "bit (clrfl w DEVFL_UP) j \<longleftrightarrow> j \<noteq> 0 \<and> bit w j" "bit (clrfl w DEVFL_EXT) j \<longleftrightarrow> j \<noteq> 2 \<and> bit w j"
  "bit (clrfl w DEVFL_GDALLOC) j \<longleftrightarrow> j \<noteq> 3 \<and> bit w j" "bit (clrfl w DEVFL_GD_NOW) j \<longleftrightarrow> j \<noteq> 4 \<and> bit w j"
  "bit (clrfl w DEVFL_KICKME) j \<longleftrightarrow> j \<noteq> 5 \<and> bit w j" "bit (clrfl w DEVFL_NEWSIZE) j \<longleftrightarrow> j \<noteq> 6 \<and> bit w j"
  unfolding devfl_defs by (simp_all only: bit_setfl_pow bit_clrfl_pow) simp_all

section \<open>Opening and closing\<close>

definition aoeblk_open :: "bool \<Rightarrow> st \<Rightarrow> errno option \<times> st" where
  "aoeblk_open valid s =
     (let fl = d_flags (s_dev s)
      in if \<not> valid then (Some ENODEV, emit EvWarn s)
         else if \<not> hasfl fl DEVFL_UP \<or> hasfl fl DEVFL_TKILL then (Some ENODEV, s)
         else (None, upd_dev (\<lambda>d. d\<lparr>d_nopen := d_nopen d + 1\<rparr>) s))"

text \<open>The last close asks the target for its configuration, so that it is identified anew.\<close>

definition aoeblk_release :: "env \<Rightarrow> string \<Rightarrow> netdev list \<Rightarrow> st \<Rightarrow> st" where
  "aoeblk_release e iflist ndl s =
     (let s1 = upd_dev (\<lambda>d. d\<lparr>d_nopen := d_nopen d - 1\<rparr>) s
      in if d_nopen (s_dev s1) = 0
         then aoecmd_cfg e iflist ndl (ucast (d_aoemajor (s_dev s1))) (ucast (d_aoeminor (s_dev s1))) s1
         else s1)"

definition aoeblk_getgeo :: "aoedev \<Rightarrow> errno + (u16 \<times> u8 \<times> u8)" where
  "aoeblk_getgeo d =
     (if \<not> hasfl (d_flags d) DEVFL_UP then Inl ENODEV
      else Inr (g_cylinders (d_geo d), g_heads (d_geo d), g_sectors (d_geo d)))"

definition HDIO_GET_IDENTITY :: u32 where "HDIO_GET_IDENTITY = 0x030d"

definition aoeblk_ioctl :: "u32 \<Rightarrow> u64 \<Rightarrow> bool \<Rightarrow> aoedev \<Rightarrow> errno + u8 list" where
  "aoeblk_ioctl cmd arg copied d =
     (if arg = 0 then Inl EINVAL
      else if \<not> hasfl (d_flags d) DEVFL_UP then Inl ENODEV
      else if cmd = HDIO_GET_IDENTITY then (if copied then Inr (d_ident d) else Inl EFAULT)
      else Inl ENOTTY)"

section \<open>Creating the disk\<close>

text \<open>\<open>%ld\<close> and \<open>%d\<close> of a number that is not negative.\<close>

function dec :: "nat \<Rightarrow> string" where
  "dec n = (if n < 10 then [''0123456789'' ! n] else dec (n div 10) @ [''0123456789'' ! (n mod 10)])"
  by pat_completeness auto
termination by (relation "measure id") auto

declare dec.simps [simp del]

lemma dec_chars: "set (dec n) \<subseteq> set ''0123456789''"
proof (induction n rule: dec.induct)
  case (1 n)
  have "''0123456789'' ! (n mod 10) \<in> set ''0123456789''" "n < 10 \<Longrightarrow> ''0123456789'' ! n \<in> set ''0123456789''"
    by (rule nth_mem, simp)+
  then show ?case using 1 by (subst dec.simps) auto
qed

lemma dec_length: "0 < length (dec n)" "n < 10 ^ Suc k \<Longrightarrow> length (dec n) \<le> Suc k"
proof -
  show "0 < length (dec n)" by (subst dec.simps) simp
  show "n < 10 ^ Suc k \<Longrightarrow> length (dec n) \<le> Suc k"
  proof (induction k arbitrary: n)
    case 0
    then show ?case by (simp add: dec.simps)
  next
    case (Suc k)
    then have "n div 10 < 10 ^ Suc k" by (simp add: div_less_iff_less_mult mult.commute)
    then show ?case using Suc.IH [of "n div 10"] by (subst dec.simps) simp
  qed
qed

lemma dec_inj: "dec n = dec m \<Longrightarrow> n = m"
proof (induction n arbitrary: m rule: dec.induct)
  case (1 n)
  have d: "''0123456789'' ! a = ''0123456789'' ! b \<Longrightarrow> a < 10 \<Longrightarrow> b < 10 \<Longrightarrow> a = b" for a b
    by (subst (asm) nth_eq_iff_index_eq) simp_all
  have l: "length (dec a) = 1 \<longleftrightarrow> a < 10" for a
    using dec_length(1) [of "a div 10"] by (subst dec.simps) auto
  have c: "n < 10 \<longleftrightarrow> m < 10" using "1.prems" l by metis
  show ?case
  proof (cases "n < 10")
    case True
    then show ?thesis using "1.prems" c d [of n m] by (simp add: dec.simps)
  next
    case False
    then have "dec (n div 10) = dec (m div 10)" "''0123456789'' ! (n mod 10) = ''0123456789'' ! (m mod 10)"
      using "1.prems" c dec.simps [of n] dec.simps [of m] by simp_all
    then have "n div 10 = m div 10" "n mod 10 = m mod 10" using "1.IH" [OF False] d by simp_all
    then show ?thesis by (metis div_mult_mod_eq)
  qed
qed

definition DEVSUBDIR :: string where "DEVSUBDIR = ''etherd''"
definition DISK_NAME_LEN :: nat where "DISK_NAME_LEN = 32"

definition disk_name :: "aoedev \<Rightarrow> string" where
  "disk_name d = take (DISK_NAME_LEN - 1)
     (DEVSUBDIR @ ''/e'' @ dec (unat (d_aoemajor d)) @ ''.'' @ dec (unat (d_aoeminor d)))"

definition warn_on :: "bool \<Rightarrow> st \<Rightarrow> st" where
  "warn_on b s = (if b then emit EvWarn s else s)"

text \<open>\<open>aoeblk_gdalloc\<close>, one definition per section between two releases of the device lock.\<close>

definition gd_begin :: "st \<Rightarrow> bool \<times> st" where
  "gd_begin s =
     (let fl = d_flags (s_dev s)
      in if hasfl fl DEVFL_GDALLOC \<and> \<not> hasfl fl DEVFL_TKILL \<and> \<not> hasfl fl DEVFL_GD_NOW
         then (True, upd_dev (\<lambda>d. d\<lparr>d_flags := setfl (d_flags d) DEVFL_GD_NOW\<rparr>) s)
         else (False, s))"

text \<open>\<open>alloc_disk\<close>, \<open>mempool_create\<close> and \<open>blk_init_queue\<close>.\<close>

definition gd_create :: "env \<Rightarrow> st \<Rightarrow> bool \<times> st" where
  "gd_create e s =
     (case alloc e s of
        (False, s1) \<Rightarrow> (False, s1)
      | (True, s1) \<Rightarrow>
          (case alloc e s1 of
             (False, s2) \<Rightarrow> (False, s2)
           | (True, s2) \<Rightarrow> alloc e s2))"

definition gd_fail :: "st \<Rightarrow> st" where
  "gd_fail s = emit EvWork (upd_dev (\<lambda>d. d\<lparr>d_flags := clrfl (d_flags d) DEVFL_GD_NOW\<rparr>) s)"

definition gd_publish :: "st \<Rightarrow> st" where
  "gd_publish s =
     (let fl = d_flags (s_dev s);
          s1 = warn_on (hasfl fl DEVFL_UP) (warn_on (d_gd (s_dev s) \<noteq> None)
                 (warn_on (hasfl fl DEVFL_TKILL) (warn_on (\<not> hasfl fl DEVFL_GDALLOC)
                   (warn_on (\<not> hasfl fl DEVFL_GD_NOW) s))))
      in upd_dev (\<lambda>d. d\<lparr>d_bufpool := True, d_blkq := Some [],
           d_gd := Some \<lparr>gd_disk_name = disk_name d, gd_capacity = d_ssize d\<rparr>,
           d_flags := setfl (clrfl (d_flags d) DEVFL_GDALLOC) DEVFL_UP\<rparr>) s1)"

definition gd_done :: "st \<Rightarrow> st" where
  "gd_done s =
     upd_dev (\<lambda>d. d\<lparr>d_flags := clrfl (d_flags d) DEVFL_GD_NOW\<rparr>)
       (warn_on (\<not> hasfl (d_flags (s_dev s)) DEVFL_GD_NOW) s)"

definition aoeblk_gdalloc :: "env \<Rightarrow> st \<Rightarrow> st" where
  "aoeblk_gdalloc e s =
     (case gd_begin s of
        (False, s1) \<Rightarrow> s1
      | (True, s1) \<Rightarrow>
          (case gd_create e s1 of
             (False, s2) \<Rightarrow> gd_fail s2
           | (True, s2) \<Rightarrow> gd_done (gd_publish s2)))"

text \<open>The second half of \<open>aoecmd_sleepwork\<close>; the size of the inode is the kernel's.\<close>

definition newsize :: "st \<Rightarrow> st" where
  "newsize s =
     upd_dev (\<lambda>d. d\<lparr>d_flags := clrfl (setfl (d_flags d) DEVFL_UP) DEVFL_NEWSIZE\<rparr>)
       (if d_gd (s_dev s) = None then emit EvOops s else s)"

definition aoecmd_sleepwork :: "env \<Rightarrow> st \<Rightarrow> st" where
  "aoecmd_sleepwork e s =
     (let s1 = (if hasfl (d_flags (s_dev s)) DEVFL_GDALLOC then aoeblk_gdalloc e s else s)
      in if hasfl (d_flags (s_dev s1)) DEVFL_NEWSIZE then newsize s1 else s1)"

section \<open>What taking a device down does to its disk\<close>

text \<open>The fields that decide over the life of a device and name it.\<close>

definition life :: "aoedev \<Rightarrow> u16 \<times> gendisk option \<times> bool \<times> int \<times> u16 \<times> u64 \<times> u16 \<times> nat \<times> nat" where
  "life d = (d_flags d, d_gd d, d_blkq d = None, d_ref d, d_nopen d, d_aoemajor d, d_aoeminor d, d_sysminor d, d_addr d)"

text \<open>Together with the completion queues.\<close>

abbreviation lifeq :: "st \<Rightarrow> _" where
  "lifeq s \<equiv> (life (s_dev s), s_iocq s)"

lemma life_fails: "fails s s' \<Longrightarrow> lifeq s' = lifeq s"
  unfolding life_def using fails_life [of s s'] fails_same(2,5) [of s s'] fails_st_same(2) [of s s'] by simp

lemma life_freetframe: "lifeq (aoe_freetframe f s) = lifeq s"
  by (simp add: aoe_freetframe_def life_def)

lemma life_up: "lifeq s' = lifeq s \<Longrightarrow> \<not> is_up s \<Longrightarrow> \<not> is_up s'"
  by (simp add: life_def)

lemma life_fail_frame:
  assumes "\<not> is_up s"
  shows "lifeq (fail_frame e f s) = lifeq s"
proof -
  have "fails s (aoe_failbuf e (Some b) (upd_buf b h s))" for b h
    by (rule fails_trans [OF fails_steps(1) aoe_failbuf_down]) (use assms in simp)
  then have "lifeq (aoe_failbuf e (Some b) (upd_buf b h s)) = lifeq s" for b h by (rule life_fails)
  then show ?thesis unfolding fail_frame_def life_freetframe by (simp split: option.split)
qed

lemma life_bucket: "\<not> is_up s \<Longrightarrow> lifeq (downdev_bucket e n fs s) = lifeq s"
proof (induction fs arbitrary: s)
  case (Cons f fs)
  let ?s1 = "upd_dev (\<lambda>d. d\<lparr>d_factive := (d_factive d)[n := remove1 f (d_factive d ! n)]\<rparr>) s"
  have 0: "\<not> is_up ?s1" using Cons.prems by simp
  have 1: "lifeq (fail_frame e f ?s1) = lifeq s"
    unfolding life_fail_frame [OF 0] by (simp add: life_def)
  show ?case using Cons.IH [OF life_up [OF 1 Cons.prems]] 1 by simp
qed simp

lemma life_active: "\<not> is_up s \<Longrightarrow> lifeq (downdev_active e ns s) = lifeq s"
proof (induction ns arbitrary: s)
  case (Cons n ns)
  show ?case using Cons.IH [OF life_up [OF life_bucket [OF Cons.prems] Cons.prems]] life_bucket [OF Cons.prems] by simp
qed simp

lemma life_rexmit: "\<not> is_up s \<Longrightarrow> lifeq (downdev_rexmit e fs s) = lifeq s"
proof (induction fs arbitrary: s)
  case (Cons f fs)
  have 0: "\<not> is_up (rexmitq_del f s)" using Cons.prems by (simp add: rexmitq_del_def)
  have 1: "lifeq (fail_frame e f (rexmitq_del f s)) = lifeq s"
    unfolding life_fail_frame [OF 0] by (simp add: life_def rexmitq_del_def)
  show ?case using Cons.IH [OF life_up [OF 1 Cons.prems]] 1 by simp
qed simp

text \<open>The disk stays with no capacity, the flag \<open>DEVFL_UP\<close> is gone and nothing else changed.\<close>

lemma life_downdev:
  "life (s_dev (aoedev_downdev e s)) = life ((s_dev s)\<lparr>d_flags := clrfl (d_flags (s_dev s)) DEVFL_UP,
     d_gd := map_option (\<lambda>gd. gd\<lparr>gd_capacity := 0\<rparr>) (d_gd (s_dev s))\<rparr>)"
  and downdev_iocq: "s_iocq (aoedev_downdev e s) = s_iocq s"
proof -
  let ?s1 = "upd_dev (\<lambda>d. d\<lparr>d_flags := clrfl (d_flags d) DEVFL_UP\<rparr>) s"
  let ?s2 = "downdev_active e [0..<NFACTIVE] ?s1"
  let ?s3 = "downdev_rexmit e (rexq ?s2) ?s2"
  let ?s4 = "upd_dev (\<lambda>d. d\<lparr>d_targets := map (\<lambda>t. (aoecmd_wreset t)\<lparr>t_nout := 0\<rparr>) (d_targets d)\<rparr>) ?s3"
  have u: "\<not> is_up ?s1" by (simp add: flag_simps)
  have 2: "lifeq ?s2 = lifeq ?s1" by (rule life_active [OF u])
  have 3: "lifeq ?s3 = lifeq ?s1" using life_rexmit [OF life_up [OF 2 u]] 2 by simp
  have 4: "lifeq ?s4 = lifeq ?s1" using 3 by (simp add: life_def)
  have f: "fails ?s4 (fail_queue e (aoe_failip e ?s4))"
    by (rule fails_trans [OF aoe_failip_down [OF life_up [OF 4 u]] fails_ends [OF fail_queue_ends]])
  have e: "aoedev_downdev e s = upd_dev set_capacity0 (fail_queue e (aoe_failip e ?s4))"
    by (simp add: aoedev_downdev_def Let_def)
  show "life (s_dev (aoedev_downdev e s)) = life ((s_dev s)\<lparr>d_flags := clrfl (d_flags (s_dev s)) DEVFL_UP,
     d_gd := map_option (\<lambda>gd. gd\<lparr>gd_capacity := 0\<rparr>) (d_gd (s_dev s))\<rparr>)"
    unfolding e using life_fails [OF f] 4 by (simp add: life_def set_capacity0_def)
  show "s_iocq (aoedev_downdev e s) = s_iocq s"
    unfolding e using life_fails [OF f] 4 by simp
qed

end
