(* ===== verification/Minors.thy ===== *)
theory Minors
  imports Prelude
begin

text \<open>
  System minor numbers (\<open>aoedev.c\<close>, \<open>minor_get\<close> and \<open>minor_free\<close>): a device owns one block of
  \<open>AOE_PARTITIONS\<close> consecutive minors, marked in the bitmap \<open>used_minors\<close>.  The number of
  partitions is set by the Makefile and is the parameter \<open>parts\<close>.  What the device list relies on is
  stated as the locale \<open>minors\<close>, interpreted for dynamic and for static numbers.
\<close>

section \<open>The bitmap\<close>

definition MINORBITS :: nat where "MINORBITS = 20"

definition N_DEVS :: "nat \<Rightarrow> nat" where "N_DEVS parts = 2 ^ MINORBITS div parts"

definition NPERSHELF :: nat where "NPERSHELF = 16"

type_synonym bitmap = "nat \<Rightarrow> bool"

text \<open>\<open>find_first_zero_bit\<close> from \<open>i\<close> on, with \<open>n\<close> bits left.\<close>

fun first_zero_bit :: "nat \<Rightarrow> nat \<Rightarrow> bitmap \<Rightarrow> nat" where
  "first_zero_bit 0 i used = i"
| "first_zero_bit (Suc n) i used = (if used i then first_zero_bit n (Suc i) used else i)"

definition minor_get_dyn :: "nat \<Rightarrow> bitmap \<Rightarrow> nat option \<times> bitmap" where
  "minor_get_dyn parts used =
     (let n = first_zero_bit (N_DEVS parts) 0 used
      in if n < N_DEVS parts then (Some (n * parts), used(n := True)) else (None, used))"

text \<open>The callers pass a shelf of 16 and a slot of 8 bits, so the products below do not wrap in an \<open>unsigned long\<close> and
  natural numbers are exact.\<close>

definition minor_get_static :: "nat \<Rightarrow> nat \<Rightarrow> nat \<Rightarrow> bitmap \<Rightarrow> nat option \<times> bitmap" where
  "minor_get_static parts aoemaj aoemin used =
     (if aoemin \<ge> NPERSHELF then (None, used)
      else
        (let n = aoemaj * NPERSHELF + aoemin
         in if n \<ge> N_DEVS parts then (None, used)
            else if used n then (None, used)
            else (Some (n * parts), used(n := True))))"

definition minor_get :: "bool \<Rightarrow> nat \<Rightarrow> nat \<Rightarrow> nat \<Rightarrow> bitmap \<Rightarrow> nat option \<times> bitmap" where
  "minor_get aoe_dyndevs parts aoemaj aoemin used =
     (if aoe_dyndevs then minor_get_dyn parts used else minor_get_static parts aoemaj aoemin used)"

text \<open>\<open>minor_free\<close>; \<open>None\<close> is the \<open>BUG_ON\<close>.\<close>

definition minor_free :: "nat \<Rightarrow> nat \<Rightarrow> bitmap \<Rightarrow> bitmap option" where
  "minor_free parts minor used =
     (let n = minor div parts in if n \<ge> N_DEVS parts then None else Some (used(n := False)))"

text \<open>The first minors of the blocks in use.\<close>

definition taken :: "nat \<Rightarrow> bitmap \<Rightarrow> nat set" where
  "taken parts used = {n * parts | n. n < N_DEVS parts \<and> used n}"

section \<open>The contract\<close>

text \<open>
  An allocator of numbers that are multiples of \<open>parts\<close>.  \<open>key\<close> is what a caller asks with.  A client
  that remembers the numbers it got never holds one twice, and the blocks of two held numbers do not
  meet.
\<close>

locale minors =
  fixes parts :: nat
    and get :: "'key \<Rightarrow> bitmap \<Rightarrow> nat option \<times> bitmap"
    and inuse :: "bitmap \<Rightarrow> nat set"
    and free :: "nat \<Rightarrow> bitmap \<Rightarrow> bitmap option"
  assumes get_Some: "get k u = (Some m, u') \<Longrightarrow> m \<notin> inuse u \<and> inuse u' = insert m (inuse u)"
    and get_None: "get k u = (None, u') \<Longrightarrow> u' = u"
    and in_range: "m \<in> inuse u \<Longrightarrow> parts dvd m \<and> m + parts \<le> 2 ^ MINORBITS"
    and free_Some: "m \<in> inuse u \<Longrightarrow> \<exists>u'. free m u = Some u' \<and> inuse u' = inuse u - {m}"
begin

text \<open>The numbers a client holds after a call, and that they are all its own.\<close>

definition held_ok :: "nat list \<Rightarrow> bitmap \<Rightarrow> bool" where
  "held_ok hs u \<longleftrightarrow> distinct hs \<and> set hs \<subseteq> inuse u"

lemma held_get: "held_ok hs u \<Longrightarrow> get k u = (Some m, u') \<Longrightarrow> held_ok (m # hs) u'"
  using get_Some [of k u m u'] by (auto simp: held_ok_def)

lemma held_free: "held_ok (m # hs) u \<Longrightarrow> free m u = Some u' \<Longrightarrow> held_ok hs u'"
  using free_Some [of m u] by (auto simp: held_ok_def)

lemma held_free_returns: "held_ok hs u \<Longrightarrow> m \<in> set hs \<Longrightarrow> free m u \<noteq> None"
  using free_Some [of m u] by (auto simp: held_ok_def)

text \<open>Blocks of different numbers are disjoint, and every minor fits in \<open>MINORBITS\<close> bits.\<close>

lemma blocks_disjoint:
  assumes "m \<in> inuse u" and "n \<in> inuse u" and "m \<noteq> n"
  shows "{m..<m + parts} \<inter> {n..<n + parts} = {}"
proof -
  obtain a b where "m = parts * a" "n = parts * b" using in_range assms(1,2) by (meson dvdE)
  moreover have "a < b \<or> b < a" using assms(3) calculation by (metis nat_neq_iff)
  moreover have "parts * x + parts \<le> parts * y" if "x < y" for x y
    using mult_le_mono2 [of "Suc x" y parts] that by simp
  ultimately show ?thesis by fastforce
qed

lemma blocks_fit: "m \<in> inuse u \<Longrightarrow> j < parts \<Longrightarrow> m + j < 2 ^ MINORBITS"
  using in_range [of m u] by simp

end

section \<open>Both ways keep the contract\<close>

lemma first_zero_bit_ge: "i \<le> first_zero_bit n i used"
  by (induction n arbitrary: i) (auto intro: order_trans [OF le_SucI])

lemma first_zero_bit_free: "first_zero_bit n i used < i + n \<Longrightarrow> \<not> used (first_zero_bit n i used)"
proof (induction n arbitrary: i)
  case (Suc n)
  then show ?case using Suc.IH [of "Suc i"] by (auto split: if_splits)
qed simp

lemma first_zero_bit_first: "i \<le> j \<Longrightarrow> j < first_zero_bit n i used \<Longrightarrow> used j"
proof (induction n arbitrary: i)
  case (Suc n)
  then show ?case by (cases "i = j") (auto split: if_splits intro: Suc.IH [of "Suc i"])
qed simp

lemma first_zero_bit_le: "first_zero_bit n i used \<le> i + n"
proof (induction n arbitrary: i)
  case (Suc n)
  then show ?case using Suc.IH [of "Suc i"] by simp
qed simp

lemma taken_set:
  assumes "0 < parts" and "n < N_DEVS parts"
  shows "taken parts (used(n := True)) = insert (n * parts) (taken parts used)"
    and "taken parts (used(n := False)) = taken parts used - {n * parts}"
    and "n * parts \<in> taken parts used \<longleftrightarrow> used n"
  using assms by (auto simp: taken_def)

lemma taken_range:
  assumes "m \<in> taken parts used"
  shows "parts dvd m \<and> m + parts \<le> 2 ^ MINORBITS"
proof -
  obtain n where n: "m = n * parts" "n < N_DEVS parts" using assms by (auto simp: taken_def)
  then have "Suc n * parts \<le> N_DEVS parts * parts" by (intro mult_le_mono1) simp
  also have "\<dots> \<le> 2 ^ MINORBITS" unfolding N_DEVS_def by (simp add: div_times_less_eq_dividend)
  finally show ?thesis using n by (simp add: add.commute)
qed

lemma taken_free:
  assumes "0 < parts" and "m \<in> taken parts used"
  shows "\<exists>u. minor_free parts m used = Some u \<and> taken parts u = taken parts used - {m}"
proof -
  obtain n where "m = n * parts" "n < N_DEVS parts" using assms(2) by (auto simp: taken_def)
  then show ?thesis using assms(1) taken_set(2) by (auto simp: minor_free_def Let_def)
qed

lemma minors_dyn:
  assumes p: "0 < parts"
  shows "minors parts (\<lambda>_. minor_get_dyn parts) (taken parts) (minor_free parts)"
proof
  fix u m u' assume "minor_get_dyn parts u = (Some m, u')"
  then show "m \<notin> taken parts u \<and> taken parts u' = insert m (taken parts u)"
    using p first_zero_bit_free [of "N_DEVS parts" 0 u]
    by (auto simp: minor_get_dyn_def Let_def taken_set split: if_splits)
qed (auto simp: minor_get_dyn_def Let_def taken_range taken_free p split: if_splits)

lemma minors_static:
  assumes p: "0 < parts"
  shows "minors parts (\<lambda>(a, b). minor_get_static parts a b) (taken parts) (minor_free parts)"
proof
  fix k u m u' assume "(case k of (a, b) \<Rightarrow> minor_get_static parts a b) u = (Some m, u')"
  then show "m \<notin> taken parts u \<and> taken parts u' = insert m (taken parts u)"
    using p by (cases k) (auto simp: minor_get_static_def Let_def taken_set split: if_splits)
next
  fix k u u' assume "(case k of (a, b) \<Rightarrow> minor_get_static parts a b) u = (None, u')"
  then show "u' = u" by (cases k) (auto simp: minor_get_static_def Let_def split: if_splits)
qed (auto simp: taken_range taken_free p)

text \<open>The Makefile's number of partitions.\<close>

definition AOE_PARTITIONS :: nat where "AOE_PARTITIONS = 16"

lemma minors_any:
  assumes p: "0 < parts"
  shows "minors parts (\<lambda>(a, b). minor_get dyn parts a b) (taken parts) (minor_free parts)"
  using minors_dyn [OF p] minors_static [OF p] by (cases dyn) (auto simp: minors_def minor_get_def)

lemma AOE_PARTITIONS_pos: "0 < AOE_PARTITIONS"
  by (simp add: AOE_PARTITIONS_def)

interpretation mn: minors AOE_PARTITIONS "\<lambda>(a, b). minor_get dyn AOE_PARTITIONS a b"
  "taken AOE_PARTITIONS" "minor_free AOE_PARTITIONS" for dyn
  by (rule minors_any [OF AOE_PARTITIONS_pos])

section \<open>Properties\<close>

text \<open>C22. Minor numbers, dynamic or static: a number handed out was not in use and is in use
  afterwards, its block of \<open>AOE_PARTITIONS\<close> minors fits in \<open>MINORBITS\<close> bits and meets no block in
  use, and giving it back makes it available again without touching the others.\<close>

theorem minor_get_fresh:
  assumes "minor_get dyn AOE_PARTITIONS maj mi used = (Some m, used')"
  shows "m \<notin> taken AOE_PARTITIONS used \<and> taken AOE_PARTITIONS used' = insert m (taken AOE_PARTITIONS used)
    \<and> m + AOE_PARTITIONS \<le> 2 ^ MINORBITS
    \<and> (\<forall>n\<in>taken AOE_PARTITIONS used. {m..<m + AOE_PARTITIONS} \<inter> {n..<n + AOE_PARTITIONS} = {})
    \<and> (\<exists>u. minor_free AOE_PARTITIONS m used' = Some u
         \<and> taken AOE_PARTITIONS u = taken AOE_PARTITIONS used)"
proof -
  have g: "m \<notin> taken AOE_PARTITIONS used" "taken AOE_PARTITIONS used' = insert m (taken AOE_PARTITIONS used)"
    using mn.get_Some [of dyn "(maj, mi)" used m used'] assms by simp_all
  then have m: "m \<in> taken AOE_PARTITIONS used'" by simp
  have "{m..<m + AOE_PARTITIONS} \<inter> {n..<n + AOE_PARTITIONS} = {}" if "n \<in> taken AOE_PARTITIONS used" for n
    by (rule mn.blocks_disjoint [of m used']) (use g that in auto)
  moreover have "taken AOE_PARTITIONS used' - {m} = taken AOE_PARTITIONS used" using g by auto
  ultimately show ?thesis using g mn.in_range [OF m] mn.free_Some [OF m] by auto
qed

theorem minor_get_fresh_witness:
  "0x53 * AOE_PARTITIONS \<notin> taken AOE_PARTITIONS (\<lambda>_. False)"
  using minor_get_fresh [of False 5 3 "\<lambda>_. False" "0x53 * AOE_PARTITIONS" "(\<lambda>_. False)(0x53 := True)"]
  by (simp add: minor_get_def minor_get_static_def N_DEVS_def NPERSHELF_def MINORBITS_def AOE_PARTITIONS_def)

text \<open>Dynamic numbers: the lowest free block is handed out, and a request is refused only when
  every block is in use.\<close>

theorem minor_get_dyn_first_fit:
  "(case minor_get_dyn parts used of
      (Some m, _) \<Rightarrow> (\<exists>n < N_DEVS parts. m = n * parts \<and> \<not> used n \<and> (\<forall>j < n. used j))
    | (None, used') \<Rightarrow> used' = used \<and> (\<forall>j < N_DEVS parts. used j))"
proof -
  let ?n = "first_zero_bit (N_DEVS parts) 0 used"
  have "\<forall>j < ?n. used j" using first_zero_bit_first [of 0 _ "N_DEVS parts" used] by blast
  moreover have "?n < N_DEVS parts \<longrightarrow> \<not> used ?n" using first_zero_bit_free [of "N_DEVS parts" 0 used] by simp
  moreover have "?n \<le> N_DEVS parts" using first_zero_bit_le [of "N_DEVS parts" 0 used] by simp
  ultimately show ?thesis by (auto simp: minor_get_dyn_def Let_def)
qed

theorem minor_get_dyn_first_fit_witness: "fst (minor_get_dyn (2 ^ 18) (\<lambda>n. n = 0)) = Some (2 ^ 18)"
proof -
  have N: "N_DEVS (2 ^ 18) = 4" by (simp add: N_DEVS_def MINORBITS_def)
  obtain r u where r: "minor_get_dyn (2 ^ 18) (\<lambda>n. n = 0) = (r, u)" by fastforce
  note c = minor_get_dyn_first_fit [where parts = "2 ^ 18" and used = "\<lambda>n. n = 0", unfolded r N]
  show ?thesis
  proof (cases r)
    case None
    then have "\<forall>j < 4. j = (0 :: nat)" using c by simp
    then show ?thesis by (elim allE [of _ 1]) simp
  next
    case (Some m)
    then obtain n where n: "m = n * 2 ^ 18" "n \<noteq> 0" "\<forall>j < n. j = 0" using c by auto
    have "\<not> 1 < n" using n(3) by (metis zero_neq_one)
    then show ?thesis using Some n(1,2) r by simp
  qed
qed

end
