(* ===== verification/Devlist.thy ===== *)
theory Devlist
  imports Blk Minors
begin

text \<open>
  The list of devices (\<open>aoedev.c\<close>): finding or making the device of an AoE address, reference
  counts, and the flush command, which takes devices down, frees them and unlinks them.  The state
  holds the devices in list order; a handler runs on one of them in the state that all devices
  share.
\<close>

section \<open>State\<close>

record sys =
  y_devs :: "aoedev list"
  y_used :: bitmap
  y_next :: nat
  y_st :: st

definition on_dev :: "nat \<Rightarrow> (st \<Rightarrow> st) \<Rightarrow> sys \<Rightarrow> sys" where
  "on_dev i g y =
     (let s = g ((y_st y)\<lparr>s_dev := y_devs y ! i\<rparr>)
      in y\<lparr>y_st := s, y_devs := (y_devs y)[i := s_dev s]\<rparr>)"

section \<open>Lookup and allocation\<close>

definition new_dev :: "env \<Rightarrow> nat \<Rightarrow> nat \<Rightarrow> u64 \<Rightarrow> u16 \<Rightarrow> aoedev" where
  "new_dev e addr sysminor maj mi =
     \<lparr>d_addr = addr, d_sysminor = sysminor, d_aoemajor = maj, d_rttavg = RTTAVG_INIT,
      d_rttdev = RTTDEV_INIT, d_aoeminor = mi, d_flags = 0, d_nopen = 0, d_fw_ver = 0, d_lasttag = 0,
      d_ref = 1, d_gd = None, d_blkq = None,
      d_geo = \<lparr>g_heads = 0, g_sectors = 0, g_cylinders = 0, g_start = 0\<rparr>, d_ssize = 0,
      d_timer_fn = DummyTimer, d_timer_expires = Some (e_jiffies e + of_int (e_hz e)),
      d_skbpool = [], d_nskbpool = 0, d_bufpool = False, d_ip_buf = None, d_ip_nxbio = [],
      d_ip_rq = None, d_maxbcnt = 0, d_factive = replicate NFACTIVE [], d_rexmitq = [],
      d_targets = [], d_ntargets = NTARGETS, d_tgt = 0, d_kicked = 0, d_ident = replicate 512 0\<rparr>"

fun find_dev :: "nat \<Rightarrow> aoedev list \<Rightarrow> u64 \<Rightarrow> int \<Rightarrow> nat option" where
  "find_dev i [] maj mi = None"
| "find_dev i (d # ds) maj mi =
     (if d_aoemajor d = maj \<and> uint (d_aoeminor d) = mi then Some i else find_dev (Suc i) ds maj mi)"

definition aoedev_by_aoeaddr ::
  "env \<Rightarrow> bool \<Rightarrow> nat \<Rightarrow> u64 \<Rightarrow> int \<Rightarrow> bool \<Rightarrow> sys \<Rightarrow> nat option \<times> sys" where
  "aoedev_by_aoeaddr e dyn parts maj mi do_alloc y =
     (case find_dev 0 (y_devs y) maj mi of
        Some i \<Rightarrow>
          if hasfl (d_flags (y_devs y ! i)) DEVFL_TKILL then (None, y)
          else (Some i, y\<lparr>y_devs := (y_devs y)[i := (y_devs y ! i)\<lparr>d_ref := d_ref (y_devs y ! i) + 1\<rparr>]\<rparr>)
      | None \<Rightarrow>
          if \<not> do_alloc then (None, y)
          else
            (case minor_get dyn parts (unat maj) (nat mi) (y_used y) of
               (None, u) \<Rightarrow> (None, y\<lparr>y_used := u\<rparr>)
             | (Some m, u) \<Rightarrow>
                 (case alloc e (y_st y) of
                    (False, s1) \<Rightarrow> (None, y\<lparr>y_used := u, y_st := s1\<rparr>)
                  | (True, s1) \<Rightarrow>
                      (case alloc e s1 of
                         (False, s2) \<Rightarrow> (None, y\<lparr>y_used := u, y_st := s2\<rparr>)
                       | (True, s2) \<Rightarrow>
                           (Some 0, y\<lparr>y_used := u, y_st := s2, y_next := Suc (y_next y),
                              y_devs := new_dev e (y_next y) m maj (word_of_int mi) # y_devs y\<rparr>)))))"

definition aoedev_put :: "nat \<Rightarrow> sys \<Rightarrow> sys" where
  "aoedev_put i y = y\<lparr>y_devs := (y_devs y)[i := (y_devs y ! i)\<lparr>d_ref := d_ref (y_devs y ! i) - 1\<rparr>]\<rparr>"

text \<open>The timer of a device that is not identified yet.\<close>

definition dummy_timer :: "env \<Rightarrow> aoedev \<Rightarrow> aoedev" where
  "dummy_timer e d =
     (if hasfl (d_flags d) DEVFL_TKILL then d
      else d\<lparr>d_timer_expires := Some (e_jiffies e + of_int (e_hz e))\<rparr>)"

section \<open>Freeing a device\<close>

text \<open>
  \<open>skbfree\<close>: clones of the buffer are with the network until \<open>dataref\<close> is 1, which is polled every
  \<open>Sms\<close> milliseconds for at most \<open>Tms\<close>.  \<open>polls k n\<close> is the count of buffer \<open>k\<close> at poll \<open>n\<close>.
\<close>

fun skb_wait :: "(nat \<Rightarrow> nat) \<Rightarrow> nat \<Rightarrow> nat \<Rightarrow> bool" where
  "skb_wait dataref n 0 = (dataref n = 1)"
| "skb_wait dataref n (Suc i) = (if dataref n = 1 then True else skb_wait dataref (Suc n) i)"

definition SKB_POLLS :: nat where "SKB_POLLS = 30 * 1000 div 250"

definition skbfree :: "(nat \<Rightarrow> nat \<Rightarrow> nat) \<Rightarrow> nat option \<Rightarrow> st \<Rightarrow> st" where
  "skbfree polls ko s =
     (case ko of
        None \<Rightarrow> s
      | Some k \<Rightarrow>
          if skb_wait (polls k) 0 SKB_POLLS then emit (EvFreeSkb k) (upd_skb k skb_reset s)
          else emit (EvLeakSkb k) s)"

definition skbpoolfree :: "(nat \<Rightarrow> nat \<Rightarrow> nat) \<Rightarrow> st \<Rightarrow> st" where
  "skbpoolfree polls s =
     upd_dev (\<lambda>d. d\<lparr>d_skbpool := []\<rparr>) (fold (\<lambda>k. skbfree polls (Some k)) (d_skbpool (s_dev s)) s)"

definition dev_put :: "nat \<Rightarrow> st \<Rightarrow> st" where
  "dev_put nd s = s\<lparr>s_ndref := (s_ndref s)(nd := s_ndref s nd - 1)\<rparr>"

definition freetgt :: "(nat \<Rightarrow> nat \<Rightarrow> nat) \<Rightarrow> aoetgt \<Rightarrow> st \<Rightarrow> st" where
  "freetgt polls t s =
     fold (\<lambda>f s. skbfree polls (f_skb (fr s f)) s) (t_ffree t) (fold dev_put (nds t) s)"

definition freedev :: "nat \<Rightarrow> (nat \<Rightarrow> nat \<Rightarrow> nat) \<Rightarrow> nat \<Rightarrow> sys \<Rightarrow> sys" where
  "freedev parts polls i y =
     (let d = y_devs y ! i
      in if hasfl (d_flags d) DEVFL_TKILL \<and> \<not> hasfl (d_flags d) DEVFL_FREEING then
           (let d1 = d\<lparr>d_flags := setfl (d_flags d) DEVFL_FREEING, d_timer_expires := None\<rparr>;
                s2 = skbpoolfree polls (fold (freetgt polls) (d_targets d1) ((y_st y)\<lparr>s_dev := d1\<rparr>));
                (u, s3) = (case minor_free parts (d_sysminor d1) (y_used y) of
                             None \<Rightarrow> (y_used y, emit EvOops s2)
                           | Some u \<Rightarrow> (u, s2));
                d4 = (s_dev s3)\<lparr>d_flags := setfl (d_flags (s_dev s3)) DEVFL_FREED\<rparr>
            in y\<lparr>y_devs := (y_devs y)[i := d4], y_used := u, y_st := s3\<rparr>)
         else y)"

section \<open>Flushing\<close>

fun strrchr_tail :: "string \<Rightarrow> string" where
  "strrchr_tail [] = []"
| "strrchr_tail (c # s) = (if CHR ''/'' \<in> set s then strrchr_tail s else if c = CHR ''/'' then s else c # s)"

definition user_req :: "string \<Rightarrow> aoedev \<Rightarrow> bool" where
  "user_req s d =
     (case d_gd d of
        None \<Rightarrow> False
      | Some gd \<Rightarrow>
          (let p = strrchr_tail (gd_disk_name gd);
               lim = DISK_NAME_LEN - (length (gd_disk_name gd) - length p)
           in \<not> strncmp s p (if length s < lim then length s else lim)))"

definition skipflags :: u16 where
  "skipflags = DEVFL_GDALLOC OR DEVFL_NEWSIZE OR DEVFL_TKILL"

text \<open>What a flush is asked to do: at exit, for one device, for all, or for those that are down.\<close>

datatype flushreq = FlushExit | FlushOne string | FlushAll | FlushDown

definition doomed :: "flushreq \<Rightarrow> aoedev \<Rightarrow> bool" where
  "doomed q d =
     (case q of
        FlushExit \<Rightarrow> True
      | FlushOne buf \<Rightarrow> user_req buf d
      | _ \<Rightarrow> \<not> ((q \<noteq> FlushAll \<and> hasfl (d_flags d) DEVFL_UP) \<or> hasfl (d_flags d) skipflags
                \<or> d_nopen d \<noteq> 0 \<or> d_ref d \<noteq> 0))"

definition flush_kill :: "env \<Rightarrow> st \<Rightarrow> st" where
  "flush_kill e s = upd_dev (\<lambda>d. d\<lparr>d_flags := setfl (d_flags d) DEVFL_TKILL\<rparr>) (aoedev_downdev e s)"

fun flush_pass1 :: "env \<Rightarrow> flushreq \<Rightarrow> aoedev list \<Rightarrow> st \<Rightarrow> aoedev list \<times> st" where
  "flush_pass1 e q [] s = ([], s)"
| "flush_pass1 e q (d # ds) s =
     (let s1 = (if doomed q d then flush_kill e (s\<lparr>s_dev := d\<rparr>) else s\<lparr>s_dev := d\<rparr>);
          (ds', s2) = flush_pass1 e q ds s1
      in (s_dev s1 # ds', s2))"

abbreviation to_free :: "aoedev \<Rightarrow> bool" where
  "to_free d \<equiv> hasfl (d_flags d) DEVFL_TKILL \<and> \<not> hasfl (d_flags d) DEVFL_FREEING"

text \<open>Pass two starts over after every device it frees.\<close>

fun find_kill :: "nat \<Rightarrow> aoedev list \<Rightarrow> nat option" where
  "find_kill i [] = None"
| "find_kill i (d # ds) = (if to_free d then Some i else find_kill (Suc i) ds)"

lemma find_kill_Some: "find_kill i ds = Some j \<Longrightarrow> i \<le> j \<and> j < i + length ds \<and> to_free (ds ! (j - i))"
proof (induction ds arbitrary: i)
  case (Cons d ds)
  show ?case
  proof (cases "to_free d")
    case False
    then have "Suc i \<le> j \<and> j < Suc i + length ds \<and> to_free (ds ! (j - Suc i))"
      using Cons.prems by (intro Cons.IH) (simp split: if_splits)
    then show ?thesis by (auto simp: nth_Cons')
  qed (use Cons.prems in auto)
qed simp

lemma find_kill_None: "find_kill i ds = None \<longleftrightarrow> (\<forall>d\<in>set ds. \<not> to_free d)"
  by (induction ds arbitrary: i) auto

lemma skbfree_dev [simp]: "s_dev (skbfree polls ko s) = s_dev s"
  by (simp add: skbfree_def split: option.split)

lemma fold_dev: "(\<And>x s. s_dev (g x s) = s_dev s) \<Longrightarrow> s_dev (fold g xs s) = s_dev s"
  by (induction xs arbitrary: s) simp_all

lemma freetgt_dev [simp]: "s_dev (freetgt polls t s) = s_dev s"
  by (simp add: freetgt_def fold_dev dev_put_def)

lemma skbpoolfree_dev: "s_dev (skbpoolfree polls s) = (s_dev s)\<lparr>d_skbpool := []\<rparr>"
  by (simp add: skbpoolfree_def fold_dev)

text \<open>A device is freed with both flags set, and its minor number is given back.\<close>

lemma freedev_devs:
  assumes "to_free (y_devs y ! i)"
  shows "y_devs (freedev parts polls i y) = (y_devs y)[i := (y_devs y ! i)\<lparr>d_timer_expires := None, d_skbpool := [],
      d_flags := setfl (setfl (d_flags (y_devs y ! i)) DEVFL_FREEING) DEVFL_FREED\<rparr>]"
    and "y_used (freedev parts polls i y) = (case minor_free parts (d_sysminor (y_devs y ! i)) (y_used y) of
      None \<Rightarrow> y_used y | Some u \<Rightarrow> u)"
  using assms
  by (simp_all add: freedev_def Let_def skbpoolfree_dev fold_dev split_def split: option.split)

text \<open>Every round of pass two leaves one device less to free.\<close>

lemma freedev_progress:
  assumes "find_kill 0 (y_devs y) = Some i"
  shows "length (filter to_free (y_devs (freedev parts polls i y))) < length (filter to_free (y_devs y))"
proof -
  let ?ds = "y_devs y"
  have i: "i < length ?ds" "to_free (?ds ! i)" using find_kill_Some [OF assms] by simp_all
  let ?d = "(?ds ! i)\<lparr>d_timer_expires := None, d_skbpool := [],
      d_flags := setfl (setfl (d_flags (?ds ! i)) DEVFL_FREEING) DEVFL_FREED\<rparr>"
  have d: "\<not> to_free ?d" by (simp add: flag_simps)
  have "filter to_free (?ds[i := ?d]) = filter to_free (take i ?ds) @ filter to_free (drop (Suc i) ?ds)"
    using i(1) d by (simp only: upd_conv_take_nth_drop filter_append filter.simps if_False)
  moreover have "filter to_free ?ds = filter to_free (take i ?ds) @ ?ds ! i # filter to_free (drop (Suc i) ?ds)"
    using i by (subst id_take_nth_drop [OF i(1)]) simp
  ultimately show ?thesis unfolding freedev_devs(1) [OF i(2)] by simp
qed

function flush_pass2 :: "nat \<Rightarrow> (nat \<Rightarrow> nat \<Rightarrow> nat) \<Rightarrow> sys \<Rightarrow> sys" where
  "flush_pass2 parts polls y =
     (case find_kill 0 (y_devs y) of
        None \<Rightarrow> y
      | Some i \<Rightarrow> flush_pass2 parts polls (freedev parts polls i y))"
  by pat_completeness auto
termination
  by (relation "measure (\<lambda>(parts, polls, y). length (filter to_free (y_devs y)))") (simp_all add: freedev_progress)

declare flush_pass2.simps [simp del]

definition flush_pass3 :: "sys \<Rightarrow> sys" where
  "flush_pass3 y = y\<lparr>y_devs := filter (\<lambda>d. \<not> hasfl (d_flags d) DEVFL_FREED) (y_devs y)\<rparr>"

text \<open>The arguments of a flush: at most 16 bytes of what the user wrote, if they can be read.\<close>

definition flush_req :: "string \<Rightarrow> bool \<Rightarrow> flushreq" where
  "flush_req str exiting =
     (if \<not> exiting \<and> length str \<ge> 3 then
        (let buf = take 16 str in if \<not> strncmp buf ''all'' 3 then FlushAll else FlushOne buf)
      else if exiting then FlushExit else FlushDown)"

text \<open>A whole flush, with nothing in between its passes.  Its wait for scheduled work, and passes that interleave with the
  worker, with handlers of the device and with other flushes, are in \<open>Life\<close>.  Between \<open>minor_free\<close> and the last
  pass, which unlinks the device, a new device could get its minor number; that window is not modelled.\<close>

definition flush :: "env \<Rightarrow> nat \<Rightarrow> (nat \<Rightarrow> nat \<Rightarrow> nat) \<Rightarrow> bool \<Rightarrow> string \<Rightarrow> bool \<Rightarrow> sys \<Rightarrow> errno option \<times> sys" where
  "flush e parts polls copied str exiting y =
     (if \<not> exiting \<and> length str \<ge> 3 \<and> \<not> copied then (Some EFAULT, y)
      else
        (let (ds, s) = flush_pass1 e (flush_req str exiting) (y_devs y) (y_st y)
         in (None, flush_pass3 (flush_pass2 parts polls (y\<lparr>y_devs := ds, y_st := s\<rparr>)))))"

definition aoedev_flush :: "env \<Rightarrow> nat \<Rightarrow> (nat \<Rightarrow> nat \<Rightarrow> nat) \<Rightarrow> bool \<Rightarrow> string \<Rightarrow> sys \<Rightarrow> errno option \<times> sys" where
  "aoedev_flush e parts polls copied str y = flush e parts polls copied str False y"

definition aoedev_exit :: "env \<Rightarrow> nat \<Rightarrow> (nat \<Rightarrow> nat \<Rightarrow> nat) \<Rightarrow> sys \<Rightarrow> sys" where
  "aoedev_exit e parts polls y = snd (flush e parts polls True [] True y)"

section \<open>What a flush does\<close>

lemma flush_kill_life:
  "d_flags (s_dev (flush_kill e s)) = setfl (clrfl (d_flags (s_dev s)) DEVFL_UP) DEVFL_TKILL"
  "d_sysminor (s_dev (flush_kill e s)) = d_sysminor (s_dev s)"
  using life_downdev [of e s] by (simp_all add: flush_kill_def life_def)

lemma flush_pass1_devs:
  "list_all2 (\<lambda>d d'. d_sysminor d' = d_sysminor d \<and>
      (if doomed q d then d_flags d' = setfl (clrfl (d_flags d) DEVFL_UP) DEVFL_TKILL else d' = d))
    ds (fst (flush_pass1 e q ds s))"
proof (induction ds arbitrary: s)
  case (Cons d ds)
  show ?case using Cons.IH flush_kill_life [of e "s\<lparr>s_dev := d\<rparr>"] by (simp add: Let_def split_def)
qed simp

lemma flush_pass2_devs:
  "list_all2 (\<lambda>d d'. if to_free d then hasfl (d_flags d') DEVFL_FREED else d' = d)
    (y_devs y) (y_devs (flush_pass2 parts polls y))"
proof (induction parts polls y rule: flush_pass2.induct)
  case (1 parts polls y)
  show ?case
  proof (cases "find_kill 0 (y_devs y)")
    case None
    have n: "\<forall>d\<in>set (y_devs y). \<not> to_free d" using None by (simp only: find_kill_None)
    have "flush_pass2 parts polls y = y" by (simp add: flush_pass2.simps [of parts polls y] None)
    then show ?thesis using n by (simp only: list_all2_same) auto
  next
    case (Some i)
    define d where "d = (y_devs y ! i)\<lparr>d_timer_expires := None, d_skbpool := [],
      d_flags := setfl (setfl (d_flags (y_devs y ! i)) DEVFL_FREEING) DEVFL_FREED\<rparr>"
    have i: "i < length (y_devs y)" "to_free (y_devs y ! i)" using find_kill_Some [OF Some] by simp_all
    have f: "y_devs (freedev parts polls i y) = (y_devs y)[i := d]"
      unfolding d_def by (rule freedev_devs(1) [OF i(2)])
    have d: "\<not> to_free d" "hasfl (d_flags d) DEVFL_FREED" by (simp_all add: d_def flag_simps)
    have e: "flush_pass2 parts polls y = flush_pass2 parts polls (freedev parts polls i y)"
      by (simp add: flush_pass2.simps [of parts polls y] Some)
    show ?thesis
      using 1 [OF Some] i d unfolding e f list_all2_conv_all_nth by (auto simp: nth_list_update split: if_splits)
  qed
qed

text \<open>The minor numbers of the freed devices are available again, and no others.\<close>

abbreviation minors_of :: "aoedev list \<Rightarrow> nat list" where
  "minors_of ds \<equiv> map d_sysminor ds"

lemma filter_update_drop:
  assumes "i < length xs" and "P (xs ! i)" and "\<not> P x"
  shows "filter P (xs[i := x]) = filter P (take i xs) @ filter P (drop (Suc i) xs)"
    and "filter P xs = filter P (take i xs) @ xs ! i # filter P (drop (Suc i) xs)"
proof -
  show "filter P (xs[i := x]) = filter P (take i xs) @ filter P (drop (Suc i) xs)"
    using assms by (simp add: upd_conv_take_nth_drop)
  show "filter P xs = filter P (take i xs) @ xs ! i # filter P (drop (Suc i) xs)"
    using assms by (subst id_take_nth_drop [OF assms(1)]) simp
qed

lemma flush_pass2_minors:
  assumes "mn.held_ok (minors_of (y_devs y)) (y_used y)"
  shows "taken AOE_PARTITIONS (y_used (flush_pass2 AOE_PARTITIONS polls y))
    = taken AOE_PARTITIONS (y_used y) - set (minors_of (filter to_free (y_devs y)))"
proof -
  have "taken parts (y_used (flush_pass2 parts polls y)) = taken parts (y_used y) - set (minors_of (filter to_free (y_devs y)))"
    if "parts = AOE_PARTITIONS" "set (minors_of (filter to_free (y_devs y))) \<subseteq> taken parts (y_used y)"
      "distinct (minors_of (filter to_free (y_devs y)))" for parts
    using that
  proof (induction parts polls y rule: flush_pass2.induct)
    case (1 parts polls y)
    show ?case
    proof (cases "find_kill 0 (y_devs y)")
      case None
      have "filter to_free (y_devs y) = []" using None by (simp only: find_kill_None filter_empty_conv)
      moreover have "flush_pass2 parts polls y = y" by (simp add: flush_pass2.simps [of parts polls y] None)
      ultimately show ?thesis by simp
    next
      case (Some i)
      define d where "d = (y_devs y ! i)\<lparr>d_timer_expires := None, d_skbpool := [],
        d_flags := setfl (setfl (d_flags (y_devs y ! i)) DEVFL_FREEING) DEVFL_FREED\<rparr>"
      let ?y = "freedev parts polls i y" and ?m = "d_sysminor (y_devs y ! i)"
      have i: "i < length (y_devs y)" "to_free (y_devs y ! i)" using find_kill_Some [OF Some] by simp_all
      have f: "y_devs ?y = (y_devs y)[i := d]" unfolding d_def by (rule freedev_devs(1) [OF i(2)])
      have "\<not> to_free d" by (simp add: d_def flag_simps)
      note l = filter_update_drop [where P = to_free, OF i this]
      have m: "?m \<in> taken parts (y_used y)" using 1(3) l(2) by auto
      then obtain u where u: "minor_free parts ?m (y_used y) = Some u" "taken parts u = taken parts (y_used y) - {?m}"
        using mn.free_Some [of ?m "y_used y"] 1(2) by auto
      then have y: "y_used ?y = u" by (simp add: freedev_devs(2) [OF i(2)])
      define M where "M = set (minors_of (filter to_free (y_devs ?y)))"
      have n: "?m \<notin> M" using 1(4) unfolding M_def f l by auto
      have ins: "set (minors_of (filter to_free (y_devs y))) = insert ?m M" unfolding M_def f l by auto
      have dis: "distinct (minors_of (filter to_free (y_devs ?y)))" using 1(4) unfolding f l by auto
      have "M \<subseteq> taken parts (y_used ?y)" using 1(3) n ins u(2) y by auto
      then have "taken parts (y_used (flush_pass2 parts polls ?y)) = taken parts (y_used ?y) - M"
        unfolding M_def by (rule 1(1) [OF Some 1(2) _ dis])
      moreover have "flush_pass2 parts polls y = flush_pass2 parts polls ?y"
        by (simp add: flush_pass2.simps [of parts polls y] Some)
      ultimately show ?thesis unfolding ins using u(2) y by auto
    qed
  qed
  moreover have "set (minors_of (filter to_free (y_devs y))) \<subseteq> taken AOE_PARTITIONS (y_used y)"
    "distinct (minors_of (filter to_free (y_devs y)))"
    using assms by (auto simp: mn.held_ok_def distinct_map_filter)
  ultimately show ?thesis by blast
qed

text \<open>Between two flushes no device is on its way out.\<close>

definition settled :: "sys \<Rightarrow> bool" where
  "settled y \<longleftrightarrow> (\<forall>d\<in>set (y_devs y). \<not> hasfl (d_flags d) DEVFL_TKILL
     \<and> \<not> hasfl (d_flags d) DEVFL_FREEING \<and> \<not> hasfl (d_flags d) DEVFL_FREED)"

lemma list_all2_filter:
  "list_all2 (\<lambda>x y. if P x then \<not> Q y else y = x \<and> Q y) xs ys \<Longrightarrow> filter Q ys = filter (\<lambda>x. \<not> P x) xs"
  by (induction xs ys rule: list_all2_induct) (auto split: if_splits)

lemma flush_devs:
  assumes st: "settled y" and held: "mn.held_ok (minors_of (y_devs y)) (y_used y)"
    and c: "flush e AOE_PARTITIONS polls copied str exiting y = (None, y')"
  defines "q \<equiv> flush_req str exiting"
  shows "y_devs y' = filter (\<lambda>d. \<not> doomed q d) (y_devs y)"
    and "taken AOE_PARTITIONS (y_used y') = taken AOE_PARTITIONS (y_used y) - set (minors_of (filter (doomed q) (y_devs y)))"
proof -
  obtain ds s where p: "flush_pass1 e q (y_devs y) (y_st y) = (ds, s)" by fastforce
  define y1 where "y1 = y\<lparr>y_devs := ds, y_st := s\<rparr>"
  have y': "y' = flush_pass3 (flush_pass2 AOE_PARTITIONS polls y1)"
    using c p by (simp add: flush_def q_def y1_def split: if_splits)
  have 1: "list_all2 (\<lambda>d d'. d_sysminor d' = d_sysminor d \<and>
      (if doomed q d then d_flags d' = setfl (clrfl (d_flags d) DEVFL_UP) DEVFL_TKILL else d' = d)) (y_devs y) ds"
    using flush_pass1_devs [of q "y_devs y" e "y_st y"] p by simp
  have l1: "length ds = length (y_devs y)" using list_all2_lengthD [OF 1] by simp
  have fl: "\<not> hasfl (d_flags d) DEVFL_TKILL \<and> \<not> hasfl (d_flags d) DEVFL_FREEING \<and> \<not> hasfl (d_flags d) DEVFL_FREED"
    if "d \<in> set (y_devs y)" for d using st that by (simp add: settled_def)
  have d1: "d_sysminor (ds ! i) = d_sysminor (y_devs y ! i)" "to_free (ds ! i) \<longleftrightarrow> doomed q (y_devs y ! i)"
    "\<not> doomed q (y_devs y ! i) \<Longrightarrow> ds ! i = y_devs y ! i"
    if "i < length (y_devs y)" for i
    using list_all2_nthD [OF 1 that] fl [of "y_devs y ! i"] that by (auto simp: flag_simps split: if_splits)
  have 2: "list_all2 (\<lambda>d d'. if to_free d then hasfl (d_flags d') DEVFL_FREED else d' = d) ds
      (y_devs (flush_pass2 AOE_PARTITIONS polls y1))"
    using flush_pass2_devs [of y1 AOE_PARTITIONS polls] by (simp add: y1_def)
  have "list_all2 (\<lambda>d d'. if doomed q d then \<not> \<not> hasfl (d_flags d') DEVFL_FREED
      else d' = d \<and> \<not> hasfl (d_flags d') DEVFL_FREED) (y_devs y) (y_devs (flush_pass2 AOE_PARTITIONS polls y1))"
    unfolding list_all2_conv_all_nth
  proof (intro conjI allI impI)
    fix i assume i: "i < length (y_devs y)"
    then have n: "y_devs y ! i \<in> set (y_devs y)" by simp
    show "if doomed q (y_devs y ! i) then \<not> \<not> hasfl (d_flags (y_devs (flush_pass2 AOE_PARTITIONS polls y1) ! i)) DEVFL_FREED
      else y_devs (flush_pass2 AOE_PARTITIONS polls y1) ! i = y_devs y ! i
        \<and> \<not> hasfl (d_flags (y_devs (flush_pass2 AOE_PARTITIONS polls y1) ! i)) DEVFL_FREED"
      using list_all2_nthD [OF 2, of i] d1 [OF i] fl [OF n] i l1 by (cases "doomed q (y_devs y ! i)") simp_all
  qed (use list_all2_lengthD [OF 2] l1 in simp)
  then show "y_devs y' = filter (\<lambda>d. \<not> doomed q d) (y_devs y)"
    unfolding y' flush_pass3_def by (simp add: list_all2_filter)
  have m: "minors_of ds = minors_of (y_devs y)" using d1(1) l1 by (intro nth_equalityI) simp_all
  have f: "minors_of (filter to_free ds) = minors_of (filter (doomed q) (y_devs y))"
  proof -
    have "list_all2 (\<lambda>d d'. d_sysminor d' = d_sysminor d \<and> (to_free d' \<longleftrightarrow> doomed q d)) (y_devs y) ds"
      using d1 l1 by (simp add: list_all2_conv_all_nth)
    then show ?thesis by (induction rule: list_all2_induct) auto
  qed
  show "taken AOE_PARTITIONS (y_used y') = taken AOE_PARTITIONS (y_used y) - set (minors_of (filter (doomed q) (y_devs y)))"
    using flush_pass2_minors [of y1 polls] held m f unfolding y' by (simp add: flush_pass3_def y1_def)
qed

section \<open>Lookup\<close>

lemma find_dev_Some: "find_dev i ds maj mi = Some j \<Longrightarrow>
   i \<le> j \<and> j < i + length ds \<and> d_aoemajor (ds ! (j - i)) = maj \<and> uint (d_aoeminor (ds ! (j - i))) = mi"
proof (induction ds arbitrary: i)
  case (Cons d ds)
  show ?case
  proof (cases "d_aoemajor d = maj \<and> uint (d_aoeminor d) = mi")
    case False
    then have "Suc i \<le> j \<and> j < Suc i + length ds \<and> d_aoemajor (ds ! (j - Suc i)) = maj
        \<and> uint (d_aoeminor (ds ! (j - Suc i))) = mi"
      using Cons.prems by (intro Cons.IH) (simp split: if_splits)
    then show ?thesis by (auto simp: nth_Cons')
  qed (use Cons.prems in auto)
qed simp

lemma find_dev_None:
  "find_dev i ds maj mi = None \<longleftrightarrow> (\<forall>d\<in>set ds. \<not> (d_aoemajor d = maj \<and> uint (d_aoeminor d) = mi))"
  by (induction ds arbitrary: i) auto

abbreviation aoeaddr :: "aoedev \<Rightarrow> u64 \<times> u16" where
  "aoeaddr d \<equiv> (d_aoemajor d, d_aoeminor d)"

text \<open>No two devices share an AoE address or a minor number, and every minor number in use by a
  device is marked.\<close>

definition sys_ok :: "sys \<Rightarrow> bool" where
  "sys_ok y \<longleftrightarrow> distinct (map aoeaddr (y_devs y)) \<and> mn.held_ok (minors_of (y_devs y)) (y_used y)"

lemma sys_ok_flush:
  assumes "sys_ok y" and "settled y" and "flush e AOE_PARTITIONS polls copied str exiting y = (None, y')"
  shows "sys_ok y' \<and> settled y'"
proof -
  let ?q = "flush_req str exiting"
  have held: "mn.held_ok (minors_of (y_devs y)) (y_used y)" using assms(1) by (simp add: sys_ok_def)
  note f = flush_devs [OF assms(2) held assms(3)]
  have "set (minors_of (filter (\<lambda>d. \<not> doomed ?q d) (y_devs y))) \<inter> set (minors_of (filter (doomed ?q) (y_devs y))) = {}"
    using held by (auto simp: mn.held_ok_def distinct_map dest: inj_onD)
  then have "mn.held_ok (minors_of (y_devs y')) (y_used y')"
    using held unfolding f mn.held_ok_def by (auto simp: distinct_map_filter)
  then show ?thesis using assms(1,2) unfolding sys_ok_def settled_def f by (auto simp: distinct_map_filter)
qed

lemma aoedev_by_aoeaddr_ok:
  assumes ok: "sys_ok y" and r: "aoedev_by_aoeaddr e dyn AOE_PARTITIONS maj mi do_alloc y = (r, y')"
    and mi: "0 \<le> mi" "mi < 2 ^ 16"
  shows "sys_ok y' \<and> (case r of
      Some i \<Rightarrow> i < length (y_devs y') \<and> aoeaddr (y_devs y' ! i) = (maj, word_of_int mi)
        \<and> \<not> hasfl (d_flags (y_devs y' ! i)) DEVFL_TKILL
        \<and> (if (maj, word_of_int mi) \<in> set (map aoeaddr (y_devs y))
           then y_devs y' = (y_devs y)[i := (y_devs y ! i)\<lparr>d_ref := d_ref (y_devs y ! i) + 1\<rparr>]
           else i = 0 \<and> tl (y_devs y') = y_devs y \<and> d_ref (y_devs y' ! 0) = 1)
    | None \<Rightarrow> y_devs y' = y_devs y)"
proof -
  have w: "uint (word_of_int mi :: u16) = mi" using mi by (simp add: uint_word_of_int)
  have eq: "uint (d_aoeminor d) = mi \<longleftrightarrow> d_aoeminor d = word_of_int mi" for d
    using w by (metis word_of_int_uint)
  show ?thesis
  proof (cases "find_dev 0 (y_devs y) maj mi")
    case (Some i)
    then have i: "i < length (y_devs y)" "aoeaddr (y_devs y ! i) = (maj, word_of_int mi)"
      using find_dev_Some [OF Some] eq [of "y_devs y ! i"] by auto
    have mem: "(maj, word_of_int mi) \<in> set (map aoeaddr (y_devs y))"
      unfolding i(2) [symmetric] set_map using i(1) by (intro imageI nth_mem)
    let ?ds = "(y_devs y)[i := (y_devs y ! i)\<lparr>d_ref := d_ref (y_devs y ! i) + 1\<rparr>]"
    have m: "map aoeaddr ?ds = map aoeaddr (y_devs y)" "minors_of ?ds = minors_of (y_devs y)"
      using i(1) by (simp_all add: map_update list_update_same_conv)
    show ?thesis
    proof (cases "hasfl (d_flags (y_devs y ! i)) DEVFL_TKILL")
      case True
      then show ?thesis using ok r Some by (auto simp: aoedev_by_aoeaddr_def)
    next
      case False
      then have "r = Some i" "y' = y\<lparr>y_devs := ?ds\<rparr>" using r Some by (auto simp: aoedev_by_aoeaddr_def)
      then show ?thesis using ok i mem m False by (simp add: sys_ok_def)
    qed
  next
    case None
    then have n: "(maj, word_of_int mi) \<notin> set (map aoeaddr (y_devs y))"
      unfolding find_dev_None eq by auto
    obtain mo u where g: "minor_get dyn AOE_PARTITIONS (unat maj) (nat mi) (y_used y) = (mo, u)" by fastforce
    have h: "mn.held_ok (minors_of (y_devs y)) (y_used y)" using ok by (simp add: sys_ok_def)
    have some: "mo = Some m \<Longrightarrow> mn.held_ok (m # minors_of (y_devs y)) u" for m
      using mn.held_get [OF h, of dyn "(unat maj, nat mi)" m u] g by simp
    have "mn.held_ok (minors_of (y_devs y)) u"
    proof (cases mo)
      case None
      then show ?thesis using h mn.get_None [of dyn "(unat maj, nat mi)" "y_used y" u] g by simp
    next
      case (Some m)
      then show ?thesis using some by (simp add: mn.held_ok_def)
    qed
    with some show ?thesis
      using ok r None n g by (auto simp: aoedev_by_aoeaddr_def sys_ok_def new_dev_def alloc_def
          split: if_splits option.splits bool.splits)
  qed
qed

text \<open>When there is nothing to return, and what is made when there is.\<close>

lemma aoedev_by_aoeaddr_result:
  assumes r: "aoedev_by_aoeaddr e dyn parts maj mi do_alloc y = (r, y')" and mi: "0 \<le> mi" "mi < 2 ^ 16"
  shows "case r of
      Some i \<Rightarrow> (maj, word_of_int mi) \<in> set (map aoeaddr (y_devs y))
        \<or> do_alloc \<and> fst (alloc e (y_st y)) \<and> fst (alloc e (snd (alloc e (y_st y))))
          \<and> (\<exists>m. minor_get dyn parts (unat maj) (nat mi) (y_used y) = (Some m, y_used y')
            \<and> y_devs y' = new_dev e (y_next y) m maj (word_of_int mi) # y_devs y)
    | None \<Rightarrow> (\<exists>d\<in>set (y_devs y). aoeaddr d = (maj, word_of_int mi) \<and> hasfl (d_flags d) DEVFL_TKILL) \<and> y' = y
        \<or> (maj, word_of_int mi) \<notin> set (map aoeaddr (y_devs y)) \<and>
          (\<not> do_alloc \<and> y' = y
           \<or> do_alloc \<and> (fst (minor_get dyn parts (unat maj) (nat mi) (y_used y)) = None
               \<or> \<not> fst (alloc e (y_st y)) \<or> \<not> fst (alloc e (snd (alloc e (y_st y))))))"
proof -
  have w: "uint (word_of_int mi :: u16) = mi" using mi by (simp add: uint_word_of_int)
  have eq: "uint (d_aoeminor d) = mi \<longleftrightarrow> d_aoeminor d = word_of_int mi" for d
    using w by (metis word_of_int_uint)
  show ?thesis
  proof (cases "find_dev 0 (y_devs y) maj mi")
    case (Some i)
    then have i: "y_devs y ! i \<in> set (y_devs y)" "aoeaddr (y_devs y ! i) = (maj, word_of_int mi)"
      using find_dev_Some [OF Some] eq [of "y_devs y ! i"] by auto
    have mem: "(maj, word_of_int mi) \<in> set (map aoeaddr (y_devs y))"
      unfolding i(2) [symmetric] set_map by (rule imageI [OF i(1)])
    show ?thesis
    proof (cases "hasfl (d_flags (y_devs y ! i)) DEVFL_TKILL")
      case True
      then have "r = None" "y' = y" using r Some by (simp_all add: aoedev_by_aoeaddr_def)
      then show ?thesis using i True by auto
    next
      case False
      then have "r = Some i" using r Some by (auto simp: aoedev_by_aoeaddr_def)
      then show ?thesis using mem by simp
    qed
  next
    case None
    then have n: "(maj, word_of_int mi) \<notin> set (map aoeaddr (y_devs y))" unfolding find_dev_None eq by auto
    then show ?thesis
      using r None by (auto simp: aoedev_by_aoeaddr_def alloc_def split: if_splits option.splits bool.splits prod.splits)
  qed
qed

section \<open>Concrete instances\<close>

text \<open>The state after \<open>aoecmd_init\<close>: one completion queue per processor, the first thread started.\<close>

definition init_st :: "nat \<Rightarrow> aoedev \<Rightarrow> st" where
  "init_st ncpus d =
     \<lparr>s_dev = d, s_frames = (\<lambda>_. zero_frame), s_nframe = 0, s_skbs = (\<lambda>_. fresh_skb), s_nskb = 0,
      s_bufs = (\<lambda>_. None), s_nbuf = 0,
      s_bios = (\<lambda>_. \<lparr>bio_iter = zero_iter, bio_write = False, bio_error = False, bio_vec = []\<rparr>),
      s_reqs = (\<lambda>_. \<lparr>rq_bio = [], rq_special = 0\<rparr>), s_pages = (\<lambda>_ _. 0), s_pgcnt = (\<lambda>_. 0), s_txq = [],
      s_iocq = replicate ncpus [], s_active = map (\<lambda>i. i = 0) [0..<ncpus], s_ndref = (\<lambda>_. 0),
      s_tick = 0, s_log = []\<rparr>"

definition env0 :: env where
  "env0 = \<lparr>e_hz = 250, e_jiffies = 1000, e_now = \<lparr>tv_sec = 4, tv_usec = 0\<rparr>, e_j2us = (\<lambda>n. of_nat (n * 4000)),
     e_alloc = (\<lambda>_. True), e_ndaddr = (\<lambda>n. replicate 6 (of_nat n)), e_mtu = (\<lambda>_. 1500), e_empty_page = 0,
     e_deadsecs = 180, e_maxout = 64, e_maxioc = 2, e_advance = (\<lambda>b i n. i), e_segs = (\<lambda>b i. []), e_head = (\<lambda>p. p),
     e_end = (\<lambda>bs l n. (tl l \<noteq> [], tl l))\<rparr>"

text \<open>Two devices: one is open, the other is down and unused.\<close>

definition dev_idle :: aoedev where
  "dev_idle = (new_dev env0 0 0x10 1 10)\<lparr>d_ref := 0,
     d_gd := Some \<lparr>gd_disk_name = ''etherd/e1.10'', gd_capacity = 8\<rparr>, d_blkq := Some []\<rparr>"

definition dev_open :: aoedev where
  "dev_open = (new_dev env0 1 0x20 1 1)\<lparr>d_ref := 0, d_nopen := 1, d_flags := DEVFL_UP,
     d_gd := Some \<lparr>gd_disk_name = ''etherd/e1.1'', gd_capacity = 8\<rparr>, d_blkq := Some []\<rparr>"

definition two_devs :: sys where
  "two_devs = \<lparr>y_devs = [dev_open, dev_idle], y_used = (\<lambda>_. False)(1 := True, 2 := True), y_next = 2,
     y_st = init_st 2 dev_idle\<rparr>"

lemma two_devs_ok: "settled two_devs" "sys_ok two_devs"
  unfolding sys_ok_def mn.held_ok_def settled_def
  by (simp_all add: two_devs_def dev_idle_def dev_open_def new_dev_def
      taken_def AOE_PARTITIONS_def N_DEVS_def MINORBITS_def devfl_defs hasfl_def)

section \<open>Properties\<close>

text \<open>C11. A flush that is not refused removes exactly the devices it is meant to: all at exit; the one
  named; otherwise those that are not open, not referenced and not being set up, and with no
  \<open>all\<close> also not up.  The others stay, in order and untouched, and exactly the minor numbers of the
  removed devices become free.  Freeing them one by one ends.\<close>

theorem flush_removes_exactly:
  assumes "settled y" and "sys_ok y" and "flush e AOE_PARTITIONS polls copied str exiting y = (None, y')"
  shows "y_devs y' = filter (\<lambda>d. \<not> doomed (flush_req str exiting) d) (y_devs y)
    \<and> taken AOE_PARTITIONS (y_used y') = taken AOE_PARTITIONS (y_used y)
        - set (minors_of (filter (doomed (flush_req str exiting)) (y_devs y)))
    \<and> settled y' \<and> sys_ok y'"
  using flush_devs [OF assms(1) _ assms(3)] sys_ok_flush [OF assms(2,1,3)] assms(2)
  by (simp add: sys_ok_def)

theorem flush_removes_exactly_witness:
  "y_devs (snd (flush env0 AOE_PARTITIONS (\<lambda>_ _. 1) True [] False two_devs)) = [dev_open]"
proof -
  obtain y' where y: "flush env0 AOE_PARTITIONS (\<lambda>_ _. 1) True [] False two_devs = (None, y')"
    by (simp add: flush_def split_def Let_def)
  have "doomed FlushDown dev_idle" "\<not> doomed FlushDown dev_open"
    by (simp_all add: doomed_def dev_idle_def dev_open_def new_dev_def hasfl_def DEVFL_UP_def)
  then show ?thesis
    using flush_removes_exactly [OF two_devs_ok y] y by (simp add: flush_req_def two_devs_def)
qed

text \<open>C12. \<open>aoedev_by_aoeaddr\<close>: a device returned is the one with the address asked for and is not being
  killed; it was there and has one reference more, or it was wanted, there was none, and it is a new device at the
  head of the list, as \<open>aoedev_by_aoeaddr\<close> makes it, with the minor number that \<open>minor_get\<close> gave and one reference.
  Nothing is returned only if there is a dying device of that address, or none and no new one was wanted
  (then nothing changes), or none and no minor number or no memory could be had; the list is then as before.
  Addresses and minor numbers stay unique.\<close>

theorem aoedev_by_aoeaddr_correct:
  assumes "sys_ok y" and "aoedev_by_aoeaddr e dyn AOE_PARTITIONS maj mi do_alloc y = (r, y')"
    and "0 \<le> mi" and "mi < 2 ^ 16"
  shows "sys_ok y' \<and> (case r of
      Some i \<Rightarrow> i < length (y_devs y') \<and> aoeaddr (y_devs y' ! i) = (maj, word_of_int mi)
        \<and> \<not> hasfl (d_flags (y_devs y' ! i)) DEVFL_TKILL
        \<and> (if (maj, word_of_int mi) \<in> set (map aoeaddr (y_devs y))
           then y_devs y' = (y_devs y)[i := (y_devs y ! i)\<lparr>d_ref := d_ref (y_devs y ! i) + 1\<rparr>]
           else do_alloc \<and> fst (alloc e (y_st y)) \<and> fst (alloc e (snd (alloc e (y_st y))))
             \<and> i = 0 \<and> d_ref (y_devs y' ! 0) = 1
             \<and> (\<exists>m. minor_get dyn AOE_PARTITIONS (unat maj) (nat mi) (y_used y) = (Some m, y_used y')
                  \<and> y_devs y' = new_dev e (y_next y) m maj (word_of_int mi) # y_devs y))
    | None \<Rightarrow> y_devs y' = y_devs y \<and>
        ((\<exists>d\<in>set (y_devs y). aoeaddr d = (maj, word_of_int mi) \<and> hasfl (d_flags d) DEVFL_TKILL) \<and> y' = y
         \<or> (maj, word_of_int mi) \<notin> set (map aoeaddr (y_devs y)) \<and>
           (\<not> do_alloc \<and> y' = y
            \<or> do_alloc \<and> (fst (minor_get dyn AOE_PARTITIONS (unat maj) (nat mi) (y_used y)) = None
                \<or> \<not> fst (alloc e (y_st y)) \<or> \<not> fst (alloc e (snd (alloc e (y_st y))))))))"
  using aoedev_by_aoeaddr_ok [OF assms] aoedev_by_aoeaddr_result [OF assms(2-4)]
  by (cases r) (simp_all split: if_splits)

theorem aoedev_by_aoeaddr_correct_witness:
  "d_ref (y_devs (snd (aoedev_by_aoeaddr env0 True AOE_PARTITIONS 1 10 True two_devs)) ! 1) = 1"
proof -
  have f: "find_dev 0 (y_devs two_devs) 1 10 = Some 1"
    by (simp add: two_devs_def dev_idle_def dev_open_def new_dev_def)
  have t: "\<not> hasfl (d_flags (y_devs two_devs ! 1)) DEVFL_TKILL"
    by (simp add: two_devs_def dev_idle_def new_dev_def)
  obtain y' where y: "aoedev_by_aoeaddr env0 True AOE_PARTITIONS 1 10 True two_devs = (Some 1, y')"
    using f t by (simp add: aoedev_by_aoeaddr_def)
  have "(1, 10) \<in> set (map aoeaddr (y_devs two_devs))"
    by (simp add: two_devs_def dev_idle_def dev_open_def new_dev_def)
  then show ?thesis
    using aoedev_by_aoeaddr_correct [OF two_devs_ok(2) y] y by (simp add: two_devs_def dev_idle_def new_dev_def)
qed

text \<open>A device that is asked for by name is matched by a prefix of its name: every device whose
  name continues the name given is flushed too.\<close>

theorem user_req_prefix:
  assumes "d_gd d = Some gd" and "gd_disk_name gd = DEVSUBDIR @ ''/'' @ p" and "CHR ''/'' \<notin> set p"
    and "length s \<le> 16"
  shows "user_req s d \<longleftrightarrow> (\<exists>t. take (length s) p = s \<and> p = s @ t)"
proof -
  have t: "strrchr_tail (''etherd'' @ ''/'' @ p) = p" using assms(3) by (simp add: strrchr_tail.simps)
  have "take (length s) p = s \<longleftrightarrow> (\<exists>t. p = s @ t)" by (metis append_eq_conv_conj append_take_drop_id)
  then show ?thesis
    using assms t by (auto simp: user_req_def DEVSUBDIR_def DISK_NAME_LEN_def strncmp_take)
qed

theorem user_req_prefix_witness: "user_req ''e1.1'' dev_idle \<and> disk_name dev_idle = ''etherd/e1.10''"
proof -
  have "disk_name dev_idle = ''etherd/e1.10''"
    by (simp add: disk_name_def dev_idle_def new_dev_def DEVSUBDIR_def DISK_NAME_LEN_def dec.simps)
  moreover have "user_req ''e1.1'' dev_idle"
    using user_req_prefix [of dev_idle "\<lparr>gd_disk_name = ''etherd/e1.10'', gd_capacity = 8\<rparr>" "''e1.10''" "''e1.1''"]
    by (simp add: dev_idle_def DEVSUBDIR_def)
  ultimately show ?thesis by simp
qed

lemma skb_wait_iff: "skb_wait r n i \<longleftrightarrow> (\<exists>j \<le> i. r (n + j) = 1)"
proof (induction i arbitrary: n)
  case (Suc i)
  have "(\<exists>j \<le> Suc i. r (n + j) = 1) \<longleftrightarrow> r n = 1 \<or> (\<exists>j \<le> i. r (Suc n + j) = 1)"
    by (metis (no_types, opaque_lifting) Suc_le_mono add.right_neutral add_Suc add_Suc_right le0 not0_implies_Suc)
  then show ?case by (simp add: Suc.IH)
qed simp

text \<open>\<open>skbfree\<close> returns after at most 121 looks at the buffer: it is freed if and only if one of
  them finds no clone left, and is given up otherwise.\<close>

theorem skbfree_bounded:
  "skbfree polls (Some k) s =
     (if \<exists>n \<le> 120. polls k n = 1 then emit (EvFreeSkb k) (upd_skb k skb_reset s) else emit (EvLeakSkb k) s)"
  by (simp add: skbfree_def skb_wait_iff SKB_POLLS_def)

end
