(* ===== verification/Life.thy ===== *)
theory Life
  imports Devlist
begin

text \<open>
  The life of a device and its disk: identify data arrives (\<open>ataid_complete\<close>), a worker creates the disk in
  three locked sections (\<open>aoeblk_gdalloc\<close>) or changes its size (\<open>aoecmd_sleepwork\<close>), the timer takes the
  device down, users open and close it, and flushes kill it, free it and unlink it.  The steps interleave in any
  order the locks, the flags and the work queue allow.
\<close>

section \<open>Steps\<close>

text \<open>Where the run of \<open>aoecmd_sleepwork\<close> is: between two runs, before \<open>aoeblk_gdalloc\<close>, allocating with the lock
  released, adding the disk with the lock released, before the test of \<open>DEVFL_NEWSIZE\<close>, or before the lock is taken to
  clear it.\<close>

datatype worker = Idle | AtGd | Allocating | Published | AtSize | Sizing

text \<open>Where a flush is, as seen from one device: in \<open>flush_scheduled_work\<close>, with the number of calls that follow and
  of runs of the device's work that this call still waits for; before pass one; before the look at the device in
  pass two; in \<open>freedev\<close>, with the lock released; before pass three; at its end.\<close>

datatype fstage = FWait flushreq nat nat | FOne flushreq | FTwo | FFree | FThree | FEnd

text \<open>The worker, whether the work is queued, the flushes under way, whether the flush of \<open>aoedev_exit\<close> has
  met the device, whether the device was unlinked and its memory given back, and the state.\<close>

record life_st =
  lf_w :: worker
  lf_pend :: bool
  lf_fl :: "fstage list"
  lf_exit :: bool
  lf_gone :: bool
  lf_st :: st

abbreviation ldev :: "life_st \<Rightarrow> aoedev" where
  "ldev c \<equiv> s_dev (lf_st c)"

text \<open>\<open>flush_scheduled_work\<close> waits for the run that is under way and for the one that is queued, not for one that
  is queued later.\<close>

definition to_wait :: "life_st \<Rightarrow> nat" where
  "to_wait c = (if lf_w c = Idle then 0 else 1) + (if lf_pend c then 1 else 0)"

fun run_over :: "fstage \<Rightarrow> fstage" where
  "run_over (FWait q r k) = FWait q r (k - 1)"
| "run_over f = f"

definition end_run :: "life_st \<Rightarrow> life_st" where
  "end_run c = c\<lparr>lf_w := Idle, lf_fl := map run_over (lf_fl c)\<rparr>"

text \<open>\<open>ataid_complete\<close> queues the work unless it is to be done already.\<close>

definition queues :: "aoedev \<Rightarrow> bool" where
  "queues d \<longleftrightarrow> \<not> hasfl (d_flags d) (DEVFL_GDALLOC OR DEVFL_NEWSIZE)"

text \<open>The two locked ends of \<open>freedev\<close>, and what it frees in between.\<close>

definition freedev_begin :: "st \<Rightarrow> st" where
  "freedev_begin s = upd_dev (\<lambda>d. d\<lparr>d_flags := setfl (d_flags d) DEVFL_FREEING\<rparr>) s"

definition freedev_end :: "(nat \<Rightarrow> nat \<Rightarrow> nat) \<Rightarrow> st \<Rightarrow> st" where
  "freedev_end polls s =
     upd_dev (\<lambda>d. d\<lparr>d_flags := setfl (d_flags d) DEVFL_FREED\<rparr>)
       (skbpoolfree polls (fold (freetgt polls) (d_targets (s_dev s))
         (upd_dev (\<lambda>d. d\<lparr>d_timer_expires := None\<rparr>) s)))"

text \<open>The steps of the worker, \<open>aoecmd_sleepwork\<close>.\<close>

inductive wstep :: "env \<Rightarrow> life_st \<Rightarrow> life_st \<Rightarrow> bool" for e where
  start_gd: "lf_w c = Idle \<Longrightarrow> lf_pend c \<Longrightarrow> hasfl (d_flags (ldev c)) DEVFL_GDALLOC \<Longrightarrow>
    wstep e c (c\<lparr>lf_w := AtGd, lf_pend := False\<rparr>)"
| start_size: "lf_w c = Idle \<Longrightarrow> lf_pend c \<Longrightarrow> \<not> hasfl (d_flags (ldev c)) DEVFL_GDALLOC \<Longrightarrow>
    wstep e c (c\<lparr>lf_w := AtSize, lf_pend := False\<rparr>)"
| late: "lf_w c = AtGd \<Longrightarrow> gd_begin (lf_st c) = (False, s') \<Longrightarrow> wstep e c (c\<lparr>lf_w := AtSize, lf_st := s'\<rparr>)"
| started: "lf_w c = AtGd \<Longrightarrow> gd_begin (lf_st c) = (True, s') \<Longrightarrow> wstep e c (c\<lparr>lf_w := Allocating, lf_st := s'\<rparr>)"
| failed: "lf_w c = Allocating \<Longrightarrow> gd_create e (lf_st c) = (False, s') \<Longrightarrow>
    wstep e c (c\<lparr>lf_w := AtSize, lf_pend := True, lf_st := gd_fail s'\<rparr>)"
| publish: "lf_w c = Allocating \<Longrightarrow> gd_create e (lf_st c) = (True, s') \<Longrightarrow>
    wstep e c (c\<lparr>lf_w := Published, lf_st := gd_publish s'\<rparr>)"
| finish: "lf_w c = Published \<Longrightarrow> wstep e c (c\<lparr>lf_w := AtSize, lf_st := gd_done (lf_st c)\<rparr>)"
| no_size: "lf_w c = AtSize \<Longrightarrow> \<not> hasfl (d_flags (ldev c)) DEVFL_NEWSIZE \<Longrightarrow> wstep e c (end_run c)"
| has_size: "lf_w c = AtSize \<Longrightarrow> hasfl (d_flags (ldev c)) DEVFL_NEWSIZE \<Longrightarrow> wstep e c (c\<lparr>lf_w := Sizing\<rparr>)"
| resize: "lf_w c = Sizing \<Longrightarrow> wstep e c (end_run (c\<lparr>lf_st := newsize (lf_st c)\<rparr>))"

text \<open>The steps of flush number \<open>i\<close>.\<close>

inductive fstep :: "env \<Rightarrow> nat \<Rightarrow> life_st \<Rightarrow> life_st \<Rightarrow> bool" for e i where
  again: "lf_fl c ! i = FWait q (Suc r) 0 \<Longrightarrow> fstep e i c (c\<lparr>lf_fl := (lf_fl c)[i := FWait q r (to_wait c)]\<rparr>)"
| waited: "lf_fl c ! i = FWait q 0 0 \<Longrightarrow> fstep e i c (c\<lparr>lf_fl := (lf_fl c)[i := FOne q]\<rparr>)"
| spare: "lf_fl c ! i = FOne q \<Longrightarrow> lf_gone c \<or> \<not> doomed q (ldev c) \<Longrightarrow> fstep e i c (c\<lparr>lf_fl := (lf_fl c)[i := FTwo]\<rparr>)"
| kill: "lf_fl c ! i = FOne q \<Longrightarrow> \<not> lf_gone c \<Longrightarrow> doomed q (ldev c) \<Longrightarrow>
    fstep e i c (c\<lparr>lf_fl := (lf_fl c)[i := FTwo], lf_exit := (lf_exit c \<or> q = FlushExit), lf_st := flush_kill e (lf_st c)\<rparr>)"
| free: "lf_fl c ! i = FTwo \<Longrightarrow> \<not> lf_gone c \<Longrightarrow> to_free (ldev c) \<Longrightarrow>
    fstep e i c (c\<lparr>lf_fl := (lf_fl c)[i := FFree], lf_st := freedev_begin (lf_st c)\<rparr>)"
| freed: "lf_fl c ! i = FFree \<Longrightarrow>
    fstep e i c (c\<lparr>lf_fl := (lf_fl c)[i := FTwo], lf_st := freedev_end polls (lf_st c)\<rparr>)"
| no_free: "lf_fl c ! i = FTwo \<Longrightarrow> lf_gone c \<or> \<not> to_free (ldev c) \<Longrightarrow> fstep e i c (c\<lparr>lf_fl := (lf_fl c)[i := FThree]\<rparr>)"
| unlink: "lf_fl c ! i = FThree \<Longrightarrow>
    fstep e i c (c\<lparr>lf_fl := (lf_fl c)[i := FEnd], lf_gone := (lf_gone c \<or> hasfl (d_flags (ldev c)) DEVFL_FREED)\<rparr>)"

text \<open>All steps.  Handlers act on the device while it is there; what the worker does after that is not a step but a
  use of memory that was given back.  \<open>aoedev_exit\<close> waits for the work once more than a flush by the user.\<close>

inductive lstep :: "env \<Rightarrow> life_st \<Rightarrow> life_st \<Rightarrow> bool" for e where
  ident: "\<not> lf_gone c \<Longrightarrow> lstep e c (c\<lparr>lf_st := ataid_complete bs (lf_st c), lf_pend := (lf_pend c \<or> queues (ldev c))\<rparr>)"
| down: "\<not> lf_gone c \<Longrightarrow> lstep e c (c\<lparr>lf_st := aoedev_downdev e (lf_st c)\<rparr>)"
| opened: "\<not> lf_gone c \<Longrightarrow> lstep e c (c\<lparr>lf_st := snd (aoeblk_open True (lf_st c))\<rparr>)"
| closed: "\<not> lf_gone c \<Longrightarrow> lstep e c (c\<lparr>lf_st := aoeblk_release e l ndl (lf_st c)\<rparr>)"
| work: "\<not> lf_gone c \<Longrightarrow> wstep e c c' \<Longrightarrow> lstep e c c'"
| call: "lstep e c (c\<lparr>lf_fl := lf_fl c @ [FWait q (if q = FlushExit then 1 else 0) (to_wait c)]\<rparr>)"
| flush: "i < length (lf_fl c) \<Longrightarrow> fstep e i c c' \<Longrightarrow> lstep e c c'"

text \<open>A device as \<open>aoedev_by_aoeaddr\<close> makes it.\<close>

definition fresh :: "st \<Rightarrow> bool" where
  "fresh s \<longleftrightarrow> d_flags (s_dev s) = 0 \<and> d_gd (s_dev s) = None \<and> d_blkq (s_dev s) = None"

definition newborn :: "st \<Rightarrow> life_st" where
  "newborn s = \<lparr>lf_w = Idle, lf_pend = False, lf_fl = [], lf_exit = False, lf_gone = False, lf_st = s\<rparr>"

inductive lreach :: "env \<Rightarrow> life_st \<Rightarrow> bool" for e where
  start: "fresh s \<Longrightarrow> lreach e (newborn s)"
| step: "lreach e c \<Longrightarrow> lstep e c c' \<Longrightarrow> lreach e c'"

section \<open>The invariant\<close>

definition life_ok :: "worker \<Rightarrow> aoedev \<Rightarrow> bool" where
  "life_ok w d \<longleftrightarrow> (d_gd d = None \<longleftrightarrow> d_blkq d = None)
     \<and> (hasfl (d_flags d) DEVFL_GDALLOC \<longrightarrow> d_gd d = None)
     \<and> (hasfl (d_flags d) DEVFL_NEWSIZE \<longrightarrow> d_gd d \<noteq> None)
     \<and> (hasfl (d_flags d) DEVFL_UP \<longrightarrow> d_gd d \<noteq> None)
     \<and> (case w of
          Allocating \<Rightarrow> hasfl (d_flags d) DEVFL_GD_NOW \<and> hasfl (d_flags d) DEVFL_GDALLOC
        | Published \<Rightarrow> hasfl (d_flags d) DEVFL_GD_NOW \<and> d_gd d \<noteq> None
        | Sizing \<Rightarrow> \<not> hasfl (d_flags d) DEVFL_GD_NOW \<and> hasfl (d_flags d) DEVFL_NEWSIZE
        | _ \<Rightarrow> \<not> hasfl (d_flags d) DEVFL_GD_NOW)"

text \<open>A device is freed only when it is killed, unlinked only when it is freed, and only the flush of \<open>aoedev_exit\<close>
  kills one whose disk is being made.\<close>

definition kill_ok :: "life_st \<Rightarrow> bool" where
  "kill_ok c \<longleftrightarrow> (hasfl (d_flags (ldev c)) DEVFL_FREEING \<longrightarrow> hasfl (d_flags (ldev c)) DEVFL_TKILL)
     \<and> (hasfl (d_flags (ldev c)) DEVFL_FREED \<longrightarrow> hasfl (d_flags (ldev c)) DEVFL_TKILL)
     \<and> (FFree \<in> set (lf_fl c) \<longrightarrow> hasfl (d_flags (ldev c)) DEVFL_TKILL)
     \<and> (lf_gone c \<longrightarrow> hasfl (d_flags (ldev c)) DEVFL_TKILL)
     \<and> (lf_w c = Allocating \<and> hasfl (d_flags (ldev c)) DEVFL_TKILL \<longrightarrow> lf_exit c)"

definition lf_ok :: "life_st \<Rightarrow> bool" where
  "lf_ok c \<longleftrightarrow> life_ok (lf_w c) (ldev c) \<and> kill_ok c"

text \<open>The invariant looks at the life of a device only.\<close>

lemma life_ok_cong: "life d' = life d \<Longrightarrow> life_ok w d' = life_ok w d"
  by (cases w) (simp_all add: life_ok_def life_def)

lemma life_ok_nopen: "life_ok w (d\<lparr>d_nopen := n\<rparr>) = life_ok w d"
  by (cases w) (simp_all add: life_ok_def)

lemma life_ok_ident: "life_ok w (s_dev s) \<Longrightarrow> life_ok w (s_dev (ataid_complete bs s))"
  by (cases w) (auto simp: ataid_complete_def Let_def life_ok_def flag_simps split: option.split)

lemma life_ok_down: "life_ok w (s_dev s) \<Longrightarrow> life_ok w (s_dev (aoedev_downdev e s))"
  unfolding life_ok_cong [OF life_downdev] by (cases w) (auto simp: life_ok_def flag_simps)

lemma user_req_gd: "user_req buf d \<Longrightarrow> d_gd d \<noteq> None"
  by (auto simp: user_req_def split: option.splits)

text \<open>A flush that is not the one at exit never hits a device whose disk is being made.\<close>

lemma doomed_allocating:
  assumes "doomed q d" and "q \<noteq> FlushExit" and "life_ok w d"
  shows "w \<noteq> Allocating"
proof
  assume w: "w = Allocating"
  then have g: "hasfl (d_flags d) DEVFL_GDALLOC" "d_gd d = None" using assms(3) by (auto simp: life_ok_def)
  have "hasfl (fl :: u16) DEVFL_GDALLOC \<Longrightarrow> hasfl fl (DEVFL_GDALLOC OR r)" for fl r
    by (auto simp: hasfl_def bit_eq_iff bit_simps)
  then have f: "hasfl (d_flags d) skipflags" using g(1) unfolding skipflags_def or.assoc by blast
  show False
  proof (cases q)
    case (FlushOne buf)
    then show ?thesis using assms(1) g(2) user_req_gd [of buf d] by (simp add: doomed_def)
  qed (use assms(1,2) f in \<open>simp_all add: doomed_def\<close>)
qed

lemma flush_kill_flags: "d_flags (s_dev (flush_kill e s)) = setfl (clrfl (d_flags (s_dev s)) DEVFL_UP) DEVFL_TKILL"
  by (rule flush_kill_life(1))

lemma life_ok_kill: "life_ok w (s_dev s) \<Longrightarrow> life_ok w (s_dev (flush_kill e s))"
  using life_ok_down [of w s e] by (cases w) (auto simp: flush_kill_def life_ok_def flag_simps)

lemma freedev_end_dev:
  "s_dev (freedev_end polls s) = (s_dev s)\<lparr>d_timer_expires := None, d_skbpool := [], d_flags := setfl (d_flags (s_dev s)) DEVFL_FREED\<rparr>"
  by (simp add: freedev_end_def skbpoolfree_dev fold_dev)

lemma life_ok_setfl:
  "life_ok w d \<Longrightarrow> m = DEVFL_FREEING \<or> m = DEVFL_FREED \<Longrightarrow> life_ok w (d\<lparr>d_flags := setfl (d_flags d) m\<rparr>)"
  by (cases w) (auto simp: life_ok_def flag_simps)

lemma life_ok_free:
  assumes "life_ok w (s_dev s)"
  shows "life_ok w (s_dev (freedev_begin s))" and "life_ok w (s_dev (freedev_end polls s))"
proof -
  show "life_ok w (s_dev (freedev_begin s))" using life_ok_setfl [OF assms] by (simp add: freedev_begin_def)
  have "life ((s_dev s)\<lparr>d_timer_expires := None, d_skbpool := [], d_flags := setfl (d_flags (s_dev s)) DEVFL_FREED\<rparr>)
      = life ((s_dev s)\<lparr>d_flags := setfl (d_flags (s_dev s)) DEVFL_FREED\<rparr>)" by (simp add: life_def)
  then show "life_ok w (s_dev (freedev_end polls s))"
    unfolding freedev_end_dev using life_ok_setfl [OF assms] life_ok_cong by blast
qed

lemma life_cfg: "life (s_dev (aoecmd_cfg e l ndl maj mi s)) = life (s_dev s)"
proof -
  obtain sl s1 where c: "aoecmd_cfg_pkts e l ndl maj mi s = (sl, s1)" by fastforce
  then have "chg {} s s1" using cfg_pkts_same [of s e l maj mi ndl "[]"] by (simp add: aoecmd_cfg_pkts_def)
  then have "dcore (s_dev s1) = dcore (s_dev s)" unfolding chg_def by (elim conjE) (rule score_sel(11))
  then have "life (dcore (s_dev s1)) = life (dcore (s_dev s))" by (rule arg_cong)
  moreover have "life (dcore d) = life d" for d by (simp add: life_def dcore_def)
  ultimately show ?thesis by (simp add: aoecmd_cfg_def c aoenet_xmit_def)
qed

lemma gd_create_dev: "gd_create e s = (b, s') \<Longrightarrow> s_dev s' = s_dev s \<and> s_log s' = s_log s"
  by (auto simp: gd_create_def alloc_def split: bool.splits)

lemma end_run_simps [simp]:
  "lf_w (end_run c) = Idle" "lf_pend (end_run c) = lf_pend c" "lf_fl (end_run c) = map run_over (lf_fl c)"
  "lf_exit (end_run c) = lf_exit c" "lf_gone (end_run c) = lf_gone c" "lf_st (end_run c) = lf_st c"
  by (simp_all add: end_run_def)

lemma run_over_FFree: "FFree \<in> run_over ` F \<longleftrightarrow> FFree \<in> F"
proof -
  have "run_over f = FFree \<longleftrightarrow> f = FFree" for f by (cases f) auto
  then show ?thesis by (metis (no_types, lifting) image_iff)
qed

text \<open>The worker changes the device through the sections of \<open>aoeblk_gdalloc\<close> and \<open>newsize\<close> only.\<close>

lemma wstep_ok:
  assumes "wstep e c c'" "lf_ok c"
  shows "lf_ok c'"
  using assms
proof (cases rule: wstep.cases)
  case (late s')
  then show ?thesis using assms(2) by (auto simp: lf_ok_def kill_ok_def life_ok_def gd_begin_def Let_def flag_simps split: if_splits)
next
  case (started s')
  then show ?thesis using assms(2) by (auto simp: lf_ok_def kill_ok_def life_ok_def gd_begin_def Let_def flag_simps split: if_splits)
next
  case (failed s')
  then show ?thesis using assms(2) gd_create_dev [OF failed(3)]
    by (auto simp: lf_ok_def kill_ok_def life_ok_def gd_fail_def flag_simps)
next
  case (publish s')
  then show ?thesis using assms(2) gd_create_dev [OF publish(3)]
    by (auto simp: lf_ok_def kill_ok_def life_ok_def gd_publish_def Let_def warn_on_def flag_simps)
next
  case finish
  then show ?thesis using assms(2) by (auto simp: lf_ok_def kill_ok_def life_ok_def gd_done_def warn_on_def flag_simps)
next
  case resize
  then show ?thesis using assms(2) by (auto simp: lf_ok_def kill_ok_def life_ok_def newsize_def run_over_FFree flag_simps)
qed (auto simp: lf_ok_def kill_ok_def life_ok_def run_over_FFree)

lemma set_upd: "x \<in> set (xs[i := y]) \<Longrightarrow> x = y \<or> x \<in> set xs"
  using set_update_subset_insert by fastforce

lemma fstep_ok:
  assumes "fstep e i c c'" "i < length (lf_fl c)" "lf_ok c"
  shows "lf_ok c'"
proof -
  have life: "life_ok (lf_w c') (ldev c')"
    using assms(1,3) by cases (simp_all add: lf_ok_def life_ok_kill life_ok_free)
  have "kill_ok c'"
    using assms(1)
  proof cases
    case (kill q)
    then show ?thesis
      using assms(3) doomed_allocating [OF kill(4), of "lf_w c"]
      by (auto simp: lf_ok_def kill_ok_def flush_kill_flags flag_simps dest: set_upd)
  next
    case free
    then show ?thesis using assms(3) by (auto simp: lf_ok_def kill_ok_def freedev_begin_def flag_simps dest: set_upd)
  next
    case (freed polls)
    then have "FFree \<in> set (lf_fl c)" using assms(2) by (metis nth_mem)
    then show ?thesis using freed assms(3) by (auto simp: lf_ok_def kill_ok_def freedev_end_dev flag_simps dest: set_upd)
  qed (use assms(3) in \<open>auto simp: lf_ok_def kill_ok_def dest: set_upd\<close>)
  then show ?thesis using life by (simp add: lf_ok_def)
qed

lemma lstep_ok:
  assumes "lstep e c c'" "lf_ok c"
  shows "lf_ok c'"
  using assms(1)
proof cases
  case (ident bs)
  then show ?thesis
    using assms(2) life_ok_ident [of "lf_w c" "lf_st c" bs]
    by (auto simp: lf_ok_def kill_ok_def ataid_complete_def Let_def flag_simps split: option.splits if_splits)
next
  case down
  then show ?thesis
    using assms(2) life_ok_down [of "lf_w c" "lf_st c" e] life_downdev [of e "lf_st c"]
    by (auto simp: lf_ok_def kill_ok_def life_def flag_simps)
next
  case opened
  then show ?thesis using assms(2) by (auto simp: lf_ok_def kill_ok_def aoeblk_open_def Let_def life_ok_nopen split: if_splits)
next
  case (closed l ndl)
  have "life_ok (lf_w c') (ldev c') \<and> d_flags (ldev c') = d_flags (ldev c)"
    using assms(2) closed life_cfg [of e] by (auto simp: lf_ok_def aoeblk_release_def Let_def life_ok_cong [OF life_cfg] life_ok_nopen life_def)
  then show ?thesis using assms(2) closed by (simp add: lf_ok_def kill_ok_def)
next
  case work
  then show ?thesis using wstep_ok assms(2) by blast
next
  case (flush i)
  then show ?thesis using fstep_ok assms(2) by blast
qed (use assms(2) in \<open>auto simp: lf_ok_def kill_ok_def\<close>)

lemma lreach_ok: "lreach e c \<Longrightarrow> lf_ok c"
proof (induction rule: lreach.induct)
  case (start s)
  then show ?case by (simp add: fresh_def lf_ok_def kill_ok_def life_ok_def newborn_def)
next
  case (step c c')
  then show ?case using lstep_ok by blast
qed

section \<open>Properties\<close>


text \<open>A device that is up has a disk and a request queue, so requests only reach it with a queue;
  and a device has both or neither.\<close>

theorem up_has_disk:
  assumes "lreach e c"
  shows "(d_gd (ldev c) = None \<longleftrightarrow> d_blkq (ldev c) = None)
    \<and> (fst (aoeblk_open True (lf_st c)) = None \<longrightarrow> d_gd (ldev c) \<noteq> None)
    \<and> (\<forall>cmd arg cp bs. aoeblk_ioctl cmd arg cp (ldev c) = Inr bs \<longrightarrow> d_gd (ldev c) \<noteq> None)"
proof -
  have "d_gd (ldev c) = None \<longleftrightarrow> d_blkq (ldev c) = None" and "hasfl (d_flags (ldev c)) DEVFL_UP \<longrightarrow> d_gd (ldev c) \<noteq> None"
    using lreach_ok [OF assms] unfolding lf_ok_def life_ok_def by blast+
  then show ?thesis by (auto simp: aoeblk_open_def aoeblk_ioctl_def Let_def split: if_splits)
qed

section \<open>Runs\<close>

definition ident0 :: "u8 list" where "ident0 = replicate 512 0"

definition run0 :: st where "run0 = init_st 1 (new_dev env0 0 0 1 1)"

text \<open>A device that waits for its disk: the work queued or under way, the flushes, and the allocations so far.\<close>

definition lf_at :: "env \<Rightarrow> worker \<Rightarrow> bool \<Rightarrow> fstage list \<Rightarrow> nat \<Rightarrow> life_st \<Rightarrow> bool" where
  "lf_at e w p F n c \<longleftrightarrow> lreach e c \<and> lf_w c = w \<and> lf_pend c = p \<and> lf_fl c = F \<and> \<not> lf_exit c \<and> \<not> lf_gone c
     \<and> s_tick (lf_st c) = n \<and> disk_name (ldev c) = ''etherd/e1.1''
     \<and> hasfl (d_flags (ldev c)) DEVFL_GDALLOC \<and> \<not> hasfl (d_flags (ldev c)) DEVFL_TKILL
     \<and> \<not> hasfl (d_flags (ldev c)) DEVFL_NEWSIZE \<and> \<not> hasfl (d_flags (ldev c)) DEVFL_FREEING
     \<and> (hasfl (d_flags (ldev c)) DEVFL_GD_NOW \<longleftrightarrow> w = Allocating)"

lemma run0_start: "lreach e (newborn run0)"
  by (rule lreach.start) (simp add: fresh_def run0_def init_st_def new_dev_def)

lemma lf_at_born:
  assumes "lreach e (newborn run0\<lparr>lf_fl := F\<rparr>)"
  shows "\<exists>c. lf_at e Idle True F 0 c"
proof -
  let ?c = "newborn run0\<lparr>lf_fl := F, lf_st := ataid_complete ident0 run0, lf_pend := True\<rparr>"
  have 4: "lreach e ?c"
    using lreach.step [OF assms lstep.ident [of _ e ident0]]
    by (simp add: newborn_def queues_def run0_def init_st_def new_dev_def hasfl_def)
  have "d_aoemajor (s_dev (ataid_complete ident0 run0)) = 1" "d_aoeminor (s_dev (ataid_complete ident0 run0)) = 1"
    by (simp_all add: ataid_complete_def Let_def run0_def init_st_def new_dev_def)
  then have "disk_name (s_dev (ataid_complete ident0 run0)) = ''etherd/e1.1''"
    by (simp add: disk_name_def DEVSUBDIR_def DISK_NAME_LEN_def dec.simps)
  moreover have "s_tick (ataid_complete ident0 run0) = 0" by (simp add: ataid_complete_def Let_def run0_def init_st_def)
  moreover have "d_flags (s_dev (ataid_complete ident0 run0)) = setfl (clrfl 0 DEVFL_EXT) DEVFL_GDALLOC"
    by (simp add: ataid_complete_def Let_def run0_def init_st_def new_dev_def ident0_def get_le16_def hasfl_def clrfl_def)
  ultimately have "lf_at e Idle True F 0 ?c" using 4 by (simp add: lf_at_def newborn_def flag_simps)
  then show ?thesis by blast
qed

lemma lf_at_alloc:
  assumes "lf_at e Idle True F n c"
  shows "\<exists>c'. lf_at e Allocating False F n c'"
proof -
  let ?c = "c\<lparr>lf_w := AtGd, lf_pend := False\<rparr>" and ?s = "upd_dev (\<lambda>d. d\<lparr>d_flags := setfl (d_flags d) DEVFL_GD_NOW\<rparr>) (lf_st c)"
  have 1: "lreach e ?c" using assms by (intro lreach.step [OF _ lstep.work [OF _ wstep.start_gd]]) (simp_all add: lf_at_def)
  have "gd_begin (lf_st c) = (True, ?s)" using assms by (simp add: lf_at_def gd_begin_def Let_def)
  then have "lreach e (?c\<lparr>lf_w := Allocating, lf_st := ?s\<rparr>)"
    using assms by (intro lreach.step [OF 1 lstep.work [OF _ wstep.started]]) (simp_all add: lf_at_def)
  then have "lf_at e Allocating False F n (?c\<lparr>lf_w := Allocating, lf_st := ?s\<rparr>)"
    using assms by (simp add: lf_at_def flag_simps disk_name_def)
  then show ?thesis by blast
qed

lemma lf_at_fail:
  assumes "lf_at e Allocating False F n c" and "\<not> e_alloc e n"
  shows "\<exists>c'. lf_at e Idle True (map run_over F) (Suc n) c'"
proof -
  let ?s = "gd_fail ((lf_st c)\<lparr>s_tick := Suc (s_tick (lf_st c))\<rparr>)"
  let ?c = "c\<lparr>lf_w := AtSize, lf_pend := True, lf_st := ?s\<rparr>"
  have "gd_create e (lf_st c) = (False, (lf_st c)\<lparr>s_tick := Suc (s_tick (lf_st c))\<rparr>)"
    using assms by (simp add: gd_create_def alloc_def lf_at_def)
  then have 1: "lreach e ?c"
    using assms by (intro lreach.step [OF _ lstep.work [OF _ wstep.failed]]) (simp_all add: lf_at_def)
  have "lreach e (end_run ?c)"
    using assms by (intro lreach.step [OF 1 lstep.work [OF _ wstep.no_size]]) (simp_all add: lf_at_def gd_fail_def flag_simps)
  then have "lf_at e Idle True (map run_over F) (Suc n) (end_run ?c)"
    using assms by (simp add: lf_at_def gd_fail_def flag_simps disk_name_def)
  then show ?thesis by blast
qed

lemma lf_at_call:
  assumes "lf_at e Allocating False [] n c"
  shows "\<exists>c'. lf_at e Allocating False [FWait q (if q = FlushExit then 1 else 0) 1] n c'"
proof -
  let ?c = "c\<lparr>lf_fl := lf_fl c @ [FWait q (if q = FlushExit then 1 else 0) (to_wait c)]\<rparr>"
  have "lreach e ?c" using assms lreach.step [OF _ lstep.call [of e c q]] by (simp add: lf_at_def)
  then have "lf_at e Allocating False [FWait q (if q = FlushExit then 1 else 0) 1] n ?c"
    using assms by (simp add: lf_at_def to_wait_def)
  then show ?thesis by blast
qed

lemma lf_at_flush:
  assumes "lf_at e w p [f] n c" and "fstep e 0 c (c\<lparr>lf_fl := (lf_fl c)[0 := g]\<rparr>)"
  shows "\<exists>c'. lf_at e w p [g] n c'"
proof -
  have "lreach e (c\<lparr>lf_fl := (lf_fl c)[0 := g]\<rparr>)"
    by (rule lreach.step [OF _ lstep.flush [OF _ assms(2)]]) (use assms(1) in \<open>simp_all add: lf_at_def\<close>)
  then have "lf_at e w p [g] n (c\<lparr>lf_fl := (lf_fl c)[0 := g]\<rparr>)" using assms(1) by (simp add: lf_at_def)
  then show ?thesis by blast
qed

lemma lf_at_waits:
  "lf_at e Idle True [FWait q (Suc r) 0] n c \<Longrightarrow> \<exists>c'. lf_at e Idle True [FWait q r 1] n c'"
  "lf_at e w p [FWait q 0 0] n c \<Longrightarrow> \<exists>c'. lf_at e w p [FOne q] n c'"
proof -
  assume c: "lf_at e Idle True [FWait q (Suc r) 0] n c"
  then have "to_wait c = 1" "lf_fl c ! 0 = FWait q (Suc r) 0" by (simp_all add: lf_at_def to_wait_def)
  then show "\<exists>c'. lf_at e Idle True [FWait q r 1] n c'" using lf_at_flush [OF c] fstep.again [of c 0 q r e] by simp
next
  assume c: "lf_at e w p [FWait q 0 0] n c"
  then have "lf_fl c ! 0 = FWait q 0 0" by (simp add: lf_at_def)
  then show "\<exists>c'. lf_at e w p [FOne q] n c'" using lf_at_flush [OF c] fstep.waited [of c 0 q e] by simp
qed

text \<open>A killed device goes through passes two and three while the worker stays where it is.\<close>

lemma killed_goes:
  assumes "lreach e c" "lf_fl c = [FOne q]" "doomed q (ldev c)" "\<not> lf_gone c" "\<not> hasfl (d_flags (ldev c)) DEVFL_FREEING"
  shows "\<exists>c'. lreach e c' \<and> lf_w c' = lf_w c \<and> lf_gone c' \<and> lf_exit c' = (lf_exit c \<or> q = FlushExit)"
proof -
  have step: "lreach e a \<Longrightarrow> lf_fl a \<noteq> [] \<Longrightarrow> fstep e 0 a b \<Longrightarrow> lreach e b" for a b
    using lreach.step lstep.flush [of 0 a e b] by blast
  let ?c1 = "c\<lparr>lf_fl := [FTwo], lf_exit := (lf_exit c \<or> q = FlushExit), lf_st := flush_kill e (lf_st c)\<rparr>"
  let ?c2 = "?c1\<lparr>lf_fl := [FFree], lf_st := freedev_begin (lf_st ?c1)\<rparr>"
  let ?c3 = "?c2\<lparr>lf_fl := [FTwo], lf_st := freedev_end (\<lambda>_ _. 0) (lf_st ?c2)\<rparr>"
  let ?c4 = "?c3\<lparr>lf_fl := [FThree]\<rparr>"
  have 1: "lreach e ?c1" using step [OF assms(1), of ?c1] fstep.kill [of c 0 q e] assms by simp
  have 2: "lreach e ?c2"
    using step [OF 1, of ?c2] fstep.free [of ?c1 0 e] assms by (simp add: flush_kill_flags flag_simps)
  have 3: "lreach e ?c3" using step [OF 2, of ?c3] fstep.freed [of ?c2 0 e] by simp
  have b: "hasfl (d_flags (s_dev (freedev_end p (freedev_begin s)))) DEVFL_FREED"
    "hasfl (d_flags (s_dev (freedev_end p (freedev_begin s)))) DEVFL_FREEING" for p s
    unfolding freedev_end_dev by (simp_all add: freedev_begin_def flag_simps)
  have f: "hasfl (d_flags (ldev ?c3)) DEVFL_FREED" "hasfl (d_flags (ldev ?c3)) DEVFL_FREEING" by (simp_all add: b)
  have 4: "lreach e ?c4" using step [OF 3, of ?c4] fstep.no_free [of ?c3 0 e] f(2) by simp
  have "lreach e (?c4\<lparr>lf_fl := [FEnd], lf_gone := True\<rparr>)"
    using step [OF 4, of "?c4\<lparr>lf_fl := [FEnd], lf_gone := True\<rparr>"] fstep.unlink [of ?c4 0 e] f(1) by simp
  then show ?thesis by (rule exI [where x = "?c4\<lparr>lf_fl := [FEnd], lf_gone := True\<rparr>", OF conjI]) simp
qed


theorem up_has_disk_witness: "d_gd (s_dev run0) = None \<longleftrightarrow> d_blkq (s_dev run0) = None"
  using up_has_disk [of env0 "newborn run0"] lreach.start [of run0 env0]
  by (simp add: fresh_def newborn_def run0_def init_st_def new_dev_def)

text \<open>When the module is unloaded this is lost.  Memory runs out twice, so that the worker queues itself again behind
  both calls of \<open>flush_scheduled_work\<close>; its third run has begun to allocate when the flush meets the device.  Then the
  \<open>WARN_ON\<close> of \<open>DEVFL_TKILL\<close> fires, or the device is gone before the disk is published.\<close>

lemma exit_meets_worker:
  assumes "\<not> e_alloc e 0" "\<not> e_alloc e 1"
  shows "\<exists>c. lf_at e Allocating False [FOne FlushExit] 2 c"
proof -
  obtain c0 where "lf_at e Idle True [] 0 c0" using lf_at_born [of e "[]"] run0_start by (auto simp: newborn_def)
  then obtain c1 where "lf_at e Allocating False [] 0 c1" using lf_at_alloc by blast
  then obtain c2 where "lf_at e Allocating False [FWait FlushExit 1 1] 0 c2" using lf_at_call [of e 0 c1 FlushExit] by auto
  then obtain c3 where "lf_at e Idle True [FWait FlushExit 1 0] 1 c3" using lf_at_fail assms(1) by fastforce
  then obtain c4 where "lf_at e Idle True [FWait FlushExit 0 1] 1 c4" using lf_at_waits(1) [of e FlushExit 0 1 c3] by auto
  then obtain c5 where "lf_at e Allocating False [FWait FlushExit 0 1] 1 c5" using lf_at_alloc by blast
  then obtain c6 where "lf_at e Idle True [FWait FlushExit 0 0] 2 c6" using lf_at_fail [of e "[FWait FlushExit 0 1]" 1 c5] assms(2) by (auto simp: numeral_2_eq_2)
  then obtain c7 where "lf_at e Idle True [FOne FlushExit] 2 c7" using lf_at_waits(2) by blast
  then show ?thesis by (rule lf_at_alloc)
qed

theorem exit_flush_warns:
  "\<exists>e c. lreach e c \<and> lf_w c = Allocating \<and> \<not> lf_gone c \<and> s_log (gd_publish (lf_st c)) \<noteq> s_log (lf_st c)"
proof -
  let ?e = "env0\<lparr>e_alloc := (\<lambda>n. 2 \<le> n)\<rparr>"
  obtain c where c: "lf_at ?e Allocating False [FOne FlushExit] 2 c" using exit_meets_worker [of ?e] by auto
  let ?c = "c\<lparr>lf_fl := (lf_fl c)[0 := FTwo], lf_exit := (lf_exit c \<or> FlushExit = FlushExit), lf_st := flush_kill ?e (lf_st c)\<rparr>"
  have "fstep ?e 0 c ?c" by (rule fstep.kill) (use c in \<open>simp_all add: lf_at_def doomed_def\<close>)
  then have r: "lreach ?e ?c" using c lreach.step [OF _ lstep.flush] by (auto simp: lf_at_def)
  have "s_log (gd_publish s) \<noteq> s_log s"
    if "hasfl (d_flags (s_dev s)) DEVFL_TKILL" for s
    using that by (simp add: gd_publish_def Let_def warn_on_def)
  then have "s_log (gd_publish (lf_st ?c)) \<noteq> s_log (lf_st ?c)" by (auto simp: flush_kill_flags flag_simps)
  then show ?thesis using r c by (intro exI [of _ ?e] exI [of _ ?c]) (simp add: lf_at_def)
qed

theorem exit_flush_frees_under_worker: "\<exists>e c. lreach e c \<and> lf_w c = Allocating \<and> lf_gone c"
proof -
  let ?e = "env0\<lparr>e_alloc := (\<lambda>n. 2 \<le> n)\<rparr>"
  obtain c where "lf_at ?e Allocating False [FOne FlushExit] 2 c" using exit_meets_worker [of ?e] by auto
  then show ?thesis using killed_goes [of ?e c FlushExit] by (auto simp: lf_at_def doomed_def)
qed

text \<open>A flush of the device by name, whose wait was over before the identify data came, frees the device while the
  worker is still adding the disk: the test of \<open>freedev\<close> does not look at \<open>DEVFL_GD_NOW\<close>.\<close>

theorem named_flush_frees_under_worker:
  "\<exists>e c. lreach e c \<and> \<not> lf_exit c \<and> lf_w c = Published \<and> lf_gone c"
proof -
  let ?q = "FlushOne ''e1.1''" and ?N = "newborn run0"
  let ?c = "\<lambda>f. ?N\<lparr>lf_fl := [f]\<rparr>"
  have "lreach env0 (?c (FWait ?q 0 0))"
    using lreach.step [OF run0_start lstep.call [of env0 _ ?q]] by (simp add: newborn_def to_wait_def)
  then have "lreach env0 (?c (FOne ?q))"
    by (rule lreach.step) (rule lstep.flush [of 0], simp, use fstep.waited [of "?c (FWait ?q 0 0)" 0 ?q env0] in simp)
  then obtain c0 where "lf_at env0 Idle True [FOne ?q] 0 c0" using lf_at_born by blast
  then obtain c where c: "lf_at env0 Allocating False [FOne ?q] 0 c" using lf_at_alloc by blast
  have al: "e_alloc env0 n" for n by (simp add: env0_def)
  have "fst (gd_create env0 (lf_st c))" by (simp add: gd_create_def alloc_def al)
  then obtain s where s: "gd_create env0 (lf_st c) = (True, s)" by (cases "gd_create env0 (lf_st c)") simp
  note d = gd_create_dev [OF s, THEN conjunct1]
  let ?p = "c\<lparr>lf_w := Published, lf_st := gd_publish s\<rparr>"
  have r: "lreach env0 ?p"
    using c s by (intro lreach.step [OF _ lstep.work [OF _ wstep.publish]]) (simp_all add: lf_at_def)
  have u: "user_req ''e1.1'' (ldev ?p)"
    using c d by (simp add: lf_at_def gd_publish_def Let_def warn_on_def user_req_def DISK_NAME_LEN_def strncmp_take)
  have "\<not> hasfl (d_flags (ldev ?p)) DEVFL_FREEING"
    using c d by (simp add: lf_at_def gd_publish_def Let_def warn_on_def flag_simps)
  then show ?thesis using killed_goes [OF r, of ?q] c u by (auto simp: lf_at_def doomed_def)
qed

end
