(* ===== verification/Driver.thy ===== *)
theory Driver
  imports Life
begin

text \<open>
  The driver as a machine: one device, the inputs that reach it, and runs of them in any order.  The
  invariant of the device is kept by every input, so what it says of the frames holds in every state
  a run can reach: no frame is lost or in two places, the counters of a target are exact, and taking
  the device down leaves nothing outstanding.
\<close>

section \<open>Invariants along runs\<close>

text \<open>
  A handler with an invariant: every input is served in some environment (time, outcome of
  allocations), and the invariant is kept.
\<close>

locale handlers =
  fixes inv :: "'s \<Rightarrow> bool"
    and handle :: "'e \<Rightarrow> 'i \<Rightarrow> 's \<Rightarrow> 's"
  assumes keeps: "inv s \<Longrightarrow> inv (handle e i s)"
begin

lemma run_keeps: "inv s \<Longrightarrow> inv (fold (\<lambda>(e, i). handle e i) is s)"
  by (induction "is" arbitrary: s) (auto simp: keeps)

end

section \<open>Inputs\<close>

text \<open>
  What can happen to a device: a request is queued, its timer fires, a response or a configuration
  response arrives, a completion thread takes a frame, a configuration query is broadcast, a
  revalidation sends an identify command, the device is taken down or its completions are flushed,
  deferred work runs, the disk is opened or closed, and the network is done with a clone.
\<close>

datatype input =
    InRequest nat "nat list"
  | InTimer
  | InAta rskb
  | InCfg rskb
  | InKtio bool nat
  | InQuery string "netdev list" u16 u8
  | InIdent
  | InSlate
  | InDown
  | InFlushq nat
  | InWork
  | InOpen
  | InClose string "netdev list"
  | InSent nat

text \<open>The block layer appends a request with its chain of bios to the queue and runs it.\<close>

definition blk_submit :: "nat \<Rightarrow> nat list \<Rightarrow> st \<Rightarrow> st" where
  "blk_submit r bs s =
     upd_dev (\<lambda>d. d\<lparr>d_blkq := map_option (\<lambda>q. q @ [r]) (d_blkq d)\<rparr>) (upd_req r (\<lambda>x. x\<lparr>rq_bio := bs\<rparr>) s)"

fun handle :: "env \<Rightarrow> input \<Rightarrow> st \<Rightarrow> st" where
  "handle e (InRequest r bs) s = aoeblk_request e (blk_submit r bs s)"
| "handle e InTimer s =
     (case d_timer_fn (s_dev s) of RexmitTimer \<Rightarrow> rexmit_timer e s | DummyTimer \<Rightarrow> upd_dev (dummy_timer e) s)"
| "handle e (InAta r) s = snd (aoecmd_ata_rsp e r s)"
| "handle e (InCfg r) s = (case cfg_rsp_dev e r s of (sl, s1) \<Rightarrow> aoenet_xmit sl s1)"
| "handle e (InKtio b q) s = (if q < length (s_iocq s) then ktio_one e b q s else s)"
| "handle e (InQuery l ndl maj mi) s = aoecmd_cfg e l ndl maj mi s"
| "handle e InIdent s =
     (case aoecmd_ata_id e s of (None, s1) \<Rightarrow> s1 | (Some p, s1) \<Rightarrow> aoenet_xmit [p] s1)"
| "handle e InSlate s = upd_dev aoecmd_cleanslate s"
| "handle e InDown s = aoedev_downdev e s"
| "handle e (InFlushq q) s = (if q < length (s_iocq s) then aoe_flush_iocq_by_index e q s else s)"
| "handle e InWork s = aoecmd_sleepwork e s"
| "handle e InOpen s = snd (aoeblk_open True s)"
| "handle e (InClose l ndl) s = aoeblk_release e l ndl s"
| "handle e (InSent k) s = upd_skb k (\<lambda>x. x\<lparr>sk_dataref := sk_dataref x - 1\<rparr>) s"

definition runs :: "(env \<times> input) list \<Rightarrow> st \<Rightarrow> st" where
  "runs is s = fold (\<lambda>(e, i). handle e i) is s"

section \<open>The invariant of the device\<close>

lemma dev_ok_dev:
  assumes "dev_ok X A s" and "\<And>d. d_addr (g d) = d_addr d" "\<And>d. d_factive (g d) = d_factive d"
    "\<And>d. d_rexmitq (g d) = d_rexmitq d" "\<And>d. d_targets (g d) = d_targets d" "\<And>d. d_tgt (g d) = d_tgt d"
    "\<And>d. d_ntargets (g d) = d_ntargets d"
  shows "dev_ok X A (upd_dev g s)"
  using assms by (simp add: dev_ok_def)

lemma dev_ok_emit [simp]: "dev_ok X A (emit ev s) = dev_ok X A s"
  by (simp add: dev_ok_def)

lemma dev_ok_sent [simp]: "dev_ok X A (aoenet_xmit sl s) = dev_ok X A s"
  by (simp add: dev_ok_def aoenet_xmit_def)

lemma warn_on_ok [simp]: "dev_ok X A (warn_on b s) = dev_ok X A s"
  by (simp add: warn_on_def)

lemma gdalloc_ok: "dev_ok X A s \<Longrightarrow> dev_ok X A (aoeblk_gdalloc e s)"
proof -
  assume ok: "dev_ok X A s"
  obtain b s1 where b: "gd_begin s = (b, s1)" by fastforce
  have 1: "dev_ok X A s1" using ok b by (auto simp: gd_begin_def Let_def intro!: dev_ok_dev split: if_splits)
  obtain c s2 where c: "gd_create e s1 = (c, s2)" by fastforce
  have "view s2 = view s1 \<and> tgts_ok s2 = tgts_ok s1"
    using c by (auto simp: gd_create_def alloc_def split: bool.splits)
  then have 2: "dev_ok X A s2" using 1 by (simp add: dev_ok_def)
  have "dev_ok X A (gd_fail s2)" using 2 by (auto simp: gd_fail_def intro!: dev_ok_dev)
  moreover have "dev_ok X A (gd_done (gd_publish s2))"
    using 2 by (auto simp: gd_done_def gd_publish_def Let_def intro!: dev_ok_dev)
  ultimately show ?thesis using 1 b c by (simp add: aoeblk_gdalloc_def split: bool.split)
qed

lemma sleepwork_ok: "dev_ok X A s \<Longrightarrow> dev_ok X A (aoecmd_sleepwork e s)"
proof -
  have "dev_ok X A s \<Longrightarrow> dev_ok X A (newsize s)" for s
    by (auto simp: newsize_def intro!: dev_ok_dev)
  then show "dev_ok X A s \<Longrightarrow> dev_ok X A (aoecmd_sleepwork e s)"
    by (simp add: aoecmd_sleepwork_def Let_def gdalloc_ok)
qed

lemma handle_ok:
  assumes ok: "dev_ok {#} {#} s"
  shows "dev_ok {#} {#} (handle e i s)"
proof (cases i)
  case (InRequest r bs)
  have "dev_ok {#} {#} (blk_submit r bs s)"
    unfolding blk_submit_def by (rule dev_ok_dev) (use ok in \<open>simp_all add: dev_ok_def\<close>)
  then show ?thesis using InRequest by (simp add: aoeblk_request_ok)
next
  case InTimer
  have "dev_ok {#} {#} (upd_dev (dummy_timer e) s)"
    by (rule dev_ok_dev [OF ok]) (simp_all add: dummy_timer_def)
  then show ?thesis using InTimer rexmit_timer_ok [OF ok] by (simp split: timer_fn.split)
next
  case (InCfg r)
  then show ?thesis using cfg_rsp_dev_ok [OF ok, of e r] by (simp add: split_def)
next
  case InIdent
  then show ?thesis
    using aoecmd_ata_id_ok [OF ok counted_empty, of e] by (auto split: prod.split option.split)
next
  case InDown
  then show ?thesis using aoedev_downdev_ok(1) [of s e] ok by (simp add: dev_ok_def pool_ok_def)
next
  case InOpen
  then show ?thesis using ok by (auto simp: aoeblk_open_def Let_def intro: dev_ok_dev)
next
  case (InClose l ndl)
  have "dev_ok {#} {#} (upd_dev (\<lambda>d. d\<lparr>d_nopen := d_nopen d - 1\<rparr>) s)" by (rule dev_ok_dev [OF ok]) simp_all
  then show ?thesis using InClose by (simp add: aoeblk_release_def Let_def aoecmd_cfg_ok)
next
  case (InSent k)
  then show ?thesis using ok by (simp add: dev_ok_def)
qed (use ok in \<open>simp_all add: aoecmd_ata_rsp_ok ktio_one_ok aoecmd_cfg_ok aoecmd_cleanslate_ok
    aoe_flush_iocq_ok sleepwork_ok\<close>)

interpretation dv: handlers "dev_ok {#} {#}" handle
  by unfold_locales (rule handle_ok)

text \<open>The state after initialisation with a device just found.\<close>

lemma init_ok:
  assumes "0 < ncpus"
  shows "dev_ok {#} {#} (init_st ncpus (new_dev e a m maj mi))"
proof (rule dev_okI)
  let ?s = "init_st ncpus (new_dev e a m maj mi)"
  have v: "view ?s = \<lparr>v_addr = a, v_act = replicate NFACTIVE [], v_rex = [], v_free = [], v_falloc = [],
      v_nout = [], v_ioc = replicate ncpus [], v_nf = 0, v_own = (\<lambda>f. (0, 0)), v_tag = (\<lambda>f. 0)\<rparr>"
    by (simp add: view_def init_st_def new_dev_def zero_frame_def)
  have c: "concat (replicate n []) = []" for n by (induction n) simp_all
  show "pool_ok {#} (view ?s)"
    unfolding v using assms
    by (auto simp: pool_ok_def pool_wk_def pool_all_def pool_lists_def homes_def actm_def freem_def iocm_def
        hash_ok_def c NBUCKETS_NFACTIVE)
  show "nout_ok {#} (view ?s)" unfolding v by (simp add: nout_ok_def)
  show "tgts_ok ?s" by (simp add: tgts_ok_def init_st_def new_dev_def NTARGETS_def)
qed

lemma runs_ok: "0 < ncpus \<Longrightarrow> dev_ok {#} {#} (runs is (init_st ncpus (new_dev e a m maj mi)))"
  unfolding runs_def by (rule dv.run_keeps [OF init_ok])

section \<open>What the invariant says of the lists\<close>

text \<open>All frames of a device, list by list.\<close>

definition all_frames :: "st \<Rightarrow> nat list" where
  "all_frames s = concat (d_factive (s_dev s)) @ d_rexmitq (s_dev s) @ concat (map t_ffree (tgts s)) @ concat (s_iocq s)"

lemma mset_all_frames: "mset (all_frames s) = homes (view s)"
  by (simp add: all_frames_def homes_def actm_def freem_def iocm_def)

lemma dev_ok_distinct: "dev_ok {#} A s \<Longrightarrow> distinct (all_frames s)"
proof -
  assume "dev_ok {#} A s"
  then have c: "count (mset (all_frames s)) f \<le> 1" for f
    by (simp add: dev_ok_def pool_ok_def pool_wk_def pool_all_def mset_all_frames)
  moreover have "0 < count (mset (all_frames s)) f" if "f \<in> set (all_frames s)" for f
    using that by (simp add: count_greater_zero_iff)
  ultimately show ?thesis
    unfolding distinct_count_atmost_1 by (metis One_nat_def count_mset_0_iff le_antisym less_eq_Suc_le)
qed

lemma dev_ok_owned:
  assumes ok: "dev_ok {#} A s" and f: "f \<in> set (all_frames s)"
  shows "f_d (fr s f) = d_addr (s_dev s)"
proof -
  have "f \<in># actm (view s) + mset (rexq s) + iocm (view s) \<or> f \<in># freem (view s)"
    using f by (auto simp: all_frames_def actm_def iocm_def freem_def)
  then show ?thesis
  proof
    assume "f \<in># actm (view s) + mset (rexq s) + iocm (view s)"
    then show ?thesis using ok by (auto simp: dev_ok_def pool_ok_def pool_wk_def pool_lists_def)
  next
    assume "f \<in># freem (view s)"
    then obtain t where "t \<in> set (tgts s)" "f \<in> set (t_ffree t)" by (auto simp: freem_def)
    then obtain i where i: "i < length (tgts s)" "f \<in> set (t_ffree (tg s i))"
      using in_set_conv_nth [of t "tgts s"] by auto
    have "\<forall>i < length (v_free (view s)). \<forall>f. f \<in> set (v_free (view s) ! i) \<longrightarrow> v_own (view s) f = (v_addr (view s), i)"
      using ok by (simp add: dev_ok_def pool_ok_def pool_wk_def pool_lists_def)
    then show ?thesis using i by simp
  qed
qed

lemma cnt_list:
  assumes "\<And>f. f \<in> set xs \<Longrightarrow> f_d (fr s f) = d_addr (s_dev s)"
  shows "cnt (view s) i (mset xs) = length (filter (\<lambda>f. f_t (fr s f) = i) xs)"
proof -
  have "filter (\<lambda>f. (f_d (fr s f), f_t (fr s f)) = (d_addr (s_dev s), i)) xs = filter (\<lambda>f. f_t (fr s f) = i) xs"
    using assms by (intro filter_cong) auto
  then show ?thesis by (simp add: cnt_def flip: mset_filter)
qed

lemma dev_ok_counts:
  assumes ok: "dev_ok {#} {#} s" and i: "i < length (tgts s)"
  shows "unat (t_nout (tg s i)) = length (filter (\<lambda>f. f_t (fr s f) = i) (concat (d_factive (s_dev s))))"
    and "t_falloc (tg s i) = length (filter (\<lambda>f. f_t (fr s f) = i) (all_frames s))"
    and "t_falloc (tg s i) \<le> 512"
proof -
  have p: "pool_ok {#} (view s)" "nout_ok {#} (view s)" using ok by (simp_all add: dev_ok_def)
  have "cnt (view s) i (actm (view s)) = length (filter (\<lambda>f. f_t (fr s f) = i) (concat (d_factive (s_dev s))))"
    unfolding actm_def view_sel by (rule cnt_list) (use dev_ok_owned [OF ok] in \<open>auto simp: all_frames_def\<close>)
  then show "unat (t_nout (tg s i)) = length (filter (\<lambda>f. f_t (fr s f) = i) (concat (d_factive (s_dev s))))"
    using nout_exact [OF p, of i] i by simp
  have "v_falloc (view s) ! i = cnt (view s) i (homes (view s)) \<and> cnt (view s) i (homes (view s)) \<le> 512"
    using p(1) i by (simp add: pool_ok_def pool_wk_def pool_all_def)
  moreover have "cnt (view s) i (homes (view s)) = length (filter (\<lambda>f. f_t (fr s f) = i) (all_frames s))"
    unfolding mset_all_frames [symmetric] by (rule cnt_list) (rule dev_ok_owned [OF ok])
  ultimately show "t_falloc (tg s i) = length (filter (\<lambda>f. f_t (fr s f) = i) (all_frames s))"
    "t_falloc (tg s i) \<le> 512" using i by simp_all
qed

text \<open>A tag is looked up on one chain, and that is where a frame with the tag would be.\<close>

lemma getframe_None_iff:
  assumes ok: "dev_ok X A s"
  shows "fst (getframe tag s) = None \<longleftrightarrow> (\<forall>f\<in>set (concat (d_factive (s_dev s))). f_tag (fr s f) \<noteq> tag)"
proof -
  have h: "hash_ok (view s)" and l: "length (d_factive (s_dev s)) = NBUCKETS"
    using ok by (simp_all add: dev_ok_def pool_ok_def pool_wk_def pool_lists_def)
  have "f \<in> set (d_factive (s_dev s) ! fbucket tag)"
    if c: "f \<in> set (concat (d_factive (s_dev s)))" and t: "f_tag (fr s f) = tag" for f
  proof -
    obtain xs where "xs \<in> set (d_factive (s_dev s))" "f \<in> set xs" using c by auto
    then obtain n where n: "n < NBUCKETS" "f \<in> set (d_factive (s_dev s) ! n)"
      using l in_set_conv_nth [of xs "d_factive (s_dev s)"] by auto
    then have "unat (f_tag (fr s f)) mod NBUCKETS = n" using h by (simp add: hash_ok_def)
    then show ?thesis using n t by (simp add: fbucket_def NBUCKETS_NFACTIVE)
  qed
  moreover have "set (d_factive (s_dev s) ! fbucket tag) \<subseteq> set (concat (d_factive (s_dev s)))"
  proof -
    have "d_factive (s_dev s) ! fbucket tag \<in> set (d_factive (s_dev s))" using fbucket_less [of tag] l by (intro nth_mem) simp
    then show ?thesis by auto
  qed
  moreover have "fst (getframe tag s) = None \<longleftrightarrow> (\<forall>f\<in>set (d_factive (s_dev s) ! fbucket tag). f_tag (fr s f) \<noteq> tag)"
    by (auto simp: getframe_def Let_def take_first_None split: option.split dest!: take_first_Some)
  ultimately show ?thesis by blast
qed

lemma end_loop_blkq: "end_loop e n r ff s = Some s' \<Longrightarrow> d_blkq (s_dev s') = d_blkq (s_dev s)"
proof (induction n arbitrary: s)
  case (Suc n)
  then show ?case by (auto simp: Let_def split_def split: list.splits if_splits)
qed simp

lemma end_bios_blkq: "d_blkq (s_dev (end_bios e r ff s)) = d_blkq (s_dev s)"
  unfolding end_bios_def Let_def
  by (auto simp del: end_loop.simps split: option.split dest!: end_loop_blkq)

lemma fail_reqs_blkq: "d_blkq (s_dev s) = Some q \<Longrightarrow> d_blkq (s_dev (fail_reqs e q s)) = Some []"
proof (induction q arbitrary: s)
  case (Cons r q)
  show ?case using Cons.IH [of "end_bios e r True (upd_dev (\<lambda>d. d\<lparr>d_blkq := Some q\<rparr>) s)"] by (simp add: end_bios_blkq)
qed simp

lemma fail_queue_blkq: "d_blkq (s_dev (fail_queue e s)) = map_option (\<lambda>_. []) (d_blkq (s_dev s))"
  by (auto simp: fail_queue_def fail_reqs_blkq split: option.split)

lemma downdev_blkq: "d_blkq (s_dev (aoedev_downdev e s)) \<in> {None, Some []}"
  by (auto simp: aoedev_downdev_def Let_def set_capacity0_def fail_queue_blkq)

section \<open>Properties\<close>

text \<open>A run: a target answers the query of a shelf, is identified, and the timer fires.\<close>

definition cfg_rsp0 :: rskb where
  "cfg_rsp0 = \<lparr>r_data = hdr_bytes (zero_hdr\<lparr>h_src := [0, 1, 2, 3, 4, 5], h_major := 1, h_minor := 1\<rparr>)
     @ cfghdr_bytes (zero_cfghdr\<lparr>ch_bufcnt := 16, ch_scnt := 2\<rparr>), r_dev = 7\<rparr>"

definition run1 :: "(env \<times> input) list" where
  "run1 = [(env0, InCfg cfg_rsp0), (env0, InTimer), (env0, InRequest 3 [4, 5]), (env0, InDown)]"

abbreviation start :: st where
  "start \<equiv> init_st 2 (new_dev env0 0 0 1 1)"

text \<open>C1. No run of inputs, in whatever order and with whatever allocations failing, loses a frame
  or puts it in two places; every frame belongs to the device; and per target \<open>falloc\<close> is the number
  of its frames, at most 512, and \<open>nout\<close> the number of its active ones, so it never wraps.\<close>

theorem frames_accounted:
  assumes "0 < ncpus" and "s = runs is (init_st ncpus (new_dev e a m maj mi))"
  shows "distinct (all_frames s) \<and> (\<forall>f\<in>set (all_frames s). f_d (fr s f) = d_addr (s_dev s))
    \<and> (\<forall>i < length (tgts s).
         t_falloc (tg s i) = length (filter (\<lambda>f. f_t (fr s f) = i) (all_frames s)) \<and> t_falloc (tg s i) \<le> 512
       \<and> unat (t_nout (tg s i)) = length (filter (\<lambda>f. f_t (fr s f) = i) (concat (d_factive (s_dev s)))))"
proof -
  have ok: "dev_ok {#} {#} s" unfolding assms(2) by (rule runs_ok [OF assms(1)])
  show ?thesis using dev_ok_distinct [OF ok] dev_ok_owned [OF ok] dev_ok_counts [OF ok] by blast
qed

theorem frames_accounted_witness: "distinct (all_frames (runs run1 start))"
  using frames_accounted [OF _ refl, of 2 run1 env0 0 0 1 1] by simp

text \<open>C9. Every index of a reachable device is in range: the hash has its 61 chains, the current target is one of the
  targets and every frame belongs to one; the table of a target has its 8 entries, at least one and first
  of all those that are in use, each for another network device, the current one lies inside the
  table, and the taint stays within its bounds.\<close>

theorem device_well_formed:
  assumes "0 < ncpus" and "s = runs is (init_st ncpus (new_dev e a m maj mi))"
  shows "length (d_factive (s_dev s)) = NFACTIVE \<and> length (tgts s) \<le> d_ntargets (s_dev s)
    \<and> (tgts s \<noteq> [] \<longrightarrow> d_tgt (s_dev s) < length (tgts s))
    \<and> (\<forall>f\<in>set (all_frames s). f_t (fr s f) < length (tgts s))
    \<and> (\<forall>t\<in>set (tgts s). length (t_ifs t) = NAOEIFS \<and> t_ifp t < NAOEIFS \<and> 0 < length (nds t)
         \<and> (\<forall>i < NAOEIFS. if_nd (t_ifs t ! i) \<noteq> None \<longleftrightarrow> i < length (nds t)) \<and> distinct (nds t)
         \<and> 0 \<le> t_taint t \<and> t_taint t \<le> MAX_TAINT)"
proof -
  have ok: "dev_ok {#} {#} s" unfolding assms(2) by (rule runs_ok [OF assms(1)])
  have t: "length (t_ifs t) = NAOEIFS \<and> t_ifp t < NAOEIFS \<and> 0 < length (nds t)
      \<and> (\<forall>i < NAOEIFS. if_nd (t_ifs t ! i) \<noteq> None \<longleftrightarrow> i < length (nds t)) \<and> distinct (nds t)
      \<and> 0 \<le> t_taint t \<and> t_taint t \<le> MAX_TAINT" if "t \<in> set (tgts s)" for t
  proof -
    have "tgt_ok t" using ok that by (auto simp: dev_ok_def tgts_ok_def list_all_iff)
    then have "ifs_ok t" "nds t \<noteq> []" "0 \<le> t_taint t" "t_taint t \<le> MAX_TAINT" by (simp_all add: tgt_ok_def)
    then show ?thesis using ifs_prefix [of t] by (simp add: ifs_ok_def)
  qed
  have "f_t (fr s f) < length (tgts s)" if f: "f \<in> set (all_frames s)" for f
  proof -
    have "f \<in># homes (view s)" using f unfolding all_frames_def by (auto simp: homes_def actm_def freem_def iocm_def)
    then show ?thesis using ok dev_ok_owned [OF ok] f by (auto simp: dev_ok_def pool_ok_def pool_wk_def pool_all_def)
  qed
  moreover have "length (d_factive (s_dev s)) = NFACTIVE"
    using ok by (simp add: dev_ok_def pool_ok_def pool_wk_def pool_lists_def NBUCKETS_NFACTIVE)
  ultimately show ?thesis using ok t by (auto simp: dev_ok_def tgts_ok_def)
qed

theorem device_well_formed_witness: "length (d_factive (s_dev (runs run1 start))) = NFACTIVE"
  using device_well_formed [OF _ refl, of 2 run1 env0 0 0 1 1] by simp

text \<open>C7. In every reachable state a response finds its frame: looking up a tag fails only if no
  active frame, on any chain, has that tag; otherwise it takes out a frame with that tag and leaves
  the other frames active.\<close>

theorem getframe_complete:
  assumes "0 < ncpus" and "s = runs is (init_st ncpus (new_dev e a m maj mi))"
  shows "case getframe tag s of
      (None, s') \<Rightarrow> s' = s \<and> (\<forall>f\<in>set (concat (d_factive (s_dev s))). f_tag (fr s f) \<noteq> tag)
    | (Some f, s') \<Rightarrow> f_tag (fr s f) = tag
        \<and> mset (concat (d_factive (s_dev s))) = add_mset f (mset (concat (d_factive (s_dev s')))) \<and> s_frames s' = s_frames s"
proof -
  have ok: "dev_ok {#} {#} s" unfolding assms(2) by (rule runs_ok [OF assms(1)])
  obtain r s' where g: "getframe tag s = (r, s')" by fastforce
  have p: "pool_ok {#} (view s)" using ok by (simp add: dev_ok_def)
  from g show ?thesis
  proof (cases rule: getframe_cases)
    case 1
    then show ?thesis using g getframe_None_iff [OF ok, of tag] by simp
  next
    case (2 f fs)
    have "actm (view s) = add_mset f (actm ((view s)\<lparr>v_act := (v_act (view s))[fbucket tag := fs]\<rparr>))"
      by (rule pool_unhash(2) [OF p fbucket_less]) (use 2 in simp)
    then show ?thesis using 2 g by (simp add: actm_def)
  qed
qed

theorem getframe_complete_witness:
  "case getframe 5 (runs run1 start) of
      (None, s') \<Rightarrow> \<forall>f\<in>set (concat (d_factive (s_dev (runs run1 start)))). f_tag (fr (runs run1 start) f) \<noteq> 5
    | (Some f, s') \<Rightarrow> f_tag (fr (runs run1 start) f) = 5"
  using getframe_complete [OF _ refl, of 2 run1 env0 0 0 1 1 5] by (auto split: prod.splits option.splits)

text \<open>C5. Taking a device down, from any reachable state, leaves no frame active or deferred, no
  command outstanding and no request queued at any target, and the device is not up; every frame is
  free again or with a completion thread, and the accounts are right.\<close>

theorem downdev_leaves_nothing:
  assumes "0 < ncpus" and "s = aoedev_downdev e' (runs is (init_st ncpus (new_dev e a m maj mi)))"
  shows "concat (d_factive (s_dev s)) = [] \<and> d_rexmitq (s_dev s) = [] \<and> (\<forall>t\<in>set (tgts s). t_nout t = 0)
    \<and> d_blkq (s_dev s) \<in> {None, Some []} \<and> \<not> hasfl (d_flags (s_dev s)) DEVFL_UP
    \<and> distinct (concat (map t_ffree (tgts s)) @ concat (s_iocq s)) \<and> dev_ok {#} {#} s"
proof -
  let ?r = "runs is (init_st ncpus (new_dev e a m maj mi))"
  have "pool_wk {#} (view ?r)" "tgts_ok ?r" using runs_ok [OF assms(1)] by (simp_all add: dev_ok_def pool_ok_def)
  note d = aoedev_downdev_ok [OF this, of e', folded assms(2)]
  have n: "t_nout t = 0" if t: "t \<in> set (tgts s)" for t
  proof -
    obtain i where "i < length (tgts s)" "t = tg s i" using t by (auto simp: in_set_conv_nth)
    then show ?thesis using dev_ok_counts(1) [OF d(1), of i] d(2) by (simp add: unat_eq_0 del: concat_eq_Nil_conv)
  qed
  show ?thesis
    using d n dev_ok_distinct [OF d(1)] downdev_blkq [of e' ?r, folded assms(2)] by (auto simp: all_frames_def)
qed

theorem downdev_leaves_nothing_witness:
  "d_rexmitq (s_dev (aoedev_downdev env0 (runs run1 start))) = []"
  using downdev_leaves_nothing [OF _ refl, of 2 env0 run1 env0 0 0 1 1] by simp

text \<open>C6. In every reachable state the search for a frame ends, the loop over the targets visiting
  at most twice as many as there are; a frame it returns belongs to a target with room in its window,
  which is then the current one and has a network device, and its socket buffer is shared with no
  packet in flight.\<close>

theorem newframe_sound:
  assumes "0 < ncpus" and "s = runs is (init_st ncpus (new_dev e a m maj mi))"
  shows "(tgts s = [] \<or> newframe_loop e' (2 * length (tgts s)) (d_tgt (s_dev s)) False False 0 s \<noteq> None)
    \<and> (case newframe e' s of
         (None, s') \<Rightarrow> dev_ok {#} {#} s'
       | (Some f, s') \<Rightarrow> d_tgt (s_dev s') = f_t (fr s' f) \<and> f_t (fr s' f) < length (tgts s)
           \<and> t_nout (tg s (f_t (fr s' f))) < t_maxout (tg s (f_t (fr s' f)))
           \<and> (\<exists>k. f_skb (fr s' f) = Some k \<and> sk_dataref (s_skbs s' k) = 1)
           \<and> cur_nd (tg s' (f_t (fr s' f))) \<noteq> None)"
proof -
  have ok: "dev_ok {#} {#} s" unfolding assms(2) by (rule runs_ok [OF assms(1)])
  obtain r s' where n: "newframe e' s = (r, s')" by fastforce
  note nf = newframe_ok [OF ok counted_empty n]
  have "tgts s = [] \<or> newframe_loop e' (2 * length (tgts s)) (d_tgt (s_dev s)) False False 0 s \<noteq> None"
    using newframe_returns [OF ok counted_empty] by blast
  moreover have "r = Some f \<Longrightarrow> d_tgt (s_dev s') = f_t (fr s' f) \<and> f_t (fr s' f) < length (tgts s)
           \<and> t_nout (tg s (f_t (fr s' f))) < t_maxout (tg s (f_t (fr s' f)))
           \<and> (\<exists>k. f_skb (fr s' f) = Some k \<and> sk_dataref (s_skbs s' k) = 1)
           \<and> cur_nd (tg s' (f_t (fr s' f))) \<noteq> None" for f
  proof -
    assume f: "r = Some f"
    from nf(2) [OF f] have g: "got_frame s f s'" by simp
    from g obtain s1 i where a: "chg (fset s) s s1" "f_t (fr s' f) = i" "d_tgt (s_dev s') = i" "i < length (tgts s)"
      "t_nout (tg s i) < t_maxout (tg s i)" "tgts s' = (tgts s1)[i := snd (ifrotate (tg s1 i))]"
      "\<exists>k. f_skb (fr s' f) = Some k \<and> sk_dataref (s_skbs s' k) = 1"
      by (elim got_frameE) blast
    have l: "i < length (tgts s1)" using chg_tgt(1) [OF a(1)] a(4) by simp
    have "tgts_ok s1" using chg_tgts_ok [OF a(1)] ok by (simp add: dev_ok_def)
    then have "cur_nd (snd (ifrotate (tg s1 i))) \<noteq> None" by (intro ifrotate_nd(2) tgts_ok_nth l)
    then show ?thesis using a l by simp
  qed
  ultimately show ?thesis using n nf(1) by (auto split: option.split)
qed

theorem newframe_sound_witness:
  "case newframe env0 (runs run1 start) of
      (None, s') \<Rightarrow> dev_ok {#} {#} s'
    | (Some f, s') \<Rightarrow> d_tgt (s_dev s') = f_t (fr s' f) \<and> f_t (fr s' f) < length (tgts (runs run1 start))"
  using newframe_sound [OF _ refl, of 2 run1 env0 0 0 1 1 env0] by (auto split: prod.splits option.splits)

text \<open>C8. In every reachable state the loop of \<open>aoecmd_work\<close> ends: after at most as many rounds as
  there is room in the windows of the targets.\<close>

theorem work_terminates:
  assumes "0 < ncpus" and "s = runs is (init_st ncpus (new_dev e a m maj mi))"
  shows "\<exists>s'. work_loop (Suc (room (rexmit_deferred e' s))) e' (rexmit_deferred e' s) = Some s'
    \<and> aoecmd_work e' s = s' \<and> dev_ok {#} {#} s'"
proof -
  have ok: "dev_ok {#} {#} s" unfolding assms(2) by (rule runs_ok [OF assms(1)])
  have "dev_ok {#} {#} (rexmit_deferred e' s)" by (rule rexmit_deferred_ok [OF ok])
  then obtain s' where "work_loop (Suc (room (rexmit_deferred e' s))) e' (rexmit_deferred e' s) = Some s'"
    using work_loop_total [of "{#}" "rexmit_deferred e' s" "Suc (room (rexmit_deferred e' s))" e'] by blast
  then show ?thesis
    using aoecmd_work_ok [OF ok, of e'] by (simp add: aoecmd_work_def Let_def del: work_loop.simps)
qed

theorem work_terminates_witness: "dev_ok {#} {#} (aoecmd_work env0 (runs run1 start))"
  using work_terminates [OF _ refl, of 2 env0 run1 env0 0 0 1 1] by auto

end
