(* ===== verification/System.thy ===== *)
theory System
  imports Driver
begin

text \<open>
  The entry points of the driver over all its devices: a packet arrives from the network
  (\<open>aoenet_rcv\<close>), or a user writes to one of the character devices (\<open>aoechr_write\<close>).  Each finds the
  device it is about and runs the handler of that device.
\<close>

section \<open>Packets\<close>

text \<open>\<open>aoecmd_ata_rsp\<close> from the lookup of the device on.\<close>

definition ata_rsp_sys :: "env \<Rightarrow> bool \<Rightarrow> nat \<Rightarrow> rskb \<Rightarrow> sys \<Rightarrow> rskb option \<times> sys" where
  "ata_rsp_sys e dyn parts r y =
     (let h = hdr_of (r_data r)
      in case aoedev_by_aoeaddr e dyn parts (ucast (h_major h)) (uint (h_minor h)) False y of
           (None, y1) \<Rightarrow> (Some r, y1\<lparr>y_st := emit (EvMsg (UnknownDevice (h_major h) (h_minor h))) (y_st y1)\<rparr>)
         | (Some i, y1) \<Rightarrow>
             (fst (aoecmd_ata_rsp e r ((y_st y1)\<lparr>s_dev := y_devs y1 ! i\<rparr>)),
              on_dev i (\<lambda>s. snd (aoecmd_ata_rsp e r s)) y1))"

definition aoecmd_cfg_rsp :: "env \<Rightarrow> bool \<Rightarrow> nat \<Rightarrow> rskb \<Rightarrow> sys \<Rightarrow> sys" where
  "aoecmd_cfg_rsp e dyn parts r y =
     (let h = hdr_of (r_data r)
      in if \<not> cfg_valid h then y
         else
           (case aoedev_by_aoeaddr e dyn parts (ucast (h_major h)) (uint (h_minor h)) True y of
              (None, y1) \<Rightarrow> y1
            | (Some i, y1) \<Rightarrow>
                aoedev_put i (on_dev i (\<lambda>s. case cfg_rsp_dev e r s of (sl, s1) \<Rightarrow> aoenet_xmit sl s1) y1)))"

text \<open>Why a packet is not looked at: another network name space, no memory to unshare it, an
  interface not on the list, or its headers cannot be pulled together.\<close>

record rcvctx =
  rc_init_net :: bool
  rc_unshared :: bool
  rc_name :: string
  rc_pulled :: bool

definition aoenet_rcv :: "env \<Rightarrow> bool \<Rightarrow> nat \<Rightarrow> string \<Rightarrow> rcvctx \<Rightarrow> rskb \<Rightarrow> sys \<Rightarrow> sys" where
  "aoenet_rcv e dyn parts iflist c r y =
     (let h = hdr_of (r_data r)
      in if \<not> rc_init_net c \<or> \<not> rc_unshared c \<or> \<not> is_aoe_netif iflist (rc_name c) then y
         else if length (r_data r) \<ge> 36 \<and> \<not> rc_pulled c then y
         else if \<not> hasfl (h_verfl h) AOEFL_RSP \<or> hasfl (h_tag h) (2 ^ 31) then y
         else if hasfl (h_verfl h) AOEFL_ERR then y
         else if h_cmd h = AOECMD_ATA then snd (ata_rsp_sys e dyn parts r y)
         else if h_cmd h = AOECMD_CFG then aoecmd_cfg_rsp e dyn parts r y
         else y)"

text \<open>The text of an error packet, by the table of the protocol's errors.\<close>

definition NECODES :: nat where "NECODES = 5"

definition aoe_errlist :: "string list" where
  "aoe_errlist = [''no such error'', ''unrecognized command code'', ''bad argument parameter'',
     ''device unavailable'', ''config string present'', ''unsupported version'']"

definition err_text :: "u8 \<Rightarrow> string" where
  "err_text err = aoe_errlist ! (let n = unat err in if n > NECODES then 0 else n)"

section \<open>Transmission\<close>

text \<open>
  The thread \<open>tx\<close>: packets leave in order; a write goes out with \<open>PF_MEMALLOC\<close> set, so that it may
  use the memory reserves, and the flag is as before afterwards.  The trace is the packets handed to
  the network with the flag at that moment.
\<close>

definition pkt_aflags :: "st \<Rightarrow> txpkt \<Rightarrow> u8" where
  "pkt_aflags s p =
     (case p of TxClone k _ _ \<Rightarrow> ah_aflags (sk_ah (s_skbs s k)) | TxCfg h ch _ \<Rightarrow> cfghdr_bytes ch ! 0)"

fun tx_loop :: "st \<Rightarrow> bool \<Rightarrow> txpkt list \<Rightarrow> (txpkt \<times> bool) list \<times> bool" where
  "tx_loop s memalloc [] = ([], memalloc)"
| "tx_loop s memalloc (p # ps) =
     (let changef = (\<not> memalloc \<and> hasfl (pkt_aflags s p) AOEAFL_WRITE);
          during = (memalloc \<or> changef);
          after = (if changef then False else during);
          (tr, m) = tx_loop s after ps
      in ((p, during) # tr, m))"

definition tx :: "bool \<Rightarrow> st \<Rightarrow> (txpkt \<times> bool) list \<times> bool \<times> st" where
  "tx memalloc s = (case tx_loop s memalloc (s_txq s) of (tr, m) \<Rightarrow> (tr, m, s\<lparr>s_txq := []\<rparr>))"

section \<open>Character devices\<close>

definition MINOR_DISCOVER :: nat where "MINOR_DISCOVER = 3"
definition MINOR_INTERFACES :: nat where "MINOR_INTERFACES = 4"
definition MINOR_REVALIDATE :: nat where "MINOR_REVALIDATE = 5"
definition MINOR_FLUSH :: nat where "MINOR_FLUSH = 6"

definition chardevs :: "(nat \<times> string) list" where
  "chardevs = [(2, ''etherd/err''), (MINOR_DISCOVER, ''etherd/discover''), (MINOR_INTERFACES, ''etherd/interfaces''),
     (MINOR_REVALIDATE, ''etherd/revalidate''), (MINOR_FLUSH, ''etherd/flush'')]"

fun aoechr_open :: "nat \<Rightarrow> (nat \<times> string) list \<Rightarrow> errno option" where
  "aoechr_open n [] = Some EINVAL"
| "aoechr_open n (c # cs) = (if fst c = n then None else aoechr_open n cs)"

text \<open>The kernel's \<open>sscanf\<close> with the format \<open>e%d.%d\<close>: the two numbers if both were converted.\<close>

definition is_digit :: "char \<Rightarrow> bool" where
  "is_digit c \<longleftrightarrow> c \<in> set ''0123456789''"

definition digit :: "char \<Rightarrow> int" where
  "digit c = int (length (takeWhile (\<lambda>x. x \<noteq> c) ''0123456789''))"

definition scan_int :: "string \<Rightarrow> (int \<times> string) option" where
  "scan_int s0 =
     (let s = dropWhile (\<lambda>c. c \<in> set [CHR '' '', CHR 0x09, CHR 0x0A, CHR 0x0B, CHR 0x0C, CHR 0x0D]) s0;
          (neg, t) = (case s of [] \<Rightarrow> (False, s) | c # cs \<Rightarrow> if c = CHR ''-'' then (True, cs) else (False, s));
          ds = takeWhile is_digit t;
          v = fold (\<lambda>c n. 10 * n + digit c) ds 0
      in if ds = [] then None
         else Some (sint (word_of_int (if neg then - v else v) :: u32), dropWhile is_digit t))"

definition scan_dev :: "string \<Rightarrow> (int \<times> int) option" where
  "scan_dev s =
     (case s of
        CHR ''e'' # s1 \<Rightarrow>
          (case scan_int s1 of
             Some (maj, CHR ''.'' # s2) \<Rightarrow> map_option (\<lambda>(mi, _). (maj, mi)) (scan_int s2)
           | _ \<Rightarrow> None)
      | _ \<Rightarrow> None)"

text \<open>The identify command is tried until it can be sent, once in each environment of the list; the
  sleep after the last one is interrupted.\<close>

fun ident_loop :: "env list \<Rightarrow> st \<Rightarrow> txpkt option \<times> st" where
  "ident_loop [] s = (None, s)"
| "ident_loop (e # es) s =
     (case aoecmd_ata_id e s of
        (Some p, s1) \<Rightarrow> (Some p, s1)
      | (None, s1) \<Rightarrow> ident_loop es s1)"

text \<open>
  \<open>revalidate\<close>: the buffer of 16 bytes holds what was on the stack (\<open>stack\<close>) before the user's bytes
  are copied over its start and a NUL is put at its end.
\<close>

definition reval_buf :: "string \<Rightarrow> string \<Rightarrow> string" where
  "reval_buf stack str =
     takeWhile (\<lambda>c. c \<noteq> CHR 0x00) (str @ drop (length str) (take 15 stack))"

definition revalidate ::
  "env \<Rightarrow> env list \<Rightarrow> bool \<Rightarrow> nat \<Rightarrow> string \<Rightarrow> netdev list \<Rightarrow> string \<Rightarrow> bool \<Rightarrow> string \<Rightarrow> sys \<Rightarrow> errno option \<times> sys" where
  "revalidate e es dyn parts iflist ndl stack copied str y =
     (if length str \<ge> 16 then (Some EINVAL, y)
      else if \<not> copied then (Some EFAULT, y)
      else case scan_dev (reval_buf stack str) of
             None \<Rightarrow> (Some EINVAL, y)
           | Some (maj, mi) \<Rightarrow>
               (case aoedev_by_aoeaddr e dyn parts (word_of_int maj) mi False y of
                  (None, y1) \<Rightarrow> (Some EINVAL, y1)
                | (Some i, y1) \<Rightarrow>
                    (None, aoedev_put i (on_dev i (\<lambda>s.
                       case ident_loop es (aoecmd_cfg e iflist ndl (word_of_int maj) (word_of_int mi)
                              (upd_dev aoecmd_cleanslate s)) of
                         (None, s1) \<Rightarrow> s1
                       | (Some p, s1) \<Rightarrow> aoenet_xmit [p] s1) y1))))"

text \<open>What a write needs from outside: the environments, whether the user's memory can be read, the
  interfaces, the polls of socket buffers and the stack.\<close>

record wctx =
  w_env :: env
  w_retry :: "env list"
  w_dyn :: bool
  w_copied :: bool
  w_ndl :: "netdev list"
  w_polls :: "nat \<Rightarrow> nat \<Rightarrow> nat"
  w_stack :: string

definition discover :: "wctx \<Rightarrow> string \<Rightarrow> sys \<Rightarrow> sys" where
  "discover w iflist y = y\<lparr>y_st := aoecmd_cfg (w_env w) iflist (w_ndl w) 0xffff 0xff (y_st y)\<rparr>"

definition interfaces :: "wctx \<Rightarrow> string \<Rightarrow> string \<Rightarrow> errno option \<times> string" where
  "interfaces w str iflist =
     (case set_aoe_iflist (w_copied w) str iflist of
        (None, l) \<Rightarrow> (None, l)
      | (Some _, l) \<Rightarrow> (Some EINVAL, l))"

definition aoechr_write :: "wctx \<Rightarrow> nat \<Rightarrow> nat \<Rightarrow> string \<Rightarrow> string \<times> sys \<Rightarrow> (errno + nat) \<times> string \<times> sys" where
  "aoechr_write w parts n buf ly =
     (let (iflist, y) = ly;
          (ret, iflist1, y1) =
            (if n = MINOR_DISCOVER then
               (None, iflist, discover w iflist y)
             else if n = MINOR_INTERFACES then
               (case interfaces w buf iflist of (er, l) \<Rightarrow> (er, l, y))
             else if n = MINOR_REVALIDATE then
               (case revalidate (w_env w) (w_retry w) (w_dyn w) parts iflist (w_ndl w) (w_stack w) (w_copied w) buf y of
                  (er, y1) \<Rightarrow> (er, iflist, y1))
             else if n = MINOR_FLUSH then
               (case aoedev_flush (w_env w) parts (w_polls w) (w_copied w) buf y of
                  (er, y1) \<Rightarrow> (er, iflist, y1))
             else (Some EINVAL, iflist, y))
      in (case ret of None \<Rightarrow> Inr (length buf) | Some er \<Rightarrow> Inl er, iflist1, y1))"

section \<open>Properties\<close>

lemma tx_loop_spec:
  "map fst (fst (tx_loop s m ps)) = ps \<and> snd (tx_loop s m ps) = m
     \<and> (\<forall>(p, during)\<in>set (fst (tx_loop s m ps)). during \<longleftrightarrow> m \<or> hasfl (pkt_aflags s p) AOEAFL_WRITE)"
proof (induction ps arbitrary: m)
  case (Cons p ps)
  show ?case
  proof (cases "\<not> m \<and> hasfl (pkt_aflags s p) AOEAFL_WRITE")
    case True
    then show ?thesis using Cons.IH [of False] by (simp add: Let_def split_def)
  next
    case False
    then show ?thesis using Cons.IH [of m] by (auto simp: Let_def split_def)
  qed
qed simp

text \<open>The transmit thread hands over every queued packet, in order; a write goes out with
  \<open>PF_MEMALLOC\<close>, any other packet without it unless the thread had it already, and the thread is left
  as it was.\<close>

theorem tx_writes_use_reserves:
  "case tx m s of (tr, m', s') \<Rightarrow> map fst tr = s_txq s \<and> s_txq s' = [] \<and> m' = m
     \<and> (\<forall>(p, during)\<in>set tr. during \<longleftrightarrow> m \<or> hasfl (pkt_aflags s p) AOEAFL_WRITE)"
  using tx_loop_spec [of s m "s_txq s"] by (simp add: tx_def split_def)

theorem tx_writes_use_reserves_witness:
  "snd (hd (fst (tx False (start\<lparr>s_skbs := (\<lambda>_. fresh_skb\<lparr>sk_ah := zero_atahdr\<lparr>ah_aflags := AOEAFL_WRITE\<rparr>\<rparr>),
     s_txq := [TxClone 0 None 60]\<rparr>))))"
  using tx_writes_use_reserves [where m = False and s = "start\<lparr>s_skbs := (\<lambda>_. fresh_skb\<lparr>sk_ah := zero_atahdr\<lparr>ah_aflags := AOEAFL_WRITE\<rparr>\<rparr>),
     s_txq := [TxClone 0 None 60]\<rparr>"]
  by (auto simp: tx_def split_def Let_def pkt_aflags_def AOEAFL_WRITE_def hasfl_def)

text \<open>What a target sends back, by the protocol: the header of the command with the addresses turned round, the
  response flag set, its own shelf and slot in it, and the rest of the answer behind it.\<close>

definition target_reply :: "u8 list \<Rightarrow> u16 \<Rightarrow> u8 \<Rightarrow> aoe_hdr \<Rightarrow> u8 list \<Rightarrow> nat \<Rightarrow> rskb" where
  "target_reply a maj mi h rest nd =
     \<lparr>r_data = hdr_bytes (h\<lparr>h_dst := h_src h, h_src := a, h_verfl := h_verfl h OR AOEFL_RSP, h_major := maj, h_minor := mi\<rparr>) @ rest,
      r_dev = nd\<rparr>"

lemma target_reply_hdr:
  "length a = 6 \<Longrightarrow> length (h_src h) = 6 \<Longrightarrow> hdr_of (r_data (target_reply a maj mi h rest nd)) =
     h\<lparr>h_dst := h_src h, h_src := a, h_verfl := h_verfl h OR AOEFL_RSP, h_major := maj, h_minor := mi\<rparr>"
  by (simp add: target_reply_def hdr.dec_enc hdr_wf_def)

lemma newtag_passes: "\<not> hasfl (fst (newtag j lt)) (2 ^ 31)"
  unfolding hasfl_bit using newtag_top_clear [of j lt] by simp

lemma atainit_hdr:
  "h_verfl (sk_h (s_skbs (snd (aoehdr_atainit e i k s)) k)) = AOE_HVER"
  "h_cmd (sk_h (s_skbs (snd (aoehdr_atainit e i k s)) k)) = AOECMD_ATA"
  "h_tag (sk_h (s_skbs (snd (aoehdr_atainit e i k s)) k)) = fst (newtag (e_jiffies e) (d_lasttag (s_dev s)))"
  by (simp_all add: aoehdr_atainit_def Let_def split_def)

text \<open>What \<open>aoenet_rcv\<close> does with a packet that came in on an allowed interface.\<close>

lemma aoenet_rcv_here:
  assumes "rc_init_net c" "rc_unshared c" "rc_pulled c" "is_aoe_netif iflist (rc_name c)"
    and "h_verfl (hdr_of (r_data r)) = AOE_HVER OR AOEFL_RSP" and "\<not> hasfl (h_tag (hdr_of (r_data r))) (2 ^ 31)"
  shows "aoenet_rcv e dyn parts iflist c r y =
    (if h_cmd (hdr_of (r_data r)) = AOECMD_ATA then snd (ata_rsp_sys e dyn parts r y)
     else if h_cmd (hdr_of (r_data r)) = AOECMD_CFG then aoecmd_cfg_rsp e dyn parts r y else y)"
  using assms by (simp add: aoenet_rcv_def Let_def wire_consts hasfl_def)

text \<open>C18. The driver does not drop the answers to its own commands.  Take the header that \<open>aoehdr_atainit\<close> wrote for an
  ATA command, or that header with the new tag of a retransmission, and let a target answer it: the flags, the command
  and the tag of the answer pass every test of \<open>aoenet_rcv\<close>, and on an allowed interface the answer reaches
  \<open>aoecmd_ata_rsp\<close>; so does the answer to a configuration query of \<open>aoecmd_cfg\<close> reach \<open>aoecmd_cfg_rsp\<close>.  A packet
  without the response flag, whatever else is in it and wherever it comes in, changes nothing.\<close>

theorem rcv_own_tags:
  assumes "rc_init_net c" "rc_unshared c" "rc_pulled c" "is_aoe_netif iflist (rc_name c)"
    and "h0 = sk_h (s_skbs (snd (aoehdr_atainit e0 i k s)) k)" and "h = h0 \<or> h = h0\<lparr>h_tag := fst (newtag j lt)\<rparr>"
    and "length a = 6" and "length (h_src h0) = 6" and "length (e_ndaddr e0 n) = 6"
    and "ra = target_reply a (h_major h) (h_minor h) h rest nd" and "rc = target_reply a maj mi (cfg_hdr e0 n m0 m1) rest nd"
  shows "aoenet_rcv e dyn parts iflist c ra y = snd (ata_rsp_sys e dyn parts ra y)
    \<and> h_tag (hdr_of (r_data ra)) = h_tag h
    \<and> aoenet_rcv e dyn parts iflist c rc y = aoecmd_cfg_rsp e dyn parts rc y
    \<and> (\<forall>c' l r. \<not> hasfl (h_verfl (hdr_of (r_data r))) AOEFL_RSP \<longrightarrow> aoenet_rcv e dyn parts l c' r y = y)"
proof -
  have h: "h_verfl h = AOE_HVER" "h_cmd h = AOECMD_ATA" "\<not> hasfl (h_tag h) (2 ^ 31)" "length (h_src h) = 6"
    using assms(5,6,8) atainit_hdr [of e0 i k s] newtag_passes by auto
  note ra = target_reply_hdr [OF assms(7) h(4), of "h_major h" "h_minor h" rest nd]
  have 1: "aoenet_rcv e dyn parts iflist c ra y = snd (ata_rsp_sys e dyn parts ra y)" "h_tag (hdr_of (r_data ra)) = h_tag h"
    using aoenet_rcv_here [OF assms(1-4), of ra] h ra unfolding assms(10) by simp_all
  have q: "length (h_src (cfg_hdr e0 n m0 m1)) = 6" using assms(9) by (simp add: cfg_hdr_def)
  note rc = target_reply_hdr [OF assms(7) q, of maj mi rest nd]
  have 2: "aoenet_rcv e dyn parts iflist c rc y = aoecmd_cfg_rsp e dyn parts rc y"
    using aoenet_rcv_here [OF assms(1-4), of rc] rc unfolding assms(11)
    by (simp add: cfg_hdr_def zero_hdr_def wire_consts hasfl_def)
  have "aoenet_rcv e dyn parts l c' r y = y" if "\<not> hasfl (h_verfl (hdr_of (r_data r))) AOEFL_RSP" for c' l r
    using that by (simp add: aoenet_rcv_def Let_def)
  then show ?thesis using 1 2 by blast
qed

definition rsp0 :: rskb where
  "rsp0 = \<lparr>r_data = hdr_bytes (zero_hdr\<lparr>h_verfl := AOE_HVER OR AOEFL_RSP, h_major := 1, h_minor := 1,
     h_tag := fst (newtag 1000 0)\<rparr>) @ replicate 36 0, r_dev = 7\<rparr>"

definition rcv0 :: rcvctx where
  "rcv0 = \<lparr>rc_init_net = True, rc_unshared = True, rc_name = ''eth0'', rc_pulled = True\<rparr>"

definition cmd0 :: aoe_hdr where
  "cmd0 = sk_h (s_skbs (snd (aoehdr_atainit env0 0 0 start)) 0)"

theorem rcv_own_tags_witness:
  "aoenet_rcv env0 True AOE_PARTITIONS [] rcv0 (target_reply (replicate 6 1) (h_major cmd0) (h_minor cmd0) cmd0 [] 7) two_devs
    = snd (ata_rsp_sys env0 True AOE_PARTITIONS (target_reply (replicate 6 1) (h_major cmd0) (h_minor cmd0) cmd0 [] 7) two_devs)"
proof -
  have l: "length (e_ndaddr env0 n) = 6" for n by (simp add: env0_def)
  then have "length (h_src cmd0) = 6" by (simp add: cmd0_def aoehdr_atainit_def Let_def split_def)
  then show ?thesis
    by (intro rcv_own_tags [of rcv0 "[]" cmd0 env0 0 0 start cmd0, THEN conjunct1])
      (simp_all add: cmd0_def rcv0_def is_aoe_netif_def l)
qed

text \<open>A device at a place other than \<open>i\<close>, which handlers of device \<open>i\<close> leave alone.\<close>

definition beside :: "nat \<Rightarrow> aoedev \<Rightarrow> aoedev list \<Rightarrow> bool" where
  "beside i d ds \<longleftrightarrow> (\<exists>j. j < length ds \<and> j \<noteq> i \<and> ds ! j = d)"

lemma beside_update: "beside i d ds \<Longrightarrow> beside i d (ds[i := x])"
  by (auto simp: beside_def)

lemma beside_on_dev: "beside i d (y_devs y) \<Longrightarrow> beside i d (y_devs (on_dev i g y))"
  by (simp add: on_dev_def Let_def beside_update)

lemma beside_put: "beside i d (y_devs y) \<Longrightarrow> beside i d (y_devs (aoedev_put i y))"
  by (simp add: aoedev_put_def beside_update)

lemma beside_set: "beside i d ds \<Longrightarrow> d \<in> set ds"
  by (auto simp: beside_def)

lemma by_aoeaddr_beside:
  assumes ok: "sys_ok y" and r: "aoedev_by_aoeaddr e dyn AOE_PARTITIONS maj (uint (mi :: u8)) al y = (r, y')"
    and d: "d \<in> set (y_devs y)" "aoeaddr d \<noteq> (maj, ucast mi)"
  shows "case r of None \<Rightarrow> d \<in> set (y_devs y') | Some i \<Rightarrow> beside i d (y_devs y')"
proof -
  have "uint mi < 2 ^ 8" using uint_lt2p [of mi] by simp
  then have mi: "0 \<le> uint mi" "uint mi < 2 ^ 16" by simp_all
  have w: "word_of_int (uint mi) = (ucast mi :: u16)" by simp
  note c = aoedev_by_aoeaddr_ok [OF ok r mi, unfolded w]
  obtain j where j: "j < length (y_devs y)" "y_devs y ! j = d" using d(1) by (auto simp: in_set_conv_nth)
  show ?thesis
  proof (cases r)
    case None
    then show ?thesis using c d(1) by simp
  next
    case (Some i)
    show ?thesis
    proof (cases "(maj, ucast mi) \<in> set (map aoeaddr (y_devs y))")
      case True
      let ?x = "(y_devs y ! i)\<lparr>d_ref := d_ref (y_devs y ! i) + 1\<rparr>"
      have e: "y_devs y' = (y_devs y)[i := ?x]" and f: "i < length (y_devs y')"
          "aoeaddr (y_devs y' ! i) = (maj, ucast mi)"
        using c [unfolded Some option.case if_P [OF True]] by blast+
      have "aoeaddr (y_devs y ! i) = (maj, ucast mi)" using f unfolding e by simp
      then have "j \<noteq> i" using j d(2) by auto
      then show ?thesis using Some j e by (auto simp: beside_def)
    next
      case False
      have e: "i = 0" "tl (y_devs y') = y_devs y" "i < length (y_devs y')"
        using c [unfolded Some option.case if_not_P [OF False]] by blast+
      then have "Suc j < length (y_devs y')" "y_devs y' ! Suc j = d"
        using j by (cases "y_devs y'"; auto)+
      then show ?thesis using Some e(1) unfolding beside_def by (simp add: exI [of _ "Suc j"])
    qed
  qed
qed

text \<open>C10. A packet concerns only the device whose address it carries: every other device is still in
  the list, unchanged in every field.\<close>

theorem rcv_isolated:
  assumes ok: "sys_ok y" and d: "d \<in> set (y_devs y)"
    and a: "aoeaddr d \<noteq> (ucast (h_major (hdr_of (r_data r))), ucast (h_minor (hdr_of (r_data r))))"
  shows "d \<in> set (y_devs (aoenet_rcv e dyn AOE_PARTITIONS iflist c r y))"
proof -
  let ?h = "hdr_of (r_data r)"
  have ata: "d \<in> set (y_devs (snd (ata_rsp_sys e dyn AOE_PARTITIONS r y)))"
  proof -
    obtain q y1 where b: "aoedev_by_aoeaddr e dyn AOE_PARTITIONS (ucast (h_major ?h)) (uint (h_minor ?h)) False y = (q, y1)"
      by fastforce
    show ?thesis
      using by_aoeaddr_beside [OF ok b d a] b
      by (auto simp: ata_rsp_sys_def Let_def split: option.splits intro: beside_set [OF beside_on_dev])
  qed
  have cfg: "d \<in> set (y_devs (aoecmd_cfg_rsp e dyn AOE_PARTITIONS r y))"
  proof -
    obtain q y1 where b: "aoedev_by_aoeaddr e dyn AOE_PARTITIONS (ucast (h_major ?h)) (uint (h_minor ?h)) True y = (q, y1)"
      by fastforce
    show ?thesis
      using by_aoeaddr_beside [OF ok b d a] b d
      by (auto simp: aoecmd_cfg_rsp_def Let_def split: option.splits intro: beside_set [OF beside_put [OF beside_on_dev]])
  qed
  show ?thesis using ata cfg d by (simp add: aoenet_rcv_def Let_def)
qed

theorem rcv_isolated_witness:
  "dev_idle \<in> set (y_devs (aoenet_rcv env0 True AOE_PARTITIONS []
     \<lparr>rc_init_net = True, rc_unshared = True, rc_name = ''eth0'', rc_pulled = True\<rparr> rsp0 two_devs))"
proof (rule rcv_isolated [OF two_devs_ok(2)])
  show "dev_idle \<in> set (y_devs two_devs)" by (simp add: two_devs_def)
  have h: "hdr_of (r_data rsp0) = zero_hdr\<lparr>h_verfl := AOE_HVER OR AOEFL_RSP, h_major := 1, h_minor := 1,
     h_tag := fst (newtag 1000 0)\<rparr>"
    unfolding rsp0_def by (simp add: hdr.dec_enc hdr_wf_def zero_hdr_def)
  show "aoeaddr dev_idle \<noteq> (ucast (h_major (hdr_of (r_data rsp0))), ucast (h_minor (hdr_of (r_data rsp0))))"
    unfolding h by (simp add: dev_idle_def new_dev_def)
qed

text \<open>A write of \<open>e1.1\<close> to the revalidate file can act on another device: the buffer is
  terminated at its end and not after the bytes the user wrote, so digits left on the stack are read
  as part of the number.\<close>

theorem revalidate_reads_stack:
  "scan_dev (reval_buf (''....0'' @ replicate 11 CHR 0x00) ''e1.1'') = Some (1, 10)
    \<and> scan_dev (reval_buf (replicate 16 CHR 0x00) ''e1.1'') = Some (1, 1)"
  by (simp add: reval_buf_def scan_dev_def scan_int_def is_digit_def digit_def Let_def eval_nat_numeral)

end
