(* ===== verification/Module.thy ===== *)
theory Module
  imports Kthread System
begin

text \<open>
  Loading and unloading the module (\<open>aoemain.c\<close> and the \<open>_init\<close> and \<open>_exit\<close> functions of the other
  files), seen as the resources each function takes and gives back, and the discover timer.  What the
  exit does to the devices is \<open>aoedev_exit\<close> of the theory of the device list.
\<close>

section \<open>Allocation\<close>

definition INT_MAX :: u64 where "INT_MAX = 2 ^ 31 - 1"

text \<open>\<open>aoe_kcalloc\<close>: the number of zeroed bytes it returns, if any; \<open>mem\<close> tells whether \<open>kmalloc\<close>
  succeeds for a size.\<close>

definition aoe_kcalloc :: "(u64 \<Rightarrow> bool) \<Rightarrow> u64 \<Rightarrow> u64 \<Rightarrow> u64 option" where
  "aoe_kcalloc mem n sz =
     (if n \<noteq> 0 \<and> sz > INT_MAX div n then None
      else if mem (n * sz) then Some (n * sz) else None)"

text \<open>What is allocated is the product, not the product modulo the word size.\<close>

lemma aoe_kcalloc_exact:
  assumes "aoe_kcalloc mem n sz = Some b"
  shows "unat b = unat n * unat sz \<and> unat b < 2 ^ 31"
proof (cases "n = 0")
  case True
  then show ?thesis using assms by (simp add: aoe_kcalloc_def split: if_splits)
next
  case False
  then have "sz \<le> INT_MAX div n" and b: "b = n * sz"
    using assms by (auto simp: aoe_kcalloc_def split: if_splits)
  then have "unat sz \<le> (2 ^ 31 - 1) div unat n"
    by (simp add: word_le_nat_alt unat_div INT_MAX_def)
  then have "unat n * unat sz \<le> unat n * ((2 ^ 31 - 1) div unat n)" by simp
  also have "\<dots> \<le> 2 ^ 31 - 1" by (rule times_div_less_eq_dividend)
  finally have le: "unat n * unat sz \<le> 2 ^ 31 - 1" .
  then have "unat (n * sz) = unat n * unat sz" by (intro unat_mult_lem [THEN iffD1]) simp
  then show ?thesis using b le by simp
qed

section \<open>Resources\<close>

datatype res =
    RRelay | RChrMajor | RClass | RCharDev nat | RBufCache | RDebugfs | RTxThread | RPackType
  | REmptyPage | RIocq | RKts | RKtiowq | RIoThread nat | RBlkMajor

text \<open>\<open>m_bad\<close> is set when something is given back that is not held.\<close>

record modst =
  m_held :: "res set"
  m_bad :: bool
  m_ncpus :: nat
  m_timer :: bool
  m_die :: bool
  m_sent :: nat

definition unloaded :: modst where
  "unloaded = \<lparr>m_held = {}, m_bad = False, m_ncpus = 0, m_timer = False, m_die = False, m_sent = 0\<rparr>"

definition acq :: "res \<Rightarrow> modst \<Rightarrow> modst" where
  "acq r m = m\<lparr>m_held := insert r (m_held m)\<rparr>"

definition rel :: "res \<Rightarrow> modst \<Rightarrow> modst" where
  "rel r m = m\<lparr>m_held := m_held m - {r}, m_bad := (m_bad m \<or> r \<notin> m_held m)\<rparr>"

text \<open>What the kernel answers to each request during initialisation.\<close>

record ienv =
  i_dbg :: bool
  i_relay :: bool
  i_chrdev :: "errno option"
  i_class :: "errno option"
  i_chardev :: "nat \<Rightarrow> bool"
  i_cache :: bool
  i_debugfs :: bool
  i_txthread :: bool
  i_page :: bool
  i_ncpus :: nat
  i_iocq :: bool
  i_kts :: bool
  i_ktiowq :: bool
  i_iothread :: bool
  i_blkdev :: "errno option"

section \<open>The parts\<close>

definition aoedbg_init :: "ienv \<Rightarrow> modst \<Rightarrow> modst" where
  "aoedbg_init e m = (if i_dbg e \<and> i_relay e then acq RRelay m else m)"

definition aoedbg_exit :: "modst \<Rightarrow> modst" where
  "aoedbg_exit m = (if RRelay \<in> m_held m then rel RRelay m else m)"

definition aoedev_init :: "modst \<Rightarrow> errno option \<times> modst" where
  "aoedev_init m = (None, m)"

text \<open>A device file that cannot be made is not missed, and taking it away is harmless.\<close>

definition aoechr_init :: "ienv \<Rightarrow> modst \<Rightarrow> errno option \<times> modst" where
  "aoechr_init e m =
     (case i_chrdev e of
        Some er \<Rightarrow> (Some er, m)
      | None \<Rightarrow>
          let m1 = acq RChrMajor m
          in case i_class e of
               Some er \<Rightarrow> (Some er, rel RChrMajor m1)
             | None \<Rightarrow>
                 (None, fold (\<lambda>c m. if i_chardev e (fst c) then acq (RCharDev (fst c)) m else m) chardevs
                    (acq RClass m1)))"

definition aoechr_exit :: "modst \<Rightarrow> modst" where
  "aoechr_exit m =
     rel RChrMajor (rel RClass
       (fold (\<lambda>c m. if RCharDev (fst c) \<in> m_held m then rel (RCharDev (fst c)) m else m) chardevs m))"

definition aoeblk_init :: "ienv \<Rightarrow> modst \<Rightarrow> errno option \<times> modst" where
  "aoeblk_init e m =
     (if \<not> i_cache e then (Some ENOMEM, m)
      else (None, (if i_debugfs e then acq RDebugfs else (\<lambda>m. m)) (acq RBufCache m)))"

definition aoeblk_exit :: "modst \<Rightarrow> modst" where
  "aoeblk_exit m = rel RBufCache (if RDebugfs \<in> m_held m then rel RDebugfs m else m)"

definition aoenet_init :: "ienv \<Rightarrow> modst \<Rightarrow> errno option \<times> modst" where
  "aoenet_init e m =
     (if \<not> i_txthread e then (Some EAGAIN, m) else (None, acq RPackType (acq RTxThread m)))"

definition aoenet_exit :: "modst \<Rightarrow> modst" where
  "aoenet_exit m = rel RPackType (rel RTxThread m)"

definition aoecmd_init :: "ienv \<Rightarrow> modst \<Rightarrow> errno option \<times> modst" where
  "aoecmd_init e m =
     (if \<not> i_page e then (Some ENOMEM, m)
      else
        let m1 = (acq REmptyPage m)\<lparr>m_ncpus := i_ncpus e\<rparr>
        in if \<not> i_iocq e then (Some ENOMEM, m1)
           else let m2 = acq RIocq m1
           in if \<not> i_kts e then (Some ENOMEM, rel RIocq m2)
           else let m3 = acq RKts m2
           in if \<not> i_ktiowq e then (Some ENOMEM, rel RIocq (rel RKts m3))
           else let m4 = acq RKtiowq m3
           in if \<not> i_iothread e then (Some ENOMEM, rel RIocq (rel RKts (rel RKtiowq m4)))
           else (None, acq (RIoThread 0) m4))"

definition aoecmd_exit :: "modst \<Rightarrow> modst" where
  "aoecmd_exit m =
     rel REmptyPage (rel RKtiowq (rel RKts (rel RIocq
       (fold (\<lambda>i m. if RIoThread i \<in> m_held m then rel (RIoThread i) m else m) [0..<m_ncpus m] m))))"

section \<open>The discover timer\<close>

datatype dcmd = TINIT | TRUN | TKILL

text \<open>\<open>discover_timer\<close>; the first case falls through to the second.  The part with the lock held
  arms the timer unless it is to die; the broadcast of the query is counted in \<open>m_sent\<close>.\<close>

definition discover_locked :: "modst \<Rightarrow> modst" where
  "discover_locked m = (if m_die m then m else m\<lparr>m_timer := True\<rparr>)"

definition discover_send :: "modst \<Rightarrow> modst" where
  "discover_send m = m\<lparr>m_sent := m_sent m + 1\<rparr>"

definition discover_die :: "modst \<Rightarrow> modst" where
  "discover_die m = m\<lparr>m_die := True\<rparr>"

definition discover_del :: "modst \<Rightarrow> modst" where
  "discover_del m = m\<lparr>m_timer := False\<rparr>"

definition discover_timer :: "dcmd \<Rightarrow> modst \<Rightarrow> modst" where
  "discover_timer c m =
     (case c of
        TINIT \<Rightarrow> discover_send (discover_locked (m\<lparr>m_timer := False, m_die := False\<rparr>))
      | TRUN \<Rightarrow> discover_send (discover_locked m)
      | TKILL \<Rightarrow> discover_del (discover_die m))"

text \<open>
  The timer beside \<open>aoe_exit\<close>: it fires, and its handler goes through the part with the lock and then
  sends; \<open>TKILL\<close> sets the flag and then calls \<open>del_timer_sync\<close>, which waits for a running handler.
\<close>

datatype dphase = DIdle | DFired | DLocked
datatype dkill = DLive | DMarked | DGone

inductive dt_reach :: "modst \<Rightarrow> dphase \<Rightarrow> dkill \<Rightarrow> bool" where
  dt_start: "dt_reach (discover_timer TINIT m) DIdle DLive"
| dt_fire: "dt_reach m DIdle k \<Longrightarrow> m_timer m \<Longrightarrow> dt_reach (m\<lparr>m_timer := False\<rparr>) DFired k"
| dt_lock: "dt_reach m DFired k \<Longrightarrow> dt_reach (discover_locked m) DLocked k"
| dt_send: "dt_reach m DLocked k \<Longrightarrow> dt_reach (discover_send m) DIdle k"
| dt_mark: "dt_reach m p DLive \<Longrightarrow> dt_reach (discover_die m) p DMarked"
| dt_del: "dt_reach m DIdle DMarked \<Longrightarrow> dt_reach (discover_del m) DIdle DGone"

section \<open>The module\<close>

text \<open>\<open>aoedev_exit\<close>, called between \<open>aoechr_exit\<close> and \<open>aoeblk_exit\<close>, flushes the devices; it takes and gives back no
  resource of the module, and its effect on the devices is in \<open>Devlist\<close> and \<open>Whole\<close>.\<close>

definition aoe_exit :: "modst \<Rightarrow> modst" where
  "aoe_exit m =
     aoedbg_exit (aoeblk_exit (aoechr_exit (aoecmd_exit (rel RBlkMajor (aoenet_exit (discover_timer TKILL m))))))"

definition aoe_init :: "ienv \<Rightarrow> modst \<Rightarrow> errno option \<times> modst" where
  "aoe_init e m =
     (case aoedev_init (aoedbg_init e m) of
        (Some er, m1) \<Rightarrow> (Some er, m1)
      | (None, m1) \<Rightarrow>
     (case aoechr_init e m1 of
        (Some er, m2) \<Rightarrow> (Some er, m2)
      | (None, m2) \<Rightarrow>
     (case aoeblk_init e m2 of
        (Some er, m3) \<Rightarrow> (Some er, aoechr_exit m3)
      | (None, m3) \<Rightarrow>
     (case aoenet_init e m3 of
        (Some er, m4) \<Rightarrow> (Some er, aoechr_exit (aoeblk_exit m4))
      | (None, m4) \<Rightarrow>
     (case aoecmd_init e m4 of
        (Some er, m5) \<Rightarrow> (Some er, aoechr_exit (aoeblk_exit (aoenet_exit m5)))
      | (None, m5) \<Rightarrow>
     (case i_blkdev e of
        Some er \<Rightarrow> (Some er, aoechr_exit (aoeblk_exit (aoenet_exit (aoecmd_exit m5))))
      | None \<Rightarrow> (None, discover_timer TINIT (acq RBlkMajor m5))))))))"

section \<open>Properties\<close>

lemma fold_acq:
  "fold (\<lambda>x m. if P x then acq (g x) m else m) xs m = m\<lparr>m_held := m_held m \<union> g ` {x \<in> set xs. P x}\<rparr>"
proof (induction xs arbitrary: m)
  case (Cons x xs)
  have "g ` {y \<in> set (x # xs). P y} = (if P x then {g x} else {}) \<union> g ` {y \<in> set xs. P y}" by auto
  then show ?case using Cons by (auto simp: acq_def)
qed simp

lemma fold_rel:
  "fold (\<lambda>x m. if g x \<in> m_held m then rel (g x) m else m) xs m = m\<lparr>m_held := m_held m - g ` set xs\<rparr>"
proof (induction xs arbitrary: m)
  case (Cons x xs)
  have "m_held m - {g x} - g ` set xs = m_held m - g ` set (x # xs)"
    "g x \<notin> m_held m \<Longrightarrow> m_held m - g ` set xs = m_held m - g ` set (x # xs)" by auto
  then show ?case using Cons by (simp add: rel_def)
qed simp

definition chr_all :: "res set" where
  "chr_all = (\<lambda>c. RCharDev (fst c)) ` set chardevs"

definition chr_files :: "ienv \<Rightarrow> res set" where
  "chr_files e = (\<lambda>c. RCharDev (fst c)) ` {c \<in> set chardevs. i_chardev e (fst c)}"

lemma chr_files_iff [simp]: "r \<in> chr_files e \<longleftrightarrow> (\<exists>n. r = RCharDev n \<and> r \<in> chr_all \<and> i_chardev e n)"
  by (auto simp: chr_files_def chr_all_def)

lemma chr_all_not [simp]: "\<forall>n. r \<noteq> RCharDev n \<Longrightarrow> r \<notin> chr_all"
  by (auto simp: chr_all_def)

lemma chr_files_gone [simp]: "chr_files e - chr_all = {}" "insert r A - chr_all = (if r \<in> chr_all then A - chr_all else insert r (A - chr_all))"
  by auto

lemma aoechr_init_eq:
  "aoechr_init e m =
     (case i_chrdev e of
        Some er \<Rightarrow> (Some er, m)
      | None \<Rightarrow>
          (case i_class e of
             Some er \<Rightarrow> (Some er, rel RChrMajor (acq RChrMajor m))
           | None \<Rightarrow> (None, m\<lparr>m_held := m_held m \<union> {RChrMajor, RClass} \<union> chr_files e\<rparr>)))"
  by (simp add: aoechr_init_def Let_def fold_acq [where g = "\<lambda>c. RCharDev (fst c)"] acq_def chr_files_def
      insert_commute split: option.split)

lemma aoechr_exit_eq:
  "aoechr_exit m = m\<lparr>m_held := m_held m - chr_all - {RChrMajor, RClass},
     m_bad := (m_bad m \<or> RClass \<notin> m_held m \<or> RChrMajor \<notin> m_held m)\<rparr>"
  by (rule modst.equality) (auto simp: aoechr_exit_def chr_all_def fold_rel [where g = "\<lambda>c. RCharDev (fst c)"] rel_def)

lemma aoecmd_exit_eq:
  "aoecmd_exit m = m\<lparr>m_held := m_held m - RIoThread ` {0..<m_ncpus m} - {RIocq, RKts, RKtiowq, REmptyPage},
     m_bad := (m_bad m \<or> RIocq \<notin> m_held m \<or> RKts \<notin> m_held m \<or> RKtiowq \<notin> m_held m \<or> REmptyPage \<notin> m_held m)\<rparr>"
  by (rule modst.equality) (auto simp: aoecmd_exit_def fold_rel [where g = RIoThread] rel_def)

definition dbg_res :: "ienv \<Rightarrow> res set" where
  "dbg_res e = (if i_dbg e \<and> i_relay e then {RRelay} else {})"

definition debugfs_res :: "ienv \<Rightarrow> res set" where
  "debugfs_res e = (if i_debugfs e then {RDebugfs} else {})"

lemma res_not [simp]: "r \<noteq> RRelay \<Longrightarrow> r \<notin> dbg_res e" "r \<noteq> RDebugfs \<Longrightarrow> r \<notin> debugfs_res e"
  by (auto simp: dbg_res_def debugfs_res_def)

lemma res_disjoint [simp]: "dbg_res e - chr_all = dbg_res e" "debugfs_res e - chr_all = debugfs_res e"
  by (auto simp: dbg_res_def debugfs_res_def)

lemma res_in [dest!]: "r \<in> dbg_res e \<Longrightarrow> r = RRelay \<and> i_dbg e \<and> i_relay e" "r \<in> debugfs_res e \<Longrightarrow> r = RDebugfs \<and> i_debugfs e"
  by (auto simp: dbg_res_def debugfs_res_def split: if_splits)

lemma res_mem [simp]: "RRelay \<in> dbg_res e \<longleftrightarrow> i_dbg e \<and> i_relay e" "RDebugfs \<in> debugfs_res e \<longleftrightarrow> i_debugfs e"
  by (auto simp: dbg_res_def debugfs_res_def split: if_splits)

lemma aoedbg_eq:
  "aoedbg_init e m = m\<lparr>m_held := m_held m \<union> dbg_res e\<rparr>" "aoedbg_exit m = m\<lparr>m_held := m_held m - {RRelay}\<rparr>"
  by (simp_all add: aoedbg_init_def aoedbg_exit_def dbg_res_def acq_def rel_def)

lemma aoeblk_eq:
  "aoeblk_init e m = (if i_cache e then (None, m\<lparr>m_held := m_held m \<union> {RBufCache} \<union> debugfs_res e\<rparr>) else (Some ENOMEM, m))"
  "aoeblk_exit m = m\<lparr>m_held := m_held m - {RDebugfs, RBufCache}, m_bad := (m_bad m \<or> RBufCache \<notin> m_held m)\<rparr>"
  by (auto simp: aoeblk_init_def aoeblk_exit_def debugfs_res_def acq_def rel_def intro!: modst.equality)

lemma aoenet_eq:
  "aoenet_init e m = (if i_txthread e then (None, m\<lparr>m_held := m_held m \<union> {RTxThread, RPackType}\<rparr>) else (Some EAGAIN, m))"
  "aoenet_exit m = m\<lparr>m_held := m_held m - {RTxThread, RPackType},
     m_bad := (m_bad m \<or> RTxThread \<notin> m_held m \<or> RPackType \<notin> m_held m)\<rparr>"
  by (auto simp: aoenet_init_def aoenet_exit_def acq_def rel_def intro!: modst.equality)

lemma aoecmd_init_eq:
  assumes "m_held m \<inter> {RIocq, RKts, RKtiowq} = {}"
  shows "aoecmd_init e m =
     (if \<not> i_page e then (Some ENOMEM, m)
      else if i_iocq e \<and> i_kts e \<and> i_ktiowq e \<and> i_iothread e then
        (None, m\<lparr>m_held := m_held m \<union> {REmptyPage, RIocq, RKts, RKtiowq, RIoThread 0}, m_ncpus := i_ncpus e\<rparr>)
      else (Some ENOMEM, m\<lparr>m_held := m_held m \<union> {REmptyPage}, m_ncpus := i_ncpus e\<rparr>))"
  using assms by (auto simp: aoecmd_init_def acq_def rel_def Let_def intro!: modst.equality)

lemmas module_eqs = aoedbg_eq aoeblk_eq aoenet_eq aoecmd_init_eq aoecmd_exit_eq aoechr_init_eq aoechr_exit_eq aoedev_init_def

text \<open>C27. When the module cannot be loaded, what was taken is given back in the right order, nothing is
  given back twice and the timer is not armed; except for the page of zeroes, which stays allocated if
  \<open>aoecmd_init\<close> fails after it, and the channel of the debugging support.\<close>

theorem init_failure_unwinds:
  assumes "aoe_init e unloaded = (Some er, m)" and "0 < i_ncpus e"
  shows "m_held m = dbg_res e
      \<union> (if i_chrdev e = None \<and> i_class e = None \<and> i_cache e \<and> i_txthread e \<and> i_page e
            \<and> \<not> (i_iocq e \<and> i_kts e \<and> i_ktiowq e \<and> i_iothread e) then {REmptyPage} else {})
    \<and> \<not> m_bad m \<and> \<not> m_timer m"
proof (cases "i_chrdev e = None \<and> i_class e = None")
  case True
  note d = aoe_init_def module_eqs unloaded_def set_eq_iff
  consider (blk) "\<not> i_cache e" | (net) "i_cache e" "\<not> i_txthread e"
    | (page) "i_cache e" "i_txthread e" "\<not> i_page e"
    | (cmd) "i_cache e" "i_txthread e" "i_page e" "(i_iocq e \<and> i_kts e \<and> i_ktiowq e \<and> i_iothread e) = False"
    | (reg) "i_cache e" "i_txthread e" "i_page e" "i_iocq e" "i_kts e" "i_ktiowq e" "i_iothread e"
    by blast
  then show ?thesis
  proof cases
    case blk
    then show ?thesis using assms True by (auto simp: d)
  next
    case net
    then show ?thesis using assms True by (auto simp: d)
  next
    case page
    then show ?thesis using assms True by (auto simp: d)
  next
    case cmd
    let ?h = "dbg_res e \<union> ({RChrMajor, RClass} \<union> chr_files e) \<union> ({RBufCache} \<union> debugfs_res e) \<union> {RTxThread, RPackType}"
    have "snd (aoe_init e unloaded) = aoechr_exit (aoeblk_exit (aoenet_exit
        (unloaded\<lparr>m_held := ?h \<union> {REmptyPage}, m_ncpus := i_ncpus e\<rparr>)))"
      using True cmd(1-3) by (simp add: aoe_init_def module_eqs unloaded_def cmd(4) Un_assoc)
    then have "m_held m = dbg_res e \<union> {REmptyPage}" "\<not> m_bad m" "\<not> m_timer m"
      unfolding assms(1) by (auto simp: module_eqs unloaded_def)
    then show ?thesis using True cmd by simp
  next
    case reg
    then show ?thesis using assms True by (auto simp: d split: option.splits)
  qed
next
  case False
  then show ?thesis using assms
    by (auto simp: aoe_init_def module_eqs acq_def rel_def unloaded_def split: option.splits if_splits)
qed

text \<open>A machine with two processors on which only one allocation of \<open>aoecmd_init\<close> fails.\<close>

definition ienv0 :: ienv where
  "ienv0 = \<lparr>i_dbg = False, i_relay = True, i_chrdev = None, i_class = None, i_chardev = (\<lambda>_. True), i_cache = True,
     i_debugfs = True, i_txthread = True, i_page = True, i_ncpus = 2, i_iocq = True, i_kts = True, i_ktiowq = True,
     i_iothread = True, i_blkdev = None\<rparr>"

theorem init_failure_unwinds_witness:
  "m_held (snd (aoe_init (ienv0\<lparr>i_iocq := False\<rparr>) unloaded)) = {REmptyPage}
    \<and> m_held (snd (aoe_init (ienv0\<lparr>i_blkdev := Some EINVAL\<rparr>) unloaded)) = {}"
proof -
  have "fst (aoe_init (ienv0\<lparr>i_iocq := False\<rparr>) unloaded) = Some ENOMEM"
    "fst (aoe_init (ienv0\<lparr>i_blkdev := Some EINVAL\<rparr>) unloaded) = Some EINVAL"
    by (simp_all add: aoe_init_def module_eqs unloaded_def ienv0_def)
  then show ?thesis
    using init_failure_unwinds [of "ienv0\<lparr>i_iocq := False\<rparr>" ENOMEM "snd (aoe_init (ienv0\<lparr>i_iocq := False\<rparr>) unloaded)"]
      init_failure_unwinds [of "ienv0\<lparr>i_blkdev := Some EINVAL\<rparr>" EINVAL
        "snd (aoe_init (ienv0\<lparr>i_blkdev := Some EINVAL\<rparr>) unloaded)"]
    by (simp add: prod_eq_iff) (simp add: ienv0_def dbg_res_def)
qed

text \<open>C28. A module that was loaded gives back everything when it is unloaded, whichever threads were
  started in between, and gives nothing back twice; the timer is off.\<close>

theorem init_exit_balanced:
  assumes "aoe_init e unloaded = (None, m)" and "T \<subseteq> {0..<i_ncpus e}" and "0 < i_ncpus e"
  shows "let m' = aoe_exit (m\<lparr>m_held := m_held m \<union> RIoThread ` T\<rparr>)
    in m_held m' = {} \<and> \<not> m_bad m' \<and> \<not> m_timer m' \<and> m_die m'"
proof -
  have ok: "i_chrdev e = None" "i_class e = None" "i_cache e" "i_txthread e" "i_page e" "i_iocq e" "i_kts e"
      "i_ktiowq e" "i_iothread e" "i_blkdev e = None"
    using assms(1) by (auto simp: aoe_init_def module_eqs unloaded_def split: option.splits if_splits)
  let ?h = "dbg_res e \<union> ({RChrMajor, RClass} \<union> chr_files e) \<union> ({RBufCache} \<union> debugfs_res e) \<union> {RTxThread, RPackType}
    \<union> {REmptyPage, RIocq, RKts, RKtiowq, RIoThread 0} \<union> {RBlkMajor}"
  have "snd (aoe_init e unloaded) = unloaded\<lparr>m_held := ?h, m_ncpus := i_ncpus e, m_timer := True, m_sent := 1\<rparr>"
    using ok by (auto simp: aoe_init_def module_eqs unloaded_def acq_def discover_timer_def discover_locked_def
        discover_send_def intro!: modst.equality)
  then have m: "m = unloaded\<lparr>m_held := ?h, m_ncpus := i_ncpus e, m_timer := True, m_sent := 1\<rparr>" using assms(1) by simp
  have T: "RIoThread ` T \<subseteq> RIoThread ` {0..<i_ncpus e}" "RIoThread 0 \<in> RIoThread ` {0..<i_ncpus e}"
    using assms(2,3) by auto
  show ?thesis
    using T unfolding m
    by (auto simp: aoe_exit_def module_eqs rel_def unloaded_def discover_timer_def discover_del_def discover_die_def Let_def)
qed

theorem init_exit_balanced_witness:
  "m_held (aoe_exit ((snd (aoe_init ienv0 unloaded))\<lparr>m_held := m_held (snd (aoe_init ienv0 unloaded)) \<union> RIoThread ` {1}\<rparr>)) = {}"
proof -
  have "fst (aoe_init ienv0 unloaded) = None"
    by (simp add: aoe_init_def module_eqs unloaded_def ienv0_def)
  then show ?thesis
    using init_exit_balanced [of ienv0 "snd (aoe_init ienv0 unloaded)" "{1}"]
    by (simp add: prod_eq_iff Let_def) (simp add: ienv0_def)
qed

lemma dt_reach_inv:
  "dt_reach m p k \<Longrightarrow> (k = DLive \<longleftrightarrow> \<not> m_die m) \<and> (k = DGone \<longrightarrow> p = DIdle \<and> \<not> m_timer m)"
  by (induction rule: dt_reach.induct)
    (auto simp: discover_timer_def discover_locked_def discover_send_def discover_die_def discover_del_def)

text \<open>However the timer and the unloading interleave, once \<open>TKILL\<close> has returned no handler runs
  and the timer is not armed, and so it stays; and until \<open>TKILL\<close> begins the query is repeated: the timer
  is armed whenever its handler does not run.\<close>

theorem discover_timer_dies:
  assumes "dt_reach m p k"
  shows "(k = DGone \<longrightarrow> p = DIdle \<and> \<not> m_timer m) \<and> (k = DLive \<and> p \<noteq> DFired \<longrightarrow> m_timer m)"
  using assms
  by (induction rule: dt_reach.induct)
    (auto simp: discover_timer_def discover_locked_def discover_send_def discover_die_def discover_del_def dest: dt_reach_inv)

theorem discover_timer_dies_witness:
  "\<not> m_timer (discover_del (discover_send (discover_locked (discover_die ((discover_timer TINIT unloaded)\<lparr>m_timer := False\<rparr>)))))"
proof -
  have "dt_reach ((discover_timer TINIT unloaded)\<lparr>m_timer := False\<rparr>) DFired DLive"
    by (rule dt_fire [OF dt_start]) (simp add: discover_timer_def discover_locked_def discover_send_def)
  from dt_del [OF dt_send [OF dt_lock [OF dt_mark [OF this]]]] show ?thesis using discover_timer_dies by blast
qed

end
