(* ===== verification/Sancheck.thy ===== *)
theory Sancheck
  imports Wire
begin

text \<open>
  \<open>aoe-sancheck\<close> (\<open>aoetools-36/aoe-sancheck.c\<close>): every interface asks for devices, sends each device it
  hears of identify commands of every payload size, and notes the largest answered; then a summary is
  printed for each device.  The state is the interfaces with the devices each one saw (\<open>luns\<close>), the list
  of devices over all interfaces and the counter of \<open>findlun\<close>.  Sockets are not modelled: a packet that
  was read is an input, what is written is an output.
\<close>

section \<open>Bytes\<close>

definition hnputl :: "u64 \<Rightarrow> u8 list" where
  "hnputl n = [ucast (drop_bit 24 n), ucast (drop_bit 16 n), ucast (drop_bit 8 n), ucast n]"

definition hnputs :: "u16 \<Rightarrow> u8 list" where
  "hnputs s = [ucast (drop_bit 8 s), ucast s]"

definition nhgets :: "u8 list \<Rightarrow> u16" where
  "nhgets p = push_bit 8 (ucast (p ! 0)) + ucast (p ! 1)"

definition nhgetl :: "u8 list \<Rightarrow> u64" where
  "nhgetl p = push_bit 8 (push_bit 8 (push_bit 8 (ucast (p ! 0)) + ucast (p ! 1)) + ucast (p ! 2)) + ucast (p ! 3)"

definition hexdigit :: "u8 \<Rightarrow> char" where
  "hexdigit n = ''0123456789abcdef'' ! unat (n AND 0xf)"

definition cea :: "u8 list \<Rightarrow> string" where
  "cea ea = concat (map (\<lambda>b. [hexdigit (drop_bit 4 b), hexdigit b]) (take 6 ea))"

text \<open>The sign of \<open>memcmp\<close>.\<close>

fun memcmp :: "u8 list \<Rightarrow> u8 list \<Rightarrow> int" where
  "memcmp (a # as) (b # bs) = (if a < b then - 1 else if b < a then 1 else memcmp as bs)"
| "memcmp as bs = 0"

section \<open>State\<close>

datatype lstate = Lnew | Lprobe

record lun =
  l_state :: lstate
  l_ea :: "u8 list"
  l_major :: int
  l_minor :: int
  l_nsect :: int
  l_maxsect :: int
  l_id :: u32

text \<open>\<open>n_pkt\<close> is the buffer of the interface, 16 KB, for what it sends and what it reads.\<close>

record eth =
  n_luns :: "lun list"
  n_name :: string
  n_ea :: "u8 list"
  n_mtu :: int
  n_up :: bool
  n_pkt :: "u8 list"

record san =
  z_eth :: "eth list"
  z_id :: u32
  z_targlist :: "(int \<times> int) list"

section \<open>Lists\<close>

text \<open>\<open>inserttarg\<close>: the head is compared first; the loop looks at the rest.\<close>

definition targ_less :: "int \<times> int \<Rightarrow> int \<times> int \<Rightarrow> bool" where
  "targ_less a b \<longleftrightarrow> fst a < fst b \<or> fst a = fst b \<and> snd a < snd b"

fun targ_loop :: "int \<times> int \<Rightarrow> (int \<times> int) list \<Rightarrow> (int \<times> int) list" where
  "targ_loop nt [] = [nt]"
| "targ_loop nt (t # ts) =
     (if fst nt = fst t \<and> snd nt = snd t then t # ts
      else if targ_less nt t then nt # t # ts
      else t # targ_loop nt ts)"

fun inserttarg :: "int \<times> int \<Rightarrow> (int \<times> int) list \<Rightarrow> (int \<times> int) list" where
  "inserttarg nt [] = [nt]"
| "inserttarg nt (t # ts) =
     (if targ_less nt t then nt # t # ts
      else if fst nt = fst t \<and> snd nt = snd t then t # ts
      else t # targ_loop nt ts)"

fun insertmac :: "u8 list \<Rightarrow> u8 list list \<Rightarrow> u8 list list" where
  "insertmac m [] = [m]"
| "insertmac m (p # ps) = (if memcmp p m = 0 then p # ps else p # insertmac m ps)"

text \<open>The walk of \<open>findlun\<close>: the place where it stops, and whether it found the device.  Devices are
  in descending order of shelf and slot and in ascending order of their address.\<close>

fun lun_scan :: "int \<Rightarrow> int \<Rightarrow> u8 list \<Rightarrow> nat \<Rightarrow> lun list \<Rightarrow> nat \<times> bool" where
  "lun_scan maj mi src i [] = (i, False)"
| "lun_scan maj mi src i (p # ps) =
     (if maj < l_major p then lun_scan maj mi src (Suc i) ps
      else if maj > l_major p then (i, False)
      else if mi < l_minor p then lun_scan maj mi src (Suc i) ps
      else if mi > l_minor p then (i, False)
      else if memcmp (l_ea p) src < 0 then lun_scan maj mi src (Suc i) ps
      else if memcmp (l_ea p) src > 0 then (i, False)
      else (i, True))"

section \<open>Packets\<close>

definition Cata :: u8 where "Cata = 0"
definition Cqc :: u8 where "Cqc = 1"
definition ETaoe :: u16 where "ETaoe = 0x88a2"
definition Arsp :: u8 where "Arsp = 8"
definition Aerr :: u8 where "Aerr = 4"

text \<open>The header of a packet in the buffer.\<close>

definition a_src :: "u8 list \<Rightarrow> u8 list" where "a_src p = take 6 (drop 6 p)"
definition a_flags :: "u8 list \<Rightarrow> u8" where "a_flags p = p ! 14"
definition a_major :: "u8 list \<Rightarrow> int" where "a_major p = uint (nhgets (drop 16 p))"
definition a_minor :: "u8 list \<Rightarrow> int" where "a_minor p = uint (p ! 18)"
definition a_cmd :: "u8 list \<Rightarrow> u8" where "a_cmd p = p ! 19"
definition a_tag :: "u8 list \<Rightarrow> u64" where "a_tag p = nhgetl (drop 20 p)"
definition q_scnt :: "u8 list \<Rightarrow> u8" where "q_scnt p = p ! 28"

definition pkt_size :: nat where "pkt_size = 16 * 1024"

text \<open>The query of \<open>discover\<close>, as it stands in the buffer, and what is written of it: the 32 bytes of
  the two headers are extended to 60.\<close>

definition discover_pkt :: "eth \<Rightarrow> u8 list" where
  "discover_pkt e =
     replicate 6 0xff @ n_ea e @ hnputs ETaoe @ [0x10, 0] @ hnputs 0xffff @ [0xff, Cqc] @ hnputl (2 ^ 31)
       @ replicate (pkt_size - 24) 0"

definition san_discover :: "eth \<Rightarrow> u8 list \<times> eth" where
  "san_discover e = (take 60 (discover_pkt e), e\<lparr>n_pkt := discover_pkt e\<rparr>)"

text \<open>The identify command of \<open>jprobe\<close> with a payload of \<open>k\<close> sectors.\<close>

definition probe_pkt :: "eth \<Rightarrow> lun \<Rightarrow> nat \<Rightarrow> u8 list" where
  "probe_pkt e l k =
     l_ea l @ n_ea e @ hnputs ETaoe @ [0x10, 0] @ hnputs (word_of_int (l_major l)) @ [word_of_int (l_minor l), 0]
       @ take 3 (hnputl (ucast (push_bit 16 (l_id l)))) @ [of_nat k]
       @ [0, 0, 1, 0xec] @ replicate (pkt_size - 28) 0"

text \<open>The loop of \<open>jprobe\<close>, from the largest multiple of 512 that fits down to 512.\<close>

fun probe_loop :: "eth \<Rightarrow> lun \<Rightarrow> nat \<Rightarrow> u8 list list" where
  "probe_loop e l 0 = []"
| "probe_loop e l (Suc k) = take (36 + 512 * Suc k) (probe_pkt e l (Suc k)) # probe_loop e l k"

definition probe_sects :: "int \<Rightarrow> nat" where
  "probe_sects mtu = nat ((mtu - 36) div 512)"

definition jprobe :: "eth \<Rightarrow> lun \<Rightarrow> u8 list list \<times> eth" where
  "jprobe e l =
     (let k = probe_sects (n_mtu e)
      in (probe_loop e l k, e\<lparr>n_pkt := probe_pkt e l (if k = 0 then 0 else 1)\<rparr>))"

section \<open>Input\<close>

definition findlun :: "nat \<Rightarrow> san \<Rightarrow> nat option \<times> san" where
  "findlun i z =
     (let e = z_eth z ! i; a = n_pkt e
      in case lun_scan (a_major a) (a_minor a) (a_src a) 0 (n_luns e) of
           (j, True) \<Rightarrow> (Some j, z)
         | (j, False) \<Rightarrow>
             if a_cmd a = Cata then (None, z)
             else
               let p = \<lparr>l_state = Lnew, l_ea = a_src a, l_major = a_major a, l_minor = a_minor a, l_nsect = 0,
                        l_maxsect = 0, l_id = 0x8000 OR z_id z\<rparr>
               in (Some j, z\<lparr>z_eth := (z_eth z)[i := e\<lparr>n_luns := take j (n_luns e) @ p # drop j (n_luns e)\<rparr>],
                     z_id := z_id z + 1, z_targlist := inserttarg (l_major p, l_minor p) (z_targlist z)\<rparr>))"

definition upd_lun :: "nat \<Rightarrow> nat \<Rightarrow> (lun \<Rightarrow> lun) \<Rightarrow> san \<Rightarrow> san" where
  "upd_lun i j g z =
     (let e = z_eth z ! i
      in z\<lparr>z_eth := (z_eth z)[i := e\<lparr>n_luns := (n_luns e)[j := g (n_luns e ! j)]\<rparr>]\<rparr>)"

definition lun_at :: "nat \<Rightarrow> nat \<Rightarrow> san \<Rightarrow> lun" where
  "lun_at i j z = n_luns (z_eth z ! i) ! j"

text \<open>\<open>jinput\<close> on the packet in the buffer of interface \<open>i\<close>: the packets it sends, whether the input
  was useful, and the state.\<close>

definition jinput :: "nat \<Rightarrow> san \<Rightarrow> u8 list list \<times> bool \<times> san" where
  "jinput i z =
     (let a = n_pkt (z_eth z ! i); tag = a_tag a
      in if a_flags a AND (Arsp OR Aerr) \<noteq> Arsp then ([], False, z)
         else if (a ! 20) AND 0x80 = 0 then ([], False, z)
         else if a_cmd a = Cqc then
           (case findlun i z of
              (None, z1) \<Rightarrow> ([], False, z1)
            | (Some j, z1) \<Rightarrow>
                if l_state (lun_at i j z1) = Lnew then
                  let z2 = upd_lun i j (\<lambda>l. l\<lparr>l_nsect := uint (q_scnt a)\<rparr>) z1;
                      (sent, e) = jprobe (z_eth z2 ! i) (lun_at i j z2)
                  in (sent, True, upd_lun i j (\<lambda>l. l\<lparr>l_state := Lprobe\<rparr>) (z2\<lparr>z_eth := (z_eth z2)[i := e]\<rparr>))
                else ([], False, z1))
         else if a_cmd a = Cata then
           (case findlun i z of
              (None, z1) \<Rightarrow> ([], False, z1)
            | (Some j, z1) \<Rightarrow>
                if uint (l_id (lun_at i j z1)) \<noteq> uint (drop_bit 16 tag) then ([], False, z1)
                else
                  let n = uint (tag AND 0xff)
                  in ([], True, upd_lun i j (\<lambda>l. if n > l_maxsect l then l\<lparr>l_maxsect := n\<rparr> else l) z1))
         else ([], False, z))"

text \<open>A packet of the network is read over the start of the buffer; what it does not reach stays.\<close>

definition read_pkt :: "nat \<Rightarrow> u8 list \<Rightarrow> san \<Rightarrow> san" where
  "read_pkt i bs z =
     (let e = z_eth z ! i; p = take pkt_size bs
      in z\<lparr>z_eth := (z_eth z)[i := e\<lparr>n_pkt := p @ drop (length p) (n_pkt e)\<rparr>]\<rparr>)"

definition jcheck_input :: "nat \<times> u8 list \<Rightarrow> san \<Rightarrow> san" where
  "jcheck_input x z =
     (case x of (i, bs) \<Rightarrow>
        if i < length (z_eth z) \<and> bs \<noteq> [] then (case jinput i (read_pkt i bs z) of (_, _, z1) \<Rightarrow> z1) else z)"

section \<open>The summary of a device\<close>

text \<open>The quotient of C, towards zero.\<close>

definition cdiv :: "int \<Rightarrow> int \<Rightarrow> int" where
  "cdiv a b = (if 0 \<le> a then a div b else - ((- a) div b))"

text \<open>
  The variables of \<open>sancheck\<close>.  \<open>sc_writes\<close> are the calls of \<open>snprintf\<close> into the buffer of 128 bytes: the
  offset, the size given, which is computed in the unsigned type of \<open>sizeof\<close>, and the text.
\<close>

record sct =
  sc_mtu :: int
  sc_ml :: "u8 list list"
  sc_ps :: int
  sc_nsect :: int
  sc_a :: int
  sc_nloc :: int
  sc_writes :: "(int \<times> u64 \<times> string) list"

definition sct0 :: sct where
  "sct0 = \<lparr>sc_mtu = 0, sc_ml = [], sc_ps = 0, sc_nsect = 0, sc_a = 0, sc_nloc = 0, sc_writes = []\<rparr>"

definition is_dev :: "int \<Rightarrow> int \<Rightarrow> lun \<Rightarrow> bool" where
  "is_dev maj mi l \<longleftrightarrow> l_major l = maj \<and> l_minor l = mi"

definition sc_lun :: "eth \<Rightarrow> lun \<Rightarrow> sct \<Rightarrow> sct" where
  "sc_lun e l c =
     c\<lparr>sc_mtu := (if sc_mtu c = 0 then n_mtu e else if sc_mtu c \<noteq> n_mtu e then max (n_mtu e) (sc_mtu c) else sc_mtu c),
       sc_ml := insertmac (l_ea l) (sc_ml c),
       sc_ps := (if sc_ps c = 0 then l_maxsect l else min (l_maxsect l) (sc_ps c)),
       sc_nsect := l_nsect l\<rparr>"

definition sc_name :: "eth \<Rightarrow> sct \<Rightarrow> sct" where
  "sc_name e c =
     c\<lparr>sc_writes := sc_writes c @ [(sc_a c, 128 - word_of_int (sc_a c), (if sc_a c \<noteq> 0 then '','' else []) @ n_name e)],
       sc_a := sc_a c + int (length (n_name e)) + (if sc_a c \<noteq> 0 then 1 else 0),
       sc_nloc := sc_nloc c + 1\<rparr>"

definition sc_eth :: "int \<Rightarrow> int \<Rightarrow> eth \<Rightarrow> sct \<Rightarrow> sct" where
  "sc_eth maj mi e c =
     (let ls = filter (is_dev maj mi) (n_luns e); c1 = fold (sc_lun e) ls c
      in if ls \<noteq> [] then sc_name e c1 else c1)"

datatype report =
    RDevice int int int int "(int \<times> u64 \<times> string) list"
  | RMismatch
  | RPath string string int
  | RMtu string int
  | RMtuDiff string int int

definition sc_second :: "int \<Rightarrow> int \<Rightarrow> sct \<Rightarrow> eth \<Rightarrow> report list" where
  "sc_second maj mi c e =
     (let ls = filter (is_dev maj mi) (n_luns e)
      in concat (map (\<lambda>l. if l_maxsect l < cdiv (n_mtu e - 32) 512
             then [RPath (n_name e) (cea (l_ea l)) (l_maxsect l * 512)] else []) ls)
         @ (if ls \<noteq> [] then
              (if n_mtu e < sc_nsect c * 512 + 36 then [RMtu (n_name e) (n_mtu e)] else [])
              @ (if n_mtu e < sc_mtu c then [RMtuDiff (n_name e) (n_mtu e) (sc_mtu c)] else [])
            else []))"

definition sancheck :: "int \<Rightarrow> int \<Rightarrow> eth list \<Rightarrow> report list" where
  "sancheck maj mi es =
     (let c = fold (sc_eth maj mi) es sct0; nea = int (length (sc_ml c))
      in [RDevice maj mi nea (sc_nsect c * 512) (sc_writes c)]
         @ (if nea \<noteq> sc_nloc c then [RMismatch] else [])
         @ concat (map (sc_second maj mi c) es))"

definition printsancheck :: "san \<Rightarrow> report list" where
  "printsancheck z = concat (map (\<lambda>(maj, mi). sancheck maj mi (z_eth z)) (z_targlist z))"

section \<open>The interfaces\<close>

text \<open>The sign of \<open>strcmp\<close>.\<close>

fun strcmp :: "string \<Rightarrow> string \<Rightarrow> int" where
  "strcmp [] [] = 0"
| "strcmp [] (b # bs) = - 1"
| "strcmp (a # as) [] = 1"
| "strcmp (a # as) (b # bs) =
     (if of_char a < (of_char b :: nat) then - 1 else if (of_char b :: nat) < of_char a then 1 else strcmp as bs)"

text \<open>The names are in the front of an array; the loop that moves them up does not look at the end of
  the array, so the result is \<open>None\<close> where it would write behind it.\<close>

fun shift_eth :: "string \<Rightarrow> string option list \<Rightarrow> string option list option" where
  "shift_eth a [] = None"
| "shift_eth a (None # xs) = Some (Some a # xs)"
| "shift_eth a (Some b # xs) = map_option (Cons (Some a)) (shift_eth b xs)"

fun inserteth :: "string \<Rightarrow> string option list \<Rightarrow> string option list option" where
  "inserteth n [] = Some []"
| "inserteth n (None # xs) = Some (Some n # xs)"
| "inserteth n (Some b # xs) =
     (if strcmp n b < 0 then shift_eth n (Some b # xs)
      else if strcmp n b = 0 then Some (Some b # xs)
      else map_option (Cons (Some b)) (inserteth n xs))"

text \<open>\<open>ethlist\<close>: \<open>ifname i\<close> is the answer to \<open>SIOCGIFNAME\<close> for index \<open>i\<close>.\<close>

fun ethlist_loop :: "(nat \<Rightarrow> string option) \<Rightarrow> nat list \<Rightarrow> nat \<Rightarrow> string option list \<Rightarrow> (nat \<times> string option list) option" where
  "ethlist_loop ifname [] n ifs = Some (n, ifs)"
| "ethlist_loop ifname (i # is) n ifs =
     (case ifname i of
        None \<Rightarrow> ethlist_loop ifname is n ifs
      | Some nm \<Rightarrow>
          if take 3 nm \<noteq> ''eth'' then ethlist_loop ifname is n ifs
          else
            (case inserteth nm ifs of
               None \<Rightarrow> None
             | Some ifs' \<Rightarrow> ethlist_loop ifname is (n + 1) ifs'))"

definition ethlist :: "(nat \<Rightarrow> string option) \<Rightarrow> nat \<Rightarrow> (nat \<times> string option list) option" where
  "ethlist ifname nifs = ethlist_loop ifname [0..<nifs] 0 (replicate nifs None)"

section \<open>The order of the lists\<close>

lemma memcmp_eq: "length a = length b \<Longrightarrow> memcmp a b = 0 \<longleftrightarrow> a = b"
  by (induction a b rule: memcmp.induct) auto

lemma memcmp_swap: "memcmp b a = - memcmp a b"
  by (induction a b rule: memcmp.induct) auto

lemma memcmp_trans: "memcmp a b < 0 \<Longrightarrow> memcmp b c < 0 \<Longrightarrow> length a = length c \<Longrightarrow> memcmp a c < 0"
proof (induction a b arbitrary: c rule: memcmp.induct)
  case (1 x xs y ys)
  then show ?case by (cases c) (auto split: if_splits)
qed auto

definition lun_key :: "lun \<Rightarrow> int \<times> int \<times> u8 list" where
  "lun_key l = (l_major l, l_minor l, l_ea l)"

fun key_before :: "int \<times> int \<times> u8 list \<Rightarrow> int \<times> int \<times> u8 list \<Rightarrow> bool" where
  "key_before (a, b, m) (a', b', m') \<longleftrightarrow> a' < a \<or> a = a' \<and> (b' < b \<or> b = b' \<and> memcmp m m' < 0)"

definition key_wf :: "int \<times> int \<times> u8 list \<Rightarrow> bool" where
  "key_wf k \<longleftrightarrow> length (snd (snd k)) = 6"

lemma key_trans: "key_before x y \<Longrightarrow> key_before y z \<Longrightarrow> key_wf x \<Longrightarrow> key_wf z \<Longrightarrow> key_before x z"
  by (cases x; cases y; cases z) (auto simp: key_wf_def dest: memcmp_trans)

lemma lun_scan_spec:
  assumes "lun_scan maj mi src i ls = (j, b)" "length src = 6" "\<forall>l\<in>set ls. key_wf (lun_key l)"
  shows "\<exists>us vs. ls = us @ vs \<and> j = i + length us \<and> (\<forall>u\<in>set us. key_before (lun_key u) (maj, mi, src))
    \<and> (if b then vs \<noteq> [] \<and> lun_key (hd vs) = (maj, mi, src)
       else vs = [] \<or> key_before (maj, mi, src) (lun_key (hd vs)))"
  using assms
proof (induction ls arbitrary: i)
  case Nil
  then show ?case by simp
next
  case (Cons p ps)
  let ?k = "(maj, mi, src)"
  have len: "length (l_ea p) = length src" using Cons.prems by (simp add: key_wf_def lun_key_def)
  show ?case
  proof (cases "key_before (lun_key p) ?k")
    case True
    then have "lun_scan maj mi src i (p # ps) = lun_scan maj mi src (Suc i) ps"
      by (auto simp: lun_key_def)
    then obtain us vs where u: "ps = us @ vs" "j = Suc i + length us" "\<forall>u\<in>set us. key_before (lun_key u) ?k"
      "if b then vs \<noteq> [] \<and> lun_key (hd vs) = ?k else vs = [] \<or> key_before ?k (lun_key (hd vs))"
      using Cons.IH [of "Suc i"] Cons.prems by auto
    show ?thesis by (rule exI [of _ "p # us"], rule exI [of _ vs]) (use True u in auto)
  next
    case False
    have "j = i \<and> (if b then lun_key p = ?k else key_before ?k (lun_key p))"
      using False Cons.prems(1) memcmp_eq [OF len] memcmp_swap [of src "l_ea p"]
      by (auto simp: lun_key_def split: if_splits)
    then show ?thesis by (intro exI [of _ "[]"] exI [of _ "p # ps"]) simp
  qed
qed

definition luns_sorted :: "lun list \<Rightarrow> bool" where
  "luns_sorted ls \<longleftrightarrow> sorted_wrt key_before (map lun_key ls)"

lemma sorted_insert_mid:
  assumes "sorted_wrt key_before (us @ vs)" "\<forall>u\<in>set us. key_before u k" "vs = [] \<or> key_before k (hd vs)"
    and "key_wf k" "\<forall>v\<in>set vs. key_wf v"
  shows "sorted_wrt key_before (us @ k # vs)"
proof -
  have "key_before k v" if "v \<in> set vs" for v
  proof (cases vs)
    case (Cons w ws)
    then show ?thesis
      using assms that key_trans [of k w v] by (auto simp: sorted_wrt_append)
  qed (use that in simp)
  then show ?thesis using assms by (auto simp: sorted_wrt_append)
qed

lemma targ_loop_spec:
  "sorted_wrt targ_less ts \<Longrightarrow> sorted_wrt targ_less (targ_loop nt ts) \<and> set (targ_loop nt ts) = insert nt (set ts)"
proof (induction ts)
  case (Cons t ts)
  then show ?case by (auto simp: targ_less_def prod_eq_iff)
qed simp

lemma inserttarg_loop: "inserttarg nt ts = targ_loop nt ts"
  by (cases ts) (auto simp: targ_less_def)

lemmas inserttarg_spec = targ_loop_spec [folded inserttarg_loop]

lemma UN_update:
  "i < length xs \<Longrightarrow> (\<Union>x\<in>set (xs[i := y]). f x) = (\<Union>x\<in>set (take i xs) \<union> set (drop (Suc i) xs). f x) \<union> f y"
  by (auto simp: upd_conv_take_nth_drop)

lemma UN_nth:
  "i < length xs \<Longrightarrow> (\<Union>x\<in>set xs. f x) = (\<Union>x\<in>set (take i xs) \<union> set (drop (Suc i) xs). f x) \<union> f (xs ! i)"
  using UN_update [of i xs f "xs ! i"] by simp

text \<open>What a list used as a set promises: insertion keeps its invariant and adds one element, if it is
  of the kind the list is for.  The target list and the list of remote addresses are such lists.\<close>

locale list_set =
  fixes ins :: "'a \<Rightarrow> 'a list \<Rightarrow> 'a list" and invar :: "'a list \<Rightarrow> bool" and ok :: "'a \<Rightarrow> bool"
  assumes invar_Nil: "invar []"
    and invar_distinct: "invar xs \<Longrightarrow> distinct xs"
    and invar_ins: "invar xs \<Longrightarrow> \<forall>x\<in>set xs. ok x \<Longrightarrow> ok x \<Longrightarrow> invar (ins x xs)"
    and set_ins: "invar xs \<Longrightarrow> \<forall>x\<in>set xs. ok x \<Longrightarrow> ok x \<Longrightarrow> set (ins x xs) = insert x (set xs)"
begin

lemma fold_ins:
  "invar xs \<Longrightarrow> \<forall>x\<in>set xs. ok x \<Longrightarrow> \<forall>y\<in>set ys. ok y \<Longrightarrow>
   invar (fold ins ys xs) \<and> set (fold ins ys xs) = set ys \<union> set xs"
proof (induction ys arbitrary: xs)
  case (Cons y ys)
  then have "invar (ins y xs)" "set (ins y xs) = insert y (set xs)" using invar_ins set_ins by auto
  then show ?case using Cons by auto
qed simp

lemma length_fold_ins: "\<forall>y\<in>set ys. ok y \<Longrightarrow> length (fold ins ys []) = card (set ys)"
  using fold_ins [OF invar_Nil, of ys] invar_distinct distinct_card by fastforce

end

interpretation tl: list_set inserttarg "sorted_wrt targ_less" "\<lambda>_. True"
proof
  show "sorted_wrt targ_less xs \<Longrightarrow> distinct xs" for xs
    by (induction xs) (auto simp: targ_less_def)
qed (auto simp: inserttarg_spec)

lemma insertmac_spec:
  "\<forall>p\<in>set ps. length p = 6 \<Longrightarrow> length m = 6 \<Longrightarrow> insertmac m ps = (if m \<in> set ps then ps else ps @ [m])"
  by (induction ps) (auto simp: memcmp_eq)

interpretation ml: list_set insertmac distinct "\<lambda>m. length m = 6"
  by unfold_locales (auto simp: insertmac_spec)

section \<open>The invariant\<close>

definition targ_of :: "lun \<Rightarrow> int \<times> int" where
  "targ_of l = (l_major l, l_minor l)"

definition eth_ok :: "eth \<Rightarrow> bool" where
  "eth_ok e \<longleftrightarrow> length (n_pkt e) = pkt_size \<and> length (n_ea e) = 6 \<and> luns_sorted (n_luns e)
     \<and> (\<forall>l\<in>set (n_luns e). key_wf (lun_key l))"

definition seen :: "san \<Rightarrow> (int \<times> int) set" where
  "seen z = (\<Union>e\<in>set (z_eth z). targ_of ` set (n_luns e))"

definition san_ok :: "san \<Rightarrow> bool" where
  "san_ok z \<longleftrightarrow> (\<forall>e\<in>set (z_eth z). eth_ok e) \<and> sorted_wrt targ_less (z_targlist z) \<and> set (z_targlist z) = seen z"

text \<open>An interface is replaced by one that is well formed and saw the same devices.\<close>

lemma san_ok_update:
  assumes "san_ok z" "i < length (z_eth z)" "eth_ok e" "map lun_key (n_luns e) = map lun_key (n_luns (z_eth z ! i))"
  shows "san_ok (z\<lparr>z_eth := (z_eth z)[i := e]\<rparr>)"
proof -
  have t: "targ_of ` set (n_luns e') = (\<lambda>k. (fst k, fst (snd k))) ` set (map lun_key (n_luns e'))" for e'
    by (auto simp: targ_of_def lun_key_def image_image)
  have "targ_of ` set (n_luns e) = targ_of ` set (n_luns (z_eth z ! i))" unfolding t by (simp only: assms(4))
  then have "seen (z\<lparr>z_eth := (z_eth z)[i := e]\<rparr>) = seen z"
    by (simp add: seen_def UN_update [OF assms(2)] UN_nth [OF assms(2)])
  then show ?thesis using assms by (auto simp: san_ok_def dest: subsetD [OF set_update_subset_insert])
qed

lemma eth_ok_keys:
  "eth_ok e \<Longrightarrow> map lun_key (n_luns e') = map lun_key (n_luns e) \<Longrightarrow> length (n_pkt e') = pkt_size \<Longrightarrow> n_ea e' = n_ea e
    \<Longrightarrow> eth_ok e'"
  by (auto simp: eth_ok_def luns_sorted_def) (metis image_eqI image_iff list.set_map)

lemma upd_lun_ok:
  assumes "san_ok z" "i < length (z_eth z)" "\<And>l. lun_key (g l) = lun_key l"
  shows "san_ok (upd_lun i j g z)"
proof -
  let ?e = "z_eth z ! i"
  have e: "eth_ok ?e" using assms by (simp add: san_ok_def)
  have m: "map lun_key ((n_luns ?e)[j := g (n_luns ?e ! j)]) = map lun_key (n_luns ?e)"
    by (simp add: map_update assms(3)) (metis length_map list_update_beyond list_update_id not_le nth_map)
  show ?thesis unfolding upd_lun_def Let_def
    by (rule san_ok_update [OF assms(1,2)]) (use m e in \<open>auto intro: eth_ok_keys [of ?e] simp: eth_ok_def [of ?e]\<close>)
qed

lemma read_pkt_ok: "san_ok z \<Longrightarrow> i < length (z_eth z) \<Longrightarrow> san_ok (read_pkt i bs z)"
  unfolding read_pkt_def Let_def
  by (rule san_ok_update) (auto simp: san_ok_def eth_ok_def pkt_size_def)

lemma length_probe_pkt: "length (l_ea l) = 6 \<Longrightarrow> length (n_ea e) = 6 \<Longrightarrow> length (probe_pkt e l k) = pkt_size"
  by (simp add: probe_pkt_def hnputs_def hnputl_def pkt_size_def)

lemma findlun_ok:
  assumes ok: "san_ok z" and i: "i < length (z_eth z)" and f: "findlun i z = (r, z')"
  shows "san_ok z' \<and> length (z_eth z') = length (z_eth z) \<and> (\<forall>j. r = Some j \<longrightarrow> j < length (n_luns (z_eth z' ! i)))"
proof -
  let ?e = "z_eth z ! i"
  let ?a = "n_pkt ?e"
  let ?k = "(a_major ?a, a_minor ?a, a_src ?a)"
  have e: "eth_ok ?e" using ok i by (simp add: san_ok_def)
  then have src: "length (a_src ?a) = 6" by (simp add: eth_ok_def a_src_def pkt_size_def)
  obtain j b where s: "lun_scan (a_major ?a) (a_minor ?a) (a_src ?a) 0 (n_luns ?e) = (j, b)" by fastforce
  obtain us vs where u: "n_luns ?e = us @ vs" "j = length us" "\<forall>u\<in>set us. key_before (lun_key u) ?k"
      "if b then vs \<noteq> [] \<and> lun_key (hd vs) = ?k else vs = [] \<or> key_before ?k (lun_key (hd vs))"
    using lun_scan_spec [OF s src] e by (auto simp: eth_ok_def)
  show ?thesis
  proof (cases "b \<or> a_cmd ?a = Cata")
    case True
    then show ?thesis using f ok u s by (cases b) (auto simp: findlun_def Let_def)
  next
    case False
    define p where "p = \<lparr>l_state = Lnew, l_ea = a_src ?a, l_major = a_major ?a, l_minor = a_minor ?a, l_nsect = 0,
                        l_maxsect = 0, l_id = 0x8000 OR z_id z\<rparr>"
    define e' where "e' = ?e\<lparr>n_luns := us @ p # vs\<rparr>"
    have k: "lun_key p = ?k" "targ_of p = (l_major p, l_minor p)" by (simp_all add: p_def lun_key_def targ_of_def)
    have z': "z' = z\<lparr>z_eth := (z_eth z)[i := e'], z_id := z_id z + 1, z_targlist := inserttarg (targ_of p) (z_targlist z)\<rparr>"
        and r: "r = Some j"
      using f False s u by (auto simp: findlun_def Let_def p_def e'_def targ_of_def)
    have "sorted_wrt key_before (map lun_key us @ ?k # map lun_key vs)"
    proof (rule sorted_insert_mid)
      show "map lun_key vs = [] \<or> key_before ?k (hd (map lun_key vs))" using u(4) False by (cases vs) auto
    qed (use e u src in \<open>auto simp: eth_ok_def luns_sorted_def key_wf_def\<close>)
    then have "eth_ok e'" using e u src k by (auto simp: eth_ok_def luns_sorted_def e'_def key_wf_def)
    moreover have sn: "seen z' = insert (targ_of p) (seen z)"
    proof -
      have "targ_of ` set (n_luns e') = insert (targ_of p) (targ_of ` set (n_luns ?e))"
        using u(1) by (auto simp: e'_def)
      then show ?thesis by (simp add: z' seen_def UN_update [OF i] UN_nth [OF i])
    qed
    ultimately have "san_ok z'"
      using ok inserttarg_spec [of "z_targlist z" "targ_of p"] sn
      by (auto simp: san_ok_def z' dest!: subsetD [OF set_update_subset_insert])
    then show ?thesis using i r u by (simp add: z' e'_def)
  qed
qed

lemma lun_at_wf:
  "san_ok z \<Longrightarrow> i < length (z_eth z) \<Longrightarrow> j < length (n_luns (z_eth z ! i)) \<Longrightarrow> length (l_ea (lun_at i j z)) = 6"
  unfolding san_ok_def eth_ok_def lun_at_def key_wf_def lun_key_def by (metis nth_mem snd_conv)

lemma jprobe_ok:
  assumes ok: "san_ok z" and i: "i < length (z_eth z)" and j: "j < length (n_luns (z_eth z ! i))"
    and p: "jprobe (z_eth z ! i) (lun_at i j z) = (sent, e)"
  shows "san_ok (z\<lparr>z_eth := (z_eth z)[i := e]\<rparr>)"
proof -
  let ?e = "z_eth z ! i"
  have e: "eth_ok ?e" using ok i by (simp add: san_ok_def)
  obtain k where k: "e = ?e\<lparr>n_pkt := probe_pkt ?e (lun_at i j z) k\<rparr>" using p by (auto simp: jprobe_def Let_def)
  have "length (probe_pkt ?e (lun_at i j z) k) = pkt_size"
    by (rule length_probe_pkt [OF lun_at_wf [OF ok i j]]) (use e in \<open>simp add: eth_ok_def\<close>)
  then show ?thesis using e unfolding k by (intro san_ok_update [OF ok i]) (simp_all add: eth_ok_def)
qed

lemma upd_lun_len:
  "length (z_eth (upd_lun i j g z)) = length (z_eth z)"
  "i < length (z_eth z) \<Longrightarrow> length (n_luns (z_eth (upd_lun i j g z) ! i)) = length (n_luns (z_eth z ! i))"
  by (simp_all add: upd_lun_def Let_def)

lemma jinput_ok:
  assumes ok: "san_ok z" and i: "i < length (z_eth z)" and r: "jinput i z = (sent, u, z')"
  shows "san_ok z' \<and> length (z_eth z') = length (z_eth z)"
proof -
  obtain q z1 where f: "findlun i z = (q, z1)" by fastforce
  have z1: "san_ok z1" "length (z_eth z1) = length (z_eth z)" "\<forall>j. q = Some j \<longrightarrow> j < length (n_luns (z_eth z1 ! i))"
    using findlun_ok [OF ok i f] by auto
  have i1: "i < length (z_eth z1)" using i z1 by simp
  have probe: "san_ok (upd_lun i j (\<lambda>l. l\<lparr>l_state := Lprobe\<rparr>) (z2\<lparr>z_eth := (z_eth z2)[i := e]\<rparr>))
      \<and> length (z_eth (upd_lun i j (\<lambda>l. l\<lparr>l_state := Lprobe\<rparr>) (z2\<lparr>z_eth := (z_eth z2)[i := e]\<rparr>))) = length (z_eth z)"
    if "q = Some j" "z2 = upd_lun i j (\<lambda>l. l\<lparr>l_nsect := x\<rparr>) z1" "jprobe (z_eth z2 ! i) (lun_at i j z2) = (s, e)" for j z2 x s e
  proof -
    have "san_ok z2" unfolding that(2) by (rule upd_lun_ok [OF z1(1) i1]) (simp add: lun_key_def)
    then have "san_ok (z2\<lparr>z_eth := (z_eth z2)[i := e]\<rparr>)"
      by (rule jprobe_ok [OF _ _ _ that(3)]) (use that z1 i1 in \<open>simp_all add: upd_lun_len\<close>)
    then show ?thesis
      using i1 z1 that(2) by (auto intro!: upd_lun_ok simp: upd_lun_len lun_key_def)
  qed
  have ata: "san_ok (upd_lun i j (\<lambda>l. if n > l_maxsect l then l\<lparr>l_maxsect := n\<rparr> else l) z1)" for j n
    by (rule upd_lun_ok [OF z1(1) i1]) (simp add: lun_key_def)
  show ?thesis
    using r ok probe ata z1 f
    by (auto simp: jinput_def Let_def upd_lun_len split: if_splits option.splits prod.splits)
qed

lemma jcheck_input_ok: "san_ok z \<Longrightarrow> san_ok (jcheck_input x z)"
  using read_pkt_ok [of z "fst x" "snd x"] jinput_ok [of "read_pkt (fst x) (snd x) z" "fst x"]
  by (auto simp: jcheck_input_def read_pkt_def Let_def split: prod.splits)

lemma jcheck_run_ok: "san_ok z \<Longrightarrow> san_ok (fold jcheck_input xs z)"
  by (induction xs arbitrary: z) (auto simp: jcheck_input_ok)

text \<open>The interfaces as they are after \<open>ethopen\<close> and \<open>discover\<close>.\<close>

definition san_start :: "(string \<times> u8 list \<times> int \<times> bool) list \<Rightarrow> san" where
  "san_start ifs =
     \<lparr>z_eth = map (\<lambda>(nm, ea, mtu, up). snd (san_discover \<lparr>n_luns = [], n_name = nm, n_ea = take 6 (ea @ replicate 6 0),
         n_mtu = mtu, n_up = up, n_pkt = replicate pkt_size 0\<rparr>)) ifs, z_id = 0, z_targlist = []\<rparr>"

lemma san_start_ok: "san_ok (san_start ifs)"
  by (auto simp: san_ok_def san_start_def seen_def eth_ok_def luns_sorted_def san_discover_def discover_pkt_def
      hnputs_def hnputl_def pkt_size_def)

section \<open>Properties\<close>

text \<open>Whatever packets arrive on whatever interfaces, the list of devices is strictly ascending and
  holds exactly the addresses of the devices some interface saw; and each interface holds every pair of
  device and remote address once, in the order of its list.\<close>

theorem san_targets_exact:
  assumes "z = fold jcheck_input xs (san_start ifs)"
  shows "sorted_wrt targ_less (z_targlist z) \<and> set (z_targlist z) = seen z
    \<and> (\<forall>e\<in>set (z_eth z). sorted_wrt key_before (map lun_key (n_luns e)) \<and> distinct (map lun_key (n_luns e)))"
proof -
  have ok: "san_ok z" unfolding assms by (rule jcheck_run_ok [OF san_start_ok])
  have "\<not> key_before k k" for k by (cases k) (simp add: memcmp_eq [THEN iffD2])
  then have "distinct ks" if "sorted_wrt key_before ks" for ks using that by (induction ks) auto
  then show ?thesis using ok by (auto simp: san_ok_def eth_ok_def luns_sorted_def)
qed

text \<open>A device e5.1 answers the query on the first of two interfaces.\<close>

definition san_rsp :: "u8 list" where
  "san_rsp = replicate 6 0 @ [1, 2, 3, 4, 5, 6] @ [0x88, 0xa2, 0x18, 0, 0, 5, 1, 1, 0x80, 0, 0, 0] @ replicate 36 2"

lemma san_rsp_fields:
  "a_flags (san_rsp @ x) = 0x18" "a_cmd (san_rsp @ x) = 1" "(san_rsp @ x) ! 20 = 0x80" "a_major (san_rsp @ x) = 5"
  "a_minor (san_rsp @ x) = 1" "take pkt_size san_rsp = san_rsp" "san_rsp \<noteq> []"
  by (simp_all add: san_rsp_def a_flags_def a_cmd_def a_major_def a_minor_def nhgets_def pkt_size_def nth_append)

theorem san_targets_exact_witness:
  "set (z_targlist (fold jcheck_input [(0, san_rsp)] (san_start [(''eth0'', [], 1500, True)]))) = {(5, 1)}"
proof -
  let ?z = "fold jcheck_input [(0, san_rsp)] (san_start [(''eth0'', [], 1500, True)])"
  have "seen ?z = {(5, 1)}"
    by (simp add: seen_def san_start_def san_discover_def jcheck_input_def read_pkt_def jinput_def findlun_def san_rsp_fields
        Arsp_def Aerr_def Cqc_def Cata_def upd_lun_def lun_at_def jprobe_def targ_of_def Let_def)
  then show ?thesis using san_targets_exact [OF refl, of "[(0, san_rsp)]" "[(''eth0'', [], 1500, True)]"] by simp
qed

text \<open>The parts of the first loop of \<open>sancheck\<close>.\<close>

definition dev_luns :: "int \<Rightarrow> int \<Rightarrow> eth \<Rightarrow> lun list" where
  "dev_luns maj mi e = filter (is_dev maj mi) (n_luns e)"

lemma sc_lun_fold: "sc_ml (fold (sc_lun e) ls c) = fold insertmac (map l_ea ls) (sc_ml c)"
  "sc_nloc (fold (sc_lun e) ls c) = sc_nloc c" "sc_a (fold (sc_lun e) ls c) = sc_a c"
  "sc_writes (fold (sc_lun e) ls c) = sc_writes c"
  by (induction ls arbitrary: c) (simp_all add: sc_lun_def)

lemma sc_eth_fold:
  "sc_ml (fold (sc_eth maj mi) es c) = fold insertmac (concat (map (map l_ea \<circ> dev_luns maj mi) es)) (sc_ml c)
   \<and> sc_nloc (fold (sc_eth maj mi) es c) = sc_nloc c + int (length (filter (\<lambda>e. dev_luns maj mi e \<noteq> []) es))"
proof (induction es arbitrary: c)
  case (Cons e es)
  have "sc_ml (sc_eth maj mi e c) = fold insertmac (map l_ea (dev_luns maj mi e)) (sc_ml c)
      \<and> sc_nloc (sc_eth maj mi e c) = sc_nloc c + (if dev_luns maj mi e \<noteq> [] then 1 else 0)"
    by (simp add: sc_eth_def Let_def sc_name_def sc_lun_fold dev_luns_def)
  then show ?case using Cons.IH [of "sc_eth maj mi e c"] by simp
qed simp

text \<open>The summary of a device states the number of distinct remote addresses at which any interface
  saw it, and the line about mismatched interfaces is printed if and only if that is not the number of
  local interfaces that saw it.\<close>

theorem sancheck_counts:
  assumes "\<forall>e\<in>set es. \<forall>l\<in>set (n_luns e). length (l_ea l) = 6"
  shows "\<exists>p w rest. sancheck maj mi es = RDevice maj mi (int (card (\<Union>e\<in>set es. l_ea ` set (dev_luns maj mi e)))) p w # rest
    \<and> (RMismatch \<in> set (sancheck maj mi es) \<longleftrightarrow>
        card (\<Union>e\<in>set es. l_ea ` set (dev_luns maj mi e)) \<noteq> length (filter (\<lambda>e. dev_luns maj mi e \<noteq> []) es))"
proof -
  let ?c = "fold (sc_eth maj mi) es sct0"
  let ?ms = "concat (map (map l_ea \<circ> dev_luns maj mi) es)"
  have "\<forall>m\<in>set ?ms. length m = 6" using assms by (auto simp: dev_luns_def)
  then have "length (sc_ml ?c) = card (set ?ms)"
    using sc_eth_fold [of maj mi es sct0] by (simp add: ml.length_fold_ins sct0_def)
  moreover have "set ?ms = (\<Union>e\<in>set es. l_ea ` set (dev_luns maj mi e))" by auto
  moreover have "sc_nloc ?c = int (length (filter (\<lambda>e. dev_luns maj mi e \<noteq> []) es))"
    using sc_eth_fold [of maj mi es sct0] by (simp add: sct0_def)
  moreover have "RMismatch \<notin> set (sc_second maj mi ?c e)" for e by (auto simp: sc_second_def Let_def)
  ultimately show ?thesis by (auto simp: sancheck_def Let_def)
qed

definition eth_ab :: "string \<Rightarrow> int \<Rightarrow> lun list \<Rightarrow> eth" where
  "eth_ab nm mtu ls = \<lparr>n_luns = ls, n_name = nm, n_ea = replicate 6 0, n_mtu = mtu, n_up = True, n_pkt = []\<rparr>"

definition lun_ab :: "u8 \<Rightarrow> int \<Rightarrow> lun" where
  "lun_ab b k = \<lparr>l_state = Lprobe, l_ea = [b, b, b, b, b, b], l_major = 1, l_minor = 2, l_nsect = 2, l_maxsect = k, l_id = 0\<rparr>"

lemma dev_luns_ab [simp]: "dev_luns 1 2 (eth_ab nm mtu [lun_ab b k]) = [lun_ab b k]"
  "n_luns (eth_ab nm mtu ls) = ls" "n_mtu (eth_ab nm mtu ls) = mtu" "n_name (eth_ab nm mtu ls) = nm" "is_dev 1 2 (lun_ab b k)"
  "l_ea (lun_ab b k) = [b, b, b, b, b, b]" "l_maxsect (lun_ab b k) = k"
  by (simp_all add: eth_ab_def lun_ab_def dev_luns_def is_dev_def)

theorem sancheck_counts_witness:
  "RMismatch \<in> set (sancheck 1 2 [eth_ab ''eth0'' 1500 [lun_ab 7 2], eth_ab ''eth1'' 1500 [lun_ab 7 2]])"
  using sancheck_counts [of "[eth_ab ''eth0'' 1500 [lun_ab 7 2], eth_ab ''eth1'' 1500 [lun_ab 7 2]]" 1 2]
  by auto

lemma div_past_boundary: "(x::int) div 512 < (x + 4) div 512 \<longleftrightarrow> (x + 4) mod 512 < 4"
proof -
  obtain q r where x: "x = 512 * q + r" "0 \<le> r" "r < 512" "x div 512 = q"
    by (metis mult_div_mod_eq pos_mod_bound pos_mod_sign zero_less_numeral)
  show ?thesis
  proof (cases "r < 508")
    case True
    have e: "x + 4 = 512 * q + (r + 4)" using x(1) by simp
    have "(x + 4) div 512 = q" "(x + 4) mod 512 = r + 4" unfolding e using x(2) True by simp_all
    then show ?thesis using x by simp
  next
    case False
    have e: "x + 4 = 512 * (q + 1) + (r - 508)" using x(1) by simp
    have r: "0 \<le> r - 508" "r - 508 < 512" using x(3) False by simp_all
    have "(x + 4) mod 512 = (r - 508) mod 512" unfolding e by (rule mod_mult_self4)
    moreover have "(x + 4) div 512 = q + 1" unfolding e using r by simp
    ultimately have "(x + 4) div 512 = q + 1" "(x + 4) mod 512 = r - 508" using r by simp_all
    then show ?thesis using x by simp
  qed
qed

text \<open>A path over which every probe was answered is still reported as not capable of the payload of its
  interface if and only if the MTU is at most three bytes above 32 plus a multiple of 512: the probes leave
  36 bytes for the headers, the report 32.\<close>

theorem sancheck_path_warning:
  assumes "l \<in> set (n_luns e)" and "is_dev maj mi l" and "36 \<le> n_mtu e"
    and "l_maxsect l = int (probe_sects (n_mtu e))"
  shows "RPath (n_name e) (cea (l_ea l)) (l_maxsect l * 512) \<in> set (sc_second maj mi c e)
      \<longleftrightarrow> (n_mtu e - 32) mod 512 < 4"
proof -
  have m: "l_maxsect l = (n_mtu e - 36) div 512" using assms(3,4) by (simp add: probe_sects_def)
  have q: "l_maxsect l < cdiv (n_mtu e - 32) 512 \<longleftrightarrow> (n_mtu e - 32) mod 512 < 4"
    unfolding m using div_past_boundary [of "n_mtu e - 36"] assms(3) by (simp add: cdiv_def)
  show ?thesis
  proof (cases "(n_mtu e - 32) mod 512 < 4")
    case True
    then show ?thesis using assms(1,2) q by (auto simp: sc_second_def Let_def)
  next
    case False
    then have "\<not> l_maxsect l < cdiv (n_mtu e - 32) 512" using q by simp
    then show ?thesis using False by (auto simp: sc_second_def Let_def)
  qed
qed

theorem sancheck_path_warning_witness:
  "RPath ''eth0'' ''070707070707'' 512 \<in> set (sc_second 1 2 sct0 (eth_ab ''eth0'' 1057 [lun_ab 7 1]))"
proof -
  have "cea [7, 7, 7, 7, 7, 7] = ''070707070707''" by (simp add: cea_def hexdigit_def)
  then show ?thesis
    using sancheck_path_warning [of "lun_ab 7 1" "eth_ab ''eth0'' 1057 [lun_ab 7 1]" 1 2 sct0]
    by (simp add: probe_sects_def)
qed

text \<open>With ten interfaces whose names have fifteen characters, the names of the interfaces that see a
  device are written behind the end of the buffer of 128 bytes, and the size given to \<open>snprintf\<close> does not
  prevent it, since it wraps.\<close>

theorem sancheck_buffer_overflow:
  "\<exists>es. length es = 10 \<and> (\<forall>e\<in>set es. length (n_name e) = 15)
    \<and> (143, - 15, '','' @ n_name (last es)) \<in> set (sc_writes (fold (sc_eth 1 2) es sct0))"
proof -
  let ?es = "replicate 10 (eth_ab ''eth000000000000'' 1500 [lun_ab 7 2])"
  have "(143, - 15, '','' @ n_name (last ?es)) \<in> set (sc_writes (fold (sc_eth 1 2) ?es sct0))"
    by (simp add: eth_ab_def lun_ab_def sct0_def sc_eth_def sc_name_def sc_lun_def is_dev_def Let_def eval_nat_numeral)
  then show ?thesis by (intro exI [of _ ?es]) (simp add: eth_ab_def)
qed

section \<open>The table of interfaces\<close>

text \<open>The array never overflows: a name is added only while a place is free, so \<open>ethlist\<close> returns.\<close>

definition n_free :: "string option list \<Rightarrow> nat" where
  "n_free ifs = length (filter (\<lambda>x. x = None) ifs)"

lemma shift_eth_fits:
  "0 < n_free ifs \<Longrightarrow> \<exists>ifs'. shift_eth a ifs = Some ifs' \<and> length ifs' = length ifs \<and> n_free ifs = Suc (n_free ifs')"
  by (induction a ifs rule: shift_eth.induct) (auto simp: n_free_def)

lemma inserteth_fits:
  "0 < n_free ifs \<Longrightarrow> \<exists>ifs'. inserteth nm ifs = Some ifs' \<and> length ifs' = length ifs \<and> n_free ifs \<le> Suc (n_free ifs')"
proof (induction nm ifs rule: inserteth.induct)
  case (3 nm b xs)
  then show ?case using shift_eth_fits [of "Some b # xs" nm] by (auto simp: n_free_def)
qed (auto simp: n_free_def)

lemma ethlist_loop_fits:
  "length is \<le> n_free ifs \<Longrightarrow> \<exists>n' ifs'. ethlist_loop ifname is n ifs = Some (n', ifs') \<and> length ifs' = length ifs"
proof (induction "is" arbitrary: n ifs)
  case (Cons i "is")
  then have "0 < n_free ifs" by simp
  then obtain ifs' where "\<And>nm. inserteth nm ifs = Some (ifs' nm) \<and> length (ifs' nm) = length ifs \<and> n_free ifs \<le> Suc (n_free (ifs' nm))"
    using inserteth_fits [of ifs] by metis
  then show ?case using Cons by (force split: option.split)
qed simp

lemma ethlist_fits: "\<exists>n ifs. ethlist ifname nifs = Some (n, ifs) \<and> length ifs = nifs"
  unfolding ethlist_def using ethlist_loop_fits [of "[0..<nifs]" "replicate nifs None"] by (simp add: n_free_def)

end
