(* ===== verification/Payload.thy ===== *)
theory Payload
  imports Complete
begin

text \<open>
  What a command carries: the request of \<open>ata_rw_frameinit\<close> as the target reads it, and the data of a
  read as \<open>bvcpy\<close> leaves it in the pages of the bio.
\<close>

section \<open>The request\<close>

text \<open>What a target takes from the ATA header: whether it is a write, the address and the number of
  sectors; an unknown command is \<open>None\<close>.\<close>

definition target_reads :: "aoe_atahdr \<Rightarrow> (bool \<times> u64 \<times> nat) option" where
  "target_reads ah =
     (if ah_cmdstat ah = 0x20 then Some (False, lba28 ah, unat (ah_scnt ah))
      else if ah_cmdstat ah = 0x24 then Some (False, lba48 ah, unat (ah_scnt ah))
      else if ah_cmdstat ah = 0x30 then Some (True, lba28 ah, unat (ah_scnt ah))
      else if ah_cmdstat ah = 0x34 then Some (True, lba48 ah, unat (ah_scnt ah))
      else None)"

lemma lba_cong [simp]:
  "lba48 (ah\<lparr>ah_aflags := x\<rparr>) = lba48 ah" "lba28 (ah\<lparr>ah_aflags := x\<rparr>) = lba28 ah"
  "lba48 (ah\<lparr>ah_cmdstat := y\<rparr>) = lba48 ah" "lba28 (ah\<lparr>ah_cmdstat := y\<rparr>) = lba28 ah"
  by (simp_all add: lba48_def lba28_def)

lemma put_lba_fields [simp]:
  "ah_scnt (put_lba ah l) = ah_scnt ah" "ah_aflags (put_lba ah l) = ah_aflags ah" "ah_res (put_lba ah l) = ah_res ah"
  "ah_scnt (lba28_head ah) = ah_scnt ah" "ah_aflags (lba28_head ah) = ah_aflags ah" "ah_res (lba28_head ah) = ah_res ah"
  by (simp_all add: put_lba_def lba28_head_def Let_def)

lemma take_bit_small: "(x :: u64) < 2 ^ 28 \<Longrightarrow> take_bit 28 x = x" "(x :: u64) < 2 ^ 48 \<Longrightarrow> take_bit 48 x = x"
  by (simp_all add: word_eq_iff_unsigned [where 'a = nat] unsigned_take_bit_eq word_less_nat_alt take_bit_nat_eq_self)

text \<open>C15. The target reads from the bytes of a request what the driver put there: the direction, the first
  sector and the number of sectors; the flags of the AoE header agree with the command.\<close>

theorem request_roundtrip:
  assumes "bi_sector it < 2 ^ (if ext then 48 else 28)" and "bi_size it div 512 < 256"
  shows "let ah = atahdr_of (atahdr_bytes (ata_rw_header ext wr it zero_atahdr) @ rest)
    in target_reads ah = Some (wr, bi_sector it, bi_size it div 512)
      \<and> hasfl (ah_aflags ah) AOEAFL_WRITE = wr \<and> hasfl (ah_aflags ah) AOEAFL_EXT = ext"
proof -
  let ?ah = "ata_rw_header ext wr it zero_atahdr"
  have dec: "atahdr_of (atahdr_bytes ?ah @ rest) = ?ah"
    by (rule atahdr.dec_enc) (simp add: atahdr_wf_def ata_rw_header_def Let_def zero_atahdr_def)
  have cnt: "unat (of_nat (bi_size it div 512) :: u8) = bi_size it div 512"
    using assms(2) by (simp add: unat_of_nat)
  have lba: "take_bit (if ext then 48 else 28) (bi_sector it) = bi_sector it"
    using assms(1) take_bit_small [of "bi_sector it"] by (cases ext) simp_all
  show ?thesis
    unfolding dec Let_def using cnt lba
    by (cases ext; cases wr)
      (simp_all add: ata_rw_header_def target_reads_def ATA_CMD_PIO_READ_def lba48_put_lba lba28_put_lba Let_def
        zero_atahdr_def hasfl_def setfl_def AOEAFL_WRITE_def AOEAFL_EXT_def)
qed

theorem request_roundtrip_witness:
  "let ah = atahdr_of (atahdr_bytes (ata_rw_header True True \<lparr>bi_sector = 0x123456789abc, bi_size = 4096, bi_idx = 0, bi_bvec_done = 0\<rparr> zero_atahdr) @ [])
   in target_reads ah = Some (True, 0x123456789abc, 8) \<and> hasfl (ah_aflags ah) AOEAFL_WRITE"
  using request_roundtrip [of "\<lparr>bi_sector = 0x123456789abc, bi_size = 4096, bi_idx = 0, bi_bvec_done = 0\<rparr>" True True "[]"]
  by (simp add: Let_def)

section \<open>The data\<close>

definition seg_bytes :: "seg \<Rightarrow> (nat \<times> nat) set" where
  "seg_bytes g = (case g of (page, off, len) \<Rightarrow> {(page, j) | j. off \<le> j \<and> j < off + len})"

fun gather :: "seg list \<Rightarrow> (nat \<Rightarrow> nat \<Rightarrow> u8) \<Rightarrow> u8 list" where
  "gather [] pages = []"
| "gather ((page, off, len) # segs) pages = map (pages page) [off..<off + len] @ gather segs pages"

fun segs_apart :: "seg list \<Rightarrow> bool" where
  "segs_apart [] \<longleftrightarrow> True"
| "segs_apart (g # gs) \<longleftrightarrow> (\<forall>h\<in>set gs. seg_bytes g \<inter> seg_bytes h = {}) \<and> segs_apart gs"

definition segs_len :: "seg list \<Rightarrow> nat" where
  "segs_len segs = sum_list (map (\<lambda>(_, _, len). len) segs)"

lemma bvcpy_else: "\<forall>g\<in>set segs. (p, j) \<notin> seg_bytes g \<Longrightarrow> bvcpy bs segs pages p j = pages p j"
  by (induction bs segs pages rule: bvcpy.induct) (auto simp: seg_bytes_def)

text \<open>C16. The data of a read reaches the bio: if the segments do not overlap, the bytes of the pages along
  the segments are the payload in order, and no other byte of any page changes.\<close>

theorem read_data_arrives:
  assumes "segs_apart segs" and "segs_len segs \<le> length bs"
  shows "gather segs (bvcpy bs segs pages) = take (segs_len segs) bs
    \<and> (\<forall>p j. (\<forall>g\<in>set segs. (p, j) \<notin> seg_bytes g) \<longrightarrow> bvcpy bs segs pages p j = pages p j)"
proof -
  have "gather segs (bvcpy bs segs pages) = take (segs_len segs) bs"
    using assms
  proof (induction bs segs pages rule: bvcpy.induct)
    case (2 bs page off len segs pages)
    let ?pg = "pages(page := (\<lambda>j. if off \<le> j \<and> j < off + len then bs ! (j - off) else pages page j))"
    have len: "len \<le> length bs" "segs_len segs \<le> length (drop len bs)" using 2(3) by (simp_all add: segs_len_def)
    have "bvcpy (drop len bs) segs ?pg page j = bs ! (j - off)" if "off \<le> j" "j < off + len" for j
    proof -
      have "\<forall>g\<in>set segs. (page, j) \<notin> seg_bytes g" using 2(2) that by (auto simp: seg_bytes_def)
      from bvcpy_else [OF this] show ?thesis using that by simp
    qed
    then have "map (bvcpy (drop len bs) segs ?pg page) [off..<off + len] = take len bs"
      using len(1) by (intro nth_equalityI) auto
    moreover have "gather segs (bvcpy (drop len bs) segs ?pg) = take (segs_len segs) (drop len bs)"
      by (rule "2.IH") (use 2(2) len in auto)
    ultimately show ?case by (simp add: take_add segs_len_def del: fun_upd_apply)
  qed (simp add: segs_len_def)
  then show ?thesis by (auto simp: bvcpy_else)
qed

theorem read_data_arrives_witness:
  "gather [(1, 4, 2), (2, 0, 1)] (bvcpy [7, 8, 9, 10] [(1, 4, 2), (2, 0, 1)] (\<lambda>_ _. 0)) = [7, 8, 9]"
  using read_data_arrives [of "[(1, 4, 2), (2, 0, 1)]" "[7, 8, 9, 10]" "\<lambda>_ _. 0"]
  by (simp add: segs_len_def seg_bytes_def)

end
