(* ===== verification/Tools.thy ===== *)
theory Tools
  imports System Sancheck Payload
begin

text \<open>
  The query programs of \<open>aoetools-36\<close> that speak the protocol from user space: \<open>aoecfg\<close> (configuration
  strings) and \<open>aoeping\<close> (a query, then identify and SMART commands).  Their headers have the layout of
  the driver's.  What is read from the socket is a list of packets; when it is used up the program waits.
\<close>

section \<open>Constants\<close>

definition AOE_ETH_PROTO :: u16 where "AOE_ETH_PROTO = 0x88a2"
definition AoEver :: u8 where "AoEver = 1"
definition ATAcmd :: u8 where "ATAcmd = 0"
definition Config_cmd :: u8 where "Config_cmd = 1"
definition Error :: u8 where "Error = 4"
definition Write :: u8 where "Write = 1"
definition ATAid_dev :: u8 where "ATAid_dev = 0xec"
definition ATAsmart :: u8 where "ATAsmart = 0xb0"
definition ATAabrt :: u8 where "ATAabrt = 4"
definition SmartDataPut :: u8 where "SmartDataPut = 0x01"
definition SmartDataRet :: u8 where "SmartDataRet = 0x10"

text \<open>The sizes of \<open>Aoehdr\<close> and \<open>Conf\<close>, the latter with its 1024 bytes of data.\<close>

definition sizeof_Aoehdr :: nat where "sizeof_Aoehdr = 24"
definition sizeof_Conf :: nat where "sizeof_Conf = 32 + 1024"

section \<open>aoecfg\<close>

definition errtab :: "string list" where
  "errtab = [''*GOK*'', ''*badcmd*'', ''*badarg*'', ''*baddev*'', ''*badcfg*'', ''*badvers*'', ''*GOK*'']"

text \<open>\<open>resp\<close>: the address, if it is printed, and the text; \<open>None\<close> where the table is read behind its
  end.  The length in the packet is not compared with the length of the packet.\<close>

definition resp :: "int \<Rightarrow> int \<Rightarrow> u8 list \<Rightarrow> ((u16 \<times> u8) option \<times> (string + u8 list \<times> nat)) option" where
  "resp shelf slot pkt =
     (let h = hdr_of pkt; c = cfghdr_of (drop 24 pkt);
          addr = (if shelf \<noteq> 0xffff \<and> slot \<noteq> 0xff then None else Some (h_major h, h_minor h));
          i = unat (h_err h AND 7)
      in if hasfl (h_verfl h) Error
         then (if i < length errtab then Some (addr, Inl (errtab ! i)) else None)
         else Some (addr, Inr (drop 32 pkt, unat (get_be16 (ch_cslen c)))))"

definition aoe_tag :: "u32 \<Rightarrow> u32" where
  "aoe_tag usec = usec OR 2 ^ 31"

text \<open>The accesses of \<open>cfgquery\<close> to its buffer: the offset and the length.\<close>

datatype access = Wr nat nat | Rd nat nat

definition cfg_bufsize :: nat where "cfg_bufsize = 1024 + sizeof_Aoehdr"

definition cfgquery_access :: "nat \<Rightarrow> access list" where
  "cfgquery_access cfgstrlen = [Wr 0 sizeof_Aoehdr, Wr 24 8, Wr 32 cfgstrlen, Rd 0 sizeof_Conf]"

fun in_buffer :: "nat \<Rightarrow> access \<Rightarrow> bool" where
  "in_buffer n (Wr off len) \<longleftrightarrow> off + len \<le> n"
| "in_buffer n (Rd off len) \<longleftrightarrow> off + len \<le> n"

text \<open>The query that is sent, up to the end of the configuration string.\<close>

definition cfgquery_pkt :: "u8 list \<Rightarrow> u8 \<Rightarrow> u16 \<Rightarrow> u8 \<Rightarrow> u32 \<Rightarrow> u8 list \<Rightarrow> u8 list" where
  "cfgquery_pkt mac cmd shelf slot tag cfgstr =
     hdr_bytes \<lparr>h_dst = replicate 6 0xff, h_src = mac, h_type = AOE_ETH_PROTO, h_verfl = push_bit 4 AoEver, h_err = 0,
       h_major = shelf, h_minor = slot, h_cmd = Config_cmd, h_tag = tag\<rparr>
     @ cfghdr_bytes \<lparr>ch_bufcnt = 0, ch_fwver = 0, ch_scnt = 0, ch_aoeccmd = cmd, ch_cslen = put_be16 (of_nat (length cfgstr))\<rparr>
     @ cfgstr"

definition cfg_accept :: "int \<Rightarrow> int \<Rightarrow> u32 \<Rightarrow> u8 list \<Rightarrow> bool" where
  "cfg_accept shelf slot tag pkt =
     (let h = hdr_of pkt
      in 60 \<le> length pkt \<and> h_type h = AOE_ETH_PROTO
         \<and> \<not> (h_major h = 0xffff \<or> h_minor h = 0xff)
         \<and> (shelf = 0xffff \<or> uint (h_major h) = shelf)
         \<and> (slot = 0xff \<or> uint (h_minor h) = slot)
         \<and> h_tag h = tag)"

text \<open>The loop of \<open>cfgquery\<close>: the packets given to \<open>resp\<close>; it goes on unless one device was asked.\<close>

fun cfgquery_loop :: "int \<Rightarrow> int \<Rightarrow> u32 \<Rightarrow> u8 list list \<Rightarrow> u8 list list" where
  "cfgquery_loop shelf slot tag [] = []"
| "cfgquery_loop shelf slot tag (p # ps) =
     (if \<not> cfg_accept shelf slot tag p then cfgquery_loop shelf slot tag ps
      else if shelf \<noteq> 0xffff \<and> slot \<noteq> 0xff then [p]
      else p # cfgquery_loop shelf slot tag ps)"

definition cfg_tab :: "(string \<times> u8) list" where
  "cfg_tab = [(''read'', 0), (''test'', 1), (''prefix'', 2), (''set'', 3), (''fset'', 4)]"

definition xlatecmd :: "string \<Rightarrow> u8 option" where
  "xlatecmd s = map_of cfg_tab s"

section \<open>aoeping\<close>

record progopts =
  o_shelf :: int
  o_slot :: int
  o_tag :: u32
  o_smart :: "string option"
  o_ata_ident :: bool
  o_pp_ataid :: bool

record smartcmd =
  sm_name :: string
  sm_cmd :: u8
  sm_data :: u8

definition smarts :: "smartcmd list" where
  "smarts = [\<lparr>sm_name = ''read_data'', sm_cmd = 0xd0, sm_data = SmartDataRet\<rparr>,
     \<lparr>sm_name = ''offline_immediate'', sm_cmd = 0xd4, sm_data = 0\<rparr>,
     \<lparr>sm_name = ''read_log'', sm_cmd = 0xd5, sm_data = SmartDataRet\<rparr>,
     \<lparr>sm_name = ''write_log'', sm_cmd = 0xd6, sm_data = SmartDataPut\<rparr>,
     \<lparr>sm_name = ''enable'', sm_cmd = 0xd8, sm_data = 0\<rparr>,
     \<lparr>sm_name = ''disable'', sm_cmd = 0xd9, sm_data = 0\<rparr>,
     \<lparr>sm_name = ''return_status'', sm_cmd = 0xda, sm_data = 0\<rparr>]"

text \<open>\<open>hex_print\<close>: two digits and a separator for each byte, a line for sixteen.\<close>

fun hex_print :: "nat \<Rightarrow> u8 list \<Rightarrow> string \<Rightarrow> string" where
  "hex_print i [] sep = []"
| "hex_print i (b # bs) sep =
     [hexdigit (drop_bit 4 b), hexdigit b] @ sep @ (if Suc i mod 16 = 0 then [CHR 0x0A] else []) @ hex_print (Suc i) bs sep"

definition find_blade_pkt :: "u8 list \<Rightarrow> progopts \<Rightarrow> u8 list" where
  "find_blade_pkt mac opts =
     hdr_bytes \<lparr>h_dst = replicate 6 0xff, h_src = mac, h_type = AOE_ETH_PROTO, h_verfl = push_bit 4 AoEver, h_err = 0,
       h_major = word_of_int (o_shelf opts), h_minor = word_of_int (o_slot opts), h_cmd = Config_cmd, h_tag = o_tag opts\<rparr>
     @ cfghdr_bytes \<lparr>ch_bufcnt = 0, ch_fwver = 0, ch_scnt = 0, ch_aoeccmd = 0, ch_cslen = put_be16 1024\<rparr>
     @ replicate 1024 0xED"

definition blade_match :: "progopts \<Rightarrow> u8 list \<Rightarrow> bool" where
  "blade_match opts pkt =
     (let h = hdr_of pkt
      in 60 \<le> length pkt \<and> h_type h = AOE_ETH_PROTO \<and> uint (h_major h) = o_shelf opts \<and> uint (h_minor h) = o_slot opts
         \<and> h_tag h = o_tag opts)"

definition find_blade :: "progopts \<Rightarrow> u8 list list \<Rightarrow> aoe_hdr option" where
  "find_blade opts pkts = map_option hdr_of (find (blade_match opts) pkts)"

definition pkt_match :: "aoe_hdr \<Rightarrow> u32 \<Rightarrow> u8 list \<Rightarrow> bool" where
  "pkt_match c tag pkt =
     (let h = hdr_of pkt
      in 60 \<le> length pkt \<and> h_type h = AOE_ETH_PROTO \<and> h_major h = h_major c \<and> h_minor h = h_minor c \<and> h_tag h = tag)"

definition aoe_pkt_read :: "aoe_hdr \<Rightarrow> u32 \<Rightarrow> u8 list list \<Rightarrow> u8 list option" where
  "aoe_pkt_read c tag pkts = find (pkt_match c tag) pkts"

text \<open>A packet of type \<open>Ata\<close>: the headers and 1024 bytes of data.\<close>

definition ata_prep :: "u8 list \<Rightarrow> aoe_hdr \<Rightarrow> u32 \<Rightarrow> aoe_hdr \<times> aoe_atahdr \<times> u8 list" where
  "ata_prep mac c tag =
     (\<lparr>h_dst = h_src c, h_src = mac, h_type = AOE_ETH_PROTO, h_verfl = push_bit 4 AoEver, h_err = 0,
       h_major = h_major c, h_minor = h_minor c, h_cmd = ATAcmd, h_tag = tag\<rparr>, zero_atahdr, replicate 1024 0)"

definition ata_bytes :: "aoe_hdr \<times> aoe_atahdr \<times> u8 list \<Rightarrow> u8 list" where
  "ata_bytes a = (case a of (h, ah, data) \<Rightarrow> hdr_bytes h @ atahdr_bytes ah @ data)"

definition identify_pkt :: "u8 list \<Rightarrow> aoe_hdr \<Rightarrow> u32 \<Rightarrow> aoe_hdr \<times> aoe_atahdr \<times> u8 list" where
  "identify_pkt mac c tag =
     (case ata_prep mac c tag of (h, ah, data) \<Rightarrow> (h, ah\<lparr>ah_scnt := 1, ah_cmdstat := ATAid_dev, ah_lba3 := 0xa0\<rparr>, data))"

text \<open>Word 82 of the answer, bit 0.\<close>

definition smart_supported :: "u8 list \<Rightarrow> bool" where
  "smart_supported p = (((ucast (p ! 164) :: u16) OR push_bit 8 (ucast (p ! 165))) AND 1 \<noteq> 0)"

fun swap_bytes :: "u8 list \<Rightarrow> u8 list" where
  "swap_bytes (a # b # xs) = b # a # swap_bytes xs"
| "swap_bytes xs = xs"

definition pp_idtext :: "u8 list \<Rightarrow> u8 list" where
  "pp_idtext bs = takeWhile (\<lambda>b. b \<noteq> 0 \<and> (0x20 < b \<and> b < 0x7f \<or> b = 0x20)) bs"

definition smart_match :: "string \<Rightarrow> smartcmd \<Rightarrow> bool" where
  "smart_match nam s =
     (if CHR '':'' \<in> set nam \<and> \<not> strncmp (sm_name s) nam (length (takeWhile (\<lambda>c. c \<noteq> CHR '':'') nam)) then True
      else sm_name s = nam)"

definition smartcmd_lookup :: "string \<Rightarrow> smartcmd option" where
  "smartcmd_lookup nam = find (smart_match nam) smarts"

text \<open>\<open>strtol\<close> with base 0: white space, a sign, and digits in base 16, 8 or 10; the value is bounded by
  the range of \<open>long\<close>.\<close>

definition digit_val :: "char \<Rightarrow> int" where
  "digit_val c = (let n = of_char c :: int in if n \<ge> 97 then n - 87 else if n \<ge> 65 then n - 55 else n - 48)"

definition is_digit_in :: "int \<Rightarrow> char \<Rightarrow> bool" where
  "is_digit_in base c \<longleftrightarrow> c \<in> set ''0123456789abcdefABCDEF'' \<and> digit_val c < base"

definition str_val :: "int \<Rightarrow> string \<Rightarrow> int" where
  "str_val base s = fold (\<lambda>c n. base * n + digit_val c) (takeWhile (is_digit_in base) s) 0"

definition num_sign :: "string \<Rightarrow> bool \<times> string" where
  "num_sign s0 =
     (let s = dropWhile (\<lambda>c. c \<in> set [CHR '' '', CHR 0x09, CHR 0x0A, CHR 0x0B, CHR 0x0C, CHR 0x0D]) s0
      in case s of [] \<Rightarrow> (False, s)
         | c # cs \<Rightarrow> if c = CHR ''-'' then (True, cs) else if c = CHR ''+'' then (False, cs) else (False, s))"

definition num_abs :: "string \<Rightarrow> int" where
  "num_abs t =
     (case t of
        CHR ''0'' # x # d # u \<Rightarrow>
          if x \<in> {CHR ''x'', CHR ''X''} \<and> is_digit_in 16 d then str_val 16 (d # u) else str_val 8 t
      | CHR ''0'' # u \<Rightarrow> str_val 8 t
      | _ \<Rightarrow> str_val 10 t)"

definition strtol :: "string \<Rightarrow> int" where
  "strtol s =
     (let (neg, t) = num_sign s; v = num_abs t
      in max (- (2 ^ 63)) (min (2 ^ 63 - 1) (if neg then - v else v)))"

text \<open>\<open>smart_registers\<close>; the text begins with the colon.\<close>

definition smart_registers :: "aoe_atahdr \<Rightarrow> string option \<Rightarrow> smartcmd \<Rightarrow> aoe_atahdr" where
  "smart_registers a opts s =
     (let a1 = a\<lparr>ah_errfeat := sm_cmd s, ah_lba1 := 0x4f, ah_lba2 := 0xc2\<rparr>
      in case opts of None \<Rightarrow> a1 | Some t \<Rightarrow> a1\<lparr>ah_lba0 := word_of_int (strtol (tl t))\<rparr>)"

definition after_colon :: "string \<Rightarrow> string option" where
  "after_colon s = (case dropWhile (\<lambda>c. c \<noteq> CHR '':'') s of [] \<Rightarrow> None | t \<Rightarrow> Some t)"

definition smart_pkt ::
  "u8 list \<Rightarrow> aoe_hdr \<Rightarrow> u32 \<Rightarrow> string \<Rightarrow> u8 list \<Rightarrow> (aoe_hdr \<times> aoe_atahdr \<times> u8 list) option" where
  "smart_pkt mac c tag cmd stdin =
     (case smartcmd_lookup cmd of
        None \<Rightarrow> None
      | Some s \<Rightarrow>
          (case ata_prep mac c tag of (h, ah, data) \<Rightarrow>
             let ah1 = smart_registers (ah\<lparr>ah_scnt := (if sm_data s \<noteq> 0 then 1 else 0), ah_cmdstat := ATAsmart\<rparr>)
                         (after_colon cmd) s
             in if hasfl (sm_data s) SmartDataPut
                then Some (h\<lparr>h_verfl := h_verfl h OR Write\<rparr>, ah1, take 512 stdin @ drop (length (take 512 stdin)) data)
                else Some (h, ah1, data)))"

definition show_smart_regs :: "aoe_atahdr \<Rightarrow> (string \<times> u8) list option" where
  "show_smart_regs a =
     (if hasfl (ah_errfeat a) ATAabrt then None
      else Some [(''Features'', ah_errfeat a), (''Sector Count'', ah_scnt a), (''LBA Low'', ah_lba0 a), (''LBA Mid'', ah_lba1 a),
        (''LBA High'', ah_lba2 a), (''Status'', ah_cmdstat a)])"

text \<open>How the program ends: it waits for a packet, it fails, or it succeeds.\<close>

datatype ping_end = Waits | Fails | Done

text \<open>\<open>main\<close> after the options: the packets sent, for the packets read in each of the three phases.  Writes and reads
  succeed; one that fails, or the alarm, would end the program at that point with failure and no further packet.\<close>

definition aoeping ::
  "u8 list \<Rightarrow> progopts \<Rightarrow> u8 list list \<Rightarrow> u8 list list \<Rightarrow> u8 list list \<Rightarrow> u8 list \<Rightarrow> u8 list list \<times> ping_end" where
  "aoeping mac opts0 p1 p2 p3 stdin =
     (let opts = opts0\<lparr>o_tag := o_tag opts0 OR 2 ^ 31\<rparr>;
          q1 = find_blade_pkt mac opts
      in case find_blade opts p1 of
           None \<Rightarrow> ([q1], Waits)
         | Some c \<Rightarrow>
             let t1 = o_tag opts + 1
             in if \<not> (o_ata_ident opts \<or> o_smart opts \<noteq> None) then ([q1], Done)
                else
                  let q2 = ata_bytes (identify_pkt mac c t1)
                  in case aoe_pkt_read c t1 p2 of
                       None \<Rightarrow> ([q1, q2], Waits)
                     | Some r \<Rightarrow>
                         let t2 = t1 + 1
                         in case o_smart opts of
                              None \<Rightarrow> ([q1, q2], Done)
                            | Some cmd \<Rightarrow>
                                if \<not> smart_supported (drop 36 r) then ([q1, q2], Fails)
                                else case smart_pkt mac c t2 cmd stdin of
                                       None \<Rightarrow> ([q1, q2], Fails)
                                     | Some a \<Rightarrow>
                                         let q3 = ata_bytes a
                                         in case aoe_pkt_read c t2 p3 of
                                              None \<Rightarrow> ([q1, q2, q3], Waits)
                                            | Some r3 \<Rightarrow>
                                                ([q1, q2, q3],
                                                 if show_smart_regs (atahdr_of (drop 24 r3)) = None then Fails else Done))"

section \<open>Tags\<close>

lemma top_bit_or: "bit (t OR 2 ^ 31 :: u32) 31"
  by (simp add: bit_or_iff bit_pow2_word)

text \<open>Counting a tag up keeps its top bit as long as the other 31 bits do not run over, and loses it then.\<close>

lemma top_bit_split: "t OR 2 ^ 31 = (t AND 0x7fffffff) + (2 ^ 31 :: u32)"
proof -
  obtain n :: nat where n: "n = 31" by simp
  have m: "(0x7fffffff :: u32) = mask n" by (simp add: n mask_eq_exp_minus_1)
  have "32 \<le> Suc n" by (simp add: n)
  then have "t OR 2 ^ n = (t AND mask n) OR 2 ^ n"
    by (intro bit_word_eqI) (auto simp: bit_or_iff bit_and_iff bit_mask_iff bit_pow2_word)
  also have "\<dots> = (t AND mask n) + 2 ^ n"
    by (rule disjunctive_add [symmetric]) (auto simp: bit_and_iff bit_mask_iff bit_pow2_word)
  finally show ?thesis unfolding m n .
qed

lemma top_bit_unat: "bit (w :: u32) 31 \<longleftrightarrow> 2 ^ 31 \<le> unat w"
proof -
  have "unat w < 2 ^ 32" using unsigned_less [of w] by simp
  then have d: "unat w div 2 ^ 31 < 2" by (simp add: less_mult_imp_div_less)
  have "bit w 31 \<longleftrightarrow> bit (unat w) 31" by (simp add: bit_unsigned_iff del: bit_iff_odd)
  also have "\<dots> \<longleftrightarrow> odd (unat w div 2 ^ 31)" by (rule bit_iff_odd)
  also have "\<dots> \<longleftrightarrow> unat w div 2 ^ 31 \<noteq> 0" using d by (metis One_nat_def even_zero less_2_cases odd_one)
  also have "\<dots> \<longleftrightarrow> 2 ^ 31 \<le> unat w" by (simp add: div_eq_0_iff not_less)
  finally show ?thesis .
qed

lemma masked_bound: "unat (t AND 0x7fffffff :: u32) < 2 ^ 31"
  using word_and_le1 [of t "0x7fffffff"] by (simp add: word_le_nat_alt)

lemma top_bit_add:
  assumes "n < 2 ^ 31"
  shows "unat ((t OR 2 ^ 31 :: u32) + of_nat n) =
    (if unat (t AND 0x7fffffff) + n < 2 ^ 31 then unat (t AND 0x7fffffff) + 2 ^ 31 + n else unat (t AND 0x7fffffff) + n - 2 ^ 31)"
proof -
  have u: "unat (of_nat n :: u32) = n" using assms by (simp add: unat_of_nat)
  have "unat ((t OR 2 ^ 31) + of_nat n) = (unat (t AND 0x7fffffff) + 2 ^ 31 + n) mod 2 ^ 32"
    unfolding top_bit_split unat_word_ariths u by (simp add: mod_add_left_eq)
  also have "\<dots> = (if unat (t AND 0x7fffffff) + n < 2 ^ 31 then unat (t AND 0x7fffffff) + 2 ^ 31 + n
      else unat (t AND 0x7fffffff) + n - 2 ^ 31)"
    using assms masked_bound [of t] by (auto simp: mod_if)
  finally show "unat ((t OR 2 ^ 31) + of_nat n) = (if unat (t AND 0x7fffffff) + n < 2 ^ 31 then unat (t AND 0x7fffffff) + 2 ^ 31 + n
      else unat (t AND 0x7fffffff) + n - 2 ^ 31)" .
qed

lemma rcv_top_bit: "bit (h_tag (hdr_of (r_data r))) 31 \<Longrightarrow> aoenet_rcv e dyn parts iflist c r y = y"
proof -
  assume "bit (h_tag (hdr_of (r_data r))) 31"
  then have "hasfl (h_tag (hdr_of (r_data r))) (2 ^ 31)" unfolding hasfl_bit by simp
  then show ?thesis by (simp add: aoenet_rcv_def Let_def)
qed

lemma hdr_tag_bytes: "hdr_wf h \<Longrightarrow> h_tag (hdr_of (hdr_bytes h @ rest)) = h_tag h"
  by (simp add: hdr.dec_enc)

lemma find_Some: "find P xs = Some x \<Longrightarrow> P x"
  by (auto simp: find_Some_iff)

lemma ata_tag:
  assumes "length mac = 6" "length (h_src c) = 6" "fst a = fst (ata_prep mac c tag)\<lparr>h_verfl := v\<rparr>"
  shows "h_tag (hdr_of (ata_bytes a)) = tag"
  using assms hdr_tag_bytes [of "fst a"] by (cases a) (simp add: ata_bytes_def ata_prep_def hdr_wf_def)

text \<open>The tags of the packets \<open>aoeping\<close> sends count up from the start tag, of which the top bit was set.\<close>

lemma aoeping_tags:
  assumes "length mac = 6"
  shows "\<exists>k. k \<le> 3 \<and> map (\<lambda>p. h_tag (hdr_of p)) (fst (aoeping mac opts p1 p2 p3 stdin)) = map (\<lambda>n. (o_tag opts OR 2 ^ 31) + of_nat n) [0..<k]"
proof -
  define t where "t = o_tag opts OR 2 ^ 31"
  let ?o = "opts\<lparr>o_tag := t\<rparr>"
  have q1: "h_tag (hdr_of (find_blade_pkt mac ?o)) = t"
    using assms(1) by (simp add: find_blade_pkt_def hdr_tag_bytes hdr_wf_def)
  show ?thesis
  proof (cases "find_blade ?o p1")
    case None
    then show ?thesis using q1 by (intro exI [of _ 1]) (simp add: aoeping_def Let_def t_def)
  next
    case (Some c)
    then obtain pk where "c = hdr_of pk" "blade_match ?o pk" by (auto simp: find_blade_def dest: find_Some)
    moreover have "length (h_src (hdr_of bs)) = 6" if "60 \<le> length bs" for bs using that by (simp add: hdr_of_def)
    ultimately have c: "length (h_src c) = 6" by (simp add: blade_match_def Let_def)
    have q2: "h_tag (hdr_of (ata_bytes (identify_pkt mac c (t + 1)))) = t + 1"
      by (rule ata_tag [OF assms(1) c, where v = "push_bit 4 AoEver"]) (simp add: identify_pkt_def ata_prep_def)
    have q3: "h_tag (hdr_of (ata_bytes a)) = t + 1 + 1" if "smart_pkt mac c (t + 1 + 1) cmd stdin = Some a" for cmd a
      by (rule ata_tag [OF assms(1) c, where v = "h_verfl (fst a)"])
        (use that in \<open>auto simp: smart_pkt_def ata_prep_def Let_def split: option.splits if_splits\<close>)
    have "map (\<lambda>p. h_tag (hdr_of p)) (fst (aoeping mac opts p1 p2 p3 stdin)) \<in> {[t], [t, t + 1], [t, t + 1, t + 1 + 1]}"
      using q1 q2 q3 Some unfolding aoeping_def Let_def t_def [symmetric]
      by (auto split: option.split simp del: add_2_eq_Suc)
    moreover have "[t] = map (\<lambda>n. t + of_nat n) [0..<1]" "[t, t + 1] = map (\<lambda>n. t + of_nat n) [0..<2]"
      "[t, t + 1, t + 1 + 1] = map (\<lambda>n. t + of_nat n) [0..<3]" by (simp_all add: upt_rec)
    ultimately show ?thesis unfolding t_def [symmetric] by (metis insert_iff empty_iff one_le_numeral le_refl numeral_le_iff semiring_norm(69,72))
  qed
qed

text \<open>A tag is apart from the driver if the driver never makes it and no packet that carries it changes the driver.\<close>

definition apart :: "u32 \<Rightarrow> bool" where
  "apart T \<longleftrightarrow> (\<forall>j lt. fst (newtag j lt) \<noteq> T)
     \<and> (\<forall>e dyn parts iflist c r y. h_tag (hdr_of (r_data r)) = T \<longrightarrow> aoenet_rcv e dyn parts iflist c r y = y)"

lemma top_bit_apart: "bit T 31 \<Longrightarrow> apart T"
  using newtag_top_clear by (auto simp: apart_def rcv_top_bit)

lemma small_not_apart:
  assumes "unat T < 2"
  shows "\<not> apart T"
proof -
  have "unat T = unat (0 :: u32) \<or> unat T = unat (1 :: u32)" using assms by auto
  then have "T = 0 \<or> T = 1" by (metis word_unat_eq_iff)
  moreover have "fst (newtag 0 0x7fff) = 0" "fst (newtag 1 0x7fff) = 1" by (simp_all add: newtag_def Let_def)
  ultimately show ?thesis unfolding apart_def by metis
qed

text \<open>C36. How far the driver and the user programs are kept apart.  The tag of a query of \<open>aoecfg\<close> is never one that the
  driver makes, and a packet with it changes nothing in the driver.  Of \<open>aoeping\<close> this holds for packet number \<open>n\<close>
  exactly as long as the low 31 bits of the start tag and \<open>n\<close> together stay below \<open>2 ^ 31\<close>: for its first packet with
  every start tag, for the identify and SMART commands unless the start tag is one of the last two.\<close>

theorem tools_apart_from_driver:
  assumes "length mac = 6" and "n < length (fst (aoeping mac opts p1 p2 p3 stdin))"
  shows "apart (h_tag (hdr_of (cfgquery_pkt mac cmd shelf slot (aoe_tag usec) str)))
    \<and> (apart (h_tag (hdr_of (fst (aoeping mac opts p1 p2 p3 stdin) ! n)))
        \<longleftrightarrow> unat (o_tag opts AND 0x7fffffff) + n < 2 ^ 31)"
proof -
  have "h_tag (hdr_of (cfgquery_pkt mac cmd shelf slot (aoe_tag usec) str)) = aoe_tag usec"
    using assms(1) by (simp add: cfgquery_pkt_def hdr_tag_bytes hdr_wf_def)
  then have q: "apart (h_tag (hdr_of (cfgquery_pkt mac cmd shelf slot (aoe_tag usec) str)))"
    using top_bit_apart top_bit_or by (simp add: aoe_tag_def)
  obtain k where k: "k \<le> 3" "map (\<lambda>p. h_tag (hdr_of p)) (fst (aoeping mac opts p1 p2 p3 stdin)) = map (\<lambda>n. (o_tag opts OR 2 ^ 31) + of_nat n) [0..<k]"
    using aoeping_tags [OF assms(1)] by blast
  have l: "length (fst (aoeping mac opts p1 p2 p3 stdin)) = k" using arg_cong [OF k(2), of length] by simp
  have t: "h_tag (hdr_of (fst (aoeping mac opts p1 p2 p3 stdin) ! n)) = (o_tag opts OR 2 ^ 31) + of_nat n"
    using arg_cong [OF k(2), of "\<lambda>l. l ! n"] assms(2) l by simp
  have n: "n < 3" using assms(2) k(1) l by simp
  then have "n < 2 ^ 31" by simp
  note u = top_bit_add [OF this, of "o_tag opts"]
  show ?thesis
  proof (cases "unat (o_tag opts AND 0x7fffffff) + n < 2 ^ 31")
    case True
    then have "bit ((o_tag opts OR 2 ^ 31) + of_nat n) 31" unfolding top_bit_unat u by simp
    then show ?thesis using q True top_bit_apart unfolding t by blast
  next
    case False
    then have "unat ((o_tag opts OR 2 ^ 31) + of_nat n) < 2" unfolding u using masked_bound [of "o_tag opts"] n by simp
    then show ?thesis using q False small_not_apart unfolding t by blast
  qed
qed

definition opts0 :: progopts where
  "opts0 = \<lparr>o_shelf = 1, o_slot = 2, o_tag = 0, o_smart = None, o_ata_ident = True, o_pp_ataid = False\<rparr>"

theorem tools_apart_from_driver_witness:
  "apart (h_tag (hdr_of (fst (aoeping (replicate 6 0) opts0 [] [] [] []) ! 0)))"
  using tools_apart_from_driver [of "replicate 6 0" 0 opts0 "[]" "[]" "[]" "[]"]
  by (simp add: aoeping_def find_blade_def opts0_def)

lemma aoeping_identifies:
  assumes "find_blade (opts\<lparr>o_tag := o_tag opts OR 2 ^ 31\<rparr>) p1 = Some c" and "o_ata_ident opts"
  shows "ata_bytes (identify_pkt mac c ((o_tag opts OR 2 ^ 31) + 1)) \<in> set (fst (aoeping mac opts p1 p2 p3 stdin))"
proof -
  obtain t where t: "t = o_tag opts OR 2 ^ 31" by simp
  show ?thesis unfolding t [symmetric]
    using assms unfolding aoeping_def t [symmetric] Let_def by (auto split: option.split)
qed

text \<open>With a start tag whose low 31 bits are all set, the second command of \<open>aoeping\<close> goes out with tag
  0, which has no top bit: its answer can reach the driver.\<close>

theorem aoeping_tag_wraps:
  assumes "length mac = 6" and "length (h_src c) = 6" and "o_tag opts = 0x7fffffff"
    and "find_blade (opts\<lparr>o_tag := o_tag opts OR 2 ^ 31\<rparr>) p1 = Some c" and "o_ata_ident opts"
  shows "\<exists>q \<in> set (fst (aoeping mac opts p1 p2 p3 stdin)). h_tag (hdr_of q) = 0 \<and> h_cmd (hdr_of q) = AOECMD_ATA"
proof -
  let ?q = "ata_bytes (identify_pkt mac c 0)"
  have t: "(0x7fffffff OR 2 ^ 31 :: u32) + 1 = 0" by simp
  have "?q \<in> set (fst (aoeping mac opts p1 p2 p3 stdin))"
    using aoeping_identifies [OF assms(4,5)] unfolding assms(3) t .
  moreover have "hdr_of ?q = fst (identify_pkt mac c 0)"
    using assms(1,2) hdr.dec_enc [of "fst (identify_pkt mac c 0)"]
    by (simp add: ata_bytes_def identify_pkt_def ata_prep_def hdr_wf_def)
  ultimately show ?thesis by (intro bexI [of _ ?q]) (simp_all add: identify_pkt_def ata_prep_def ATAcmd_def AOECMD_ATA_def)
qed

definition blade_rsp :: "u8 list" where
  "blade_rsp = hdr_bytes (zero_hdr\<lparr>h_type := 0x88a2, h_verfl := 0x18, h_major := 1, h_minor := 2, h_cmd := 1, h_tag := 0xffffffff\<rparr>)
     @ replicate 36 0"

theorem aoeping_tag_wraps_witness:
  "\<exists>q \<in> set (fst (aoeping (replicate 6 0) (opts0\<lparr>o_tag := 0x7fffffff\<rparr>) [blade_rsp] [] [] [])).
     h_tag (hdr_of q) = 0 \<and> h_cmd (hdr_of q) = AOECMD_ATA"
proof -
  have h: "hdr_of blade_rsp = zero_hdr\<lparr>h_type := 0x88a2, h_verfl := 0x18, h_major := 1, h_minor := 2, h_cmd := 1, h_tag := 0xffffffff\<rparr>"
    unfolding blade_rsp_def by (rule hdr.dec_enc) (simp add: hdr_wf_def zero_hdr_def)
  have "length blade_rsp = 60"
    unfolding blade_rsp_def by (simp add: hdr.length_enc hdr_wf_def zero_hdr_def)
  then have "find_blade (opts0\<lparr>o_tag := 0xffffffff\<rparr>) [blade_rsp] = Some (hdr_of blade_rsp)"
    by (simp add: find_blade_def blade_match_def h opts0_def AOE_ETH_PROTO_def zero_hdr_def)
  then show ?thesis
    using aoeping_tag_wraps [of "replicate 6 0" "hdr_of blade_rsp" "opts0\<lparr>o_tag := 0x7fffffff\<rparr>" "[blade_rsp]" "[]" "[]" "[]"]
    by (simp add: h zero_hdr_def opts0_def)
qed

section \<open>SMART\<close>

text \<open>No SMART command is marked as a write in its ATA header, not even \<open>write_log\<close>, which carries
  data: for it the flag is set in the AoE header instead.\<close>

theorem smart_write_not_marked:
  assumes "smart_pkt mac c tag cmd stdin = Some (h, ah, data)"
  shows "\<not> hasfl (ah_aflags ah) AOEAFL_WRITE
    \<and> (hasfl (h_verfl h) Write \<longleftrightarrow> (\<exists>s. smartcmd_lookup cmd = Some s \<and> hasfl (sm_data s) SmartDataPut))"
  using assms
  by (auto simp: smart_pkt_def ata_prep_def smart_registers_def zero_atahdr_def Let_def hasfl_def AoEver_def Write_def
      push_bit_eq_mult split: option.splits if_splits)

theorem smart_write_not_marked_witness:
  "\<not> hasfl (ah_aflags (fst (snd (the (smart_pkt (replicate 6 0) zero_hdr 5 ''write_log:0x80'' [1, 2]))))) AOEAFL_WRITE
    \<and> ah_lba0 (fst (snd (the (smart_pkt (replicate 6 0) zero_hdr 5 ''write_log:0x80'' [1, 2])))) = 0x80"
proof -
  have l: "smartcmd_lookup ''write_log:0x80'' = Some \<lparr>sm_name = ''write_log'', sm_cmd = 0xd6, sm_data = SmartDataPut\<rparr>"
    by (simp add: smartcmd_lookup_def smart_match_def smarts_def strncmp_take)
  have v: "strtol ''0x80'' = 0x80"
    by (simp add: strtol_def num_sign_def num_abs_def str_val_def is_digit_in_def digit_val_def Let_def)
  obtain h ah data where p: "smart_pkt (replicate 6 0) zero_hdr 5 ''write_log:0x80'' [1, 2] = Some (h, ah, data)"
    "ah_lba0 ah = 0x80"
    by (simp add: smart_pkt_def l ata_prep_def smart_registers_def after_colon_def v Let_def hasfl_def SmartDataPut_def zero_atahdr_def)
  then show ?thesis using smart_write_not_marked [OF p(1)] by simp
qed

section \<open>The buffer of a query\<close>

text \<open>The query of \<open>aoecfg\<close> is written from behind the end of its buffer, whatever the string; and a
  string of more than 1016 bytes is copied over the end.\<close>

theorem cfgquery_leaves_buffer:
  "\<not> list_all (in_buffer cfg_bufsize) (cfgquery_access n)
    \<and> (list_all (in_buffer cfg_bufsize) (filter (\<lambda>a. \<exists>i k. a = Wr i k) (cfgquery_access n)) \<longleftrightarrow> n \<le> 1016)"
  by (auto simp: cfgquery_access_def cfg_bufsize_def sizeof_Aoehdr_def sizeof_Conf_def)

text \<open>The table of errors of \<open>aoecfg\<close> is read behind its end for the error numbers that are 7 modulo 8.\<close>

lemma resp_errtab:
  "hasfl (h_verfl (hdr_of pkt)) Error \<Longrightarrow> resp shelf slot pkt = None \<longleftrightarrow> h_err (hdr_of pkt) AND 7 = 7"
proof -
  assume e: "hasfl (h_verfl (hdr_of pkt)) Error"
  have "unat (h_err (hdr_of pkt) AND 7) \<le> 7" 
    using word_and_le1 [of "h_err (hdr_of pkt)" 7] by (simp add: word_le_nat_alt)
  then show ?thesis using e by (auto simp: resp_def Let_def errtab_def word_eq_iff_unsigned [where 'a = nat])
qed

section \<open>Identify data\<close>

lemma length_swap [simp]: "length (swap_bytes xs) = length xs"
  by (induction xs rule: swap_bytes.induct) auto

lemma swap_drop: "even i \<Longrightarrow> drop i (swap_bytes xs) = swap_bytes (drop i xs)"
proof (induction xs arbitrary: i rule: swap_bytes.induct)
  case (1 a b xs)
  then show ?case by (cases i; cases "i - 1") auto
qed (auto simp: drop_Cons')

lemma swap_take: "even n \<Longrightarrow> take n (swap_bytes xs) = swap_bytes (take n xs)"
proof (induction xs arbitrary: n rule: swap_bytes.induct)
  case (1 a b xs)
  then show ?case by (cases n; cases "n - 1") auto
qed (auto simp: take_Cons')

lemma fixstring_eq:
  "i + 2 * ns \<le> length bs \<Longrightarrow>
   ata_ident_fixstring i ns bs = take i bs @ swap_bytes (take (2 * ns) (drop i bs)) @ drop (i + 2 * ns) bs"
proof (induction i ns bs rule: ata_ident_fixstring.induct)
  case (2 i ns bs)
  let ?bs = "bs[i := bs ! (i + 1), i + 1 := bs ! i]"
  obtain a b where d: "drop i bs = a # b # drop (i + 2) bs" "a = bs ! i" "b = bs ! (i + 1)"
    using 2(2) by (simp add: Cons_nth_drop_Suc)
  have "ata_ident_fixstring (i + 2) ns ?bs
      = take (i + 2) ?bs @ swap_bytes (take (2 * ns) (drop (i + 2) ?bs)) @ drop (i + 2 + 2 * ns) ?bs"
    by (rule 2(1)) (use 2(2) in simp)
  also have "take (i + 2) ?bs = take i bs @ [b, a]"
    using 2(2) d(2,3) by (auto simp: list_eq_iff_nth_eq nth_append less_Suc_eq nth_list_update)
  finally show ?case using d by (simp add: drop_update_cancel)
qed simp

text \<open>The driver and \<open>aoeping\<close> agree on the text fields of the identify data: the driver swaps the bytes of
  a field in place, \<open>aoeping\<close> those of the whole data, and a field reads the same in both; swapping twice
  gives the data back.\<close>

theorem ident_text_agrees:
  assumes "even i" and "i + 2 * ns \<le> length ident"
  shows "take (2 * ns) (drop i (ata_ident_fixstring i ns ident)) = take (2 * ns) (drop i (swap_bytes ident))
    \<and> swap_bytes (swap_bytes ident) = ident"
proof -
  have "swap_bytes (swap_bytes xs) = xs" for xs by (induction xs rule: swap_bytes.induct) auto
  moreover have "take (2 * ns) (drop i (ata_ident_fixstring i ns ident)) = swap_bytes (take (2 * ns) (drop i ident))"
    unfolding fixstring_eq [OF assms(2)] using assms(2) by simp
  ultimately show ?thesis using assms(1) by (simp add: swap_drop swap_take)
qed

theorem ident_text_agrees_witness:
  "take 4 (drop 2 (ata_ident_fixstring 2 2 [0, 0, 66, 65, 68, 67, 0])) = [65, 66, 67, 68]"
  using ident_text_agrees [of 2 2 "[0, 0, 66, 65, 68, 67, 0]"] by simp

end
