(* ===== verification/Cli.thy ===== *)
theory Cli
  imports Tools
begin

text \<open>
  The command lines of the user programs \<open>aoecfg\<close> and \<open>aoeping\<close> and their access to the network
  (\<open>linux.c\<close>): the options, the addresses of devices, the raw socket, the deadline of \<open>aoecfg\<close> and the
  two \<open>main\<close> functions.  A program ends with an exit status (\<open>Inl\<close>) or goes on (\<open>Inr\<close>).  What the
  programs print while they work is not here, and \<open>alarm\<close>, which kills \<open>aoeping\<close> after its timeout, is left out.
\<close>

section \<open>Options\<close>

text \<open>
  The C library's \<open>getopt\<close>, on the arguments after the name of the program: options are found
  wherever they stand, up to the argument \<open>--\<close>; the other arguments keep their order.  \<open>fs\<close> are the
  options without an argument, \<open>as\<close> those with one.
\<close>

datatype optev = Opt char | OptArg char string | Bad char

fun getopt_word :: "string \<Rightarrow> string \<Rightarrow> string \<Rightarrow> string list \<Rightarrow> optev list \<times> string list" where
  "getopt_word fs as [] argv = ([], argv)"
| "getopt_word fs as (c # cs) argv =
     (if c \<in> set as then
        (if cs \<noteq> [] then ([OptArg c cs], argv)
         else (case argv of [] \<Rightarrow> ([Bad c], []) | a # argv1 \<Rightarrow> ([OptArg c a], argv1)))
      else (case getopt_word fs as cs argv of
              (evs, argv1) \<Rightarrow> ((if c \<in> set fs then Opt c else Bad c) # evs, argv1)))"

lemma getopt_word_shorter: "getopt_word fs as cs argv = (evs, argv1) \<Longrightarrow> length argv1 \<le> length argv"
  by (induction fs as cs argv arbitrary: evs rule: getopt_word.induct) (auto split: if_splits list.splits prod.splits)

function getopt :: "string \<Rightarrow> string \<Rightarrow> string list \<Rightarrow> optev list \<times> string list" where
  "getopt fs as [] = ([], [])"
| "getopt fs as (a # argv) =
     (if a = ''--'' then ([], argv)
      else if length a > 1 \<and> hd a = CHR ''-'' then
        (let (evs, argv1) = getopt_word fs as (tl a) argv; (evs', rest) = getopt fs as argv1 in (evs @ evs', rest))
      else (case getopt fs as argv of (evs, rest) \<Rightarrow> (evs, a # rest)))"
  by pat_completeness auto
termination
proof (relation "measure (\<lambda>(fs, as, argv). length argv)")
  show "((fs, as, argv1), fs, as, a # argv) \<in> measure (\<lambda>(fs, as, argv). length argv)"
    if "x = getopt_word fs as (tl a) argv" "(evs, argv1) = x" for fs as a argv x evs argv1
    using getopt_word_shorter [of fs as "tl a" argv evs argv1] that by simp
qed simp_all

section \<open>Numbers\<close>

text \<open>\<open>atoi\<close> is \<open>strtol\<close> with base 10, converted to \<open>int\<close>; \<open>strtoul\<close> has base 0 here and negates in
  \<open>unsigned long\<close>.\<close>

definition atoi :: "string \<Rightarrow> int" where
  "atoi s =
     (let (neg, t) = num_sign s; v = str_val 10 t; l = max (- (2 ^ 63)) (min (2 ^ 63 - 1) (if neg then - v else v))
      in sint (word_of_int l :: u32))"

definition strtoul :: "string \<Rightarrow> int" where
  "strtoul s =
     (let (neg, t) = num_sign s; v = num_abs t
      in if v > 2 ^ 64 - 1 then 2 ^ 64 - 1 else if neg then (- v) mod 2 ^ 64 else v)"

section \<open>The raw socket\<close>

text \<open>
  What the kernel answers: whether there is a socket, the index of an interface
  (\<open>SIOCGIFINDEX\<close>), whether \<open>bind\<close> takes an index, and the hardware address (\<open>SIOCGIFHWADDR\<close>).
  The name is copied into a field of 16 bytes; \<open>None\<close> stands for a copy over its end.
\<close>

record netenv =
  ne_socket :: bool
  ne_index :: "string \<Rightarrow> int option"
  ne_bind :: "int \<Rightarrow> bool"
  ne_hwaddr :: "string \<Rightarrow> u8 list option"

definition IFNAMSIZ :: nat where "IFNAMSIZ = 16"

definition getindx :: "netenv \<Rightarrow> string \<Rightarrow> int option" where
  "getindx n name =
     (if length name + 1 > IFNAMSIZ then None
      else Some (case ne_index n name of None \<Rightarrow> - 1 | Some i \<Rightarrow> i))"

text \<open>The descriptor, or -1, and the descriptors that are open afterwards.\<close>

definition dial :: "netenv \<Rightarrow> string \<Rightarrow> int list \<Rightarrow> (int \<times> int list) option" where
  "dial n eth fds =
     (if \<not> ne_socket n then Some (- 1, fds)
      else
        (let s = 3 + int (length fds)
         in case getindx n eth of
              None \<Rightarrow> None
            | Some i \<Rightarrow> if \<not> ne_bind n i then Some (- 1, fds @ [s]) else Some (s, fds @ [s])))"

definition getea :: "netenv \<Rightarrow> int \<Rightarrow> string \<Rightarrow> u8 list option option" where
  "getea n s name =
     (if length name + 1 > IFNAMSIZ then None
      else if s = - 1 then Some None
      else Some (map_option (take 6) (ne_hwaddr n name)))"

section \<open>aoecfg\<close>

record cfgargs =
  ca_cmd :: u8
  ca_cfgstr :: "string option"
  ca_timeout :: int
  ca_shelf :: u16
  ca_slot :: u8
  ca_net :: string

definition cfgargs0 :: cfgargs where
  "cfgargs0 = \<lparr>ca_cmd = 0, ca_cfgstr = None, ca_timeout = 0, ca_shelf = 0xffff, ca_slot = 0xff, ca_net = ''eth0''\<rparr>"

text \<open>The loop over the options; \<open>usage\<close> exits with 1.\<close>

fun cfg_options :: "optev list \<Rightarrow> cfgargs \<Rightarrow> nat + cfgargs" where
  "cfg_options [] a = Inr a"
| "cfg_options (ev # evs) a =
     (case ev of
        OptArg c s \<Rightarrow>
          if c = CHR ''c'' then (case xlatecmd s of None \<Rightarrow> Inl 1 | Some k \<Rightarrow> cfg_options evs (a\<lparr>ca_cmd := k\<rparr>))
          else if c = CHR ''s'' then cfg_options evs (a\<lparr>ca_cfgstr := Some s\<rparr>)
          else if c = CHR ''t'' then cfg_options evs (a\<lparr>ca_timeout := atoi s\<rparr>)
          else Inl 1
      | _ \<Rightarrow> Inl 1)"

definition cfg_args :: "string list \<Rightarrow> nat + cfgargs" where
  "cfg_args argv =
     (case getopt ''v'' ''sct'' argv of (evs, rest) \<Rightarrow>
        (case cfg_options evs cfgargs0 of
           Inl x \<Rightarrow> Inl x
         | Inr a \<Rightarrow>
             let c = length rest;
                 b = (if c < 2 then Inr (a, rest)
                      else if c \<noteq> 3 \<and> c \<noteq> 2 then Inl 1
                      else Inr (a\<lparr>ca_shelf := word_of_int (strtoul (rest ! 0)), ca_slot := word_of_int (strtoul (rest ! 1))\<rparr>, drop 2 rest))
             in case b of
                  Inl x \<Rightarrow> Inl x
                | Inr (a1, []) \<Rightarrow> Inr a1
                | Inr (a1, net # _) \<Rightarrow>
                    if net \<noteq> [] \<and> is_digit (hd net) then Inl 1 else Inr (a1\<lparr>ca_net := net\<rparr>)))"

text \<open>\<open>readto\<close>: \<open>dl\<close> is its static variable \<open>to\<close>, \<open>now1\<close> and \<open>now2\<close> the two calls of \<open>time\<close>, and
  \<open>sel\<close> the value of \<open>select\<close> for a timeout in seconds.\<close>

definition readto :: "int \<Rightarrow> int \<Rightarrow> int \<Rightarrow> int \<Rightarrow> (int \<Rightarrow> int) \<Rightarrow> nat option \<times> int" where
  "readto timeout dl now1 now2 sel =
     (if timeout = 0 then (None, dl)
      else
        (let dl1 = (if dl = 0 then now1 + timeout else dl); r = sel (dl1 - now2)
         in (if r = - 1 then Some 1 else if r = 0 then Some 0 else None, dl1)))"

text \<open>One round of the loop of \<open>cfgquery\<close>: the clock, \<open>select\<close> and the packet that is read, if it can be.\<close>

record round =
  rd_now1 :: int
  rd_now2 :: int
  rd_sel :: "int \<Rightarrow> int"
  rd_pkt :: "u8 list option"

text \<open>The packets given to \<open>resp\<close>, and the exit status; \<open>None\<close> while the program waits.\<close>

fun cfg_rounds :: "int \<Rightarrow> int \<Rightarrow> int \<Rightarrow> u32 \<Rightarrow> int \<Rightarrow> round list \<Rightarrow> u8 list list \<times> nat option" where
  "cfg_rounds timeout shelf slot tag dl [] = ([], None)"
| "cfg_rounds timeout shelf slot tag dl (r # rs) =
     (case readto timeout dl (rd_now1 r) (rd_now2 r) (rd_sel r) of
        (Some x, _) \<Rightarrow> ([], Some x)
      | (None, dl1) \<Rightarrow>
          (case rd_pkt r of
             None \<Rightarrow> ([], Some 1)
           | Some p \<Rightarrow>
               if \<not> cfg_accept shelf slot tag p then cfg_rounds timeout shelf slot tag dl1 rs
               else if shelf \<noteq> 0xffff \<and> slot \<noteq> 0xff then ([p], Some 0)
               else (case cfg_rounds timeout shelf slot tag dl1 rs of (ps, x) \<Rightarrow> (p # ps, x))))"

datatype cli_end = Exit nat | Waiting | Overrun

text \<open>\<open>main\<close>: what is sent, what is printed and how it ends.  \<open>usec\<close> is what \<open>aoe_tag\<close> reads from the clock,
  \<open>wr\<close> whether \<open>write\<close> succeeds.\<close>

definition aoecfg_main ::
  "netenv \<Rightarrow> u32 \<Rightarrow> bool \<Rightarrow> round list \<Rightarrow> string list \<Rightarrow> u8 list list \<times> u8 list list \<times> cli_end" where
  "aoecfg_main n usec wr rs argv =
     (case cfg_args argv of
        Inl x \<Rightarrow> ([], [], Exit x)
      | Inr a \<Rightarrow>
          (case dial n (ca_net a) [] of
             None \<Rightarrow> ([], [], Overrun)
           | Some (sfd, _) \<Rightarrow>
               (case getea n sfd (ca_net a) of
                  None \<Rightarrow> ([], [], Overrun)
                | Some None \<Rightarrow> ([], [], Exit 1)
                | Some (Some mac) \<Rightarrow>
                    (let tag = aoe_tag usec; cfgstr = map (\<lambda>c. of_char c) (case ca_cfgstr a of None \<Rightarrow> [] | Some s \<Rightarrow> s);
                         q = cfgquery_pkt mac (ca_cmd a) (ca_shelf a) (ca_slot a) tag cfgstr
                     in if \<not> wr then ([], [], Exit 1)
                        else (case cfg_rounds (ca_timeout a) (uint (ca_shelf a)) (uint (ca_slot a)) tag 0 rs of
                                (ps, x) \<Rightarrow> ([q], ps, case x of None \<Rightarrow> Waiting | Some k \<Rightarrow> Exit k))))))"

section \<open>aoeping\<close>

record pingargs = progopts +
  o_netif :: string
  o_verbose :: nat
  o_timeout :: int

definition defaults :: pingargs where
  "defaults = \<lparr>o_shelf = 0, o_slot = 0, o_tag = 0, o_smart = None, o_ata_ident = False, o_pp_ataid = False,
     o_netif = [], o_verbose = 0, o_timeout = 0\<rparr>"

definition check_timeout :: "int \<Rightarrow> nat option" where
  "check_timeout secs = (if secs < 1 then Some 1 else None)"

fun ping_options :: "optev list \<Rightarrow> pingargs \<Rightarrow> nat + pingargs" where
  "ping_options [] a = Inr a"
| "ping_options (ev # evs) a =
     (case ev of
        Opt c \<Rightarrow>
          if c = CHR ''h'' then Inl 0
          else if c = CHR ''v'' then ping_options evs (a\<lparr>o_verbose := o_verbose a + 1\<rparr>)
          else if c = CHR ''i'' then ping_options evs (a\<lparr>o_ata_ident := True\<rparr>)
          else ping_options evs (a\<lparr>o_ata_ident := True, o_pp_ataid := True\<rparr>)
      | OptArg c s \<Rightarrow>
          if c = CHR ''t'' then ping_options evs (a\<lparr>o_tag := word_of_int (atoi s)\<rparr>)
          else if c = CHR ''s'' then
            (case check_timeout (atoi s) of Some x \<Rightarrow> Inl x | None \<Rightarrow> ping_options evs (a\<lparr>o_timeout := atoi s\<rparr>))
          else ping_options evs (a\<lparr>o_smart := Some s\<rparr>)
      | Bad c \<Rightarrow> Inl 1)"

definition init_opts :: "string list \<Rightarrow> nat + pingargs" where
  "init_opts argv =
     (case getopt ''hviI'' ''tsS'' argv of (evs, rest) \<Rightarrow>
        (case ping_options evs defaults of
           Inl x \<Rightarrow> Inl x
         | Inr a \<Rightarrow>
             if length rest \<noteq> 3 then Inl 1
             else Inr (a\<lparr>o_shelf := atoi (rest ! 0), o_slot := atoi (rest ! 1), o_netif := rest ! 2\<rparr>)))"

definition aoeping_main ::
  "netenv \<Rightarrow> u8 list list \<Rightarrow> u8 list list \<Rightarrow> u8 list list \<Rightarrow> u8 list \<Rightarrow> string list \<Rightarrow> u8 list list \<times> cli_end" where
  "aoeping_main n p1 p2 p3 stdin argv =
     (case init_opts argv of
        Inl x \<Rightarrow> ([], Exit x)
      | Inr a \<Rightarrow>
          (case dial n (o_netif a) [] of
             None \<Rightarrow> ([], Overrun)
           | Some (sfd, _) \<Rightarrow>
               (case getea n sfd (o_netif a) of
                  None \<Rightarrow> ([], Overrun)
                | Some None \<Rightarrow> ([], Exit 1)
                | Some (Some mac) \<Rightarrow>
                    (case aoeping mac (progopts.truncate a) p1 p2 p3 stdin of
                       (qs, x) \<Rightarrow> (qs, case x of Waits \<Rightarrow> Waiting | Fails \<Rightarrow> Exit 1 | Done \<Rightarrow> Exit 0)))))"


section \<open>Numbers are read as they are printed\<close>

lemma digits10:
  assumes "c \<in> set ''0123456789''"
  shows "is_digit_in 10 c" "0 \<le> digit_val c" "digit_val c < 10"
  using assms by (auto simp: is_digit_in_def digit_val_def Let_def)

lemma digit_nth:
  assumes "n < 10"
  shows "''0123456789'' ! n \<in> set ''0123456789''" "digit_val (''0123456789'' ! n) = int n"
proof -
  show "''0123456789'' ! n \<in> set ''0123456789''" by (rule nth_mem) (use assms in simp)
  have "n \<in> {0, 1, 2, 3, 4, 5, 6, 7, 8, 9}" using assms by auto
  then show "digit_val (''0123456789'' ! n) = int n" by (auto simp: digit_val_def Let_def)
qed

lemma dec_digits: "set (dec n) \<subseteq> set ''0123456789''" "dec n \<noteq> []"
  using dec_chars dec_length(1) by auto

lemma dec_fold: "fold (\<lambda>c n. 10 * n + digit_val c) (dec n) 0 = int n"
proof (induction n rule: dec.induct)
  case (1 n)
  show ?case
  proof (cases "n < 10")
    case True
    then show ?thesis by (simp add: dec.simps digit_nth)
  next
    case False
    have "int (10 * (n div 10) + n mod 10) = int n" by (simp only: mult_div_mod_eq)
    then have "10 * int (n div 10) + int (n mod 10) = int n" by (simp only: of_nat_add of_nat_mult of_nat_numeral)
    then show ?thesis using False 1 digit_nth(2) [of "n mod 10"] by (subst dec.simps) simp
  qed
qed

text \<open>No zeros in front, so that base 0 is base 10 too.\<close>

lemma dec_hd: "hd (dec n) = CHR ''0'' \<Longrightarrow> dec n = ''0''"
proof (induction n rule: dec.induct)
  case (1 n)
  show ?case
  proof (cases "n < 10")
    case True
    then have "dec n = [''0123456789'' ! n]" by (simp add: dec.simps)
    then show ?thesis using "1.prems" by simp
  next
    case False
    then have d: "dec n = dec (n div 10) @ [''0123456789'' ! (n mod 10)]" by (simp add: dec.simps)
    with "1.prems" dec_digits(2) have "hd (dec (n div 10)) = CHR ''0''" by simp
    with "1.IH" False have "dec (n div 10) = ''0''" by simp
    with dec_fold [of "n div 10"] have "n div 10 = 0" by (simp add: digit_val_def)
    with False show ?thesis by auto
  qed
qed

lemma dec_sign: "num_sign (dec n) = (False, dec n)"
proof -
  obtain c cs where d: "dec n = c # cs" using dec_digits(2) [of n] by (cases "dec n") auto
  then have "c \<in> set ''0123456789''" using dec_digits(1) [of n] by auto
  then show ?thesis by (auto simp: num_sign_def d)
qed

lemma dec_val: "str_val 10 (dec n) = int n"
proof -
  have "takeWhile (is_digit_in 10) (dec n) = dec n"
    using dec_digits(1) [of n] digits10(1) by (intro takeWhile_eq_all_conv [THEN iffD2]) blast
  then show ?thesis unfolding str_val_def by (simp only: dec_fold)
qed

lemma dec_abs: "num_abs (dec n) = int n"
proof (cases "hd (dec n) = CHR ''0''")
  case True
  then have d: "dec n = ''0''" by (rule dec_hd)
  then have "int n = 0" using dec_fold [of n] by (simp add: digit_val_def)
  then show ?thesis unfolding d by (simp add: num_abs_def str_val_def is_digit_in_def digit_val_def)
next
  case False
  then obtain c cs where d: "dec n = c # cs" "c \<noteq> CHR ''0''" using dec_digits(2) [of n] by (cases "dec n") auto
  then have "num_abs (c # cs) = str_val 10 (c # cs)" by (auto simp: num_abs_def split: list.splits char.splits bool.splits)
  then show ?thesis using dec_val [of n] d by simp
qed

lemma atoi_dec: "n < 2 ^ 31 \<Longrightarrow> atoi (dec n) = int n"
  by (simp add: atoi_def dec_sign dec_val Let_def sint_uint uint_word_of_int signed_take_bit_int_eq_self)

lemma strtoul_dec: "n < 2 ^ 64 \<Longrightarrow> strtoul (dec n) = int n"
  by (simp add: strtoul_def dec_sign dec_abs Let_def)


section \<open>Arguments\<close>

text \<open>An argument that is not an option.\<close>

definition plain :: "string \<Rightarrow> bool" where
  "plain a \<longleftrightarrow> a \<noteq> [] \<and> hd a \<noteq> CHR ''-''"

lemma getopt_plain [simp]:
  "plain a \<Longrightarrow> getopt fs as (a # argv) = (case getopt fs as argv of (evs, rest) \<Rightarrow> (evs, a # rest))"
  by (auto simp: plain_def)

lemma getopt_arg:
  "c \<in> set as \<Longrightarrow> c \<noteq> CHR ''-'' \<Longrightarrow>
     getopt fs as ((CHR ''-'' # [c]) # a # argv) = (case getopt fs as argv of (evs, rest) \<Rightarrow> (OptArg c a # evs, rest))"
  by (simp add: Let_def split: prod.split)

lemma plain_dec [simp]: "plain (dec n)"
proof -
  have "hd (dec n) \<in> set ''0123456789''" using dec_digits [of n] list.set_sel(1) by blast
  then show ?thesis using dec_digits(2) by (auto simp: plain_def)
qed

declare getopt.simps(2) [simp del]

lemma init_opts_plain:
  assumes "x < 2 ^ 31" "y < 2 ^ 31" "plain z"
  shows "init_opts [dec x, dec y, z] = Inr (defaults\<lparr>o_shelf := int x, o_slot := int y, o_netif := z\<rparr>)"
  using assms by (simp add: init_opts_def atoi_dec)

text \<open>C32. A device named in decimal is the device that is asked: with an address in range, a timeout and
  an interface, both programs read from their command lines the shelf, the slot, the timeout and the name that were
  printed there.\<close>

theorem cli_addresses:
  assumes "shelf < 2 ^ 16" and "slot < 2 ^ 8" and "0 < t" and "t < 2 ^ 31" and "plain net" and "\<not> is_digit (hd net)"
  shows "cfg_args [''-t'', dec t, dec shelf, dec slot, net]
           = Inr (cfgargs0\<lparr>ca_timeout := int t, ca_shelf := of_nat shelf, ca_slot := of_nat slot, ca_net := net\<rparr>)
    \<and> init_opts [''-s'', dec t, dec shelf, dec slot, net]
           = Inr (defaults\<lparr>o_timeout := int t, o_shelf := int shelf, o_slot := int slot, o_netif := net\<rparr>)"
proof
  have n: "strtoul (dec shelf) = int shelf" "strtoul (dec slot) = int slot" "atoi (dec t) = int t"
    "atoi (dec shelf) = int shelf" "atoi (dec slot) = int slot"
    using assms by (auto intro!: strtoul_dec atoi_dec)
  have "net \<noteq> []" using assms(5) by (simp add: plain_def)
  then show "cfg_args [''-t'', dec t, dec shelf, dec slot, net]
           = Inr (cfgargs0\<lparr>ca_timeout := int t, ca_shelf := of_nat shelf, ca_slot := of_nat slot, ca_net := net\<rparr>)"
    using assms(5,6) by (simp add: cfg_args_def getopt_arg n cfgargs0_def Let_def)
  show "init_opts [''-s'', dec t, dec shelf, dec slot, net]
           = Inr (defaults\<lparr>o_timeout := int t, o_shelf := int shelf, o_slot := int slot, o_netif := net\<rparr>)"
    using assms(3,5) by (simp add: init_opts_def getopt_arg n defaults_def check_timeout_def)
qed

theorem cli_addresses_witness:
  "init_opts [''-s'', dec 5, dec 700, dec 13, ''eth1''] = Inr (defaults\<lparr>o_timeout := 5, o_shelf := 700, o_slot := 13, o_netif := ''eth1''\<rparr>)"
  using cli_addresses [of 700 13 5 "''eth1''"] by (simp add: plain_def is_digit_def)

section \<open>The name of the interface\<close>

lemma ping_main_cases:
  assumes "init_opts argv = Inr a"
  shows "aoeping_main n p1 p2 p3 stdin argv =
    (if 16 \<le> length (o_netif a) then ([], Overrun)
     else case (if ne_socket n \<and> (\<exists>i. getindx n (o_netif a) = Some i \<and> ne_bind n i) then ne_hwaddr n (o_netif a) else None) of
       None \<Rightarrow> ([], Exit 1)
     | Some m \<Rightarrow> (case aoeping (take 6 m) (progopts.truncate a) p1 p2 p3 stdin of
         (qs, x) \<Rightarrow> (qs, case x of Waits \<Rightarrow> Waiting | Fails \<Rightarrow> Exit 1 | Done \<Rightarrow> Exit 0)))"
  using assms by (auto simp: aoeping_main_def dial_def getea_def getindx_def IFNAMSIZ_def split: option.split)


lemma cfg_main_cases:
  assumes "cfg_args argv = Inr a"
  shows "aoecfg_main n usec wr rs argv =
    (if 16 \<le> length (ca_net a) then ([], [], Overrun)
     else case (if ne_socket n \<and> (\<exists>i. getindx n (ca_net a) = Some i \<and> ne_bind n i) then ne_hwaddr n (ca_net a) else None) of
       None \<Rightarrow> ([], [], Exit 1)
     | Some m \<Rightarrow>
         if \<not> wr then ([], [], Exit 1)
         else (case cfg_rounds (ca_timeout a) (uint (ca_shelf a)) (uint (ca_slot a)) (aoe_tag usec) 0 rs of
           (ps, x) \<Rightarrow>
             ([cfgquery_pkt (take 6 m) (ca_cmd a) (ca_shelf a) (ca_slot a) (aoe_tag usec)
                 (map of_char (case ca_cfgstr a of None \<Rightarrow> [] | Some s \<Rightarrow> s))],
              ps, case x of None \<Rightarrow> Waiting | Some k \<Rightarrow> Exit k)))"
  using assms by (auto simp: aoecfg_main_def dial_def getea_def getindx_def IFNAMSIZ_def Let_def split: option.split)

lemma cfg_main_end:
  assumes "cfg_args argv = Inr a"
  shows "fst (aoecfg_main n usec wr rs argv) \<noteq> [] \<Longrightarrow> snd (aoecfg_main n usec wr rs argv) =
      (case cfg_rounds (ca_timeout a) (uint (ca_shelf a)) (uint (ca_slot a)) (aoe_tag usec) 0 rs of
         (ps, x) \<Rightarrow> (ps, case x of None \<Rightarrow> Waiting | Some k \<Rightarrow> Exit k))"
    and "fst (aoecfg_main n usec wr rs argv) = [] \<Longrightarrow> snd (snd (aoecfg_main n usec wr rs argv)) \<in> {Overrun, Exit 1}"
proof -
  let ?m = "if ne_socket n \<and> (\<exists>i. getindx n (ca_net a) = Some i \<and> ne_bind n i) then ne_hwaddr n (ca_net a) else None"
  obtain ps x where r: "cfg_rounds (ca_timeout a) (uint (ca_shelf a)) (uint (ca_slot a)) (aoe_tag usec) 0 rs = (ps, x)"
    by fastforce
  note c = cfg_main_cases [OF assms, of n usec wr rs, unfolded r prod.case]
  show "fst (aoecfg_main n usec wr rs argv) \<noteq> [] \<Longrightarrow> snd (aoecfg_main n usec wr rs argv) =
      (case cfg_rounds (ca_timeout a) (uint (ca_shelf a)) (uint (ca_slot a)) (aoe_tag usec) 0 rs of
         (ps, x) \<Rightarrow> (ps, case x of None \<Rightarrow> Waiting | Some k \<Rightarrow> Exit k))"
    unfolding c r by (cases "16 \<le> length (ca_net a)"; cases ?m; cases wr) simp_all
  show "fst (aoecfg_main n usec wr rs argv) = [] \<Longrightarrow> snd (snd (aoecfg_main n usec wr rs argv)) \<in> {Overrun, Exit 1}"
    unfolding c by (cases "16 \<le> length (ca_net a)"; cases ?m; cases wr) simp_all
qed

text \<open>The name of the interface is copied into the 16 bytes of \<open>ifr_name\<close> without a look at its length: on
  a command line that is accepted, each of the programs writes over the end of the field exactly when
  the name has 16 characters or more, whatever the kernel answers and whatever is on the network.\<close>

theorem cli_name_overrun:
  assumes "cfg_args cargv = Inr c" and "init_opts pargv = Inr p"
  shows "snd (snd (aoecfg_main n usec wr rs cargv)) = Overrun \<longleftrightarrow> IFNAMSIZ \<le> length (ca_net c)"
    and "snd (aoeping_main n p1 p2 p3 stdin pargv) = Overrun \<longleftrightarrow> IFNAMSIZ \<le> length (o_netif p)"
  unfolding cfg_main_cases [OF assms(1)] ping_main_cases [OF assms(2)] IFNAMSIZ_def
  by (auto split: option.splits prod.splits ping_end.splits)

theorem cli_name_overrun_witness:
  "snd (aoeping_main \<lparr>ne_socket = True, ne_index = (\<lambda>_. None), ne_bind = (\<lambda>_. False), ne_hwaddr = (\<lambda>_. None)\<rparr> [] [] [] []
     [dec 7, dec 1, ''enp0s31f6u1u4u4i5'']) = Overrun"
proof -
  have p: "init_opts [dec 7, dec 1, ''enp0s31f6u1u4u4i5'']
      = Inr (defaults\<lparr>o_shelf := 7, o_slot := 1, o_netif := ''enp0s31f6u1u4u4i5''\<rparr>)"
    using init_opts_plain [of 7 1 "''enp0s31f6u1u4u4i5''"] by (simp add: plain_def)
  have c: "cfg_args [] = Inr cfgargs0" by (simp add: cfg_args_def)
  show ?thesis by (simp only: cli_name_overrun(2) [OF c p]) (simp add: defaults_def IFNAMSIZ_def)
qed

section \<open>Addresses out of range\<close>

text \<open>C33. \<open>aoeping\<close> keeps the shelf and the slot as integers and sends them cut to 16 and 8 bits. For
  an address out of range the query goes to another device, and no answer can end the wait for it:
  the program fails before it sends or it sends that one query and waits, never to succeed.\<close>

theorem aoeping_out_of_range:
  assumes "init_opts argv = Inr a" and "o_shelf a \<notin> {0..<2 ^ 16} \<or> o_slot a \<notin> {0..<2 ^ 8}"
  shows "aoeping_main n p1 p2 p3 stdin argv \<in> {([], Overrun), ([], Exit 1)}
    \<or> (\<exists>mac. aoeping_main n p1 p2 p3 stdin argv = ([find_blade_pkt mac (progopts.truncate (a\<lparr>o_tag := o_tag a OR 2 ^ 31\<rparr>))], Waiting))"
proof -
  let ?o = "progopts.truncate (a\<lparr>o_tag := o_tag a OR 2 ^ 31\<rparr>)"
  have "\<not> blade_match ?o p" for p
  proof
    assume "blade_match ?o p"
    then have o: "o_shelf a = uint (h_major (hdr_of p))" "o_slot a = uint (h_minor (hdr_of p))"
      by (auto simp: blade_match_def Let_def progopts.defs)
    show False
      using assms(2) uint_lt2p [of "h_major (hdr_of p)"] uint_lt2p [of "h_minor (hdr_of p)"] unfolding o by simp
  qed
  then have "find_blade ?o p1 = None" by (simp add: find_blade_def find_None_iff)
  then have "aoeping mac (progopts.truncate a) p1 p2 p3 stdin = ([find_blade_pkt mac ?o], Waits)" for mac
    by (simp add: aoeping_def Let_def progopts.defs)
  then show ?thesis unfolding ping_main_cases [OF assms(1)] by (auto split: option.split)
qed

theorem aoeping_out_of_range_witness:
  "\<exists>mac. aoeping_main \<lparr>ne_socket = True, ne_index = (\<lambda>_. Some 2), ne_bind = (\<lambda>_. True), ne_hwaddr = (\<lambda>_. Some [2, 0, 0, 0, 0, 1])\<rparr>
     [] [] [] [] [dec 65543, dec 1, ''eth0''] =
       ([find_blade_pkt mac \<lparr>o_shelf = 65543, o_slot = 1, o_tag = 2 ^ 31, o_smart = None, o_ata_ident = False, o_pp_ataid = False\<rparr>], Waiting)"
proof -
  let ?n = "\<lparr>ne_socket = True, ne_index = (\<lambda>_. Some 2), ne_bind = (\<lambda>_. True), ne_hwaddr = (\<lambda>_. Some [2, 0, 0, 0, 0, 1])\<rparr>"
  let ?v = "[dec 65543, dec 1, ''eth0'']"
  have p: "init_opts ?v = Inr (defaults\<lparr>o_shelf := 65543, o_slot := 1, o_netif := ''eth0''\<rparr>)"
    using init_opts_plain [of 65543 1 "''eth0''"] by (simp add: plain_def)
  have "aoeping_main ?n [] [] [] [] ?v \<notin> {([], Overrun), ([], Exit 1)}"
    unfolding ping_main_cases [OF p] by (simp add: getindx_def IFNAMSIZ_def defaults_def aoeping_def find_blade_def Let_def)
  with aoeping_out_of_range [OF p, of ?n "[]" "[]" "[]" "[]"] show ?thesis by (simp add: defaults_def progopts.defs)
qed

section \<open>When aoecfg ends\<close>

lemma cfg_rounds_no_timeout:
  assumes "\<forall>r\<in>set rs. rd_pkt r \<noteq> None"
  shows "cfg_rounds 0 shelf slot tag dl rs =
    (cfgquery_loop shelf slot tag (map (the \<circ> rd_pkt) rs),
     if shelf \<noteq> 0xffff \<and> slot \<noteq> 0xff \<and> (\<exists>r\<in>set rs. cfg_accept shelf slot tag (the (rd_pkt r))) then Some 0 else None)"
  using assms by (induction rs) (auto simp: readto_def split: prod.splits)


text \<open>Without a timeout \<open>aoecfg\<close> prints what the loop without a clock prints. It ends after the
  first answer when both the shelf and the slot were given, and otherwise it goes on to wait.\<close>

theorem aoecfg_answers:
  assumes "cfg_args argv = Inr a" and "ca_timeout a = 0" and "\<forall>r\<in>set rs. rd_pkt r \<noteq> None"
    and "fst (aoecfg_main n usec wr rs argv) \<noteq> []"
  shows "snd (aoecfg_main n usec wr rs argv) =
    (cfgquery_loop (uint (ca_shelf a)) (uint (ca_slot a)) (aoe_tag usec) (map (the \<circ> rd_pkt) rs),
     if ca_shelf a \<noteq> 0xffff \<and> ca_slot a \<noteq> 0xff
       \<and> (\<exists>r\<in>set rs. cfg_accept (uint (ca_shelf a)) (uint (ca_slot a)) (aoe_tag usec) (the (rd_pkt r)))
     then Exit 0 else Waiting)"
proof -
  have b: "uint (ca_shelf a) = 0xffff \<longleftrightarrow> ca_shelf a = 0xffff" "uint (ca_slot a) = 0xff \<longleftrightarrow> ca_slot a = 0xff"
    by (simp_all add: word_uint_eq_iff)
  show ?thesis
    unfolding cfg_main_end(1) [OF assms(1,4)] assms(2) cfg_rounds_no_timeout [OF assms(3)] b by simp
qed

text \<open>The deadline is fixed in the first round; \<open>select\<close> refuses a negative timeout.\<close>

lemma cfg_rounds_deadline:
  assumes "timeout \<noteq> 0" "dl \<noteq> 0" "\<forall>r\<in>set rs. \<forall>t<0. rd_sel r t = - 1" "\<exists>r\<in>set rs. dl < rd_now2 r"
  shows "snd (cfg_rounds timeout shelf slot tag dl rs) \<noteq> None"
  using assms(3,4)
proof (induction rs)
  case (Cons r rs)
  show ?case
  proof (cases "dl < rd_now2 r")
    case True
    then have "fst (readto timeout dl (rd_now1 r) (rd_now2 r) (rd_sel r)) = Some 1"
      using Cons.prems(1) assms(1,2) by (simp add: readto_def Let_def)
    then show ?thesis by (cases "readto timeout dl (rd_now1 r) (rd_now2 r) (rd_sel r)") simp
  next
    case False
    then have "snd (cfg_rounds timeout shelf slot tag dl rs) \<noteq> None" using Cons by simp
    moreover have "snd (readto timeout dl (rd_now1 r) (rd_now2 r) (rd_sel r)) = dl"
      using assms(1,2) by (simp add: readto_def Let_def)
    ultimately show ?thesis by (auto split: prod.split option.split)
  qed
qed simp

lemma cfg_rounds_late:
  assumes "timeout \<noteq> 0" "dl \<noteq> 0" "shelf = 0xffff \<or> slot = 0xff" "\<forall>t<0. rd_sel r t = - 1" "dl < rd_now2 r"
    and "\<forall>q\<in>set rs1. rd_pkt q \<noteq> None \<and> rd_sel q (dl - rd_now2 q) = 1"
  shows "snd (cfg_rounds timeout shelf slot tag dl (rs1 @ r # rs2)) = Some 1"
  using assms(6)
proof (induction rs1)
  case Nil
  show ?case using assms by (simp add: readto_def Let_def)
next
  case (Cons q rs1)
  then show ?case using assms(1-3) by (auto simp: readto_def Let_def split: prod.split)
qed

lemma readto_first:
  assumes "timeout \<noteq> 0" "now1 + timeout \<noteq> 0"
  shows "readto timeout 0 now1 now2 sel = readto timeout (now1 + timeout) now1 now2 sel"
  using assms by (simp add: readto_def Let_def)

lemma cfg_rounds_first:
  assumes "timeout \<noteq> 0" "rd_now1 r + timeout \<noteq> 0"
  shows "cfg_rounds timeout shelf slot tag 0 (r # rs) = cfg_rounds timeout shelf slot tag (rd_now1 r + timeout) (r # rs)"
  using readto_first [OF assms] by simp

text \<open>With a timeout \<open>aoecfg\<close> ends: once the clock is past the first reading plus the timeout in some
  later round, the program has come to an end, whatever was received. The system call \<open>select\<close> is
  assumed to refuse a negative timeout.\<close>

theorem aoecfg_timeout_ends:
  assumes "cfg_args argv = Inr a" and "0 < ca_timeout a" and "0 < rd_now1 r"
    and "\<forall>q\<in>set (r # rs). \<forall>t<0. rd_sel q t = - 1" and "\<exists>q\<in>set (r # rs). rd_now1 r + ca_timeout a < rd_now2 q"
  shows "snd (snd (aoecfg_main n usec wr (r # rs) argv)) \<noteq> Waiting"
proof -
  have t: "ca_timeout a \<noteq> 0" "rd_now1 r + ca_timeout a \<noteq> 0" using assms(2,3) by simp_all
  have "snd (cfg_rounds (ca_timeout a) (uint (ca_shelf a)) (uint (ca_slot a)) (aoe_tag usec) 0 (r # rs)) \<noteq> None"
    unfolding cfg_rounds_first [OF t] by (rule cfg_rounds_deadline [OF t assms(4,5)])
  then show ?thesis
    using cfg_main_end [OF assms(1), of n usec wr "r # rs"]
    by (cases "fst (aoecfg_main n usec wr (r # rs) argv) = []") (auto simp del: cfg_rounds.simps split: prod.splits)
qed

definition netenv0 :: netenv where
  "netenv0 = \<lparr>ne_socket = True, ne_index = (\<lambda>_. Some 2), ne_bind = (\<lambda>_. True), ne_hwaddr = (\<lambda>_. Some [2, 0, 0, 0, 0, 1])\<rparr>"

text \<open>A round in which a short packet is read, and one after the deadline.\<close>

definition round_at :: "int \<Rightarrow> round" where
  "round_at t = \<lparr>rd_now1 = t, rd_now2 = t, rd_sel = (\<lambda>d. if d < 0 then - 1 else 1), rd_pkt = Some []\<rparr>"

lemma cfg_args_t: "0 < t \<Longrightarrow> t < 2 ^ 31 \<Longrightarrow> cfg_args [''-t'', dec t] = Inr (cfgargs0\<lparr>ca_timeout := int t\<rparr>)"
  by (simp add: cfg_args_def getopt_arg atoi_dec)

lemma cfg_sends0: "cfg_args argv = Inr a \<Longrightarrow> ca_net a = ''eth0'' \<Longrightarrow> fst (aoecfg_main netenv0 usec True rs argv) \<noteq> []"
  by (simp add: cfg_main_cases netenv0_def getindx_def IFNAMSIZ_def split: prod.split)

theorem aoecfg_timeout_ends_witness:
  "snd (snd (aoecfg_main netenv0 0 True [round_at 100, round_at 104] [''-t'', dec 3])) \<noteq> Waiting"
  using aoecfg_timeout_ends [OF cfg_args_t [of 3], of "round_at 100" "[round_at 104]" netenv0 0 True]
  by (simp add: round_at_def)

theorem aoecfg_answers_witness:
  "snd (aoecfg_main netenv0 0 True [round_at 100] []) = ([], Waiting)"
  using aoecfg_answers [OF _ _ _ cfg_sends0, of "[]" cfgargs0 "[round_at 100]"]
  by (simp add: cfg_args_def cfgargs0_def round_at_def cfg_accept_def)

text \<open>A timeout that passes while packets arrive is an error: asked for all devices, with a packet in every
  round before the deadline, the program finds the deadline behind it, gives \<open>select\<close> a negative timeout
  and ends with status 1, not with the status 0 of a timeout that \<open>select\<close> reports.\<close>

theorem aoecfg_late_exit:
  assumes "cfg_args argv = Inr a" and "0 < ca_timeout a" and "ca_shelf a = 0xffff \<or> ca_slot a = 0xff" and "0 < rd_now1 r"
    and "\<forall>q\<in>set (r # rs1). rd_pkt q \<noteq> None \<and> rd_sel q (rd_now1 r + ca_timeout a - rd_now2 q) = 1"
    and "\<forall>t<0. rd_sel l t = - 1" and "rd_now1 r + ca_timeout a < rd_now2 l"
    and "fst (aoecfg_main n usec wr (r # rs1 @ l # rs2) argv) \<noteq> []"
  shows "snd (snd (aoecfg_main n usec wr (r # rs1 @ l # rs2) argv)) = Exit 1"
proof -
  have t: "ca_timeout a \<noteq> 0" "rd_now1 r + ca_timeout a \<noteq> 0" using assms(2,4) by simp_all
  have b: "uint (ca_shelf a) = 0xffff \<or> uint (ca_slot a) = 0xff" using assms(3) by (auto simp: word_uint_eq_iff)
  have "snd (cfg_rounds (ca_timeout a) (uint (ca_shelf a)) (uint (ca_slot a)) (aoe_tag usec) 0 (r # rs1 @ l # rs2)) = Some 1"
    unfolding cfg_rounds_first [OF t] using cfg_rounds_late [OF t b assms(6,7,5), of _ rs2] by simp
  then show ?thesis unfolding cfg_main_end(1) [OF assms(1,8)] by (auto simp del: cfg_rounds.simps split: prod.split)
qed

theorem aoecfg_late_exit_witness:
  "snd (snd (aoecfg_main netenv0 0 True [round_at 100, round_at 104] [''-t'', dec 3])) = Exit 1"
proof -
  have c: "cfg_args [''-t'', dec 3] = Inr (cfgargs0\<lparr>ca_timeout := 3\<rparr>)" using cfg_args_t [of 3] by simp
  have "fst (aoecfg_main netenv0 0 True [round_at 100, round_at 104] [''-t'', dec 3]) \<noteq> []"
    by (rule cfg_sends0 [OF c]) (simp add: cfgargs0_def)
  then show ?thesis
    using aoecfg_late_exit [OF c, of "round_at 100" "[]" "round_at 104" netenv0 0 True "[]"]
    by (simp add: cfgargs0_def round_at_def)
qed

end
