(* ===== verification/Ping.thy ===== *)
theory Ping
  imports Cli
begin

text \<open>
  What \<open>aoeping\<close> prints on its standard output: with \<open>-v\<close> its arguments and the device it found, the identify data as
  they are or field by field, the registers after a SMART command and the data it returned.  Numbers are
  read as on a little-endian machine.
\<close>

datatype pout =
    PArgs u32 string int int
  | PFound u16 u8 string
  | PDump string
  | PVendor nat u16
  | PText string "u8 list"
  | PRegs "(string \<times> u8) list"
  | PData string

text \<open>The fields of \<open>struct hd_driveid\<close> that are printed, with their offsets.\<close>

definition le16 :: "u8 list \<Rightarrow> nat \<Rightarrow> u16" where
  "le16 d i = ucast (d ! i) OR push_bit 8 (ucast (d ! Suc i))"

definition field :: "nat \<Rightarrow> nat \<Rightarrow> u8 list \<Rightarrow> u8 list" where
  "field off len d = take len (drop off d)"

text \<open>The answer of the device: 36 bytes of headers, then the data, of which 1024 bytes are swapped.\<close>

definition disk_identify_out :: "progopts \<Rightarrow> u8 list \<Rightarrow> pout list" where
  "disk_identify_out opts data =
     (if o_ata_ident opts \<and> \<not> o_pp_ataid opts then [PDump (hex_print 0 (take 512 data) '' '')]
      else if \<not> o_pp_ataid opts then []
      else
        (let d = swap_bytes (take 1024 data)
         in [PVendor 0 (le16 d 14), PVendor 1 (le16 d 16), PVendor 2 (le16 d 18),
             PText ''serial_number: '' (pp_idtext (field 20 20 d)), PText ''firmware_rev: '' (pp_idtext (field 46 8 d)),
             PText ''model: '' (pp_idtext (field 54 40 d))]))"

definition smart_out :: "string \<Rightarrow> u8 list \<Rightarrow> pout list" where
  "smart_out cmd r =
     (case show_smart_regs (atahdr_of (drop 24 r)) of
        None \<Rightarrow> []
      | Some regs \<Rightarrow>
          PRegs regs #
            (case smartcmd_lookup cmd of
               None \<Rightarrow> []
             | Some s \<Rightarrow> if hasfl (sm_data s) SmartDataRet then [PData (hex_print 0 (take 512 (drop 36 r)) '' '')] else []))"

text \<open>\<open>main\<close>, beside the packets of \<open>aoeping\<close>.\<close>

definition aoeping_out :: "pingargs \<Rightarrow> u8 list list \<Rightarrow> u8 list list \<Rightarrow> u8 list list \<Rightarrow> pout list" where
  "aoeping_out a p1 p2 p3 =
     (let tag = o_tag a OR 2 ^ 31; opts = (progopts.truncate a)\<lparr>o_tag := tag\<rparr>;
          verb = (\<lambda>x. if o_verbose a \<noteq> 0 then [x] else [])
      in verb (PArgs tag (o_netif a) (o_shelf a) (o_slot a)) @
         (case find_blade opts p1 of
            None \<Rightarrow> []
          | Some c \<Rightarrow>
              verb (PFound (h_major c) (h_minor c) (hex_print 0 (h_src c) [])) @
              (if \<not> (o_ata_ident opts \<or> o_smart opts \<noteq> None) then []
               else
                 (case aoe_pkt_read c (tag + 1) p2 of
                    None \<Rightarrow> []
                  | Some r \<Rightarrow>
                      disk_identify_out opts (drop 36 r) @
                      (case o_smart opts of
                         None \<Rightarrow> []
                       | Some cmd \<Rightarrow>
                           if \<not> smart_supported (drop 36 r) \<or> smartcmd_lookup cmd = None then []
                           else (case aoe_pkt_read c (tag + 2) p3 of None \<Rightarrow> [] | Some r3 \<Rightarrow> smart_out cmd r3))))))"

section \<open>Dumps can be read back\<close>

definition hexval :: "char \<Rightarrow> u8" where
  "hexval c = of_nat (length (takeWhile (\<lambda>x. x \<noteq> c) ''0123456789abcdef''))"

fun unhex :: "string \<Rightarrow> u8 list" where
  "unhex (a # b # s) = (push_bit 4 (hexval a) OR hexval b) # unhex s"
| "unhex _ = []"

definition hexchars :: "string \<Rightarrow> string" where
  "hexchars s = filter (\<lambda>c. c \<in> set ''0123456789abcdef'') s"

lemma hexdigit_val: "hexdigit b \<in> set ''0123456789abcdef'' \<and> hexval (hexdigit b) = b AND 0xf"
proof -
  define n where "n = unat (b AND 0xf)"
  have "b AND 0xf = take_bit 4 b" by (simp add: take_bit_eq_mask mask_eq_exp_minus_1)
  then have "n = take_bit 4 (unat b)" by (simp add: n_def unsigned_take_bit_eq)
  then have "n < 16" by (simp add: take_bit_eq_mod)
  then have "n \<in> {0, 1, 2, 3, 4, 5, 6, 7, 8, 9, 10, 11, 12, 13, 14, 15}" unfolding insert_iff empty_iff by presburger
  then have "''0123456789abcdef'' ! n \<in> set ''0123456789abcdef'' \<and> hexval (''0123456789abcdef'' ! n) = of_nat n"
    by (elim insertE emptyE) (simp_all only: hexval_def, simp_all)
  moreover have "of_nat n = b AND 0xf" by (simp add: n_def)
  ultimately show ?thesis by (simp add: hexdigit_def n_def)
qed

lemma nibbles: "push_bit 4 (drop_bit 4 b AND 0xf) OR (b AND 0xf) = (b :: u8)"
proof -
  have m: "(0xf :: u8) = mask 4" by (simp add: mask_eq_exp_minus_1)
  show ?thesis unfolding m by (rule bit_word_eqI) (auto simp: bit_or_iff bit_and_iff bit_mask_iff bit_push_bit_iff bit_drop_bit_eq)
qed

lemma unhex_dump: "unhex (hexchars (hex_print i bs '' '')) = bs"
proof (induction i bs "'' ''" rule: hex_print.induct)
  case (2 i b bs)
  have h: "hexdigit x \<in> set ''0123456789abcdef''" "hexval (hexdigit x) = x AND 0xf" for x using hexdigit_val by auto
  have "hexchars (hex_print i (b # bs) '' '') = hexdigit (drop_bit 4 b) # hexdigit b # hexchars (hex_print (Suc i) bs '' '')"
    using h(1) by (simp add: hexchars_def)
  then show ?case using 2 by (simp only: unhex.simps h(2) nibbles)
qed (simp add: hexchars_def)


text \<open>The dump of \<open>aoeping -i\<close> is complete: the hexadecimal digits of what is printed for an answer are exactly its first
  512 bytes of data; and a SMART command that returns data prints them in the same way.\<close>

theorem ping_dump_roundtrip:
  assumes "o_ata_ident opts" and "\<not> o_pp_ataid opts"
  shows "(\<exists>s. disk_identify_out opts data = [PDump s] \<and> unhex (hexchars s) = take 512 data)
    \<and> (\<forall>cmd r s. PData s \<in> set (smart_out cmd r) \<longrightarrow> unhex (hexchars s) = take 512 (drop 36 r))"
  using assms unhex_dump by (auto simp: disk_identify_out_def smart_out_def split: option.splits if_splits)

theorem ping_dump_roundtrip_witness:
  "\<exists>s. disk_identify_out (opts0\<lparr>o_ata_ident := True\<rparr>) [0x5a, 0x42] = [PDump s] \<and> unhex (hexchars s) = [0x5a, 0x42]"
  using ping_dump_roundtrip [of "opts0\<lparr>o_ata_ident := True\<rparr>" "[0x5a, 0x42]"] by (simp add: opts0_def)

lemma swap_nth:
  "Suc (2 * k) < length xs \<Longrightarrow> swap_bytes xs ! (2 * k) = xs ! Suc (2 * k) \<and> swap_bytes xs ! Suc (2 * k) = xs ! (2 * k)"
proof (induction xs arbitrary: k rule: swap_bytes.induct)
  case (1 a b xs)
  then show ?case by (cases k) simp_all
qed auto

text \<open>\<open>aoeping -I\<close> prints the numbers of the identify data with their bytes exchanged: the whole data are swapped
  for the text fields before the vendor words are read, so a word that the device sent with its low byte first is
  printed with that byte as the high one.\<close>

theorem ping_vendor_swapped:
  assumes "o_pp_ataid opts" and "20 \<le> length data"
  shows "PVendor k v \<in> set (disk_identify_out opts data) \<longleftrightarrow>
    k < 3 \<and> v = push_bit 8 (ucast (data ! (14 + 2 * k))) OR ucast (data ! (15 + 2 * k))"
proof -
  have l: "le16 (swap_bytes (take 1024 data)) (2 * j) = push_bit 8 (ucast (data ! (2 * j))) OR ucast (data ! Suc (2 * j))"
    if "j < 10" for j
    using swap_nth [of j "take 1024 data"] assms(2) that by (simp add: le16_def or.commute)
  have "k < 3 \<longleftrightarrow> k = 0 \<or> k = 1 \<or> k = 2" by auto
  then show ?thesis using assms(1) l [of 7] l [of 8] l [of 9] by (auto simp: disk_identify_out_def Let_def)
qed

theorem ping_vendor_swapped_witness:
  "PVendor 0 0x3412 \<notin> set (disk_identify_out (opts0\<lparr>o_pp_ataid := True\<rparr>) (replicate 14 0 @ [0x12, 0x34] @ replicate 1000 0))
    \<and> PVendor 0 0x1234 \<in> set (disk_identify_out (opts0\<lparr>o_pp_ataid := True\<rparr>) (replicate 14 0 @ [0x12, 0x34] @ replicate 1000 0))"
  using ping_vendor_swapped [of "opts0\<lparr>o_pp_ataid := True\<rparr>" "replicate 14 0 @ [0x12, 0x34] @ replicate 1000 0" 0]
  by (simp add: nth_append)

end
