(* ===== verification/Sanrun.thy ===== *)
theory Sanrun
  imports Sancheck
begin

text \<open>
  The run of \<open>aoe-sancheck\<close>: the interfaces it opens, its threads, one for each interface, and what \<open>main\<close>
  prints in the end.  The threads are interleaved by a schedule of events.  A pass of a thread through its loop
  that only looks at the entry of its own interface is one event.  A pass that puts a new device into the lists also
  writes \<open>targlist\<close> and the counter of \<open>findlun\<close>, which all threads share without a lock: it is two events,
  and when a second thread begins such a pass before the first one is through, the result of the program is
  undefined.  Memory is there.  What the kernel answers is the record \<open>sanenv\<close>.
\<close>

section \<open>Opening an interface\<close>

text \<open>Sockets, the answers to \<open>SIOCGIFINDEX\<close>, \<open>bind\<close>, \<open>SIOCGIFHWADDR\<close> (the 14 bytes of an address), \<open>SIOCGIFMTU\<close> and
  \<open>SIOCGIFFLAGS\<close>, and the contents of files.\<close>

record sanenv =
  se_socket :: bool
  se_index :: "string \<Rightarrow> int option"
  se_bind :: "int \<Rightarrow> bool"
  se_hwaddr :: "string \<Rightarrow> u8 list option"
  se_mtu :: "string \<Rightarrow> int option"
  se_inet :: bool
  se_flags :: "string \<Rightarrow> u16 option"
  se_file :: "string \<Rightarrow> string option"

definition si_getindx :: "sanenv \<Rightarrow> string \<Rightarrow> int" where
  "si_getindx n name = (case se_index n name of None \<Rightarrow> - 1 | Some i \<Rightarrow> i)"

definition getmtu :: "sanenv \<Rightarrow> eth \<Rightarrow> int" where
  "getmtu n e = (case se_mtu n (n_name e) of None \<Rightarrow> 1500 | Some m \<Rightarrow> m)"

text \<open>The result of \<open>ethopen\<close> and the interface; \<open>None\<close> where the name does not fit into \<open>ifr_name\<close>.\<close>

definition ethopen :: "sanenv \<Rightarrow> eth \<Rightarrow> (bool \<times> eth) option" where
  "ethopen n e =
     (if \<not> se_socket n then Some (False, e)
      else if 16 \<le> length (n_name e) then None
      else if \<not> se_bind n (si_getindx n (n_name e)) then Some (False, e)
      else
        (case se_hwaddr n (n_name e) of
           None \<Rightarrow> Some (False, e)
         | Some sa \<Rightarrow>
             let e1 = e\<lparr>n_ea := take 6 (sa @ replicate 6 0)\<rparr> in Some (True, e1\<lparr>n_mtu := getmtu n e1\<rparr>)))"

definition IFF_UP :: u16 where "IFF_UP = 1"

definition ifup :: "sanenv \<Rightarrow> string \<Rightarrow> bool option" where
  "ifup n name =
     (if \<not> se_inet n then Some False
      else if 16 \<le> length name then None
      else Some (case se_flags n name of None \<Rightarrow> False | Some f \<Rightarrow> f AND IFF_UP \<noteq> 0))"

section \<open>The threads\<close>

definition waitsecs :: int where "waitsecs = 5"

text \<open>A thread before \<open>ethopen\<close>, in its loop with the time \<open>t\<close> of its last useful input, inside \<open>findlun\<close> where it puts
  a new device into the lists, after its return, or after a write over the end of a field.\<close>

datatype thr = Fresh | Loop int | Insert int | Ended | Crashed

fun inserting :: "thr \<Rightarrow> bool" where
  "inserting (Insert t) = True"
| "inserting x = False"

text \<open>\<open>r_race\<close> tells whether two threads were inside of \<open>findlun\<close>, with new devices, at one time.\<close>

record srun =
  r_z :: san
  r_thr :: "thr list"
  r_out :: "(nat \<times> u8 list) list"
  r_race :: bool

text \<open>
  \<open>Open i wr now\<close>: thread \<open>i\<close> up to its loop, where \<open>wr\<close> tells whether the query could be written.
  \<open>Poll i nt bs now\<close>: one pass, with the time at its start, the bytes that \<open>poll\<close> and \<open>read\<close> yield (none where one
  of them fails) and the time at its end; a pass with a new device goes up to the lists.
  \<open>Finish i now\<close>: the rest of such a pass, with the time at its end.
\<close>

datatype sev = Open nat bool int | Poll nat int "u8 list" int | Finish nat int

definition set_thr :: "nat \<Rightarrow> thr \<Rightarrow> srun \<Rightarrow> srun" where
  "set_thr i t r = r\<lparr>r_thr := (r_thr r)[i := t]\<rparr>"

definition upd_eth :: "nat \<Rightarrow> eth \<Rightarrow> san \<Rightarrow> san" where
  "upd_eth i e z = z\<lparr>z_eth := (z_eth z)[i := e]\<rparr>"

definition jcheck_open :: "sanenv \<Rightarrow> nat \<Rightarrow> bool \<Rightarrow> int \<Rightarrow> srun \<Rightarrow> srun" where
  "jcheck_open n i wr now r =
     (case ethopen n (z_eth (r_z r) ! i) of
        None \<Rightarrow> set_thr i Crashed r
      | Some (False, _) \<Rightarrow> set_thr i Ended r
      | Some (True, e) \<Rightarrow>
          (case san_discover e of (q, e1) \<Rightarrow>
             let r1 = r\<lparr>r_z := upd_eth i e1 (r_z r)\<rparr>
             in if \<not> wr then set_thr i Ended r1 else set_thr i (Loop now) (r1\<lparr>r_out := r_out r1 @ [(i, q)]\<rparr>)))"

text \<open>Whether \<open>jinput\<close> puts a new device into the lists.\<close>

definition inserts :: "nat \<Rightarrow> san \<Rightarrow> bool" where
  "inserts i z =
     (let e = z_eth z ! i; a = n_pkt e
      in a_flags a AND (Arsp OR Aerr) = Arsp \<and> (a ! 20) AND 0x80 \<noteq> 0 \<and> a_cmd a = Cqc
         \<and> \<not> snd (lun_scan (a_major a) (a_minor a) (a_src a) 0 (n_luns e)))"

definition jcheck_done :: "nat \<Rightarrow> int \<Rightarrow> int \<Rightarrow> srun \<Rightarrow> srun" where
  "jcheck_done i t now r =
     (case jinput i (r_z r) of (sent, useful, z) \<Rightarrow>
        set_thr i (Loop (if useful then now else t)) (r\<lparr>r_z := z, r_out := r_out r @ map (Pair i) sent\<rparr>))"

definition jcheck_pass :: "nat \<Rightarrow> int \<Rightarrow> int \<Rightarrow> u8 list \<Rightarrow> int \<Rightarrow> srun \<Rightarrow> srun" where
  "jcheck_pass i t nt bs now r =
     (if nt - t \<ge> waitsecs then set_thr i Ended r
      else if bs = [] then r
      else
        let r1 = r\<lparr>r_z := read_pkt i bs (r_z r)\<rparr>
        in if inserts i (r_z r1)
           then set_thr i (Insert t) (r1\<lparr>r_race := r_race r1 \<or> list_ex inserting (r_thr r1)\<rparr>)
           else jcheck_done i t now r1)"

text \<open>An event of a thread that is not at that place, or that was not created, does nothing.\<close>

fun san_step :: "sanenv \<Rightarrow> sev \<Rightarrow> srun \<Rightarrow> srun" where
  "san_step n (Open i wr now) r =
     (if i < length (r_thr r) \<and> r_thr r ! i = Fresh then jcheck_open n i wr now r else r)"
| "san_step n (Poll i nt bs now) r =
     (if i < length (r_thr r) then (case r_thr r ! i of Loop t \<Rightarrow> jcheck_pass i t nt bs now r | _ \<Rightarrow> r) else r)"
| "san_step n (Finish i now) r =
     (if i < length (r_thr r) then (case r_thr r ! i of Insert t \<Rightarrow> jcheck_done i t now r | _ \<Rightarrow> r) else r)"

section \<open>What is printed\<close>

definition getpciid :: "sanenv \<Rightarrow> string \<Rightarrow> string option" where
  "getpciid n name =
     (let rd = (\<lambda>f. case se_file n (''/sys/class/net/'' @ name @ ''/device/'' @ f) of
                  None \<Rightarrow> None
                | Some s \<Rightarrow> if take 4 (drop 2 s) = [] then None else Some (take 4 (drop 2 s)))
      in case rd ''vendor'' of
           None \<Rightarrow> None
         | Some ven \<Rightarrow> (case rd ''device'' of None \<Rightarrow> None | Some dev \<Rightarrow> Some (ven @ '':'' @ dev)))"

definition ifsummary :: "sanenv \<Rightarrow> eth list \<Rightarrow> (string \<times> bool \<times> int \<times> string) list" where
  "ifsummary n es =
     map (\<lambda>e. (n_name e, n_up e, n_mtu e, case getpciid n (n_name e) of None \<Rightarrow> [] | Some p \<Rightarrow> p)) es"

definition printlist :: "eth list \<Rightarrow> (string \<times> (int \<times> int \<times> string \<times> int) list) list" where
  "printlist es = map (\<lambda>e. (n_name e, map (\<lambda>l. (l_major l, l_minor l, cea (l_ea l), l_maxsect l)) (n_luns e))) es"

record sanout =
  so_ifs :: "(string \<times> bool \<times> int \<times> string) list"
  so_devs :: "report list"
  so_list :: "(string \<times> (int \<times> int \<times> string \<times> int) list) list"

section \<open>main\<close>

definition Neth :: nat where "Neth = 16"

definition eth0 :: eth where
  "eth0 = \<lparr>n_luns = [], n_name = [], n_ea = replicate 6 0, n_mtu = 0, n_up = False, n_pkt = replicate pkt_size 0\<rparr>"

text \<open>The loop over the interfaces: \<open>create i\<close> tells whether \<open>pthread_create\<close> succeeds.  The entries that got a name and the
  number of threads; \<open>None\<close> where a name is missing or too long.\<close>

fun start_threads :: "sanenv \<Rightarrow> (nat \<Rightarrow> bool) \<Rightarrow> nat \<Rightarrow> string option list \<Rightarrow> (eth list \<times> nat) option" where
  "start_threads n create i [] = Some ([], i)"
| "start_threads n create i (None # names) = None"
| "start_threads n create i (Some nm # names) =
     (case ifup n nm of
        None \<Rightarrow> None
      | Some up \<Rightarrow>
          let e = eth0\<lparr>n_name := nm, n_up := up\<rparr>
          in if \<not> create i then Some ([e], i)
             else (case start_threads n create (Suc i) names of None \<Rightarrow> None | Some (es, k) \<Rightarrow> Some (e # es, k)))"

definition san_begin :: "sanenv \<Rightarrow> (nat \<Rightarrow> bool) \<Rightarrow> (nat \<Rightarrow> string option) \<Rightarrow> srun option" where
  "san_begin n create ifname =
     (let names = (if se_inet n then ethlist ifname Neth else Some (0, replicate Neth None))
      in case names of
           None \<Rightarrow> None
         | Some (k, ifs) \<Rightarrow>
             (case start_threads n create 0 (take k ifs) of
                None \<Rightarrow> None
              | Some (es, nt) \<Rightarrow>
                  Some \<lparr>r_z = \<lparr>z_eth = es, z_id = 0, z_targlist = []\<rparr>, r_thr = replicate nt Fresh, r_out = [],
                    r_race = False\<rparr>))"

text \<open>The calls of \<open>snprintf\<close> of \<open>sancheck\<close> stay inside of its buffer, and the loops over the interfaces find an entry
  without a name before the end of the array.\<close>

definition fits_buf :: "int \<times> u64 \<times> string \<Rightarrow> bool" where
  "fits_buf w = (case w of (a, sz, txt) \<Rightarrow> a + int (min (unat sz) (length txt + 1)) \<le> 128)"

definition print_fits :: "san \<Rightarrow> bool" where
  "print_fits z = (length (z_eth z) < Neth
     \<and> list_all (\<lambda>(maj, mi). list_all fits_buf (sc_writes (fold (sc_eth maj mi) (z_eth z) sct0))) (z_targlist z))"

text \<open>The result is printed when every thread was joined.  The program may still wait, end with a bad access, or have
  an undefined result because two threads wrote the shared lists at once.\<close>

datatype sanres = Waiting | BadAccess | Raced | Printed sanout

definition san_main :: "sanenv \<Rightarrow> (nat \<Rightarrow> bool) \<Rightarrow> (nat \<Rightarrow> string option) \<Rightarrow> sev list \<Rightarrow> string list \<Rightarrow> sanres" where
  "san_main n create ifname evs argv =
     (case san_begin n create ifname of
        None \<Rightarrow> BadAccess
      | Some r0 \<Rightarrow>
          let r = fold (san_step n) evs r0; es = z_eth (r_z r)
          in if r_race r then Raced
             else if Crashed \<in> set (r_thr r) then BadAccess
             else if \<exists>t\<in>set (r_thr r). t \<noteq> Ended then Waiting
             else if \<not> print_fits (r_z r) then BadAccess
             else Printed \<lparr>so_ifs = ifsummary n es, so_devs = printsancheck (r_z r),
                       so_list = (if argv = [''-v''] then printlist es else [])\<rparr>)"


section \<open>The list of interfaces\<close>

lemma strcmp_eq: "strcmp a b = 0 \<longleftrightarrow> a = b"
proof (induction a b rule: strcmp.induct)
  case (4 a as b bs)
  have "a = b" if "(of_char a :: nat) = of_char b" using that by simp
  then show ?case using 4 by auto
qed auto

lemma strcmp_swap: "strcmp b a = - strcmp a b"
  by (induction a b rule: strcmp.induct) auto

lemma strcmp_Cons:
  "strcmp (a # as) (b # bs) < 0 \<longleftrightarrow> of_char a < (of_char b :: nat) \<or> a = b \<and> strcmp as bs < 0"
proof -
  have "a = b" if "\<not> of_char a < (of_char b :: nat)" "\<not> of_char b < (of_char a :: nat)"
  proof -
    have "(of_char a :: nat) = of_char b" using that by (metis linorder_neqE)
    then show ?thesis by simp
  qed
  then show ?thesis by auto
qed

lemma strcmp_trans: "strcmp a b < 0 \<Longrightarrow> strcmp b c < 0 \<Longrightarrow> strcmp a c < 0"
proof (induction b arbitrary: a c)
  case Nil
  then show ?case by (cases a) auto
next
  case (Cons y b)
  show ?case
  proof (cases a; cases c)
    fix x a1 z c1
    assume ac: "a = x # a1" "c = z # c1"
    have "strcmp a1 b < 0 \<Longrightarrow> strcmp b c1 < 0 \<Longrightarrow> strcmp a1 c1 < 0" by (rule Cons.IH)
    then show ?thesis using Cons.prems unfolding ac strcmp_Cons by (blast intro: less_trans)
  qed (use Cons.prems in auto)
qed

definition name_before :: "string \<Rightarrow> string \<Rightarrow> bool" where
  "name_before a b \<longleftrightarrow> strcmp a b < 0"

fun ins_name :: "string \<Rightarrow> string list \<Rightarrow> string list" where
  "ins_name n [] = [n]"
| "ins_name n (b # bs) = (if name_before n b then n # b # bs else if n = b then b # bs else b # ins_name n bs)"

lemma set_ins_name: "set (ins_name n bs) = insert n (set bs)"
  by (induction bs) auto

lemma sorted_ins_name: "sorted_wrt name_before bs \<Longrightarrow> sorted_wrt name_before (ins_name n bs)"
proof (induction bs)
  case (Cons b bs)
  have "name_before b n" if "\<not> name_before n b" "n \<noteq> b"
    using that strcmp_swap [of n b] strcmp_eq [of n b] by (auto simp: name_before_def)
  then show ?case using Cons strcmp_trans [of n b] by (auto simp: set_ins_name name_before_def)
qed simp

interpretation nl: list_set ins_name "sorted_wrt name_before" "\<lambda>_. True"
proof
  have "\<not> name_before a a" for a using strcmp_eq [of a a] by (simp add: name_before_def)
  then show "sorted_wrt name_before xs \<Longrightarrow> distinct xs" for xs by (induction xs) auto
qed (auto simp: sorted_ins_name set_ins_name)

text \<open>The array as the list of its names.\<close>

definition name_array :: "nat \<Rightarrow> string list \<Rightarrow> string option list" where
  "name_array k xs = map Some xs @ replicate (k - length xs) None"

lemma shift_eth_array: "length xs < k \<Longrightarrow> shift_eth a (name_array k xs) = Some (name_array k (a # xs))"
proof (induction xs arbitrary: a k)
  case Nil
  then show ?case by (cases k) (simp_all add: name_array_def)
next
  case (Cons x xs)
  then show ?case by (cases k) (auto simp: name_array_def)
qed

lemma inserteth_array: "length xs < k \<Longrightarrow> inserteth n (name_array k xs) = Some (name_array k (ins_name n xs))"
proof (induction xs arbitrary: k)
  case Nil
  then show ?case by (cases k) (simp_all add: name_array_def)
next
  case (Cons x xs)
  then obtain j where j: "k = Suc j" "length xs < j" by (cases k) auto
  have c: "name_array k (y # ys) = Some y # name_array j ys" for y ys by (simp add: name_array_def j)
  have "shift_eth n (Some x # name_array j xs) = Some (name_array k (n # x # xs))"
    using shift_eth_array [of "x # xs" k n] Cons.prems by (simp add: c)
  then show ?case
    unfolding c inserteth.simps using Cons.IH [OF j(2)] strcmp_eq [of n x] by (simp add: c name_before_def)
qed

definition eth_names :: "(nat \<Rightarrow> string option) \<Rightarrow> nat list \<Rightarrow> string list" where
  "eth_names ifname is = filter (\<lambda>nm. take 3 nm = ''eth'') (List.map_filter ifname is)"

lemma length_ins_name: "length (ins_name n xs) \<le> Suc (length xs)"
  by (induction xs) auto

lemma ethlist_loop_array:
  "length xs + length is \<le> k \<Longrightarrow>
     ethlist_loop ifname is n (name_array k xs) =
       Some (n + length (eth_names ifname is), name_array k (fold ins_name (eth_names ifname is) xs))"
proof (induction "is" arbitrary: n xs)
  case (Cons i "is")
  have "length (ins_name nm xs) + length is \<le> k" for nm using Cons.prems length_ins_name [of nm xs] by simp
  then show ?case using Cons inserteth_array [of xs k]
    by (auto simp: eth_names_def map_filter_simps split: option.split)
qed (simp add: eth_names_def map_filter_simps)

lemma ethlist_spec:
  "\<exists>ys. ethlist ifname k = Some (length (eth_names ifname [0..<k]), map Some ys @ replicate (k - length ys) None)
     \<and> sorted_wrt name_before ys \<and> distinct ys \<and> set ys = set (eth_names ifname [0..<k])"
proof -
  let ?ns = "eth_names ifname [0..<k]"
  let ?ys = "fold ins_name ?ns []"
  have "replicate k None = name_array k []" by (simp add: name_array_def)
  then have "ethlist ifname k = Some (length ?ns, name_array k ?ys)"
    using ethlist_loop_array [of "[]" "[0..<k]" k ifname 0] by (simp add: ethlist_def)
  moreover have "sorted_wrt name_before ?ys" "set ?ys = set ?ns" using nl.fold_ins [of "[]" ?ns] by simp_all
  ultimately show ?thesis using nl.invar_distinct [of ?ys] by (auto simp: name_array_def)
qed

text \<open>\<open>ethlist\<close> returns, with the names of the interfaces \<open>eth...\<close> among the first indices in the front of the array, in
  strictly ascending order and each one once. The number it returns counts a name as often as the kernel
  gives it.\<close>

theorem ethlist_exact:
  "\<exists>ys. ethlist ifname k = Some (length (eth_names ifname [0..<k]), map Some ys @ replicate (k - length ys) None)
     \<and> sorted_wrt name_before ys \<and> distinct ys \<and> set ys = set (eth_names ifname [0..<k])"
  by (rule ethlist_spec)


section \<open>Every schedule\<close>

text \<open>What a run keeps: the lists are in order, there is an interface for every thread, and no name grows.\<close>

definition names_of :: "san \<Rightarrow> string list" where
  "names_of z = map n_name (z_eth z)"

lemma names_upd: "i < length (z_eth z) \<Longrightarrow> n_name e = n_name (z_eth z ! i) \<Longrightarrow> names_of (z\<lparr>z_eth := (z_eth z)[i := e]\<rparr>) = names_of z"
  by (simp add: names_of_def map_update) (metis length_map list_update_id nth_map)

lemma names_upd_lun: "i < length (z_eth z) \<Longrightarrow> names_of (upd_lun i j g z) = names_of z"
  by (simp add: upd_lun_def Let_def names_upd)

lemma names_findlun: "i < length (z_eth z) \<Longrightarrow> findlun i z = (r, z') \<Longrightarrow> names_of z' = names_of z"
  using names_upd [of i z] by (auto simp: findlun_def Let_def names_of_def split: prod.splits bool.splits if_splits)

lemma names_len: "names_of z' = names_of z \<Longrightarrow> length (z_eth z') = length (z_eth z)"
  unfolding names_of_def by (metis length_map)

lemma names_jinput:
  assumes i: "i < length (z_eth z)" and r: "jinput i z = (sent, u, z')"
  shows "names_of z' = names_of z"
proof -
  obtain q z1 where f: "findlun i z = (q, z1)" by fastforce
  have n1: "names_of z1 = names_of z" by (rule names_findlun [OF i f])
  then have i1: "i < length (z_eth z1)" using i names_len by metis
  have probe: "names_of (upd_lun i j g (z2\<lparr>z_eth := (z_eth z2)[i := e]\<rparr>)) = names_of z"
    if "z2 = upd_lun i j h z1" "jprobe (z_eth z2 ! i) l = (s, e)" for j g h z2 l s e
  proof -
    have z2: "names_of z2 = names_of z1" "i < length (z_eth z2)"
      unfolding that(1) using i1 by (simp_all add: names_upd_lun upd_lun_len)
    have "n_name e = n_name (z_eth z2 ! i)" using that(2) by (auto simp: jprobe_def Let_def)
    then show ?thesis using z2 n1 by (simp add: names_upd_lun names_upd)
  qed
  show ?thesis
    using r f n1 i1 probe [OF refl]
    by (auto simp: jinput_def Let_def names_upd_lun split: if_splits option.splits prod.splits)
qed

definition run_ok :: "srun \<Rightarrow> bool" where
  "run_ok r \<longleftrightarrow> san_ok (r_z r) \<and> length (r_thr r) \<le> length (z_eth (r_z r))"


lemma ethopen_Some:
  "ethopen n e = Some (True, e') \<Longrightarrow> n_luns e' = n_luns e \<and> n_name e' = n_name e \<and> length (n_ea e') = 6"
  by (auto simp: ethopen_def Let_def split: if_splits option.splits)

lemma ethopen_fits: "length (n_name e) < 16 \<Longrightarrow> ethopen n e \<noteq> None"
  by (auto simp: ethopen_def Let_def split: option.split)

lemma discover_ok: "eth_ok e \<Longrightarrow> n_luns e' = n_luns e \<Longrightarrow> length (n_ea e') = 6 \<Longrightarrow> eth_ok (snd (san_discover e'))"
  by (simp add: eth_ok_def san_discover_def discover_pkt_def hnputs_def hnputl_def pkt_size_def)

lemma set_thr_simps [simp]:
  "r_z (set_thr i t r) = r_z r" "r_thr (set_thr i t r) = (r_thr r)[i := t]" "r_out (set_thr i t r) = r_out r"
  "r_race (set_thr i t r) = r_race r"
  by (simp_all add: set_thr_def)

lemma jcheck_open_ok:
  assumes "run_ok r" "i < length (r_thr r)"
  shows "run_ok (jcheck_open n i wr now r) \<and> names_of (r_z (jcheck_open n i wr now r)) = names_of (r_z r)"
proof (cases "\<exists>e. ethopen n (z_eth (r_z r) ! i) = Some (True, e)")
  case True
  then obtain e where e: "ethopen n (z_eth (r_z r) ! i) = Some (True, e)" by blast
  let ?e = "snd (san_discover e)"
  let ?z = "upd_eth i ?e (r_z r)"
  have i: "i < length (z_eth (r_z r))" using assms by (simp add: run_ok_def)
  note o = ethopen_Some [OF e]
  have k: "n_luns ?e = n_luns e" "n_name ?e = n_name e" by (simp_all add: san_discover_def)
  have "eth_ok (z_eth (r_z r) ! i)" using assms i by (simp add: run_ok_def san_ok_def)
  then have "san_ok ?z" unfolding upd_eth_def
    using assms i o k by (intro san_ok_update discover_ok) (auto simp: run_ok_def)
  moreover have "names_of ?z = names_of (r_z r)" unfolding upd_eth_def by (rule names_upd [OF i]) (simp add: k o)
  moreover have "length (z_eth ?z) = length (z_eth (r_z r))" by (simp add: upd_eth_def)
  ultimately show ?thesis using assms e by (auto simp: jcheck_open_def run_ok_def Let_def split: prod.split)
next
  case False
  then show ?thesis using assms by (auto simp: jcheck_open_def run_ok_def split: option.split bool.split)
qed

lemma jcheck_done_ok:
  assumes "run_ok r" "i < length (r_thr r)"
  shows "run_ok (jcheck_done i t now r) \<and> names_of (r_z (jcheck_done i t now r)) = names_of (r_z r)"
proof -
  have i: "i < length (z_eth (r_z r))" using assms by (simp add: run_ok_def)
  obtain sent u z where j: "jinput i (r_z r) = (sent, u, z)" by (metis prod_cases3)
  have "san_ok (r_z r)" using assms by (simp add: run_ok_def)
  then have z: "san_ok z" "names_of z = names_of (r_z r)" using jinput_ok [OF _ i j] names_jinput [OF i j] by simp_all
  then show ?thesis using names_len [OF z(2)] assms by (simp add: jcheck_done_def run_ok_def j)
qed

lemma jcheck_pass_ok:
  assumes "run_ok r" "i < length (r_thr r)"
  shows "run_ok (jcheck_pass i t nt bs now r) \<and> names_of (r_z (jcheck_pass i t nt bs now r)) = names_of (r_z r)"
proof -
  have i: "i < length (z_eth (r_z r))" using assms by (simp add: run_ok_def)
  let ?r = "r\<lparr>r_z := read_pkt i bs (r_z r)\<rparr>"
  have "san_ok (read_pkt i bs (r_z r))" using read_pkt_ok assms i by (simp add: run_ok_def)
  moreover have n: "names_of (read_pkt i bs (r_z r)) = names_of (r_z r)" unfolding read_pkt_def Let_def by (rule names_upd [OF i]) simp
  ultimately have "run_ok ?r" using assms names_len [OF n] by (simp add: run_ok_def)
  then show ?thesis
    using jcheck_done_ok [of ?r i t now] n assms by (auto simp: jcheck_pass_def Let_def run_ok_def)
qed

lemma san_step_ok: "run_ok r \<Longrightarrow> run_ok (san_step n ev r) \<and> names_of (r_z (san_step n ev r)) = names_of (r_z r)"
  using jcheck_open_ok [of r] jcheck_pass_ok [of r] jcheck_done_ok [of r] by (cases ev) (simp_all split: thr.split)

lemma san_run_ok: "run_ok r \<Longrightarrow> run_ok (fold (san_step n) evs r) \<and> names_of (r_z (fold (san_step n) evs r)) = names_of (r_z r)"
proof (induction evs arbitrary: r)
  case (Cons ev evs)
  then show ?case using san_step_ok [of r n ev] by simp
qed simp

lemma start_threads_ok:
  "start_threads n create i names = Some (es, k) \<Longrightarrow>
     (\<forall>e\<in>set es. eth_ok e \<and> n_luns e = [] \<and> Some (n_name e) \<in> set names) \<and> k - i \<le> length es \<and> i \<le> k"
proof (induction n create i names arbitrary: es k rule: start_threads.induct)
  case (3 n create i nm names)
  obtain up where u: "ifup n nm = Some up" using "3.prems" by (auto split: option.splits)
  define e where "e = eth0\<lparr>n_name := nm, n_up := up\<rparr>"
  have e: "eth_ok e" "n_luns e = []" "n_name e = nm" by (simp_all add: e_def eth_ok_def eth0_def luns_sorted_def)
  show ?case
  proof (cases "create i")
    case False
    then have "es = [e]" "k = i" using "3.prems" u by (simp_all add: e_def Let_def)
    then show ?thesis using e by simp
  next
    case True
    then obtain es' where s: "start_threads n create (Suc i) names = Some (es', k)" "es = e # es'"
      using "3.prems" u by (auto simp: e_def Let_def split: option.splits)
    have ih: "\<forall>d\<in>set es'. eth_ok d \<and> n_luns d = [] \<and> Some (n_name d) \<in> set names" "k - Suc i \<le> length es'" "Suc i \<le> k"
      using "3.IH" [OF u refl _ s(1)] True by auto
    have "k - i \<le> length es \<and> i \<le> k" using ih(2,3) by (simp add: s(2))
    then show ?thesis using ih(1) e by (simp add: s(2))
  qed
qed auto

lemma san_begin_ok:
  assumes "san_begin n create ifname = Some r"
  shows "run_ok r" "set (r_thr r) \<subseteq> {Fresh}" "set (names_of (r_z r)) \<subseteq> set (eth_names ifname [0..<Neth])" "r_out r = []"
    "\<not> r_race r"
proof -
  obtain k ifs es nt where
    k: "(if se_inet n then ethlist ifname Neth else Some (0, replicate Neth None)) = Some (k, ifs)"
    and s: "start_threads n create 0 (take k ifs) = Some (es, nt)"
    and r: "r = \<lparr>r_z = \<lparr>z_eth = es, z_id = 0, z_targlist = []\<rparr>, r_thr = replicate nt Fresh, r_out = [], r_race = False\<rparr>"
    using assms by (auto simp: san_begin_def Let_def split: option.splits)
  note o = start_threads_ok [OF s]
  show "run_ok r" using o by (auto simp: r run_ok_def san_ok_def seen_def)
  show "set (r_thr r) \<subseteq> {Fresh}" "r_out r = []" "\<not> r_race r" by (auto simp: r)
  obtain ys where y: "ethlist ifname Neth = Some (length (eth_names ifname [0..<Neth]), map Some ys @ replicate (Neth - length ys) None)"
    "set ys = set (eth_names ifname [0..<Neth])" using ethlist_spec by blast
  have "nm \<in> set (eth_names ifname [0..<Neth])" if "Some nm \<in> set (take k ifs)" for nm
  proof (cases "se_inet n")
    case True
    then have "ifs = map Some ys @ replicate (Neth - length ys) None" using k y(1) by simp
    then show ?thesis using in_set_takeD [OF that] y(2) by auto
  next
    case False
    then show ?thesis using that k by auto
  qed
  then show "set (names_of (r_z r)) \<subseteq> set (eth_names ifname [0..<Neth])" using o by (auto simp: r names_of_def)
qed


section \<open>What the run prints\<close>

text \<open>The devices of the summary, in its order, and the devices of the list of option \<open>-v\<close>.\<close>

definition summary_devs :: "sanout \<Rightarrow> (int \<times> int) list" where
  "summary_devs out = concat (map (\<lambda>x. case x of RDevice a b _ _ _ \<Rightarrow> [(a, b)] | _ \<Rightarrow> []) (so_devs out))"

definition listed_devs :: "sanout \<Rightarrow> (int \<times> int) set" where
  "listed_devs out = (\<Union>x\<in>set (so_list out). (\<lambda>(a, b, _, _). (a, b)) ` set (snd x))"

lemma sancheck_devs:
  "concat (map (\<lambda>x. case x of RDevice a b _ _ _ \<Rightarrow> [(a, b)] | _ \<Rightarrow> []) (sancheck maj mi es)) = [(maj, mi)]"
proof -
  have n: "concat (map (\<lambda>x. case x of RDevice a b _ _ _ \<Rightarrow> [(a, b)] | _ \<Rightarrow> []) (sc_second maj mi c e)) = []" for c e
    by (auto simp: sc_second_def Let_def split: if_splits)
  have "concat (map (\<lambda>x. case x of RDevice a b _ _ _ \<Rightarrow> [(a, b)] | _ \<Rightarrow> []) (concat (map (sc_second maj mi c) es))) = []" for c
    by (induction es) (use n in auto)
  then show ?thesis by (simp add: sancheck_def Let_def)
qed

lemma printsancheck_devs:
  "concat (map (\<lambda>x. case x of RDevice a b _ _ _ \<Rightarrow> [(a, b)] | _ \<Rightarrow> []) (printsancheck z)) = z_targlist z"
proof -
  have "concat (map (\<lambda>x. case x of RDevice a b _ _ _ \<Rightarrow> [(a, b)] | _ \<Rightarrow> []) (concat (map (\<lambda>(maj, mi). sancheck maj mi es) ts))) = ts" for es ts
    by (induction ts) (auto simp: sancheck_devs)
  then show ?thesis by (simp add: printsancheck_def)
qed

lemma printlist_devs: "(\<Union>x\<in>set (printlist es). (\<lambda>(a, b, _, _). (a, b)) ` set (snd x)) = (\<Union>e\<in>set es. targ_of ` set (n_luns e))"
  by (auto simp: printlist_def targ_of_def image_image)

text \<open>C30. Whatever the kernel answers, in whatever order the threads run and whatever packets they read: when
  \<open>aoe-sancheck -v\<close> prints its result, with no two threads having been inside the shared lists at once and no write
  over the end of a buffer, the devices of the summary are strictly ascending, and they are exactly the devices that
  the list of the interfaces shows.\<close>

theorem san_main_summary:
  assumes "san_main n create ifname evs [''-v''] = Printed out"
  shows "sorted_wrt targ_less (summary_devs out) \<and> set (summary_devs out) = listed_devs out"
proof -
  obtain r0 where r0: "san_begin n create ifname = Some r0"
    using assms by (auto simp: san_main_def split: option.splits)
  let ?z = "r_z (fold (san_step n) evs r0)"
  have ok: "san_ok ?z" using san_run_ok [OF san_begin_ok(1) [OF r0]] by (simp add: run_ok_def)
  have "so_devs out = printsancheck ?z" "so_list out = printlist (z_eth ?z)"
    using assms r0 by (auto simp: san_main_def Let_def split: if_splits)
  then have "summary_devs out = z_targlist ?z" "listed_devs out = seen ?z"
    by (simp_all only: summary_devs_def listed_devs_def printsancheck_devs printlist_devs seen_def)
  then show ?thesis using ok by (simp add: san_ok_def)
qed

section \<open>The end of the run\<close>

fun ev_thr :: "sev \<Rightarrow> nat" where
  "ev_thr (Open i wr now) = i"
| "ev_thr (Poll i nt bs now) = i"
| "ev_thr (Finish i now) = i"

fun ev_time :: "sev \<Rightarrow> int" where
  "ev_time (Open i wr now) = now"
| "ev_time (Poll i nt bs now) = now"
| "ev_time (Finish i now) = now"

lemma step_len: "length (r_thr (san_step n ev r)) = length (r_thr r)"
  by (cases ev) (auto simp: jcheck_open_def jcheck_pass_def jcheck_done_def Let_def split: thr.split option.split bool.split prod.split)

lemma step_other: "i \<noteq> ev_thr ev \<Longrightarrow> r_thr (san_step n ev r) ! i = r_thr r ! i"
  by (cases ev) (auto simp: jcheck_open_def jcheck_pass_def jcheck_done_def Let_def split: thr.split option.split bool.split prod.split)

lemma step_open:
  "i < length (r_thr r) \<Longrightarrow> r_thr (san_step n (Open i wr now) r) ! i
    \<in> (if r_thr r ! i = Fresh then {Ended, Loop now} \<union> (if ethopen n (z_eth (r_z r) ! i) = None then {Crashed} else {}) else {r_thr r ! i})"
  by (auto simp: jcheck_open_def Let_def split: option.split bool.split prod.split)

lemma step_poll:
  "i < length (r_thr r) \<Longrightarrow> r_thr (san_step n (Poll i nt bs now) r) ! i \<in>
     (case r_thr r ! i of
        Loop t \<Rightarrow> if nt - t \<ge> waitsecs then {Ended} else if bs = [] then {Loop t} else {Insert t, Loop t, Loop now}
      | x \<Rightarrow> {x})"
  by (auto simp: jcheck_pass_def jcheck_done_def Let_def split: thr.split prod.split)

lemma step_finish:
  "i < length (r_thr r) \<Longrightarrow> r_thr (san_step n (Finish i now) r) ! i \<in>
     (case r_thr r ! i of Insert t \<Rightarrow> {Loop t, Loop now} | x \<Rightarrow> {x})"
  by (auto simp: jcheck_done_def split: thr.split prod.split)


text \<open>The names the kernel gives are distinct, leave an entry free, fit into \<open>ifr_name\<close> each, and into the buffer of
  \<open>sancheck\<close> together.\<close>

definition names_ok :: "(nat \<Rightarrow> string option) \<Rightarrow> bool" where
  "names_ok ifname \<longleftrightarrow> distinct (eth_names ifname [0..<Neth]) \<and> length (eth_names ifname [0..<Neth]) < Neth
     \<and> (\<forall>nm\<in>set (eth_names ifname [0..<Neth]). length nm < 16)
     \<and> (\<Sum>nm\<leftarrow>eth_names ifname [0..<Neth]. length nm + 1) \<le> 128"

lemma start_threads_fits:
  "\<forall>nm\<in>set ys. length nm < 16 \<Longrightarrow> \<exists>es k. start_threads n create i (map Some ys) = Some (es, k) \<and> k \<le> i + length ys"
proof (induction ys arbitrary: i)
  case (Cons y ys)
  then have "ifup n y \<noteq> None" by (cases "se_inet n") (simp_all add: ifup_def)
  then obtain up where "ifup n y = Some up" by blast
  moreover obtain es k where "start_threads n create (Suc i) (map Some ys) = Some (es, k)" "k \<le> Suc i + length ys"
    using Cons by fastforce
  ultimately show ?case by (simp add: Let_def)
qed simp

lemma start_threads_names:
  "start_threads n create i (map Some ys) = Some (es, k) \<Longrightarrow> map n_name es = take (length es) ys"
proof (induction ys arbitrary: i es)
  case (Cons y ys)
  then show ?case by (auto simp: Let_def split: option.splits if_splits)
qed simp

lemma san_begin_fits:
  assumes "names_ok ifname"
  shows "\<exists>r. san_begin n create ifname = Some r \<and> length (r_thr r) \<le> length (eth_names ifname [0..<Neth])
    \<and> length (names_of (r_z r)) < Neth \<and> (\<Sum>nm\<leftarrow>names_of (r_z r). length nm + 1) \<le> 128"
proof -
  let ?ns = "eth_names ifname [0..<Neth]"
  obtain ys where y: "ethlist ifname Neth = Some (length ?ns, map Some ys @ replicate (Neth - length ys) None)"
    "distinct ys" "set ys = set ?ns" using ethlist_spec by blast
  have ns: "distinct ?ns" "length ?ns < Neth" "(\<Sum>nm\<leftarrow>?ns. length nm + 1) \<le> 128" using assms by (simp_all add: names_ok_def)
  have m: "mset ys = mset ?ns" using y(2,3) ns(1) by (simp add: set_eq_iff_mset_eq_distinct)
  have l: "length ?ns = length ys" using m by (metis size_mset)
  have sum: "(\<Sum>nm\<leftarrow>ys. length nm + 1) = (\<Sum>nm\<leftarrow>?ns. length nm + 1)" 
    unfolding sum_mset_sum_list [symmetric] mset_map m ..
  define zs where "zs = (if se_inet n then ys else [])"
  have names: "(if se_inet n then ethlist ifname Neth else Some (0, replicate Neth None)) = Some (k, ifs) \<Longrightarrow> take k ifs = map Some zs" for k ifs
    using y(1) l by (auto simp: zs_def split: if_splits)
  obtain es k where s: "start_threads n create 0 (map Some zs) = Some (es, k)" "k \<le> length zs"
    using start_threads_fits [of zs n create 0] assms y(3) by (auto simp: names_ok_def zs_def split: if_splits)
  obtain r where r: "san_begin n create ifname = Some r" "length (r_thr r) = k" "z_eth (r_z r) = es"
  proof -
    obtain j ifs where j: "(if se_inet n then ethlist ifname Neth else Some (0, replicate Neth None)) = Some (j, ifs)"
      using y(1) by (cases "se_inet n") simp_all
    then show ?thesis using that s(1) names [OF j] by (simp add: san_begin_def)
  qed
  note t = start_threads_names [OF s(1)]
  have e: "length es \<le> length zs" using arg_cong [OF t, of length] by simp
  have le: "(\<Sum>nm\<leftarrow>take j ws. length nm + 1) \<le> (\<Sum>nm\<leftarrow>ws. length nm + 1)" for j and ws :: "string list"
    by (metis append_take_drop_id le_add1 map_append sum_list_append)
  have z: "length zs \<le> length ys" "(\<Sum>nm\<leftarrow>zs. length nm + 1) \<le> (\<Sum>nm\<leftarrow>ys. length nm + 1)" by (simp_all add: zs_def)
  have n: "names_of (r_z r) = take (length es) zs" using r(3) t by (simp add: names_of_def)
  have "(\<Sum>nm\<leftarrow>names_of (r_z r). length nm + 1) \<le> 128" unfolding n using le [of "length es" zs] z(2) sum ns(3) by linarith
  moreover have "length (names_of (r_z r)) < Neth" using e z(1) l ns(2) r(3) by (simp add: names_of_def)
  ultimately show ?thesis using r(1,2) s(2) z(1) l by auto
qed

text \<open>Then the names of the interfaces of a device fit into the buffer, with a comma between two of them and a NUL.\<close>

lemma sc_lun_a: "sc_a (fold (sc_lun e) ls c) = sc_a c" "sc_writes (fold (sc_lun e) ls c) = sc_writes c"
  by (induction ls arbitrary: c) (simp_all add: sc_lun_def)

lemma sc_writes_fit:
  assumes "0 \<le> sc_a c" "list_all fits_buf (sc_writes c)"
    and "(if sc_a c = 0 then 0 else sc_a c + 1) + int (\<Sum>e\<leftarrow>es. length (n_name e) + 1) \<le> 128"
  shows "list_all fits_buf (sc_writes (fold (sc_eth maj mi) es c))"
  using assms
proof (induction es arbitrary: c)
  case (Cons e es)
  let ?c = "sc_eth maj mi e c"
  have "0 \<le> sc_a ?c \<and> list_all fits_buf (sc_writes ?c)
      \<and> (if sc_a ?c = 0 then 0 else sc_a ?c + 1) + int (\<Sum>e\<leftarrow>es. length (n_name e) + 1) \<le> 128"
  proof (cases "filter (is_dev maj mi) (n_luns e) = []")
    case True
    then have "sc_a ?c = sc_a c" "sc_writes ?c = sc_writes c" by (simp_all add: sc_eth_def Let_def)
    then show ?thesis using Cons.prems by auto
  next
    case False
    then have a: "sc_a ?c = sc_a c + int (length (n_name e)) + (if sc_a c \<noteq> 0 then 1 else 0)"
      "sc_writes ?c = sc_writes c @ [(sc_a c, 128 - word_of_int (sc_a c), (if sc_a c \<noteq> 0 then '','' else []) @ n_name e)]"
      by (simp_all add: sc_eth_def sc_name_def sc_lun_a Let_def)
    have b: "sc_a c + (int (length ((if sc_a c \<noteq> 0 then '','' else []) @ n_name e)) + 1) \<le> 128"
      using Cons.prems(3) by (auto split: if_splits)
    have "fits_buf (sc_a c, sz, w)" if "sc_a c + (int (length w) + 1) \<le> 128" for sz w
    proof -
      have "int (min (unat sz) (length w + 1)) \<le> int (length w) + 1" by linarith
      then show ?thesis using that unfolding fits_buf_def prod.case by linarith
    qed
    then have "list_all fits_buf (sc_writes ?c)" using Cons.prems(2) b unfolding a by simp
    then show ?thesis using Cons.prems(1,3) unfolding a(1) by (auto split: if_splits)
  qed
  then show ?case using Cons.IH [of ?c] by simp
qed simp

lemma names_print:
  assumes "length (names_of z) < Neth" "(\<Sum>nm\<leftarrow>names_of z. length nm + 1) \<le> 128"
  shows "print_fits z"
proof -
  have "(\<Sum>e\<leftarrow>z_eth z. length (n_name e) + 1) \<le> 128" using assms(2) by (simp add: names_of_def o_def)
  then have "list_all fits_buf (sc_writes (fold (sc_eth maj mi) (z_eth z) sct0))" for maj mi
    by (intro sc_writes_fit) (simp_all add: sct0_def)
  then show ?thesis using assms(1) by (simp add: print_fits_def names_of_def list_all_iff split_def)
qed

text \<open>No thread writes over the end of a field.\<close>

definition run_safe :: "srun \<Rightarrow> bool" where
  "run_safe r \<longleftrightarrow> run_ok r \<and> (\<forall>nm\<in>set (names_of (r_z r)). length nm < 16) \<and> Crashed \<notin> set (r_thr r)"

lemma step_safe: "run_safe r \<Longrightarrow> run_safe (san_step n ev r)"
proof -
  assume s: "run_safe r"
  have "r_thr (san_step n ev r) ! i \<noteq> Crashed" if i: "i < length (r_thr r)" for i
  proof -
    have c: "r_thr r ! i \<noteq> Crashed" using s i unfolding run_safe_def by (metis nth_mem)
    have "i < length (z_eth (r_z r))" using s i by (simp add: run_safe_def run_ok_def)
    then have "ethopen n (z_eth (r_z r) ! i) \<noteq> None" using s by (intro ethopen_fits) (simp add: run_safe_def names_of_def)
    then show ?thesis
    proof (cases ev)
      case (Open j wr now)
      then show ?thesis
        using c step_open [OF i, of n wr now] step_other [of i ev n r] \<open>ethopen n (z_eth (r_z r) ! i) \<noteq> None\<close>
        by (cases "i = j") (auto simp del: san_step.simps split: if_splits)
    next
      case (Poll j nt bs now)
      then show ?thesis
        using c step_poll [OF i, of n nt bs now] step_other [of i ev n r]
        by (cases "i = j"; cases "r_thr r ! i") (auto simp del: san_step.simps split: if_splits)
    next
      case (Finish j now)
      then show ?thesis
        using c step_finish [OF i, of n now] step_other [of i ev n r]
        by (cases "i = j"; cases "r_thr r ! i") (auto simp del: san_step.simps)
    qed
  qed
  then have "Crashed \<notin> set (r_thr (san_step n ev r))" by (auto simp: in_set_conv_nth step_len)
  then show ?thesis using s san_step_ok [of r n ev] by (simp add: run_safe_def)
qed

lemma run_safe_run: "run_safe r \<Longrightarrow> run_safe (fold (san_step n) evs r)"
  by (induction evs arbitrary: r) (simp_all add: step_safe)

lemma san_begin_safe:
  assumes "names_ok ifname" "san_begin n create ifname = Some r"
  shows "run_safe r"
  using assms(1) san_begin_ok [OF assms(2)] by (auto simp: run_safe_def names_ok_def)

text \<open>A thread that waits since \<open>T\<close> at the latest, or is putting a device into the lists; it goes on like that, or it
  ends.\<close>

definition quiet :: "int \<Rightarrow> thr \<Rightarrow> bool" where
  "quiet T x \<longleftrightarrow> x = Ended \<or> x = Crashed \<or> (\<exists>t\<le>T. x = Loop t)"

definition active :: "int \<Rightarrow> thr \<Rightarrow> bool" where
  "active T x \<longleftrightarrow> quiet T x \<or> (\<exists>t\<le>T. x = Insert t)"

lemma step_active:
  assumes "i < length (r_thr r)" "r_thr r ! i = Fresh \<or> active T (r_thr r ! i)" "ev_time ev \<le> T"
  shows "(r_thr r ! i \<noteq> Fresh \<or> (\<exists>wr now. ev = Open i wr now) \<longrightarrow> active T (r_thr (san_step n ev r) ! i))
    \<and> (r_thr (san_step n ev r) ! i = Fresh \<or> active T (r_thr (san_step n ev r) ! i))
    \<and> (\<forall>now. ev = Finish i now \<and> r_thr r ! i \<noteq> Fresh \<longrightarrow> quiet T (r_thr (san_step n ev r) ! i))"
proof (cases ev)
  case (Open j wr now)
  then show ?thesis
    using assms step_open [OF assms(1), of n wr now] step_other [of i ev n r]
    by (cases "i = j") (auto simp: active_def quiet_def simp del: san_step.simps split: if_splits)
next
  case (Poll j nt bs now)
  then show ?thesis
    using assms step_poll [OF assms(1), of n nt bs now] step_other [of i ev n r]
    by (cases "i = j") (auto simp: active_def quiet_def simp del: san_step.simps split: if_splits)
next
  case (Finish j now)
  then show ?thesis
    using assms step_finish [OF assms(1), of n now] step_other [of i ev n r]
    by (cases "i = j") (auto simp: active_def quiet_def simp del: san_step.simps)
qed

lemma run_active:
  assumes "i < length (r_thr r)" "r_thr r ! i = Fresh \<or> active T (r_thr r ! i)" "\<forall>ev\<in>set evs. ev_time ev \<le> T"
    and "r_thr r ! i \<noteq> Fresh \<or> (\<exists>wr now. Open i wr now \<in> set evs)"
  shows "active T (r_thr (fold (san_step n) evs r) ! i)"
  using assms
proof (induction evs arbitrary: r)
  case (Cons ev evs)
  note s = step_active [OF Cons.prems(1,2), of ev n]
  have "active T (r_thr (fold (san_step n) evs (san_step n ev r)) ! i)"
  proof (rule Cons.IH)
    show "r_thr (san_step n ev r) ! i \<noteq> Fresh \<or> (\<exists>wr now. Open i wr now \<in> set evs)"
      using Cons.prems(3,4) s by (auto simp: active_def quiet_def)
  qed (use Cons.prems s step_len in auto)
  then show ?case by simp
qed (auto simp: active_def quiet_def)

text \<open>The passes with new devices are brought to their end.\<close>

lemma run_quiet:
  assumes "i < length (r_thr r)" "active T (r_thr r ! i)" "\<forall>ev\<in>set evs. \<exists>j now. ev = Finish j now \<and> now \<le> T"
    and "quiet T (r_thr r ! i) \<or> (\<exists>now. Finish i now \<in> set evs)"
  shows "quiet T (r_thr (fold (san_step n) evs r) ! i)"
  using assms
proof (induction evs arbitrary: r)
  case (Cons ev evs)
  obtain j now where ev: "ev = Finish j now" "now \<le> T" using Cons.prems(3) by auto
  let ?r = "san_step n ev r"
  have q: "quiet T (r_thr r ! i) \<Longrightarrow> quiet T (r_thr ?r ! i)"
    using step_finish [OF Cons.prems(1), of n now] step_other [of i ev n r]
    by (cases "i = j") (auto simp: ev quiet_def simp del: san_step.simps)
  have s: "active T (r_thr ?r ! i) \<and> (quiet T (r_thr r ! i) \<or> j = i \<longrightarrow> quiet T (r_thr ?r ! i))"
  proof -
    have f: "r_thr r ! i \<noteq> Fresh" using Cons.prems(2) by (auto simp: active_def quiet_def)
    have e: "ev_time ev \<le> T" using ev by simp
    note sa = step_active [OF Cons.prems(1) disjI2 [OF Cons.prems(2)] e, of n]
    have "active T (r_thr ?r ! i)" using sa f by blast
    moreover have "j = i \<Longrightarrow> quiet T (r_thr ?r ! i)" using sa f ev(1) by blast
    ultimately show ?thesis using q by blast
  qed
  have "quiet T (r_thr (fold (san_step n) evs ?r) ! i)"
    by (rule Cons.IH) (use Cons.prems s ev in \<open>auto simp: step_len simp del: san_step.simps\<close>)
  then show ?case by simp
qed auto

text \<open>With one thread there is no race.\<close>

lemma step_alone:
  assumes "length (r_thr r) \<le> 1" "\<not> r_race r"
  shows "\<not> r_race (san_step n ev r)"
proof -
  have "\<not> list_ex inserting (r_thr r)" if "i < length (r_thr r)" "r_thr r ! i = Loop t" for i t
    using assms(1) that by (cases "r_thr r") auto
  then show ?thesis
    using assms(2)
    by (cases ev) (auto simp: jcheck_open_def jcheck_pass_def jcheck_done_def Let_def split: thr.split option.split bool.split prod.split)
qed

lemma run_alone: "length (r_thr r) \<le> 1 \<Longrightarrow> \<not> r_race r \<Longrightarrow> \<not> r_race (fold (san_step n) evs r)"
  by (induction evs arbitrary: r) (simp_all add: step_alone step_len)

lemma run_ends:
  assumes "i < length (r_thr r)" "quiet T (r_thr r ! i)" "\<forall>ev\<in>set evs. \<exists>j nt now. ev = Poll j nt [] now"
    and "r_thr r ! i = Ended \<or> r_thr r ! i = Crashed \<or> (\<exists>nt now. Poll i nt [] now \<in> set evs \<and> T + waitsecs \<le> nt)"
  shows "r_thr (fold (san_step n) evs r) ! i \<in> {Ended, Crashed}"
  using assms
proof (induction evs arbitrary: r)
  case (Cons ev evs)
  obtain j nt now where ev: "ev = Poll j nt [] now" using Cons.prems(3) by auto
  let ?r = "san_step n ev r"
  have s: "quiet T (r_thr ?r ! i) \<and> (r_thr r ! i = Ended \<or> r_thr r ! i = Crashed \<or> j = i \<and> T + waitsecs \<le> nt \<longrightarrow>
      r_thr ?r ! i = Ended \<or> r_thr ?r ! i = Crashed)"
    using Cons.prems(2) step_poll [OF Cons.prems(1), of n nt "[]" now] step_other [of i ev n r]
    by (cases "i = j") (auto simp: ev quiet_def simp del: san_step.simps split: if_splits)
  have "r_thr (fold (san_step n) evs ?r) ! i \<in> {Ended, Crashed}"
    by (rule Cons.IH) (use Cons.prems s ev in \<open>auto simp: step_len simp del: san_step.simps\<close>)
  then show ?case by simp
qed auto

lemma run_len: "length (r_thr (fold (san_step n) evs r)) = length (r_thr r)"
  by (induction evs arbitrary: r) (simp_all add: step_len)

text \<open>C31. The program ends: with names that are distinct and fit, once every thread was started, no packet arrives
  after the time \<open>T\<close> and the passes under way are brought to their end, each thread returns in a pass that starts five
  seconds later, nothing was written over the end of a field or buffer, and the result is printed; unless two threads
  were inside the shared lists at once, which takes at least two interfaces.\<close>

theorem san_main_ends:
  assumes "names_ok ifname" and "\<forall>ev\<in>set evs1. ev_time ev \<le> T" and "\<forall>i<Neth. \<exists>wr now. Open i wr now \<in> set evs1"
    and "\<forall>ev\<in>set fins. \<exists>i now. ev = Finish i now \<and> now \<le> T" and "\<forall>i<Neth. \<exists>now. Finish i now \<in> set fins"
    and "\<forall>ev\<in>set evs2. \<exists>i nt now. ev = Poll i nt [] now"
    and "\<forall>i<Neth. \<exists>nt now. Poll i nt [] now \<in> set evs2 \<and> T + waitsecs \<le> nt"
  shows "(\<exists>out. san_main n create ifname (evs1 @ fins @ evs2) argv = Printed out)
    \<or> san_main n create ifname (evs1 @ fins @ evs2) argv = Raced \<and> 2 \<le> length (eth_names ifname [0..<Neth])"
proof -
  obtain r0 where r0: "san_begin n create ifname = Some r0" "length (r_thr r0) \<le> length (eth_names ifname [0..<Neth])"
    "length (names_of (r_z r0)) < Neth" "(\<Sum>nm\<leftarrow>names_of (r_z r0). length nm + 1) \<le> 128"
    using san_begin_fits [OF assms(1)] by blast
  have len: "length (r_thr r0) \<le> Neth" using r0(2) assms(1) by (simp add: names_ok_def)
  let ?r1 = "fold (san_step n) evs1 r0" and ?r2 = "fold (san_step n) fins (fold (san_step n) evs1 r0)"
  let ?r = "fold (san_step n) evs2 ?r2"
  have safe: "Crashed \<notin> set (r_thr ?r)"
    using run_safe_run [OF run_safe_run [OF run_safe_run [OF san_begin_safe [OF assms(1) r0(1)]]]] unfolding run_safe_def by blast
  have "r_thr ?r ! i \<in> {Ended, Crashed}" if i: "i < length (r_thr r0)" for i
  proof -
    have "r_thr r0 ! i = Fresh" using san_begin_ok(2) [OF r0(1)] nth_mem [OF i] by blast
    then have "active T (r_thr ?r1 ! i)" using assms(2,3) i len by (intro run_active) auto
    then have "quiet T (r_thr ?r2 ! i)" using assms(4,5) i len by (intro run_quiet) (auto simp: run_len)
    then show ?thesis using assms(6,7) i len by (intro run_ends) (auto simp: run_len)
  qed
  then have ended: "\<forall>t\<in>set (r_thr ?r). t = Ended" using safe by (auto simp: in_set_conv_nth run_len)
  have "names_of (r_z ?r) = names_of (r_z r0)"
    using san_run_ok [OF san_begin_ok(1) [OF r0(1)], of n "evs1 @ fins @ evs2"] by simp
  then have fits: "print_fits (r_z ?r)" using r0(3,4) by (intro names_print) simp_all
  show ?thesis
  proof (cases "r_race ?r")
    case True
    have "\<not> length (r_thr r0) \<le> 1"
      using run_alone [of r0 n "evs1 @ fins @ evs2"] san_begin_ok(5) [OF r0(1)] True by auto
    then show ?thesis using r0(1,2) True by (simp add: san_main_def)
  next
    case False
    then show ?thesis using r0(1) safe ended fits by (auto simp: san_main_def Let_def)
  qed
qed

definition ifname1 :: "nat \<Rightarrow> string option" where
  "ifname1 i = (if i = 2 then Some ''eth0'' else if i = 1 then Some ''lo'' else None)"

definition sanenv0 :: sanenv where
  "sanenv0 = \<lparr>se_socket = True, se_index = (\<lambda>_. Some 2), se_bind = (\<lambda>_. True), se_hwaddr = (\<lambda>_. Some [2, 0, 0, 0, 0, 1]),
     se_mtu = (\<lambda>_. Some 1500), se_inet = True, se_flags = (\<lambda>_. Some 1), se_file = (\<lambda>_. None)\<rparr>"

lemma sanenv0_simps [simp]:
  "se_socket sanenv0" "se_bind sanenv0 i" "se_hwaddr sanenv0 nm = Some [2, 0, 0, 0, 0, 1]" "se_mtu sanenv0 nm = Some 1500"
  "se_inet sanenv0" "se_flags sanenv0 nm = Some 1"
  by (simp_all add: sanenv0_def)

lemma eth_names1: "eth_names ifname1 [0..<Neth] = [''eth0'']"
  by (simp add: eth_names_def ifname1_def Neth_def upt_rec map_filter_simps)

theorem san_main_ends_witness:
  "\<exists>out. san_main sanenv0 (\<lambda>_. True) ifname1 ((map (\<lambda>i. Open i True 0) [0..<16] @ [Poll 0 1 san_rsp 1])
     @ map (\<lambda>i. Finish i 1) [0..<16] @ map (\<lambda>i. Poll i 6 [] 6) [0..<16]) [] = Printed out"
proof -
  let ?evs1 = "map (\<lambda>i. Open i True 0) [0..<16] @ [Poll 0 1 san_rsp 1]"
  let ?fins = "map (\<lambda>i. Finish i 1) [0..<16]" and ?evs2 = "map (\<lambda>i. Poll i 6 [] 6) [0..<16]"
  have "(\<exists>out. san_main sanenv0 (\<lambda>_. True) ifname1 (?evs1 @ ?fins @ ?evs2) [] = Printed out)
    \<or> san_main sanenv0 (\<lambda>_. True) ifname1 (?evs1 @ ?fins @ ?evs2) [] = Raced \<and> 2 \<le> length (eth_names ifname1 [0..<Neth])"
  proof (rule san_main_ends [where T = 1])
    show "names_ok ifname1" unfolding names_ok_def eth_names1 by (simp add: Neth_def)
    show "\<forall>ev\<in>set ?evs1. ev_time ev \<le> 1" by simp
    show "\<forall>i<Neth. \<exists>wr now. Open i wr now \<in> set ?evs1" unfolding Neth_def
      by (intro allI impI exI [of _ True] exI [of _ 0]) simp
    show "\<forall>ev\<in>set ?fins. \<exists>i now. ev = Finish i now \<and> now \<le> 1" by simp
    show "\<forall>i<Neth. \<exists>now. Finish i now \<in> set ?fins" unfolding Neth_def by (intro allI impI exI [of _ 1]) simp
    show "\<forall>ev\<in>set ?evs2. \<exists>i nt now. ev = Poll i nt [] now" by simp
    show "\<forall>i<Neth. \<exists>nt now. Poll i nt [] now \<in> set ?evs2 \<and> 1 + waitsecs \<le> nt"
      unfolding Neth_def by (intro allI impI exI [of _ 6]) (simp add: waitsecs_def)
  qed
  then show ?thesis by (simp add: eth_names1)
qed

lemma san_begin1:
  "san_begin sanenv0 (\<lambda>_. True) ifname1 =
     Some \<lparr>r_z = \<lparr>z_eth = [eth0\<lparr>n_name := ''eth0'', n_up := True\<rparr>], z_id = 0, z_targlist = []\<rparr>, r_thr = [Fresh], r_out = [], r_race = False\<rparr>"
proof -
  have "ethlist ifname1 Neth = Some (1, map Some [''eth0''] @ replicate 15 None)"
    by (simp add: ethlist_def ifname1_def Neth_def upt_rec eval_nat_numeral)
  then show ?thesis by (simp add: san_begin_def ifup_def IFF_UP_def)
qed

lemmas san_run_defs = san_main_def jcheck_open_def ethopen_def eth0_def getmtu_def san_discover_def upd_eth_def jcheck_pass_def
  jcheck_done_def inserts_def waitsecs_def read_pkt_def jinput_def findlun_def san_rsp_fields Arsp_def Aerr_def Cqc_def Cata_def
  upd_lun_def lun_at_def jprobe_def set_thr_def Let_def

theorem san_main_summary_witness:
  "\<exists>out. san_main sanenv0 (\<lambda>_. True) ifname1 [Open 0 True 0, Poll 0 1 san_rsp 1, Finish 0 1, Poll 0 6 [] 6] [''-v''] = Printed out
     \<and> set (summary_devs out) = listed_devs out \<and> listed_devs out = {(5, 1)}"
proof -
  let ?evs = "[Open 0 True 0, Poll 0 1 san_rsp 1, Finish 0 1, Poll 0 6 [] 6]"
  have "\<exists>out. san_main sanenv0 (\<lambda>_. True) ifname1 ?evs [''-v''] = Printed out \<and> listed_devs out = {(5, 1)}"
    by (simp add: san_run_defs san_begin1 listed_devs_def printlist_def print_fits_def Neth_def
        sc_eth_def is_dev_def sc_name_def sc_lun_def sct0_def fits_buf_def)
  then obtain out where o: "san_main sanenv0 (\<lambda>_. True) ifname1 ?evs [''-v''] = Printed out" "listed_devs out = {(5, 1)}" by blast
  then show ?thesis using san_main_summary [OF o(1)] by blast
qed

text \<open>Two interfaces that hear of a new device at the same time are enough for a race on the shared lists.\<close>

definition ifname2 :: "nat \<Rightarrow> string option" where
  "ifname2 i = (if i = 2 then Some ''eth0'' else if i = 3 then Some ''eth1'' else None)"

theorem san_main_races:
  "san_main sanenv0 (\<lambda>_. True) ifname2 [Open 0 True 0, Open 1 True 0, Poll 0 1 san_rsp 1, Poll 1 1 san_rsp 1] [] = Raced"
proof -
  have "ethlist ifname2 Neth = Some (2, map Some [''eth0'', ''eth1''] @ replicate 14 None)"
    by (simp add: ethlist_def ifname2_def Neth_def upt_rec eval_nat_numeral)
  then have "san_begin sanenv0 (\<lambda>_. True) ifname2 =
     Some \<lparr>r_z = \<lparr>z_eth = [eth0\<lparr>n_name := ''eth0'', n_up := True\<rparr>, eth0\<lparr>n_name := ''eth1'', n_up := True\<rparr>], z_id = 0, z_targlist = []\<rparr>,
       r_thr = [Fresh, Fresh], r_out = [], r_race = False\<rparr>"
    by (simp add: san_begin_def ifup_def IFF_UP_def numeral_2_eq_2)
  then show ?thesis by (simp add: san_run_defs)
qed

end
