(* ===== verification/Sysfs.thy ===== *)
theory Sysfs
  imports Devlist
begin

text \<open>
  What the driver shows of a device to user space (\<open>aoeblk.c\<close>): the attributes \<open>state\<close>, \<open>mac\<close>, \<open>netif\<close>,
  \<open>firmware-version\<close> and \<open>payload\<close> of the disk in sysfs, and the file of the device in debugfs.  The names of
  network devices are a parameter.
\<close>

section \<open>Numbers\<close>

definition hexchar :: "nat \<Rightarrow> char" where
  "hexchar n = ''0123456789abcdef'' ! (n mod 16)"

text \<open>\<open>%0kx\<close> of a number of at most \<open>k\<close> digits.\<close>

fun hexn :: "nat \<Rightarrow> nat \<Rightarrow> string" where
  "hexn 0 n = []"
| "hexn (Suc k) n = hexn k (n div 16) @ [hexchar n]"

section \<open>Attributes\<close>

definition aoedisk_show_state :: "aoedev \<Rightarrow> string" where
  "aoedisk_show_state d =
     (if hasfl (d_flags d) DEVFL_UP then ''up'' else ''down'')
     @ (if hasfl (d_flags d) DEVFL_KICKME then '',kickme''
        else if d_nopen d \<noteq> 0 \<and> \<not> hasfl (d_flags d) DEVFL_UP then '',closewait'' else [])
     @ [CHR 0x0A]"

definition aoedisk_show_mac :: "aoedev \<Rightarrow> string" where
  "aoedisk_show_mac d =
     (case d_targets d of
        [] \<Rightarrow> ''none'' @ [CHR 0x0A]
      | t # _ \<Rightarrow> hexn 12 (unat (mac_addr (t_addr t))) @ [CHR 0x0A])"

text \<open>\<open>aoedisk_show_netif\<close>: the network devices of all targets go to a table of eight, once each.\<close>

definition nd_add :: "nat \<Rightarrow> nat list \<Rightarrow> nat list" where
  "nd_add nd tab = (if nd \<in> set tab then tab else if length tab \<noteq> 8 then tab @ [nd] else tab)"

definition netif_nds :: "aoedev \<Rightarrow> nat list" where
  "netif_nds d = fold nd_add (concat (map nds (d_targets d))) []"

fun join_names :: "string list \<Rightarrow> string" where
  "join_names [] = []"
| "join_names [x] = x"
| "join_names (x # y # ys) = x @ '','' @ join_names (y # ys)"

definition aoedisk_show_netif :: "(nat \<Rightarrow> string) \<Rightarrow> aoedev \<Rightarrow> string" where
  "aoedisk_show_netif name d =
     (if netif_nds d = [] then ''none'' else join_names (map name (netif_nds d))) @ [CHR 0x0A]"

definition aoedisk_show_fwver :: "aoedev \<Rightarrow> string" where
  "aoedisk_show_fwver d = ''0x'' @ hexn 4 (unat (d_fw_ver d)) @ [CHR 0x0A]"

definition aoedisk_show_payload :: "aoedev \<Rightarrow> string" where
  "aoedisk_show_payload d = dec (d_maxbcnt d) @ [CHR 0x0A]"

section \<open>The debugfs file\<close>

text \<open>The values that are printed, line by line.\<close>

datatype dbgline =
    DRtt u32 u32
  | DNskbpool nat
  | DKicked nat
  | DMaxbcnt nat
  | DRef int
  | DFalloc nat
  | DFfree "nat option"
  | DWindow "u8 list" u16 u16 u16
  | DSsthresh u16
  | DLost u64
  | DTaint int
  | DPkts u32 u32
  | DIfs "string list" bool

text \<open>The loop over the interfaces looks at the entry before it looks whether there is one: the flag tells
  that it read behind the array.\<close>

fun dbg_ifs :: "(nat \<Rightarrow> string) \<Rightarrow> aoeif list \<Rightarrow> string list \<times> bool" where
  "dbg_ifs name [] = ([], True)"
| "dbg_ifs name (p # ps) =
     (case if_nd p of
        None \<Rightarrow> ([], False)
      | Some nd \<Rightarrow> (case dbg_ifs name ps of (ns, b) \<Rightarrow> (name nd # ns, b)))"

definition dbg_tgt :: "(nat \<Rightarrow> string) \<Rightarrow> aoetgt \<Rightarrow> dbgline list" where
  "dbg_tgt name t =
     [DFalloc (t_falloc t), DFfree (case t_ffree t of [] \<Rightarrow> None | f # _ \<Rightarrow> Some f),
      DWindow (t_addr t) (t_nout t) (t_maxout t) (t_nframes t), DSsthresh (t_ssthresh t), DLost (t_lost t),
      DTaint (t_taint t), DPkts (t_rpkts t) (t_wpkts t), (case dbg_ifs name (t_ifs t) of (ns, b) \<Rightarrow> DIfs ns b)]"

definition aoedisk_debugfs_show :: "(nat \<Rightarrow> string) \<Rightarrow> aoedev \<Rightarrow> dbgline list" where
  "aoedisk_debugfs_show name d =
     [DRtt (drop_bit RTTSCALE (d_rttavg d)) (drop_bit RTTDSCALE (d_rttdev d)), DNskbpool (d_nskbpool d), DKicked (d_kicked d),
      DMaxbcnt (d_maxbcnt d), DRef (d_ref d)] @ concat (map (dbg_tgt name) (d_targets d))"

text \<open>\<open>aoedisk_add_debugfs\<close>: the name of the file, the part of the disk's name behind the first slash.\<close>

definition debugfs_name :: "string \<Rightarrow> string" where
  "debugfs_name nm = (case dropWhile (\<lambda>c. c \<noteq> CHR ''/'') nm of [] \<Rightarrow> nm | _ # p \<Rightarrow> p)"

section \<open>Properties\<close>

lemma hexchar_inj: "hexchar a = hexchar b \<Longrightarrow> a mod 16 = b mod 16"
proof -
  have "distinct ''0123456789abcdef''" by simp
  then show "hexchar a = hexchar b \<Longrightarrow> a mod 16 = b mod 16"
    unfolding hexchar_def by (subst (asm) nth_eq_iff_index_eq) simp_all
qed

lemma hexn_length [simp]: "length (hexn k n) = k"
  by (induction k n rule: hexn.induct) auto

lemma hexn_inj: "hexn k a = hexn k b \<Longrightarrow> a < 16 ^ k \<Longrightarrow> b < 16 ^ k \<Longrightarrow> a = b"
proof (induction k arbitrary: a b)
  case (Suc k)
  have e: "hexn k (a div 16) = hexn k (b div 16)" "hexchar a = hexchar b" using Suc.prems(1) by simp_all
  have "a div 16 < 16 ^ k" "b div 16 < 16 ^ k" using Suc.prems(2,3) by (simp_all add: less_mult_imp_div_less mult.commute)
  then have q: "a div 16 = b div 16" by (rule Suc.IH [OF e(1)])
  have r: "a mod 16 = b mod 16" by (rule hexchar_inj [OF e(2)])
  have "a = a div 16 * 16 + a mod 16" by (rule div_mult_mod_eq [symmetric])
  also have "\<dots> = b" unfolding q r by (rule div_mult_mod_eq)
  finally show ?case .
qed simp

lemma mac_addr_less: "length a = 6 \<Longrightarrow> unat (mac_addr a) < 2 ^ 48"
proof -
  have z: "\<not> bit (mac_addr a) n" if "48 \<le> n" "n < 64" for n
  proof -
    have "8 * (7 - (7 - n div 8)) + n mod 8 = n" "n div 8 = 6 \<or> n div 8 = 7" using that by auto
    then show ?thesis
      using byte_of_be64 [of "7 - n div 8" "n mod 8" "[0, 0] @ a"] by (auto simp: mac_addr_def)
  qed
  have "take_bit 48 (mac_addr a) = mac_addr a"
    by (rule bit_word_eqI) (use z not_less in \<open>force simp: bit_take_bit_iff\<close>)
  then show ?thesis by (metis take_bit_nat_less_exp unsigned_take_bit_eq)
qed

text \<open>The text of the attribute \<open>mac\<close> determines the address: two devices show the same text if and
  only if both have no target or their first targets have the same address.\<close>

theorem show_mac_determines:
  assumes "list_all (\<lambda>t. length (t_addr t) = 6) (d_targets d)" and "list_all (\<lambda>t. length (t_addr t) = 6) (d_targets d')"
  shows "aoedisk_show_mac d = aoedisk_show_mac d' \<longleftrightarrow>
    map t_addr (take 1 (d_targets d)) = map t_addr (take 1 (d_targets d'))"
proof -
  have ne: "hexn 12 n @ [CHR 0x0A] \<noteq> ''none'' @ [CHR 0x0A]" for n
  proof
    assume "hexn 12 n @ [CHR 0x0A] = ''none'' @ [CHR 0x0A]"
    from arg_cong [OF this, of length] show False by simp
  qed
  have eq: "hexn 12 (unat (mac_addr a)) = hexn 12 (unat (mac_addr b)) \<longleftrightarrow> a = b" if "length a = 6" "length b = 6" for a b
    using hexn_inj [of 12 "unat (mac_addr a)" "unat (mac_addr b)"] mac_addr_less [OF that(1)] mac_addr_less [OF that(2)]
      mac_addr_inject [OF that] by (auto simp: word_eq_iff_unsigned [where 'a = nat])
  show ?thesis
    using assms ne ne [symmetric] by (cases "d_targets d"; cases "d_targets d'") (auto simp: aoedisk_show_mac_def eq)
qed

definition tgt_at :: "u8 \<Rightarrow> nat list \<Rightarrow> aoetgt" where
  "tgt_at b ns = zero_tgt\<lparr>t_addr := replicate 6 b, t_ifs := map (\<lambda>n. zero_if\<lparr>if_nd := Some n\<rparr>) ns @ [zero_if]\<rparr>"

theorem show_mac_determines_witness:
  "aoedisk_show_mac (dev_idle\<lparr>d_targets := [tgt_at 1 [4]]\<rparr>) \<noteq> aoedisk_show_mac (dev_idle\<lparr>d_targets := [tgt_at 2 [4]]\<rparr>)"
  using show_mac_determines [of "dev_idle\<lparr>d_targets := [tgt_at 1 [4]]\<rparr>" "dev_idle\<lparr>d_targets := [tgt_at 2 [4]]\<rparr>"]
  by (simp add: tgt_at_def)

text \<open>The first occurrence of each element.\<close>

fun firsts :: "'a list \<Rightarrow> 'a list" where
  "firsts [] = []"
| "firsts (x # xs) = x # filter (\<lambda>y. y \<noteq> x) (firsts xs)"

lemma firsts_props: "set (firsts xs) = set xs" "distinct (firsts xs)"
  by (induction xs) auto

lemma firsts_snoc: "firsts (xs @ [y]) = (if y \<in> set xs then firsts xs else firsts xs @ [y])"
  by (induction xs) (auto simp: filter_id_conv firsts_props)

lemma fold_nd_add: "fold nd_add xs [] = take 8 (firsts xs)"
proof (induction xs rule: rev_induct)
  case (snoc y xs)
  have "y \<in> set (take 8 (firsts xs)) \<longleftrightarrow> y \<in> set xs \<or> False" if "length (firsts xs) \<le> 8"
    using that by (simp add: firsts_props)
  then show ?case using snoc in_set_takeD [of y 8 "firsts xs"]
    by (auto simp: nd_add_def firsts_snoc firsts_props min_def)
qed simp

text \<open>The attribute \<open>netif\<close> names each network device over which some target of the disk is reached
  once, in the order of the targets, up to eight; it says none only if there is none.\<close>

theorem show_netif_lists:
  "netif_nds d = take 8 (firsts (concat (map nds (d_targets d))))
    \<and> distinct (netif_nds d) \<and> set (netif_nds d) \<subseteq> (\<Union>t\<in>set (d_targets d). set (nds t))
    \<and> (card (\<Union>t\<in>set (d_targets d). set (nds t)) \<le> 8 \<longrightarrow> set (netif_nds d) = (\<Union>t\<in>set (d_targets d). set (nds t)))"
proof -
  let ?all = "concat (map nds (d_targets d))"
  have s: "set ?all = (\<Union>t\<in>set (d_targets d). set (nds t))" by auto
  have "length (firsts ?all) = card (set ?all)" using firsts_props [of ?all] distinct_card by fastforce
  then show ?thesis
    unfolding s [symmetric] netif_nds_def fold_nd_add using firsts_props [of ?all] set_take_subset [of 8 "firsts ?all"]
    by auto
qed

theorem show_netif_lists_witness: "set (netif_nds (dev_idle\<lparr>d_targets := [tgt_at 1 [4, 5], tgt_at 2 [5, 6]]\<rparr>)) = {4, 5, 6}"
proof -
  have "nds (tgt_at b ns) = ns" for b ns
    unfolding nds_def ifs_used_def tgt_at_def by (induction ns) (simp_all add: zero_if_def)
  then show ?thesis
    using show_netif_lists [of "dev_idle\<lparr>d_targets := [tgt_at 1 [4, 5], tgt_at 2 [5, 6]]\<rparr>"]
    by (simp add: card_insert_if)
qed

text \<open>The debugfs file reads behind the table of interfaces of a target just when the table is full.\<close>

lemma dbg_ifs_past_end:
  "ifs_ok t \<Longrightarrow> snd (dbg_ifs name (t_ifs t)) \<longleftrightarrow> length (nds t) = NAOEIFS"
proof -
  assume ok: "ifs_ok t"
  have "snd (dbg_ifs name ps) \<longleftrightarrow> (\<forall>p\<in>set ps. used p)" for ps
    by (induction ps) (auto split: option.split prod.split)
  moreover have "(\<forall>p\<in>set ps. used p) \<longleftrightarrow> length (takeWhile used ps) = length ps" for ps
    by (induction ps) auto
  moreover have "length (t_ifs t) = NAOEIFS" using ok by (simp add: ifs_ok_def)
  ultimately show ?thesis by (simp only: nds_def ifs_used_def length_map)
qed

end
