(* ===== verification/Files.thy ===== *)
theory Files
  imports Sysfs
begin

text \<open>
  The files of the disks: the group of attributes in sysfs and the file in the directory \<open>aoe\<close> of debugfs,
  made by \<open>aoeblk_gdalloc\<close> and removed by \<open>freedev\<close>.  The devices are named by numbers; the directory is
  \<open>None\<close> where \<open>aoe_debugfs_dir\<close> is \<open>NULL\<close>.
\<close>

record files =
  f_dir :: "string list option"
  f_debugfs :: "nat \<Rightarrow> string option"
  f_attrs :: "nat \<Rightarrow> string list"

definition aoe_attrs :: "string list" where
  "aoe_attrs = [''state'', ''mac'', ''netif'', ''firmware-version'', ''payload'']"

text \<open>\<open>ok\<close> tells whether the kernel can make the file; it does not make a second one of the same name.  \<open>None\<close>
  stands for a \<open>BUG_ON\<close> that fires.\<close>

definition aoedisk_add_debugfs :: "bool \<Rightarrow> nat \<Rightarrow> string \<Rightarrow> files \<Rightarrow> files option" where
  "aoedisk_add_debugfs ok k nm fs =
     (case f_dir fs of
        None \<Rightarrow> Some fs
      | Some dir \<Rightarrow>
          let p = debugfs_name nm
          in if p = [] then None
             else if \<not> ok \<or> p \<in> set dir then Some fs
             else if f_debugfs fs k \<noteq> None then None
             else Some (fs\<lparr>f_dir := Some (p # dir), f_debugfs := (f_debugfs fs)(k := Some p)\<rparr>))"

definition aoedisk_rm_debugfs :: "nat \<Rightarrow> files \<Rightarrow> files" where
  "aoedisk_rm_debugfs k fs =
     fs\<lparr>f_dir := (case f_debugfs fs k of None \<Rightarrow> f_dir fs | Some p \<Rightarrow> map_option (removeAll p) (f_dir fs)),
        f_debugfs := (f_debugfs fs)(k := None)\<rparr>"

definition aoedisk_add_sysfs :: "bool \<Rightarrow> nat \<Rightarrow> files \<Rightarrow> files" where
  "aoedisk_add_sysfs ok k fs = (if ok then fs\<lparr>f_attrs := (f_attrs fs)(k := aoe_attrs)\<rparr> else fs)"

definition aoedisk_rm_sysfs :: "nat \<Rightarrow> files \<Rightarrow> files" where
  "aoedisk_rm_sysfs k fs = fs\<lparr>f_attrs := (f_attrs fs)(k := [])\<rparr>"

text \<open>The calls of \<open>aoeblk_gdalloc\<close> and of \<open>freedev\<close>, each of them one step.  They run without the lock of the device; that
  \<open>freedev\<close> can then run beside \<open>aoeblk_gdalloc\<close> is shown in \<open>Life\<close>.\<close>

definition gd_files :: "bool \<Rightarrow> bool \<Rightarrow> nat \<Rightarrow> aoedev \<Rightarrow> files \<Rightarrow> files option" where
  "gd_files oks okd k d fs = aoedisk_add_debugfs okd k (disk_name d) (aoedisk_add_sysfs oks k fs)"

definition freedev_files :: "nat \<Rightarrow> files \<Rightarrow> files" where
  "freedev_files k fs = aoedisk_rm_sysfs k (aoedisk_rm_debugfs k fs)"

section \<open>Names\<close>

text \<open>The address of a device, with a shelf of 16 bits.\<close>

definition shelf16 :: "aoedev \<Rightarrow> bool" where
  "shelf16 d \<longleftrightarrow> unat (d_aoemajor d) < 2 ^ 16"

lemma debugfs_name_dev:
  assumes "shelf16 d"
  shows "debugfs_name (disk_name d) = CHR ''e'' # dec (unat (d_aoemajor d)) @ CHR ''.'' # dec (unat (d_aoeminor d))"
proof -
  have "length (dec (unat (d_aoemajor d))) \<le> 5" "length (dec (unat (d_aoeminor d))) \<le> 5"
    using assms unsigned_less [of "d_aoeminor d", where 'a = nat] dec_length(2) [of _ 4] by (simp_all add: shelf16_def)
  then show ?thesis by (simp add: disk_name_def debugfs_name_def DEVSUBDIR_def DISK_NAME_LEN_def)
qed

lemma debugfs_name_inj:
  assumes "shelf16 d" "shelf16 d'" "debugfs_name (disk_name d) = debugfs_name (disk_name d')"
  shows "d_aoemajor d = d_aoemajor d' \<and> d_aoeminor d = d_aoeminor d'"
proof -
  have nd: "CHR ''.'' \<notin> set (dec n)" for n using dec_chars [of n] by auto
  have "takeWhile (\<lambda>c. c \<noteq> CHR ''.'') (dec a @ CHR ''.'' # x) = dec a" "dropWhile (\<lambda>c. c \<noteq> CHR ''.'') (dec a @ CHR ''.'' # x) = CHR ''.'' # x" for a x
    using nd [of a] by (auto simp: takeWhile_append dropWhile_append)
  then have "dec a = dec b \<and> x = y" if "dec a @ CHR ''.'' # x = dec b @ CHR ''.'' # y" for a b x y
    using that by (metis list.inject)
  then have "dec (unat (d_aoemajor d)) = dec (unat (d_aoemajor d'))" "dec (unat (d_aoeminor d)) = dec (unat (d_aoeminor d'))"
    using assms(3) unfolding debugfs_name_dev [OF assms(1)] debugfs_name_dev [OF assms(2)] by auto
  then show ?thesis using dec_inj by (auto simp: word_unat_eq_iff)
qed


section \<open>The life of the files\<close>

text \<open>The devices that have a disk, and the files: a disk is made for a device that has none and whose address no
  other device with a disk has, and it is removed with its device.\<close>

inductive freach :: "(nat \<rightharpoonup> aoedev) \<Rightarrow> files \<Rightarrow> bool" where
  start: "dir \<in> {None, Some []} \<Longrightarrow> freach Map.empty \<lparr>f_dir = dir, f_debugfs = (\<lambda>_. None), f_attrs = (\<lambda>_. [])\<rparr>"
| make: "freach g fs \<Longrightarrow> g k = None \<Longrightarrow> shelf16 d \<Longrightarrow>
    (\<And>k' d'. g k' = Some d' \<Longrightarrow> aoeaddr d' \<noteq> aoeaddr d) \<Longrightarrow>
    gd_files oks okd k d fs = Some fs' \<Longrightarrow> freach (g(k \<mapsto> d)) fs'"
| remove: "freach g fs \<Longrightarrow> g k \<noteq> None \<Longrightarrow> freach (g(k := None)) (freedev_files k fs)"

definition files_ok :: "(nat \<rightharpoonup> aoedev) \<Rightarrow> files \<Rightarrow> bool" where
  "files_ok g fs \<longleftrightarrow>
     (\<forall>k nm. f_debugfs fs k = Some nm \<longrightarrow> (\<exists>d. g k = Some d \<and> nm = debugfs_name (disk_name d)))
     \<and> (\<forall>k d. g k = Some d \<longrightarrow> shelf16 d)
     \<and> (\<forall>j k d d'. g j = Some d \<and> g k = Some d' \<and> aoeaddr d = aoeaddr d' \<longrightarrow> j = k)
     \<and> (\<forall>k. g k = None \<longrightarrow> f_attrs fs k = [])
     \<and> (case f_dir fs of None \<Rightarrow> f_debugfs fs = (\<lambda>_. None) | Some dir \<Rightarrow> distinct dir \<and> set dir = ran (f_debugfs fs))"

lemma files_okD:
  assumes "files_ok g fs"
  shows "f_debugfs fs k = Some nm \<Longrightarrow> \<exists>d. g k = Some d \<and> nm = debugfs_name (disk_name d)"
    and "g k = Some d \<Longrightarrow> shelf16 d"
    and "g j = Some d \<Longrightarrow> g k = Some d' \<Longrightarrow> aoeaddr d = aoeaddr d' \<Longrightarrow> j = k"
    and "g k = None \<Longrightarrow> f_attrs fs k = []"
    and "case f_dir fs of None \<Rightarrow> f_debugfs fs = (\<lambda>_. None) | Some dir \<Rightarrow> distinct dir \<and> set dir = ran (f_debugfs fs)"
  using assms unfolding files_ok_def by (elim conjE; (assumption | metis))+

lemma files_okI:
  assumes "\<And>k nm. f_debugfs fs k = Some nm \<Longrightarrow> \<exists>d. g k = Some d \<and> nm = debugfs_name (disk_name d)"
    and "\<And>k d. g k = Some d \<Longrightarrow> shelf16 d"
    and "\<And>j k d d'. g j = Some d \<Longrightarrow> g k = Some d' \<Longrightarrow> aoeaddr d = aoeaddr d' \<Longrightarrow> j = k"
    and "\<And>k. g k = None \<Longrightarrow> f_attrs fs k = []"
    and "case f_dir fs of None \<Rightarrow> f_debugfs fs = (\<lambda>_. None) | Some dir \<Rightarrow> distinct dir \<and> set dir = ran (f_debugfs fs)"
  shows "files_ok g fs"
  unfolding files_ok_def using assms by (intro conjI allI impI) (elim conjE; metis | assumption)+

lemma files_ok_inj:
  assumes "files_ok g fs" "f_debugfs fs j = Some nm" "f_debugfs fs k = Some nm"
  shows "j = k"
proof -
  obtain d d' where d: "g j = Some d" "nm = debugfs_name (disk_name d)" "g k = Some d'" "nm = debugfs_name (disk_name d')"
    using files_okD(1) [OF assms(1,2)] files_okD(1) [OF assms(1,3)] by blast
  have "aoeaddr d = aoeaddr d'"
    using debugfs_name_inj [OF files_okD(2) [OF assms(1) d(1)] files_okD(2) [OF assms(1) d(3)]] d(2,4) by simp
  then show ?thesis by (rule files_okD(3) [OF assms(1) d(1,3)])
qed

lemma no_disk_no_file: "files_ok g fs \<Longrightarrow> g k = None \<Longrightarrow> f_debugfs fs k = None"
  using files_okD(1) [of g fs k] by (cases "f_debugfs fs k") auto

lemma gd_files_not_bug:
  assumes "files_ok g fs" "g k = None" "shelf16 d"
  shows "gd_files oks okd k d fs \<noteq> None"
proof -
  have "debugfs_name (disk_name d) \<noteq> []" by (simp add: debugfs_name_dev [OF assms(3)])
  then show ?thesis using no_disk_no_file [OF assms(1,2)]
    by (auto simp: gd_files_def aoedisk_add_debugfs_def aoedisk_add_sysfs_def Let_def split: option.splits)
qed

lemma add_sysfs_ok:
  assumes "files_ok g fs" "g k = None" "shelf16 d"
    and "\<And>k' d'. g k' = Some d' \<Longrightarrow> aoeaddr d' \<noteq> aoeaddr d"
  shows "files_ok (g(k \<mapsto> d)) (aoedisk_add_sysfs ok k fs)"
proof (rule files_okI)
  let ?fs = "aoedisk_add_sysfs ok k fs"
  have f: "f_debugfs ?fs = f_debugfs fs" "f_dir ?fs = f_dir fs" "\<And>j. j \<noteq> k \<Longrightarrow> f_attrs ?fs j = f_attrs fs j"
    by (simp_all add: aoedisk_add_sysfs_def)
  show "\<exists>d'. (g(k \<mapsto> d)) j = Some d' \<and> nm = debugfs_name (disk_name d')" if "f_debugfs ?fs j = Some nm" for j nm
    using files_okD(1) [OF assms(1), of j nm] no_disk_no_file [OF assms(1,2)] that f by (cases "j = k") auto
  show "shelf16 d'" if "(g(k \<mapsto> d)) j = Some d'" for j d'
    using files_okD(2) [OF assms(1), of j d'] assms(3) that by (cases "j = k") auto
  show "i = j" if "(g(k \<mapsto> d)) i = Some d1" "(g(k \<mapsto> d)) j = Some d2" "aoeaddr d1 = aoeaddr d2" for i j d1 d2
  proof (cases "i = k \<or> j = k")
    case True
    then show ?thesis using that assms(4) [of i d1] assms(4) [of j d2] by (cases "i = k"; cases "j = k") simp_all
  next
    case False
    then show ?thesis using files_okD(3) [OF assms(1), of i d1 j d2] that by simp
  qed
  show "f_attrs ?fs j = []" if "(g(k \<mapsto> d)) j = None" for j
    using that files_okD(4) [OF assms(1), of j] f by (auto split: if_splits)
  show "case f_dir ?fs of None \<Rightarrow> f_debugfs ?fs = (\<lambda>_. None) | Some dir \<Rightarrow> distinct dir \<and> set dir = ran (f_debugfs ?fs)"
    using files_okD(5) [OF assms(1)] by (simp only: f)
qed

lemma add_debugfs_ok:
  assumes "files_ok g fs" "g k = Some d" "f_debugfs fs k = None" "aoedisk_add_debugfs ok k (disk_name d) fs = Some fs'"
  shows "files_ok g fs'"
proof (cases "fs' = fs")
  case False
  then obtain dir where d: "f_dir fs = Some dir" "debugfs_name (disk_name d) \<notin> set dir"
    "fs' = fs\<lparr>f_dir := Some (debugfs_name (disk_name d) # dir), f_debugfs := (f_debugfs fs)(k := Some (debugfs_name (disk_name d)))\<rparr>"
    using assms(4) by (auto simp: aoedisk_add_debugfs_def Let_def split: option.splits if_splits)
  have "ran ((f_debugfs fs)(k := Some (debugfs_name (disk_name d)))) = insert (debugfs_name (disk_name d)) (ran (f_debugfs fs))"
    using assms(3) by (simp add: ran_map_upd)
  then show ?thesis using assms(1,2) d by (simp add: files_ok_def)
qed (use assms in simp)

lemma freedev_files_ok:
  assumes "files_ok g fs"
  shows "files_ok (g(k := None)) (freedev_files k fs)"
proof -
  have r: "ran ((f_debugfs fs)(k := None)) = (case f_debugfs fs k of None \<Rightarrow> ran (f_debugfs fs) | Some p \<Rightarrow> ran (f_debugfs fs) - {p})"
  proof (cases "f_debugfs fs k")
    case None
    then have "(f_debugfs fs)(k := None) = f_debugfs fs" by (rule fun_upd_idem)
    then show ?thesis using None by simp
  next
    case (Some p)
    have "x \<noteq> p \<longleftrightarrow> j \<noteq> k" if "f_debugfs fs j = Some x" for j x using files_ok_inj [OF assms that, of k] that Some by auto
    then show ?thesis using Some by (auto simp: ran_def)
  qed
  let ?fs = "freedev_files k fs"
  have f: "f_debugfs ?fs = (f_debugfs fs)(k := None)" "f_attrs ?fs = (f_attrs fs)(k := [])"
    "f_dir ?fs = (case f_debugfs fs k of None \<Rightarrow> f_dir fs | Some p \<Rightarrow> map_option (removeAll p) (f_dir fs))"
    by (simp_all add: freedev_files_def aoedisk_rm_sysfs_def aoedisk_rm_debugfs_def)
  show ?thesis
  proof (rule files_okI)
    show "\<exists>d'. (g(k := None)) j = Some d' \<and> nm = debugfs_name (disk_name d')" if "f_debugfs ?fs j = Some nm" for j nm
      using files_okD(1) [OF assms, of j nm] that by (auto simp: f split: if_splits)
    show "shelf16 d'" if "(g(k := None)) j = Some d'" for j d'
      using files_okD(2) [OF assms, of j d'] that by (auto split: if_splits)
    show "i = j" if "(g(k := None)) i = Some d1" "(g(k := None)) j = Some d2" "aoeaddr d1 = aoeaddr d2" for i j d1 d2
      using files_okD(3) [OF assms, of i d1 j d2] that by (cases "i = k"; cases "j = k") simp_all
    show "f_attrs ?fs j = []" if "(g(k := None)) j = None" for j
      using files_okD(4) [OF assms, of j] that by (auto simp: f split: if_splits)
    show "case f_dir ?fs of None \<Rightarrow> f_debugfs ?fs = (\<lambda>_. None) | Some dir \<Rightarrow> distinct dir \<and> set dir = ran (f_debugfs ?fs)"
      using files_okD(5) [OF assms] unfolding f r by (auto simp: distinct_removeAll split: option.splits)
  qed
qed

lemma freach_ok: "freach g fs \<Longrightarrow> files_ok g fs"
proof (induction rule: freach.induct)
  case (start dir)
  then show ?case by (auto simp: files_ok_def)
next
  case (make g fs k d oks okd fs')
  have s: "files_ok (g(k \<mapsto> d)) (aoedisk_add_sysfs oks k fs)" by (rule add_sysfs_ok [OF make.IH make.hyps(2-4)])
  have "f_debugfs (aoedisk_add_sysfs oks k fs) k = None"
    using no_disk_no_file [OF make.IH make.hyps(2)] by (simp add: aoedisk_add_sysfs_def)
  then show ?case using make.hyps(5) unfolding gd_files_def by (intro add_debugfs_ok [OF s]) (rule fun_upd_same)
next
  case (remove g fs k)
  then show ?case by (intro freedev_files_ok)
qed

text \<open>C34. While disks of devices with distinct addresses are made and removed: the directory in debugfs has exactly the files
  of the devices that hold one, each file has the name of its device, no two devices share one, a device
  without a disk has neither a file nor attributes, and the two \<open>BUG_ON\<close>s of \<open>aoedisk_add_debugfs\<close> do not fire.\<close>

theorem debugfs_files_exact:
  assumes "freach g fs"
  shows "(\<forall>dir. f_dir fs = Some dir \<longrightarrow> distinct dir \<and> set dir = ran (f_debugfs fs))
    \<and> (\<forall>k nm. f_debugfs fs k = Some nm \<longrightarrow> (\<exists>d. g k = Some d \<and> nm = debugfs_name (disk_name d)))
    \<and> inj_on (f_debugfs fs) (dom (f_debugfs fs))
    \<and> (\<forall>k. g k = None \<longrightarrow> f_debugfs fs k = None \<and> f_attrs fs k = [])
    \<and> (\<forall>k d. g k = None \<and> shelf16 d \<longrightarrow> gd_files oks okd k d fs \<noteq> None)"
proof -
  have ok: "files_ok g fs" by (rule freach_ok [OF assms])
  have "inj_on (f_debugfs fs) (dom (f_debugfs fs))" using files_ok_inj [OF ok] by (auto simp: inj_on_def)
  moreover have "\<forall>dir. f_dir fs = Some dir \<longrightarrow> distinct dir \<and> set dir = ran (f_debugfs fs)" using ok by (auto simp: files_ok_def)
  moreover have "\<forall>k. g k = None \<longrightarrow> f_debugfs fs k = None \<and> f_attrs fs k = []"
    using no_disk_no_file [OF ok] ok by (auto simp: files_ok_def)
  ultimately show ?thesis using ok gd_files_not_bug [OF ok] unfolding files_ok_def by blast
qed


theorem debugfs_files_exact_witness:
  "\<exists>fs. freach [0 \<mapsto> dev_idle\<lparr>d_aoemajor := 7, d_aoeminor := 1\<rparr>] fs \<and> f_dir fs = Some [''e7.1''] \<and> ran (f_debugfs fs) = {''e7.1''}
     \<and> inj_on (f_debugfs fs) (dom (f_debugfs fs))"
proof -
  let ?d = "dev_idle\<lparr>d_aoemajor := 7, d_aoeminor := 1\<rparr>"
  let ?s = "\<lparr>f_dir = Some [], f_debugfs = (\<lambda>_. None), f_attrs = (\<lambda>_. [])\<rparr>"
  have d: "shelf16 ?d" by (simp add: shelf16_def)
  have n: "debugfs_name (disk_name ?d) = ''e7.1''" by (simp add: debugfs_name_dev [OF d] dec.simps)
  obtain fs where f: "gd_files True True 0 ?d ?s = Some fs" "f_dir fs = Some [''e7.1'']"
    by (simp add: gd_files_def aoedisk_add_debugfs_def aoedisk_add_sysfs_def n Let_def)
  have "freach [0 \<mapsto> ?d] fs" by (rule freach.make [OF freach.start _ d _ f(1)]) simp_all
  moreover have "ran (f_debugfs fs) = {''e7.1''}" "inj_on (f_debugfs fs) (dom (f_debugfs fs))"
    using debugfs_files_exact [OF \<open>freach [0 \<mapsto> ?d] fs\<close>] f(2) by auto
  ultimately show ?thesis using f(2) by blast
qed

end
