(* ===== verification/Failip.thy ===== *)
theory Failip
  imports Devlist
begin

text \<open>
  The request in process when a device goes down: \<open>aoe_failip\<close> fails the bios that were not started, and
  ends the request unless one of its bufs is still with a completion thread.
\<close>

lemma fail_bios_effect:
  "d_ip_nxbio (s_dev s) = bs \<Longrightarrow>
   d_ip_nxbio (s_dev (fail_bios r bs s)) = []
   \<and> d_ip_rq (s_dev (fail_bios r bs s)) = d_ip_rq (s_dev s) \<and> d_ip_buf (s_dev (fail_bios r bs s)) = d_ip_buf (s_dev s)
   \<and> d_blkq (s_dev (fail_bios r bs s)) = d_blkq (s_dev s)
   \<and> rq_special (s_reqs (fail_bios r bs s) r) = rq_special (s_reqs s r) - int (length bs)
   \<and> (\<forall>b\<in>set bs. bio_error (s_bios (fail_bios r bs s) b))"
proof (induction bs arbitrary: s)
  case (Cons b bs)
  let ?s = "upd_req r (\<lambda>x. x\<lparr>rq_special := rq_special x - 1\<rparr>)
      (upd_dev (\<lambda>d. d\<lparr>d_ip_nxbio := bs\<rparr>) (upd_bio b (\<lambda>x. x\<lparr>bio_error := True\<rparr>) s))"
  have keep: "bio_error (s_bios t b) \<Longrightarrow> bio_error (s_bios (fail_bios r cs t) b)" for cs t
    by (induction cs arbitrary: t) (simp_all add: upd_defs upd_req_def)
  show ?case using Cons.IH [of ?s] keep [of ?s bs] by (simp add: upd_defs upd_req_def)
qed simp

text \<open>C37. \<open>aoe_failip\<close> leaves a request in process that has no bio left, if one of its bufs still has frames
  with a completion thread.  If the device is then worked on before that thread is done, as
  \<open>aoecmd_ata_rsp\<close> does for any answer, \<open>nextbuf\<close> dereferences a NULL bio.\<close>

theorem failip_leaves_null_bio:
  assumes "d_ip_buf (s_dev s) = None" and "d_ip_rq (s_dev s) = Some r" and "d_blkq (s_dev s) = Some q"
    and "int (length (d_ip_nxbio (s_dev s))) < rq_special (s_reqs s r)" and "\<forall>n. e_alloc e n"
  shows "d_ip_rq (s_dev (aoe_failip e s)) = Some r \<and> d_ip_nxbio (s_dev (aoe_failip e s)) = []
    \<and> EvOops \<in> set (s_log (snd (nextbuf e (aoe_failip e s))))"
proof -
  let ?s = "fail_bios r (d_ip_nxbio (s_dev s)) s"
  have f: "aoe_failip e s = ?s"
    using assms(1,2,4) fail_bios_effect [OF refl, where s = s and r = r] by (simp add: aoe_failip_def aoe_failbuf_def)
  show ?thesis
    unfolding f using assms fail_bios_effect [OF refl, where s = s and r = r]
    by (simp add: nextbuf_def nextrq_def alloc_def emit_def)
qed

definition failip_st :: st where
  "failip_st = (init_st 1 (dev_idle\<lparr>d_ip_rq := Some 0, d_ip_nxbio := [1]\<rparr>))\<lparr>s_reqs := (\<lambda>_. \<lparr>rq_bio = [0, 1], rq_special = 2\<rparr>)\<rparr>"

theorem failip_leaves_null_bio_witness: "EvOops \<in> set (s_log (snd (nextbuf env0 (aoe_failip env0 failip_st))))"
proof -
  have "d_ip_buf (s_dev failip_st) = None" "d_ip_rq (s_dev failip_st) = Some 0" "d_blkq (s_dev failip_st) = Some []"
    "int (length (d_ip_nxbio (s_dev failip_st))) < rq_special (s_reqs failip_st 0)" "\<forall>n. e_alloc env0 n"
    by (simp_all add: failip_st_def init_st_def dev_idle_def new_dev_def env0_def)
  then show ?thesis using failip_leaves_null_bio by blast
qed

end
