(* ===== verification/CfgProps.thy ===== *)
theory CfgProps
  imports Config Devlist
begin

text \<open>
  What a configuration response sets: the payload of an interface and the window of a new target.
\<close>

lemma u16_small: "x < 65536 \<Longrightarrow> uint (ucast (x :: u32) :: u16) = uint x"
  by (simp add: unsigned_ucast_eq word_less_def take_bit_int_eq_self)

lemma bcnt_eq:
  assumes "36 \<le> mtu" "mtu < (65536 :: u32)"
  shows "uint ((ucast mtu - 36 :: u16) div 512) = (uint mtu - 36) div 512" "(uint mtu - 36) div 512 < 128"
proof -
  have b: "36 \<le> uint mtu" "uint mtu < 65536" using assms by (simp_all add: word_less_def word_le_def)
  have m: "uint (ucast mtu :: u16) = uint mtu" by (rule u16_small [OF assms(2)])
  have "uint (ucast mtu - 36 :: u16) = uint mtu - 36" using b m by (simp add: uint_word_ariths)
  then show "uint ((ucast mtu - 36 :: u16) div 512) = (uint mtu - 36) div 512" by (simp add: uint_div)
  show "(uint mtu - 36) div 512 < 128" using b by auto
qed

text \<open>C29. The payload of an interface is the largest multiple of 512 that fits in its MTU beside the headers and
  in what the target takes; if there is no such multiple it is 1024, which does not fit.\<close>

theorem cfg_bcnt_exact:
  assumes "36 \<le> mtu" and "mtu < 65536"
  shows "uint (cfg_bcnt mtu scnt) =
    (let n = min ((uint mtu - 36) div 512) (uint scnt) in if n = 0 then 1024 else 512 * n)
    \<and> (548 \<le> uint mtu \<and> scnt \<noteq> 0 \<longrightarrow> uint (cfg_bcnt mtu scnt) + 36 \<le> uint mtu)"
proof -
  let ?n = "(ucast mtu - 36 :: u16) div 512"
  let ?m = "if ?n > ucast scnt then ucast scnt else ?n"
  have n: "uint ?n = (uint mtu - 36) div 512" "uint ?n < 128" using bcnt_eq [OF assms] by simp_all
  have sc: "uint (ucast scnt :: u16) = uint scnt" by (simp add: unsigned_ucast_eq take_bit_int_eq_self uint_lt2p [of scnt, THEN order_less_le_trans])
  have m: "uint ?m = min ((uint mtu - 36) div 512) (uint scnt)" using n sc by (simp add: word_less_def min_def)
  then have lt: "uint ?m < 128" using n by (simp add: min_def split: if_splits)
  have e: "uint (cfg_bcnt mtu scnt) = (if uint ?m = 0 then 1024 else 512 * uint ?m)"
    using lt by (simp add: cfg_bcnt_def DEFAULTBCNT_def Let_def uint_word_ariths uint_0_iff mult.commute)
  have "512 * ((uint mtu - 36) div 512) + 36 \<le> uint mtu"
    using mult_div_mod_eq [of 512 "uint mtu - 36"] pos_mod_sign [of 512 "uint mtu - 36"] by linarith
  moreover have "scnt \<noteq> 0 \<Longrightarrow> 0 < uint scnt" using uint_0_iff [of scnt] uint_ge_0 [of scnt] by (simp add: order_less_le)
  ultimately show ?thesis unfolding e m Let_def by (auto simp: min_def split: if_splits)
qed

theorem cfg_bcnt_exact_witness: "uint (cfg_bcnt 9000 255) = 8704"
  using cfg_bcnt_exact [of 9000 255] by simp

text \<open>C40. A target that takes one command at a time is not used: its window starts at 0, no frame is taken
  for a target with window 0, and further responses of it leave the window so.  Only revalidating the
  device or taking it down opens the window.\<close>

theorem one_buffer_target_starves:
  assumes "n < 2"
  shows "t_maxout (new_tgt addr n) = 0
    \<and> (i < length (tgts s) \<and> t_maxout (tg s i) = 0 \<longrightarrow>
        fst (tgt_try e b i s) = None \<and> (gettgt (s_dev s) src = Some i \<longrightarrow> t_maxout (tg (snd (cfg_tgt e src m s)) i) = 0))"
proof -
  have "n div 2 = 0" using assms by (simp add: word_eq_iff_unsigned [where 'a = nat] unat_div word_less_nat_alt)
  then show ?thesis
    by (auto simp: new_tgt_def aoecmd_wreset_def Let_def tgt_try_def cfg_tgt_def upd_tgt_def upd_dev_def)
qed

definition one_buffer_st :: st where
  "one_buffer_st = init_st 1 (dev_idle\<lparr>d_targets := [new_tgt (replicate 6 1) 1], d_ntargets := 4\<rparr>)"

theorem one_buffer_target_starves_witness: "fst (tgt_try env0 True 0 one_buffer_st) = None"
proof -
  have "tgts one_buffer_st = [new_tgt (replicate 6 1) 1]" by (simp add: one_buffer_st_def init_st_def)
  then show ?thesis
    using one_buffer_target_starves [of 1 "replicate 6 1" 0 one_buffer_st env0 True] by simp
qed

text \<open>For a disk with 48-bit addresses the number of cylinders is computed from the low 16 bits of the
  number of sectors, so it is at most 4, whatever the size of the disk.\<close>

theorem lba48_cylinders:
  assumes "hasfl (get_le16 ident 166 OR get_le16 ident 172) (2 ^ 10)"
  shows "uint (g_cylinders (d_geo (s_dev (ataid_complete ident s)))) = (uint (get_le 8 ident 200) mod 65536) div 16065
    \<and> uint (g_cylinders (d_geo (s_dev (ataid_complete ident s)))) \<le> 4"
proof -
  have "g_cylinders (d_geo (s_dev (ataid_complete ident s))) = ucast (get_le 8 ident 200 :: u64) div (255 * 63)"
    using assms by (simp add: ataid_complete_def Let_def upd_dev_def emit_def split: option.split)
  then have "uint (g_cylinders (d_geo (s_dev (ataid_complete ident s)))) = (uint (get_le 8 ident 200) mod 65536) div 16065"
    by (simp add: uint_div unsigned_ucast_eq take_bit_eq_mod)
  moreover have "(x :: int) mod 65536 div 16065 \<le> 4" for x
    using pos_mod_bound [of 65536 x] by simp
  ultimately show ?thesis by simp
qed

lemma get_le_numeral: "get_le (numeral k) bs i = ucast (bs ! i) OR push_bit 8 (get_le (pred_numeral k) bs (i + 1))"
  by (simp add: numeral_eq_Suc)

text \<open>Identify data of a disk with 48-bit addresses and \<open>2 ^ 40\<close> sectors.\<close>

definition ident_big :: "u8 list" where
  "ident_big = (replicate 512 0)[167 := 4, 205 := 1]"

theorem lba48_cylinders_witness:
  "uint (g_cylinders (d_geo (s_dev (ataid_complete ident_big (init_st 1 dev_idle))))) \<le> 4 \<and> get_le 8 ident_big 200 = 2 ^ 40"
proof -
  have g: "get_le16 ident_big 166 OR get_le16 ident_big 172 = 2 ^ 10"
    by (simp add: get_le16_def ident_big_def nth_list_update push_bit_eq_mult)
  have "get_le 8 ident_big 200 = 2 ^ 40"
    by (simp add: ident_big_def nth_list_update push_bit_eq_mult get_le_numeral)
  then show ?thesis using lba48_cylinders [of ident_big "init_st 1 dev_idle"] by (simp add: g hasfl_def)
qed

end
