(* ===== verification/Refs.thy ===== *)
theory Refs
  imports System
begin

text \<open>
  References to a device.  A response takes one when its device is looked up and passes it on with
  the frame to a completion thread, which gives it back; every other lookup gives it back at once.
  So the count of a device is the number of its frames that wait for a completion thread, in every
  state.
\<close>

section \<open>The device across requests and responses\<close>

lemma lb_ends: "ends s s' \<Longrightarrow> lb s' = lb s"
  and lb_fails: "fails s s' \<Longrightarrow> lb s' = lb s"
proof -
  assume "fails s s'"
  then have "bcore s' = bcore s" by (simp add: fails_def)
  then have "lb (bcore s') = lb (bcore s)" by simp
  moreover have "lb (bcore x) = lb x" for x by (simp add: lb_def lv_def bcore_def ecore_def)
  ultimately show "lb s' = lb s" by simp
next
  assume "ends s s'"
  then have "lb (ecore s') = lb (ecore s)" by (simp add: ends_def)
  moreover have "lb (ecore x) = lb x" for x by (simp add: lb_def lv_def ecore_def)
  ultimately show "lb s' = lb s" by simp
qed

lemma lv_request [simp]: "lv (s_dev (aoeblk_request e s)) = lv (s_dev s)"
  using lb_lv [OF lb_ends [OF fail_queue_ends]] by (simp add: aoeblk_request_def)

lemma lb_request: "dev_ok X {#} s \<Longrightarrow> lb (aoeblk_request e s) = lb s"
  using lb_ends [OF fail_queue_ends] aoecmd_work_ok(2) by (simp add: aoeblk_request_def)

lemma lb_end_bios [simp]: "lb (end_bios e r ff s) = lb s"
  by (rule lb_ends [OF end_bios_ends])

lemma lv_end_request [simp]: "lv (s_dev (aoe_end_request e r ff s)) = lv (s_dev s)"
  using lb_lv [OF lb_end_bios] by (simp add: aoe_end_request_def Let_def)

lemma lb_end_request: "dev_ok X {#} s \<Longrightarrow> lb (aoe_end_request e r ff s) = lb s"
  using lb_request [OF dev_ok_ends [OF _ end_bios_ends]] by (simp add: aoe_end_request_def Let_def)


text \<open>A lemma for both readings: a function that keeps \<open>lb\<close> keeps the device whatever the state.\<close>

lemma end_buf_core:
  obtains s1 where "lb s1 = lb s" "view s1 = view s" "tgts_ok s1 = tgts_ok s"
    "aoe_end_buf e b s = s1 \<or> (\<exists>r. aoe_end_buf e b s = aoe_end_request e r False s1)"
proof -
  let ?s0 = "if d_ip_buf (s_dev s) = Some b then upd_dev (\<lambda>d. d\<lparr>d_ip_buf := None\<rparr>) s else s"
  let ?p = "aoe_bio_pagedec e (b_bio (bf ?s0 b)) ?s0"
  let ?s1 = "upd_req (b_rq (bf ?s0 b)) (\<lambda>x. x\<lparr>rq_special := rq_special (s_reqs ?p (b_rq (bf ?s0 b))) - 1\<rparr>)
    (?p\<lparr>s_bufs := (s_bufs ?p)(b := None)\<rparr>)"
  have "lb ?s0 = lb s" by (simp add: lb_upd_dev lv_def)
  then have "lb ?p = lb s" by (simp add: aoe_bio_pagedec_def)
  then have "lb ?s1 = lb s" by simp
  moreover have "view ?s1 = view s" "tgts_ok ?s1 = tgts_ok s" by simp_all
  ultimately show thesis by (rule that) (auto simp: aoe_end_buf_def Let_def)
qed

lemma lv_end_buf [simp]: "lv (s_dev (aoe_end_buf e b s)) = lv (s_dev s)"
proof -
  obtain s1 where "lb s1 = lb s" "aoe_end_buf e b s = s1 \<or> (\<exists>r. aoe_end_buf e b s = aoe_end_request e r False s1)"
    using end_buf_core [of s e b] by metis
  then show ?thesis using lb_lv [of s1 s] by auto
qed

lemma lb_end_buf: "dev_ok X {#} s \<Longrightarrow> lb (aoe_end_buf e b s) = lb s"
proof -
  assume ok: "dev_ok X {#} s"
  obtain s1 where s1: "lb s1 = lb s" "view s1 = view s" "tgts_ok s1 = tgts_ok s"
    "aoe_end_buf e b s = s1 \<or> (\<exists>r. aoe_end_buf e b s = aoe_end_request e r False s1)"
    using end_buf_core [of s e b] by metis
  then have "dev_ok X {#} s1" using ok by (simp add: dev_ok_def)
  then show ?thesis using s1(1,4) lb_end_request [of X s1] by auto
qed

lemma lv_failbuf [simp]: "lv (s_dev (aoe_failbuf e bo s)) = lv (s_dev s)"
  by (simp add: aoe_failbuf_def Let_def split: option.split)

lemma lb_failbuf: "dev_ok X {#} s \<Longrightarrow> lb (aoe_failbuf e bo s) = lb s"
proof -
  assume "dev_ok X {#} s"
  then have "dev_ok X {#} (upd_bio b g (upd_buf c h s))" for b g c h by (simp add: dev_ok_def)
  then show ?thesis by (simp add: aoe_failbuf_def Let_def lb_end_buf [of X] split: option.split)
qed

lemma lv_frame_done [simp]: "lv (s_dev (buf_frame_done e bo s)) = lv (s_dev s)"
  by (simp add: buf_frame_done_def Let_def split: option.split)

lemma lb_frame_done: "dev_ok X {#} s \<Longrightarrow> lb (buf_frame_done e bo s) = lb s"
proof -
  assume "dev_ok X {#} s"
  then have "dev_ok X {#} (upd_buf b h s)" for b h by (simp add: dev_ok_def)
  then show ?thesis by (simp add: buf_frame_done_def Let_def lb_end_buf [of X] split: option.split)
qed

lemma lv_fail_frame [simp]: "lv (s_dev (fail_frame e f s)) = lv (s_dev s)"
  by (simp add: fail_frame_def lb_lv [OF lb_freetframe] split: option.split)

lemma lb_fail_frame: "dev_ok X {#} s \<Longrightarrow> lb (fail_frame e f s) = lb s"
proof -
  assume "dev_ok X {#} s"
  then have "dev_ok X {#} (upd_buf b h s)" for b h by (simp add: dev_ok_def)
  then show ?thesis by (simp add: fail_frame_def lb_failbuf [of X] split: option.split)
qed

section \<open>Responses and completion\<close>

lemma lb_redeem [simp]: "lb (redeem e i s) = lb s"
  by (simp add: redeem_def Let_def)

lemma lb_fail_bio [simp]: "lb (fail_bio f s) = lb s"
  by (simp add: fail_bio_def split: option.split)

lemma lb_if_alive [simp]: "lb (if_alive i nd s) = lb s"
  by (simp add: if_alive_def split: option.split)

text \<open>The check of a response either leaves the device as it is or takes over identify data.\<close>

definition idents :: "st \<Rightarrow> st \<Rightarrow> bool" where
  "idents s s' \<longleftrightarrow> lb s' = lb s \<or> (\<exists>data s1. lb s1 = lb s \<and> s' = ataid_complete data s1)"

lemma idents_lb [simp]: "lb s' = lb s \<Longrightarrow> idents s s'"
  by (simp add: idents_def)

lemma ktio_rsp_idents: "idents s (ktio_rsp e f r s)"
proof -
  let ?c = "case alloc e s of (False, s1) \<Rightarrow> s1 | (True, s1) \<Rightarrow> ataid_complete (drop 36 (r_data r)) s1"
  have "?c = snd (alloc e s) \<or> ?c = ataid_complete (drop 36 (r_data r)) (snd (alloc e s))"
    by (simp add: alloc_def split: bool.split)
  then have c: "idents s ?c"
  proof
    assume "?c = ataid_complete (drop 36 (r_data r)) (snd (alloc e s))"
    then show ?thesis unfolding idents_def by (intro disjI2 exI [of _ "drop 36 (r_data r)"] exI [of _ "snd (alloc e s)"]) simp
  qed (simp only: idents_lb lb_upd)
  show ?thesis
    unfolding ktio_rsp_def Let_def
    by (intro if_cases [where P = "idents s"]) (rule c idents_lb, simp)+
qed

lemma ktio_check_idents: "idents s (ktio_check e f s)"
  by (simp add: ktio_check_def ktio_rsp_idents split: option.split)

section \<open>The balance of references\<close>

definition bal :: "st \<Rightarrow> int" where
  "bal s = d_ref (s_dev s) - int (length (concat (s_iocq s)))"

lemma bal_lb: "lb s' = lb s \<Longrightarrow> bal s' = bal s"
  by (simp add: lb_def lv_def bal_def)

lemma bal_put [simp]: "bal (upd_dev (\<lambda>d. d\<lparr>d_ref := d_ref d - 1\<rparr>) s) = bal s - 1"
  by (simp add: bal_def)

lemma length_concat_update:
  assumes "q < length xss"
  shows "length (concat (xss[q := ys])) + length (xss ! q) = length (concat xss) + length ys"
  using arg_cong [OF mset_concat_update [OF assms, of ys], of size] by (simp add: size_mset)

lemma bal_ktcomplete:
  assumes "dev_ok X A s"
  shows "bal (ktcomplete f r s) = bal s - 1"
proof -
  have "s_iocq s \<noteq> []" using assms by (simp add: dev_ok_def pool_ok_def pool_wk_def pool_lists_def)
  let ?i = "unat (d_aoeminor (s_dev s)) mod length (s_iocq s)"
  define q where "q = (if s_active s ! ?i then ?i else 0)"
  have q: "q < length (s_iocq s)" using \<open>s_iocq s \<noteq> []\<close> by (simp add: q_def)
  have "bal (ktcomplete f r s) = d_ref (s_dev s) - int (length (concat ((s_iocq s)[q := s_iocq s ! q @ [f]])))"
    by (simp add: ktcomplete_def Let_def bal_def q_def)
  then show ?thesis using length_concat_update [OF q, of "s_iocq s ! q @ [f]"] by (simp add: bal_def)
qed

lemma bal_ata_rsp:
  assumes "dev_ok X {#} s"
  shows "bal (snd (aoecmd_ata_rsp e r s)) = bal s - 1"
proof (rule ata_rsp_cases [OF assms, of e r])
  fix f s' assume "dev_ok (add_mset f X) {#} s'" "lb s' = lb s" "aoecmd_ata_rsp e r s = (None, ata_rsp_work e f r s')"
  then show ?thesis
    using bal_ktcomplete [OF aoecmd_work_ok(1)] bal_lb [OF aoecmd_work_ok(2)] bal_lb [of s' s]
    by (simp add: ata_rsp_work_def)
next
  fix m s' assume "lb s' = lb s"
    "aoecmd_ata_rsp e r s = (Some r, emit m (upd_dev (\<lambda>d. d\<lparr>d_ref := d_ref d - 1\<rparr>) s'))"
  then show ?thesis using bal_lb [OF lb_upd(7)] bal_lb [of s' s] by simp
qed

lemma bal_idents: "idents s s' \<Longrightarrow> bal s' = bal s"
proof -
  have a: "bal (ataid_complete data s1) = bal s1" for data s1
    by (simp add: ataid_complete_def Let_def bal_def split: option.split)
  assume "idents s s'"
  then consider "lb s' = lb s" | data s1 where "lb s1 = lb s" "s' = ataid_complete data s1"
    unfolding idents_def by blast
  then show ?thesis
  proof cases
    case 2
    then show ?thesis using bal_lb [OF 2(1)] by (simp only: a)
  qed (rule bal_lb)
qed

lemma bal_ktiocomplete:
  assumes "dev_ok (add_mset f X) {#} s"
  shows "bal (ktiocomplete e f s) = bal s - 1"
proof -
  let ?s1 = "ktio_check e f s" let ?s2 = "redeem e (f_t (fr ?s1 f)) ?s1"
  have o: "dev_ok (add_mset f X) {#} ?s1" by (rule ktio_check_ok [OF assms])
  have "dev_ok (add_mset f X) {#} ?s2" by (rule redeem_ok [OF o]) (use dev_held [OF o, of f] in simp)
  then have "lb (buf_frame_done e (f_buf (fr ?s1 f)) (aoe_freetframe f ?s2)) = lb ?s1"
    using lb_frame_done [OF dev_ok_free] by simp
  then have "bal (buf_frame_done e (f_buf (fr ?s1 f)) (aoe_freetframe f ?s2)) = bal s"
    using bal_lb bal_idents [OF ktio_check_idents] by metis
  then show ?thesis by (simp add: ktiocomplete_def ktio_out_def Let_def)
qed

lemma bal_ktio_one:
  assumes ok: "dev_ok X {#} s" and q: "q < length (s_iocq s)"
  shows "bal (ktio_one e b q s) = bal s"
proof (cases "s_iocq s ! q")
  case (Cons f fs)
  let ?s0 = "s\<lparr>s_iocq := (s_iocq s)[q := fs]\<rparr>"
  have "bal (ktiocomplete e f ?s0) = bal ?s0 - 1" by (rule bal_ktiocomplete [OF dev_ok_ioc_get [OF ok q Cons]])
  moreover have "bal ?s0 = bal s + 1" using length_concat_update [OF q, of fs] Cons by (simp add: bal_def)
  moreover have "bal (x\<lparr>s_active := a\<rparr>) = bal x" for x a by (simp add: bal_def)
  ultimately show ?thesis using Cons by (simp add: ktio_one_def Let_def)
qed (simp add: ktio_one_def)

lemma bal_flush_frames: "dev_ok (mset fs + X) {#} s \<Longrightarrow> bal (flush_frames e fs s) = bal s - int (length fs)"
proof (induction fs arbitrary: s)
  case (Cons f fs)
  let ?s1 = "upd_dev (\<lambda>d. d\<lparr>d_ref := d_ref d - 1\<rparr>) (fail_frame e f s)"
  have "dev_ok (mset fs + X) {#} (fail_frame e f s)" using Cons.prems by (intro fail_frame_ok) simp
  then have "dev_ok (mset fs + X) {#} ?s1" by (simp add: dev_ok_def)
  moreover have "bal ?s1 = bal s - 1" using bal_lb [OF lb_fail_frame [OF Cons.prems]] by simp
  ultimately show ?case using Cons.IH by simp
qed simp

lemma bal_flush_iocq:
  assumes ok: "dev_ok {#} {#} s" and q: "q < length (s_iocq s)"
  shows "bal (aoe_flush_iocq_by_index e q s) = bal s"
proof -
  let ?s0 = "s\<lparr>s_iocq := (s_iocq s)[q := []]\<rparr>"
  have "bal ?s0 = bal s + int (length (s_iocq s ! q))" using length_concat_update [OF q, of "[]"] by (simp add: bal_def)
  then show ?thesis
    using bal_flush_frames [OF dev_ok_ioc_clear [OF ok q]] by (simp add: aoe_flush_iocq_by_index_def)
qed

section \<open>Configuration and the timer\<close>

lemma lb_cfg_pkts: "lb (snd (cfg_pkts_loop e l maj mi ndl sl s)) = lb s"
proof (induction ndl arbitrary: sl s)
  case (Cons ifp ndl)
  obtain r s1 where n: "new_skb e s = (r, s1)" by fastforce
  then have "lb s1 = lb s" using lb_new_skb [of e s] by simp
  then show ?case using Cons.IH by (simp add: n split: option.split)
qed simp

lemma lb_cfg [simp]: "lb (aoecmd_cfg e l ndl maj mi s) = lb s"
  using lb_cfg_pkts [of e l maj mi ndl "[]" s] by (simp add: aoecmd_cfg_def aoecmd_cfg_pkts_def split_def)

lemma lb_addtgt: "lb (snd (addtgt e addr n s)) = lb s"
proof -
  have "lb (upd_dev (\<lambda>d. d\<lparr>d_ntargets := m\<rparr>) x) = lb x" "lb (upd_dev (\<lambda>d. d\<lparr>d_targets := g d\<rparr>) x) = lb x" for m g x
    by (simp_all add: lb_def lv_def)
  then show ?thesis
    by (auto simp: addtgt_def grow_targets_def Let_def alloc_def split: option.splits bool.splits)
qed

lemma lb_setifbcnt: "lb (setifbcnt i nd n s) = lb s"
proof -
  have "lb (upd_dev setdbcnt x) = lb x" for x by (simp add: setdbcnt_def Let_def lb_upd_dev lv_def)
  then show ?thesis by (simp add: setifbcnt_def Let_def split: option.split)
qed

lemma lb_cfg_rsp_dev [simp]: "lb (snd (cfg_rsp_dev e r s)) = lb s"
proof -
  have t: "lb s1 = lb x" if "cfg_tgt e a n x = (i, s1)" for a n x i s1
    using that lb_addtgt [of e a n x] by (auto simp: cfg_tgt_def split: option.splits)
  have "lb (upd_dev (\<lambda>d. d\<lparr>d_fw_ver := v\<rparr>) x) = lb x" for v x by (simp add: lb_upd_dev lv_def)
  moreover have a: "lb s1 = lb x" if "aoecmd_ata_id e x = (p, s1)" for x p s1 using lb_ata_id [of e x] that by simp
  ultimately have "lb (snd (cfg_ident e v x)) = lb x" for v x
    by (auto simp: cfg_ident_def split: prod.splits option.splits dest!: a)
  then show ?thesis
    by (auto simp: cfg_rsp_dev_def Let_def lb_setifbcnt split: prod.splits option.splits dest!: t)
qed

lemma lb_if_loss [simp]: "lb (if_loss i nd s) = lb s"
  by (simp add: if_loss_def Let_def split: option.split)

lemma lb_expire_frame [simp]: "lb (expire_frame e u f s) = lb s"
  by (simp add: expire_frame_def Let_def lb_upd_dev lv_def)


section \<open>Every input\<close>

text \<open>What names a device and whether it is on its way out.\<close>

definition who :: "aoedev \<Rightarrow> u64 \<times> u16 \<times> nat \<times> nat \<times> bool \<times> bool \<times> bool" where
  "who d = (d_aoemajor d, d_aoeminor d, d_sysminor d, d_addr d, hasfl (d_flags d) DEVFL_TKILL,
     hasfl (d_flags d) DEVFL_FREEING, hasfl (d_flags d) DEVFL_FREED)"

definition tame :: "aoedev \<Rightarrow> aoedev \<Rightarrow> bool" where
  "tame d d' \<longleftrightarrow> who d' = who d \<and> (life_ok Idle d \<longrightarrow> life_ok Idle d')"

lemma tame_refl [simp]: "tame d d"
  by (simp add: tame_def)

lemma tame_trans: "tame d d' \<Longrightarrow> tame d' d'' \<Longrightarrow> tame d d''"
  by (simp add: tame_def)

lemma hasfl_kickme:
  "hasfl (clrfl (w :: u16) DEVFL_KICKME) DEVFL_UP = hasfl w DEVFL_UP"
  "hasfl (clrfl w DEVFL_KICKME) DEVFL_TKILL = hasfl w DEVFL_TKILL"
  "hasfl (clrfl w DEVFL_KICKME) DEVFL_FREEING = hasfl w DEVFL_FREEING"
  "hasfl (clrfl w DEVFL_KICKME) DEVFL_FREED = hasfl w DEVFL_FREED"
  "hasfl (clrfl w DEVFL_KICKME) DEVFL_GDALLOC = hasfl w DEVFL_GDALLOC"
  "hasfl (clrfl w DEVFL_KICKME) DEVFL_GD_NOW = hasfl w DEVFL_GD_NOW"
  "hasfl (clrfl w DEVFL_KICKME) DEVFL_NEWSIZE = hasfl w DEVFL_NEWSIZE"
  by (simp_all add: flag_simps)

lemma tame_lv: "lv d' = lv d \<Longrightarrow> tame d d'"
proof -
  assume l: "lv d' = lv d"
  then have f: "hasfl (clrfl (d_flags d') DEVFL_KICKME) m = hasfl (clrfl (d_flags d) DEVFL_KICKME) m" for m
    by (simp add: lv_def)
  have h: "d_gd d' = d_gd d" "d_blkq d' = None \<longleftrightarrow> d_blkq d = None" "d_aoemajor d' = d_aoemajor d"
      "d_aoeminor d' = d_aoeminor d" "d_sysminor d' = d_sysminor d" "d_addr d' = d_addr d"
    using l by (auto simp: lv_def)
  note g = f [of DEVFL_UP] f [of DEVFL_TKILL] f [of DEVFL_FREEING] f [of DEVFL_FREED] f [of DEVFL_GDALLOC]
    f [of DEVFL_GD_NOW] f [of DEVFL_NEWSIZE]
  show ?thesis using g [unfolded hasfl_kickme] h by (auto simp: tame_def who_def life_ok_def)
qed

lemma tame_ref [simp]: "tame d (d\<lparr>d_ref := r\<rparr>)" "tame d (d\<lparr>d_nopen := n\<rparr>)"
  by (auto simp: tame_def who_def life_ok_def)

lemma tame_ident: "tame (s_dev s) (s_dev (ataid_complete bs s))"
  using life_ok_ident [of Idle s bs]
  by (auto simp: tame_def who_def ataid_complete_def Let_def flag_simps split: option.split)

lemma tame_down: "tame (s_dev s) (s_dev (aoedev_downdev e s))"
  using life_ok_down [of Idle s e] life_downdev [of e s]
  by (auto simp: tame_def who_def life_def flag_simps)

lemma tame_idents: "idents s s' \<Longrightarrow> tame (s_dev s) (s_dev s')"
proof -
  assume "idents s s'"
  then consider "lb s' = lb s" | data s1 where "lb s1 = lb s" "s' = ataid_complete data s1"
    unfolding idents_def by blast
  then show ?thesis
  proof cases
    case 2
    then show ?thesis using tame_trans [OF tame_lv [OF lb_lv [OF 2(1)]] tame_ident] by simp
  qed (rule tame_lv [OF lb_lv])
qed

lemma tame_expire: "tame (s_dev s) (s_dev (snd (expire_loop e u fs s)))"
proof (induction fs arbitrary: s)
  case (Cons f fs)
  let ?s = "upd_dev (\<lambda>d. d\<lparr>d_factive := (d_factive d)[0 := (f # fs) @ d_factive d ! 0]\<rparr>) s"
  have "tame (s_dev s) (s_dev (aoedev_downdev e ?s))"
    by (rule tame_trans [OF tame_lv tame_down]) (simp add: lv_def)
  moreover have "tame (s_dev s) (s_dev (snd (expire_loop e u fs (expire_frame e u f s))))"
    by (rule tame_trans [OF tame_lv [OF lb_lv [OF lb_expire_frame]] Cons.IH])
  ultimately show ?case by simp
qed simp

lemma bal_down: "bal (aoedev_downdev e s) = bal s"
  using life_downdev [of e s] downdev_iocq [of e s] by (simp add: life_def bal_def)

lemma bal_expire: "bal (snd (expire_loop e u fs s)) = bal s"
proof (induction fs arbitrary: s)
  case (Cons f fs)
  have "bal (upd_dev (\<lambda>d. d\<lparr>d_factive := g d\<rparr>) s) = bal s" for g by (simp add: bal_def)
  then show ?case using Cons.IH [of "expire_frame e u f s"] bal_lb [OF lb_expire_frame] by (simp add: bal_down)
qed simp

text \<open>The timer in steps: what has expired is collected and dealt with, the rest is sending.\<close>

lemma rexmit_timer_core:
  assumes "\<not> hasfl (d_flags (s_dev s)) DEVFL_TKILL"
  obtains P u b s1 s2 where "expire_loop e u (concat (map (takeWhile P) (d_factive (s_dev s))))
      (upd_dev (\<lambda>d. d\<lparr>d_factive := map (dropWhile P) (d_factive d)\<rparr>) s) = (b, s1)"
    "s2 = (if b then rexmit_deferred e s1 else s1)"
    "rexmit_timer e s = upd_dev (\<lambda>d. d\<lparr>d_timer_expires := Some (e_jiffies e + of_int (e_hz e div 10))\<rparr>)
      (if hasfl (d_flags (s_dev s2)) DEVFL_KICKME \<and> d_blkq (s_dev s2) \<noteq> None
       then aoeblk_request e (upd_dev (\<lambda>d. d\<lparr>d_flags := clrfl (d_flags d) DEVFL_KICKME\<rparr>) s2) else s2)"
proof -
  let ?P = "expired e (rto (d_rttavg (s_dev s)) (d_rttdev (s_dev s))) s" and ?u = "fst (count_targets (s_dev s))"
  obtain b s1 where l: "expire_loop e ?u (concat (map (takeWhile ?P) (d_factive (s_dev s))))
      (upd_dev (\<lambda>d. d\<lparr>d_factive := map (dropWhile ?P) (d_factive d)\<rparr>) s) = (b, s1)" by fastforce
  show thesis
    by (rule that [OF l refl]) (use assms l in \<open>cases b; auto simp: rexmit_timer_def Let_def\<close>)
qed

lemma tame_timer: "tame (s_dev s) (s_dev (rexmit_timer e s))"
proof (cases "hasfl (d_flags (s_dev s)) DEVFL_TKILL")
  case False
  show ?thesis
  proof (rule rexmit_timer_core [OF False, of e])
    fix P u b s1 s2
    let ?s0 = "upd_dev (\<lambda>d. d\<lparr>d_factive := map (dropWhile P) (d_factive d)\<rparr>) s"
    let ?s3 = "if hasfl (d_flags (s_dev s2)) DEVFL_KICKME \<and> d_blkq (s_dev s2) \<noteq> None
       then aoeblk_request e (upd_dev (\<lambda>d. d\<lparr>d_flags := clrfl (d_flags d) DEVFL_KICKME\<rparr>) s2) else s2"
    let ?t = "upd_dev (\<lambda>d. d\<lparr>d_timer_expires := Some (e_jiffies e + of_int (e_hz e div 10))\<rparr>) ?s3"
    assume l: "expire_loop e u (concat (map (takeWhile P) (d_factive (s_dev s)))) ?s0 = (b, s1)"
      and s2: "s2 = (if b then rexmit_deferred e s1 else s1)" and t: "rexmit_timer e s = ?t"
    have "tame (s_dev ?s0) (s_dev s1)"
      using tame_expire [of ?s0 e u "concat (map (takeWhile P) (d_factive (s_dev s)))"] unfolding l by simp
    then have 1: "tame (s_dev s) (s_dev s1)" by (rule tame_trans [OF tame_lv, rotated]) (simp add: lv_def)
    have "lv (s_dev ?t) = lv (s_dev ?s3)" by (simp add: lv_def)
    also have "\<dots> = lv (s_dev s2)" by (simp add: lv_def [of "_\<lparr>d_flags := _\<rparr>"]) (simp add: lv_def)
    also have "\<dots> = lv (s_dev s1)" by (simp add: s2)
    finally show ?thesis unfolding t by (intro tame_trans [OF 1 tame_lv])
  qed
qed (simp add: rexmit_timer_def)

lemma bal_timer:
  assumes ok: "dev_ok {#} {#} s"
  shows "bal (rexmit_timer e s) = bal s"
proof (cases "hasfl (d_flags (s_dev s)) DEVFL_TKILL")
  case False
  show ?thesis
  proof (rule rexmit_timer_core [OF False, of e])
    fix P u b s1 s2
    let ?s0 = "upd_dev (\<lambda>d. d\<lparr>d_factive := map (dropWhile P) (d_factive d)\<rparr>) s"
    let ?k = "upd_dev (\<lambda>d. d\<lparr>d_flags := clrfl (d_flags d) DEVFL_KICKME\<rparr>) s2"
    let ?s3 = "if hasfl (d_flags (s_dev s2)) DEVFL_KICKME \<and> d_blkq (s_dev s2) \<noteq> None then aoeblk_request e ?k else s2"
    let ?t = "upd_dev (\<lambda>d. d\<lparr>d_timer_expires := Some (e_jiffies e + of_int (e_hz e div 10))\<rparr>) ?s3"
    assume l: "expire_loop e u (concat (map (takeWhile P) (d_factive (s_dev s)))) ?s0 = (b, s1)"
      and s2: "s2 = (if b then rexmit_deferred e s1 else s1)" and t: "rexmit_timer e s = ?t"
    have "dev_ok {#} {#} (snd (expire_loop e u (concat (map (takeWhile P) (d_factive (s_dev s)))) ?s0))"
      by (rule expire_loop_ok [OF collect_ok [OF ok]])
    then have 1: "dev_ok {#} {#} s1" by (simp add: l)
    have "bal s1 = bal ?s0"
      using bal_expire [of e u "concat (map (takeWhile P) (d_factive (s_dev s)))" ?s0] unfolding l by simp
    then have b1: "bal s1 = bal s" by (simp add: bal_def)
    have 2: "dev_ok {#} {#} s2" "bal s2 = bal s1"
      using rexmit_deferred_ok [OF 1, of e] 1 bal_lb [of "rexmit_deferred e s1" s1] by (simp_all add: s2 lb_eq)
    have k: "dev_ok {#} {#} ?k" using 2(1) by (simp add: dev_ok_def)
    have "bal ?t = bal ?s3" by (simp add: bal_def)
    also have "\<dots> = bal s2" using bal_lb [OF lb_request [OF k]] by (simp add: bal_def)
    finally show ?thesis unfolding t by (simp add: 2 b1)
  qed
qed (simp add: rexmit_timer_def)

section \<open>The disk\<close>

lemma gd_create_bal: "gd_create e s = (b, s') \<Longrightarrow> s_dev s' = s_dev s \<and> s_iocq s' = s_iocq s"
  by (auto simp: gd_create_def alloc_def split: bool.splits)

lemma warn_on_sel [simp]: "s_dev (warn_on b s) = s_dev s" "s_iocq (warn_on b s) = s_iocq s"
  by (simp_all add: warn_on_def)

lemma gdalloc_tame: "tame (s_dev s) (s_dev (aoeblk_gdalloc e s))" and gdalloc_bal: "bal (aoeblk_gdalloc e s) = bal s"
proof -
  obtain b s1 where b: "gd_begin s = (b, s1)" by fastforce
  obtain c s2 where c: "gd_create e s1 = (c, s2)" by fastforce
  note d = gd_create_bal [OF c]
  have e: "aoeblk_gdalloc e s = (if b then if c then gd_done (gd_publish s2) else gd_fail s2 else s1)"
    by (simp add: aoeblk_gdalloc_def b c split: bool.split)
  show "bal (aoeblk_gdalloc e s) = bal s"
    using b d unfolding e
    by (auto simp: bal_def gd_begin_def gd_done_def gd_publish_def gd_fail_def Let_def split: if_splits)
  show "tame (s_dev s) (s_dev (aoeblk_gdalloc e s))"
    using b d unfolding e
    by (auto simp: tame_def who_def life_ok_def gd_begin_def gd_done_def gd_publish_def gd_fail_def Let_def flag_simps
        split: if_splits)
qed

lemma sleepwork_tame: "tame (s_dev s) (s_dev (aoecmd_sleepwork e s))" and sleepwork_bal: "bal (aoecmd_sleepwork e s) = bal s"
proof -
  have n: "tame (s_dev x) (s_dev (newsize x))" if "hasfl (d_flags (s_dev x)) DEVFL_NEWSIZE" for x
    using that by (auto simp: tame_def who_def life_ok_def newsize_def flag_simps)
  show "tame (s_dev s) (s_dev (aoecmd_sleepwork e s))"
    using n tame_trans [OF gdalloc_tame n] by (auto simp: aoecmd_sleepwork_def Let_def gdalloc_tame)
  have "bal (newsize x) = bal x" for x by (simp add: newsize_def bal_def)
  then show "bal (aoecmd_sleepwork e s) = bal s" by (simp add: aoecmd_sleepwork_def Let_def gdalloc_bal)
qed

section \<open>All inputs\<close>

lemma tame_ata_rsp: "tame (s_dev s) (s_dev (snd (aoecmd_ata_rsp e r s)))"
proof -
  have f: "lb s1 = lb x" if "getframe n x = (a, s1)" for n x a s1 using lb_getframe(1) [of n x] that by simp
  have g: "lb s1 = lb x" if "getframe_deferred n x = (a, s1)" for n x a s1 using lb_getframe(2) [of n x] that by simp
  let ?n = "h_tag (hdr_of (r_data r))"
  obtain a s1 b s2 where ab: "getframe ?n s = (a, s1)" "getframe_deferred ?n s1 = (b, s2)" by fastforce
  note l = f [OF ab(1)] g [OF ab(2)]
  have w: "tame (s_dev s) (s_dev (ata_rsp_work e f r x))" if "lb x = lb s" for f x
    by (rule tame_lv) (simp add: ata_rsp_work_def lb_lv [OF that])
  have u: "tame (s_dev s) (s_dev (emit m (upd_dev (\<lambda>d. d\<lparr>d_ref := d_ref d - 1\<rparr>) x)))" if "lb x = lb s" for m x
    using tame_trans [OF tame_lv [OF lb_lv [OF that]] tame_ref(1)] by simp
  have c: "lb (case gettgt d ad of None \<Rightarrow> x | Some i \<Rightarrow> upd_tgt i h x) = lb x" for d ad h x
    by (simp split: option.split)
  show ?thesis
  proof (cases a)
    case None
    show ?thesis
      unfolding aoecmd_ata_rsp_def Let_def ab prod.case None option.case
      by (cases b) (simp_all only: option.case snd_conv, (rule u w, simp add: c l)+)
  next
    case (Some f)
    show ?thesis
      unfolding aoecmd_ata_rsp_def Let_def ab prod.case Some option.case snd_conv by (rule w) (simp add: l)
  qed
qed

lemma tame_ktio_one: "tame (s_dev s) (s_dev (ktio_one e b q s))"
proof (cases "s_iocq s ! q")
  case (Cons f fs)
  let ?s0 = "s\<lparr>s_iocq := (s_iocq s)[q := fs]\<rparr>"
  let ?s1 = "ktio_check e f ?s0" let ?s2 = "aoe_freetframe f (redeem e (f_t (fr ?s1 f)) ?s1)"
  have 1: "tame (s_dev s) (s_dev ?s1)" using tame_idents [OF ktio_check_idents, of ?s0 e f] by simp
  have "lv (s_dev (buf_frame_done e bo ?s2)) = lv (s_dev ?s1)" for bo
    using lb_lv [of ?s2 ?s1] by simp
  then have "tame (s_dev s) (s_dev (buf_frame_done e bo ?s2))" for bo by (rule tame_trans [OF 1 tame_lv])
  then have "tame (s_dev s) (s_dev (ktiocomplete e f ?s0))"
    using tame_trans [OF _ tame_ref(1)] by (simp add: ktiocomplete_def ktio_out_def Let_def)
  then show ?thesis using Cons by (simp add: ktio_one_def Let_def)
qed (simp add: ktio_one_def)

lemma tame_flush_frames: "tame (s_dev s) (s_dev (flush_frames e fs s))"
proof (induction fs arbitrary: s)
  case (Cons f fs)
  have "tame (s_dev s) (s_dev (upd_dev (\<lambda>d. d\<lparr>d_ref := d_ref d - 1\<rparr>) (fail_frame e f s)))"
    using tame_trans [OF tame_lv [OF lv_fail_frame] tame_ref(1)] by simp
  then show ?case using tame_trans [OF _ Cons.IH] by simp
qed simp

lemma lb_submit: "lb (blk_submit r bs s) = lb s"
  by (simp add: blk_submit_def lb_upd_dev lv_def)

lemma lb_ident: "lb (case aoecmd_ata_id e s of (None, s1) \<Rightarrow> s1 | (Some p, s1) \<Rightarrow> aoenet_xmit [p] s1) = lb s"
proof -
  have a: "lb s1 = lb s" if "aoecmd_ata_id e s = (p, s1)" for p s1 using lb_ata_id [of e s] that by simp
  show ?thesis by (auto split: prod.split option.split dest!: a)
qed

lemma lb_small [simp]:
  "lb (upd_dev (dummy_timer e) s) = lb s" "lb (upd_dev aoecmd_cleanslate s) = lb s"
  by (simp_all add: dummy_timer_def aoecmd_cleanslate_def lb_upd_dev lv_def)

lemma handle_tame: "tame (s_dev s) (s_dev (handle e i s))"
proof (cases i)
  case (InRequest r bs)
  then show ?thesis using lb_lv [OF lb_submit] by (intro tame_lv) simp
next
  case InTimer
  then show ?thesis
    using tame_timer [of s e] tame_lv [OF lb_lv [OF lb_small(1) [of e s]]] by (simp split: timer_fn.split)
next
  case (InCfg r)
  then show ?thesis using lb_cfg_rsp_dev [of e r s] by (intro tame_lv lb_lv) (simp add: split_def)
next
  case InIdent
  then show ?thesis using lb_ident [of e s] by (intro tame_lv lb_lv) simp
next
  case (InFlushq q)
  then show ?thesis
    using tame_flush_frames [of "s\<lparr>s_iocq := (s_iocq s)[q := []]\<rparr>" e "s_iocq s ! q"]
    by (simp add: aoe_flush_iocq_by_index_def)
next
  case InOpen
  then show ?thesis by (simp add: aoeblk_open_def Let_def)
next
  case (InClose l ndl)
  let ?s = "upd_dev (\<lambda>d. d\<lparr>d_nopen := d_nopen d - 1\<rparr>) s"
  have "tame (s_dev ?s) (s_dev (aoecmd_cfg e l ndl (ucast (d_aoemajor (s_dev ?s))) (ucast (d_aoeminor (s_dev ?s))) ?s))"
    by (rule tame_lv [OF lb_lv]) simp
  then show ?thesis using InClose tame_trans [OF tame_ref(2)] by (simp add: aoeblk_release_def Let_def)
qed (use tame_lv [OF lb_lv [OF lb_small(2) [of s]]] tame_lv [OF lb_lv [OF lb_cfg]] in
    \<open>simp_all add: tame_ata_rsp tame_ktio_one tame_down sleepwork_tame\<close>)

text \<open>A response uses up the reference of its lookup; every other input leaves the balance.\<close>

lemma handle_bal:
  assumes ok: "dev_ok {#} {#} s"
  shows "bal (handle e i s) = bal s - (case i of InAta _ \<Rightarrow> 1 | _ \<Rightarrow> 0)"
proof (cases i)
  case (InRequest r bs)
  have "dev_ok {#} {#} (blk_submit r bs s)"
    unfolding blk_submit_def by (rule dev_ok_dev) (use ok in \<open>simp_all add: dev_ok_def\<close>)
  from lb_request [OF this, of e] have "lb (handle e i s) = lb s" by (simp add: InRequest lb_submit)
  then show ?thesis using InRequest bal_lb [of "handle e i s" s] by simp
next
  case InTimer
  then show ?thesis
    using bal_timer [OF ok, of e] bal_lb [OF lb_small(1) [of e s]] by (simp split: timer_fn.split)
next
  case (InCfg r)
  have "lb (handle e i s) = lb s" using lb_cfg_rsp_dev [of e r s] by (simp add: InCfg split_def)
  then show ?thesis using InCfg bal_lb [of "handle e i s" s] by simp
next
  case InIdent
  then show ?thesis using bal_lb [OF lb_ident [of e s]] by simp
next
  case (InFlushq q)
  then show ?thesis using bal_flush_iocq [OF ok, of q e] by simp
next
  case InOpen
  then show ?thesis by (simp add: aoeblk_open_def Let_def bal_def)
next
  case (InClose l ndl)
  have "bal (upd_dev (\<lambda>d. d\<lparr>d_nopen := n d\<rparr>) s) = bal s" for n by (simp add: bal_def)
  then show ?thesis using InClose bal_lb [OF lb_cfg] by (simp add: aoeblk_release_def Let_def)
qed (use ok bal_lb [OF lb_cfg] bal_lb [OF lb_small(2)] bal_lb [OF lb_upd(1)] in
    \<open>simp_all add: bal_ata_rsp bal_ktio_one bal_down sleepwork_bal\<close>)

section \<open>Inputs with their lookups\<close>

text \<open>
  A packet reaches its device through \<open>aoedev_by_aoeaddr\<close>, which takes a reference, or finds nothing
  when the device is dying.  \<open>aoecmd_cfg_rsp\<close> gives the reference back, \<open>aoecmd_ata_rsp\<close> leaves it to
  the completion thread or, when no frame waits for the response, gives it back too.
\<close>

definition get_ref :: "st \<Rightarrow> st" where
  "get_ref = upd_dev (\<lambda>d. d\<lparr>d_ref := d_ref d + 1\<rparr>)"

definition put_ref :: "st \<Rightarrow> st" where
  "put_ref = upd_dev (\<lambda>d. d\<lparr>d_ref := d_ref d - 1\<rparr>)"

definition serve :: "env \<Rightarrow> input \<Rightarrow> st \<Rightarrow> st" where
  "serve e i s =
     (case i of
        InAta r \<Rightarrow>
          if hasfl (d_flags (s_dev s)) DEVFL_TKILL
          then emit (EvMsg (UnknownDevice (h_major (hdr_of (r_data r))) (h_minor (hdr_of (r_data r))))) s
          else handle e i (get_ref s)
      | InCfg r \<Rightarrow> if hasfl (d_flags (s_dev s)) DEVFL_TKILL then s else put_ref (handle e i (get_ref s))
      | _ \<Rightarrow> handle e i s)"

definition serves :: "(env \<times> input) list \<Rightarrow> st \<Rightarrow> st" where
  "serves is s = fold (\<lambda>(e, i). serve e i) is s"

definition refs_ok :: "st \<Rightarrow> bool" where
  "refs_ok s \<longleftrightarrow> dev_ok {#} {#} s \<and> bal s = 0"

lemma refs_step [simp]:
  "dev_ok X A (get_ref s) = dev_ok X A s" "dev_ok X A (put_ref s) = dev_ok X A s"
  "bal (get_ref s) = bal s + 1" "bal (put_ref s) = bal s - 1" "bal (emit ev s) = bal s"
  by (simp_all add: get_ref_def put_ref_def dev_ok_def bal_def)

lemma serve_ok:
  assumes "refs_ok s"
  shows "refs_ok (serve e i s)"
proof -
  have ok: "dev_ok {#} {#} s" "dev_ok {#} {#} (get_ref s)" "bal s = 0" using assms by (simp_all add: refs_ok_def)
  show ?thesis
    using ok handle_ok [OF ok(1), of e i] handle_ok [OF ok(2), of e i] handle_bal [OF ok(1), of e i]
      handle_bal [OF ok(2), of e i]
    by (cases i) (simp_all add: serve_def refs_ok_def del: handle.simps)
qed

interpretation rf: handlers refs_ok serve
  by unfold_locales (rule serve_ok)

text \<open>A device as \<open>aoecmd_cfg_rsp\<close> finds it, before the reference is taken.\<close>

abbreviation found :: "nat \<Rightarrow> env \<Rightarrow> nat \<Rightarrow> nat \<Rightarrow> u64 \<Rightarrow> u16 \<Rightarrow> st" where
  "found ncpus e a m maj mi \<equiv> put_ref (init_st ncpus (new_dev e a m maj mi))"

lemma found_ok: "0 < ncpus \<Longrightarrow> refs_ok (found ncpus e a m maj mi)"
proof -
  have "concat (replicate n []) = []" for n by (induction n) simp_all
  then have "bal (init_st ncpus (new_dev e a m maj mi)) = 1" by (simp add: bal_def init_st_def new_dev_def)
  then show "0 < ncpus \<Longrightarrow> ?thesis" by (simp add: refs_ok_def init_ok)
qed

section \<open>Properties\<close>

text \<open>C4. The reference count of a device is the number of frames that wait for a completion thread,
  whatever packets, timer runs, requests, completions and failures came before: no reference is lost
  or given back twice.  So a flush of all devices, or of those that are down, does not remove a device
  while a completion thread still has a frame of it.\<close>

theorem refs_exact:
  assumes "0 < ncpus" and "s = serves is (found ncpus e a m maj mi)"
  shows "d_ref (s_dev s) = int (length (concat (s_iocq s)))
    \<and> (\<forall>q. q = FlushAll \<or> q = FlushDown \<longrightarrow> doomed q (s_dev s) \<longrightarrow> concat (s_iocq s) = [])"
proof -
  have "bal s = 0"
    unfolding assms(2) serves_def using rf.run_keeps [OF found_ok [OF assms(1)]] by (simp add: refs_ok_def)
  then have b: "d_ref (s_dev s) = int (length (concat (s_iocq s)))" by (simp add: bal_def)
  then show ?thesis by (auto simp: doomed_def)
qed

theorem refs_exact_witness:
  "d_ref (s_dev (serves run1 (found 2 env0 0 0 1 1))) = int (length (concat (s_iocq (serves run1 (found 2 env0 0 0 1 1)))))"
  using refs_exact [OF _ refl, of 2 run1 env0 0 0 1 1] by simp

lemma skbfree_iocq [simp]: "s_iocq (skbfree polls ko s) = s_iocq s"
  by (simp add: skbfree_def split: option.split)

lemma fold_iocq: "(\<And>x s. s_iocq (g x s) = s_iocq s) \<Longrightarrow> s_iocq (fold g xs s) = s_iocq s"
  by (induction xs arbitrary: s) simp_all

lemma freedev_iocq: "s_iocq (y_st (freedev parts polls i y)) = s_iocq (y_st y)"
  by (simp add: freedev_def Let_def skbpoolfree_def freetgt_def dev_put_def fold_iocq split_def split: option.split)

lemma flush_pass2_iocq: "s_iocq (y_st (flush_pass2 parts polls y)) = s_iocq (y_st y)"
proof (induction parts polls y rule: flush_pass2.induct)
  case (1 parts polls y)
  then show ?case by (simp add: flush_pass2.simps [of parts polls y] freedev_iocq split: option.split)
qed

lemma flush_pass1_iocq: "s_iocq (snd (flush_pass1 e q ds s)) = s_iocq s"
  by (induction ds arbitrary: s) (simp_all add: Let_def split_def flush_kill_def downdev_iocq)

text \<open>C39. A flush that names a device does not look at its references: the device is freed and
  unlinked, and the frames of it that wait for a completion thread stay in the completion queues.\<close>

theorem named_flush_ignores_refs:
  assumes "settled y" and "sys_ok y" and "3 \<le> length str" and "strncmp (take 16 str) ''all'' 3"
    and "user_req (take 16 str) d"
    and "flush e AOE_PARTITIONS polls True str False y = (None, y')"
  shows "d \<notin> set (y_devs y') \<and> s_iocq (y_st y') = s_iocq (y_st y)"
proof -
  have q: "flush_req str False = FlushOne (take 16 str)" using assms(3,4) by (simp add: flush_req_def Let_def)
  have "y_devs y' = filter (\<lambda>d. \<not> doomed (flush_req str False) d) (y_devs y)"
    using flush_devs(1) [OF assms(1) _ assms(6)] assms(2) by (simp add: sys_ok_def)
  then have "d \<notin> set (y_devs y')" using assms(5) q by (simp add: doomed_def)
  moreover have "s_iocq (y_st y') = s_iocq (y_st y)"
    using assms(6) by (auto simp: flush_def Let_def split_def flush_pass3_def flush_pass2_iocq flush_pass1_iocq)
  ultimately show ?thesis by simp
qed

text \<open>Two devices as in \<open>two_devs\<close>, with a frame of the second at a completion thread.\<close>

definition dev_busy :: aoedev where
  "dev_busy = dev_idle\<lparr>d_ref := 1\<rparr>"

definition two_busy :: sys where
  "two_busy = two_devs\<lparr>y_devs := [dev_open, dev_busy], y_st := (init_st 2 dev_busy)\<lparr>s_iocq := [[0], []]\<rparr>\<rparr>"

lemma two_busy_ok: "settled two_busy" "sys_ok two_busy"
  using two_devs_ok by (simp_all add: two_busy_def dev_busy_def settled_def sys_ok_def two_devs_def)

theorem named_flush_ignores_refs_witness:
  "case flush env0 AOE_PARTITIONS (\<lambda>_ _. 1) True ''e1.10'' False two_busy of
     (r, y') \<Rightarrow> r = None \<and> dev_busy \<notin> set (y_devs y') \<and> d_ref dev_busy = 1 \<and> s_iocq (y_st y') = [[0], []]"
proof -
  obtain y' where y: "flush env0 AOE_PARTITIONS (\<lambda>_ _. 1) True ''e1.10'' False two_busy = (None, y')"
    by (simp add: flush_def split_def Let_def)
  have "user_req (take 16 ''e1.10'') dev_busy"
    by (simp add: user_req_def dev_busy_def dev_idle_def strncmp_take DISK_NAME_LEN_def)
  then have "dev_busy \<notin> set (y_devs y') \<and> s_iocq (y_st y') = s_iocq (y_st two_busy)"
    by (intro named_flush_ignores_refs [OF two_busy_ok _ _ _ y]) (simp_all add: strncmp_take)
  then show ?thesis unfolding y by (simp add: two_busy_def) (simp add: dev_busy_def)
qed

end
