(* ===== verification/Whole.thy ===== *)
theory Whole
  imports Refs
begin

text \<open>
  The whole driver: all devices with the interface list, and runs of everything that reaches them,
  packets from the network, events of a device and writes to the control files.  The list of devices
  stays well formed along every run.
\<close>

section \<open>Inputs of the driver\<close>

text \<open>
  A packet; an event of the device at a place in the list, among them its timer, a request and a
  completion (a completion may act on any device, which allows more runs than the driver has); a write
  to a control file.
\<close>

datatype drvin =
    DrvPacket bool rcvctx rskb
  | DrvDev nat input
  | DrvWrite wctx nat string

fun drive :: "env \<Rightarrow> drvin \<Rightarrow> string \<times> sys \<Rightarrow> string \<times> sys" where
  "drive e (DrvPacket dyn c r) (l, y) = (l, aoenet_rcv e dyn AOE_PARTITIONS l c r y)"
| "drive e (DrvDev i inp) (l, y) = (l, if i < length (y_devs y) then on_dev i (handle e inp) y else y)"
| "drive e (DrvWrite w n buf) (l, y) = snd (aoechr_write w AOE_PARTITIONS n buf (l, y))"

definition drives :: "(env \<times> drvin) list \<Rightarrow> string \<times> sys \<Rightarrow> string \<times> sys" where
  "drives is ly = fold (\<lambda>(e, i). drive e i) is ly"

section \<open>The invariant\<close>

text \<open>With \<open>b\<close>, no minor number is marked that no device has.\<close>

definition all_ok :: "bool \<Rightarrow> sys \<Rightarrow> bool" where
  "all_ok b y \<longleftrightarrow> (b \<longrightarrow> taken AOE_PARTITIONS (y_used y) = set (minors_of (y_devs y))) \<and> sys_ok y \<and> settled y \<and> (\<forall>d\<in>set (y_devs y). life_ok Idle d)
     \<and> distinct (map d_addr (y_devs y)) \<and> (\<forall>d\<in>set (y_devs y). d_addr d < y_next y)"

text \<open>Only what names the devices matters.\<close>

lemma all_ok_tame:
  assumes ok: "all_ok b y" and l: "list_all2 tame (y_devs y) (y_devs y')"
    and u: "y_used y' = y_used y" "y_next y' = y_next y"
  shows "all_ok b y'"
proof -
  have w: "map who (y_devs y') = map who (y_devs y)"
    using l by (induction rule: list_all2_induct) (simp_all add: tame_def)
  have m: "map aoeaddr (y_devs y') = map aoeaddr (y_devs y)" "minors_of (y_devs y') = minors_of (y_devs y)"
    "map d_addr (y_devs y') = map d_addr (y_devs y)"
    using arg_cong [OF w, of "map (\<lambda>(a, b, _). (a, b))"] arg_cong [OF w, of "map (\<lambda>(_, _, c, _). c)"]
      arg_cong [OF w, of "map (\<lambda>(_, _, _, c, _). c)"] by (simp_all add: who_def comp_def split_def)
  have each: "\<exists>d\<in>set (y_devs y). tame d d'" if "d' \<in> set (y_devs y')" for d'
    using l that by (induction rule: list_all2_induct) auto
  have "settled y'" using ok each by (fastforce simp: settled_def tame_def who_def all_ok_def)
  moreover have "\<forall>d\<in>set (y_devs y'). life_ok Idle d" using ok each by (fastforce simp: tame_def all_ok_def)
  moreover have "\<forall>d\<in>set (y_devs y'). d_addr d < y_next y'"
    using ok each u by (fastforce simp: tame_def who_def all_ok_def)
  ultimately show ?thesis using ok m u by (simp add: all_ok_def sys_ok_def)
qed

lemma tame_update: "i < length ds \<Longrightarrow> tame (ds ! i) d \<Longrightarrow> list_all2 tame ds (ds[i := d])"
  by (auto simp: list_all2_conv_all_nth nth_list_update)

lemma all_ok_on_dev:
  assumes "all_ok b y" and "i < length (y_devs y)" and "\<And>s. tame (s_dev s) (s_dev (g s))"
  shows "all_ok b (on_dev i g y)"
proof (rule all_ok_tame [OF assms(1)])
  show "list_all2 tame (y_devs y) (y_devs (on_dev i g y))"
    using tame_update [OF assms(2)] assms(3) [of "(y_st y)\<lparr>s_dev := y_devs y ! i\<rparr>"] by (simp add: on_dev_def Let_def)
qed (simp_all add: on_dev_def Let_def)

lemma all_ok_put: "all_ok b y \<Longrightarrow> i < length (y_devs y) \<Longrightarrow> all_ok b (aoedev_put i y)"
  by (rule all_ok_tame [of b y]) (simp_all add: aoedev_put_def tame_update)

lemma length_on_dev [simp]: "length (y_devs (on_dev i g y)) = length (y_devs y)"
  by (simp add: on_dev_def Let_def)

section \<open>Entry points\<close>

lemma lookup_found:
  assumes ok: "all_ok b y" and f: "find_dev 0 (y_devs y) maj mi = Some j"
    and r: "aoedev_by_aoeaddr e dyn AOE_PARTITIONS maj mi al y = (r, y')"
  shows "all_ok b y' \<and> (\<forall>i. r = Some i \<longrightarrow> i < length (y_devs y'))"
proof -
  have j: "j < length (y_devs y)" using find_dev_Some [OF f] by simp
  show ?thesis
  proof (cases "hasfl (d_flags (y_devs y ! j)) DEVFL_TKILL")
    case True
    then show ?thesis using ok f r by (auto simp: aoedev_by_aoeaddr_def)
  next
    case False
    let ?d = "(y_devs y ! j)\<lparr>d_ref := d_ref (y_devs y ! j) + 1\<rparr>"
    have e: "r = Some j" "y' = y\<lparr>y_devs := (y_devs y)[j := ?d]\<rparr>"
      using r f False by (auto simp: aoedev_by_aoeaddr_def)
    have "all_ok b y'" unfolding e by (rule all_ok_tame [OF ok]) (simp_all add: tame_update j)
    then show ?thesis using e j by simp
  qed
qed

lemma lookup_none:
  assumes ok: "all_ok b y" and f: "find_dev 0 (y_devs y) maj mi = None"
    and mi: "al \<Longrightarrow> 0 \<le> mi \<and> mi < 2 ^ 16 \<and> (b \<longrightarrow> (\<forall>n. e_alloc e n))"
    and r: "aoedev_by_aoeaddr e dyn AOE_PARTITIONS maj mi al y = (r, y')"
  shows "all_ok b y' \<and> (\<forall>i. r = Some i \<longrightarrow> i < length (y_devs y'))"
proof (cases al)
  case True
  have s: "sys_ok y'" using aoedev_by_aoeaddr_ok [OF _ r] ok mi [OF True] by (simp add: all_ok_def)
  obtain mo u where g: "minor_get dyn AOE_PARTITIONS (unat maj) (nat mi) (y_used y) = (mo, u)" by fastforce
  have n: "mo = None \<Longrightarrow> u = y_used y" using mn.get_None [of dyn "(unat maj, nat mi)" "y_used y" u] g by simp
  have "(y_devs y' = y_devs y \<and> y_next y' = y_next y \<and> r = None \<and> (b \<longrightarrow> y_used y' = y_used y))
    \<or> (\<exists>m. y_devs y' = new_dev e (y_next y) m maj (word_of_int mi) # y_devs y \<and> y_next y' = Suc (y_next y)
         \<and> r = Some 0 \<and> mo = Some m \<and> y_used y' = u)"
    using f r True g n mi [OF True] by (cases mo) (auto simp: aoedev_by_aoeaddr_def alloc_def split: if_splits bool.splits)
  then show ?thesis
  proof (elim disjE exE conjE)
    fix m assume e: "y_devs y' = new_dev e (y_next y) m maj (word_of_int mi) # y_devs y" "y_next y' = Suc (y_next y)"
      "r = Some 0" "mo = Some m" "y_used y' = u"
    have t: "taken AOE_PARTITIONS u = insert m (taken AOE_PARTITIONS (y_used y))"
      using mn.get_Some [of dyn "(unat maj, nat mi)" "y_used y" m u] g e(4) by simp
    have "d_addr (new_dev e (y_next y) m maj (word_of_int mi)) = y_next y"
      "d_flags (new_dev e (y_next y) m maj (word_of_int mi)) = 0"
      "life_ok Idle (new_dev e (y_next y) m maj (word_of_int mi))"
      "d_sysminor (new_dev e (y_next y) m maj (word_of_int mi)) = m"
      by (simp_all add: new_dev_def life_ok_def)
    then show ?thesis using s ok e t by (auto simp: all_ok_def settled_def less_Suc_eq)
  qed (use s ok in \<open>simp add: all_ok_def settled_def\<close>)
next
  case False
  then show ?thesis using ok f r by (auto simp: aoedev_by_aoeaddr_def)
qed

lemma lookup_ok:
  assumes "all_ok b y" and "aoedev_by_aoeaddr e dyn AOE_PARTITIONS maj mi al y = (r, y')"
    and "al \<Longrightarrow> 0 \<le> mi \<and> mi < 2 ^ 16 \<and> (b \<longrightarrow> (\<forall>n. e_alloc e n))"
  shows "all_ok b y'" and "r = Some i \<Longrightarrow> i < length (y_devs y')"
  using lookup_found [OF assms(1) _ assms(2)] lookup_none [OF assms(1) _ assms(3,2)]
  by (cases "find_dev 0 (y_devs y) maj mi"; simp)+

lemma ata_rsp_all_ok: "all_ok b y \<Longrightarrow> all_ok b (snd (ata_rsp_sys e dyn AOE_PARTITIONS r y))"
proof -
  assume ok: "all_ok b y"
  let ?h = "hdr_of (r_data r)"
  obtain q y1 where a: "aoedev_by_aoeaddr e dyn AOE_PARTITIONS (ucast (h_major ?h)) (uint (h_minor ?h)) False y = (q, y1)"
    by fastforce
  note l = lookup_ok [OF ok a]
  have "all_ok b (y1\<lparr>y_st := s\<rparr>)" for s using l(1) by (rule all_ok_tame) (simp_all add: list_all2_same)
  moreover have "all_ok b (on_dev i (\<lambda>s. snd (aoecmd_ata_rsp e r s)) y1)" if "q = Some i" for i
    by (rule all_ok_on_dev) (use l that in \<open>simp_all add: tame_ata_rsp\<close>)
  ultimately show ?thesis by (simp add: ata_rsp_sys_def Let_def a split: option.split)
qed

lemma cfg_rsp_all_ok:
  assumes ok: "all_ok b y" and al: "b \<longrightarrow> (\<forall>n. e_alloc e n)"
  shows "all_ok b (aoecmd_cfg_rsp e dyn AOE_PARTITIONS r y)"
proof -
  let ?h = "hdr_of (r_data r)"
  obtain q y1 where a: "aoedev_by_aoeaddr e dyn AOE_PARTITIONS (ucast (h_major ?h)) (uint (h_minor ?h)) True y = (q, y1)"
    by fastforce
  have mi: "0 \<le> uint (h_minor ?h) \<and> uint (h_minor ?h) < 2 ^ 16 \<and> (b \<longrightarrow> (\<forall>n. e_alloc e n))"
    using uint_lt2p [of "h_minor ?h"] al by simp
  note l = lookup_ok [OF ok a mi]
  let ?g = "\<lambda>s. case cfg_rsp_dev e r s of (sl, s1) \<Rightarrow> aoenet_xmit sl s1"
  have t: "tame (s_dev s) (s_dev (?g s))" for s using handle_tame [of s e "InCfg r"] by simp
  have "all_ok b (aoedev_put i (on_dev i ?g y1))" if "q = Some i" for i
    by (intro all_ok_put all_ok_on_dev) (use l that t in simp_all)
  then show ?thesis using ok l by (simp add: aoecmd_cfg_rsp_def Let_def a split: option.split)
qed

lemma rcv_all_ok: "all_ok b y \<Longrightarrow> b \<longrightarrow> (\<forall>n. e_alloc e n) \<Longrightarrow> all_ok b (aoenet_rcv e dyn AOE_PARTITIONS l c r y)"
  by (simp add: aoenet_rcv_def Let_def ata_rsp_all_ok cfg_rsp_all_ok)

lemma ident_loop_lb: "ident_loop es s = (p, s') \<Longrightarrow> lb s' = lb s"
proof (induction es arbitrary: s)
  case (Cons e es)
  obtain q s1 where a: "aoecmd_ata_id e s = (q, s1)" by fastforce
  then have "lb s1 = lb s" using lb_ata_id [of e s] by simp
  then show ?case using Cons a by (cases q) auto
qed simp

lemma revalidate_all_ok: "all_ok b y \<Longrightarrow> all_ok b (snd (revalidate e es dyn AOE_PARTITIONS l ndl st cp str y))"
proof -
  assume ok: "all_ok b y"
  have one: "all_ok b (aoedev_put i (on_dev i (\<lambda>s. case ident_loop es (aoecmd_cfg e l ndl a c (upd_dev aoecmd_cleanslate s)) of
      (None, s1) \<Rightarrow> s1 | (Some p, s1) \<Rightarrow> aoenet_xmit [p] s1) y1))"
    if "all_ok b y1" "i < length (y_devs y1)" for i a c y1
  proof (intro all_ok_put all_ok_on_dev)
    fix s
    obtain p s1 where i: "ident_loop es (aoecmd_cfg e l ndl a c (upd_dev aoecmd_cleanslate s)) = (p, s1)" by fastforce
    have "lb s1 = lb s" using ident_loop_lb [OF i] by simp
    then show "tame (s_dev s) (s_dev (case ident_loop es (aoecmd_cfg e l ndl a c (upd_dev aoecmd_cleanslate s)) of
      (None, s1) \<Rightarrow> s1 | (Some p, s1) \<Rightarrow> aoenet_xmit [p] s1))"
      by (intro tame_lv lb_lv) (simp add: i split: option.split)
  qed (use that in simp_all)
  show ?thesis
    using ok lookup_ok [OF ok] one unfolding revalidate_def
    by (auto split: option.split prod.split)
qed

lemma flush_next: "y_next (snd (flush e parts polls cp str ex y)) = y_next y"
proof -
  have "y_next (freedev parts polls i y) = y_next y" for i y
    by (simp add: freedev_def Let_def split_def split: option.split)
  then have "y_next (flush_pass2 parts polls y) = y_next y" for y
    by (induction parts polls y rule: flush_pass2.induct)
      (subst flush_pass2.simps, simp split: option.split)
  then show ?thesis by (simp add: flush_def Let_def split_def flush_pass3_def)
qed

lemma flush_all_ok:
  assumes ok: "all_ok b y"
  shows "all_ok b (snd (flush e AOE_PARTITIONS polls cp str ex y))"
proof -
  obtain r y' where f: "flush e AOE_PARTITIONS polls cp str ex y = (r, y')" by fastforce
  show ?thesis
  proof (cases r)
    case (Some er)
    then have "y' = y" using f by (auto simp: flush_def Let_def split_def split: if_splits)
    then show ?thesis using ok f by simp
  next
    case None
    have o: "sys_ok y" "settled y" "mn.held_ok (minors_of (y_devs y)) (y_used y)" using ok by (simp_all add: all_ok_def sys_ok_def)
    note d = flush_devs [OF o(2,3) f [unfolded None]]
    have "sys_ok y'" "settled y'" using sys_ok_flush [OF o(1,2) f [unfolded None]] by simp_all
    moreover have "y_next y' = y_next y" using flush_next [of e AOE_PARTITIONS polls cp str ex y] f by simp
    moreover have "taken AOE_PARTITIONS (y_used y') = set (minors_of (y_devs y'))"
      if "taken AOE_PARTITIONS (y_used y) = set (minors_of (y_devs y))"
      using that o(3) unfolding d by (auto simp: mn.held_ok_def distinct_map dest: inj_onD)
    ultimately show ?thesis using ok d(1) f by (auto simp: all_ok_def distinct_map_filter)
  qed
qed

lemma write_all_ok:
  assumes "all_ok b y"
  shows "all_ok b (snd (snd (aoechr_write w AOE_PARTITIONS n buf (l, y))))"
proof -
  have d: "all_ok b (discover w l y)" using assms by (rule all_ok_tame) (simp_all add: discover_def list_all2_same)
  show ?thesis
    using d assms revalidate_all_ok [OF assms, of "w_env w" "w_retry w" "w_dyn w" l "w_ndl w" "w_stack w" "w_copied w" buf]
      flush_all_ok [OF assms, of "w_env w" "w_polls w" "w_copied w" buf False]
    by (simp add: aoechr_write_def Let_def split_def aoedev_flush_def)
qed

lemma drive_ok:
  assumes "all_ok b (snd ly)" and "b \<longrightarrow> (\<forall>n. e_alloc e n)"
  shows "all_ok b (snd (drive e i ly))"
proof -
  obtain l y where ly: "ly = (l, y)" by fastforce
  show ?thesis
  proof (cases i)
    case (DrvDev j inp)
    then show ?thesis using assms all_ok_on_dev [of b y j "handle e inp"] handle_tame ly by simp
  qed (use assms ly rcv_all_ok write_all_ok in simp_all)
qed

interpretation dr: handlers "\<lambda>ly. all_ok False (snd ly)" drive
  by unfold_locales (simp add: drive_ok)

text \<open>Runs in which the allocations for packets succeed.\<close>

abbreviation ample :: "env \<Rightarrow> env" where
  "ample e \<equiv> e\<lparr>e_alloc := (\<lambda>_. True)\<rparr>"

interpretation da: handlers "\<lambda>ly. all_ok True (snd ly)" "\<lambda>e. drive (ample e)"
  by unfold_locales (simp add: drive_ok)

section \<open>Properties\<close>

text \<open>C2. Whatever packets arrive, events of devices happen and commands are written to the control
  files after the module was loaded, in any order and with any allocation failing: no two devices have
  the same AoE address, minor number or address in memory, and the minor numbers in use are marked; no
  device stays half removed; every device that is up or about to change its size has a disk, and a
  device has a disk exactly when it has a request queue.  Unloading the module then removes every
  device.\<close>

theorem driver_list_ok:
  assumes "y_devs y0 = []" and "drives is (l, y0) = (l', y)"
  shows "distinct (map aoeaddr (y_devs y)) \<and> distinct (map d_sysminor (y_devs y)) \<and> distinct (map d_addr (y_devs y))
    \<and> d_sysminor ` set (y_devs y) \<subseteq> taken AOE_PARTITIONS (y_used y)
    \<and> (\<forall>d\<in>set (y_devs y). \<not> hasfl (d_flags d) DEVFL_TKILL \<and> \<not> hasfl (d_flags d) DEVFL_FREEING
         \<and> \<not> hasfl (d_flags d) DEVFL_FREED \<and> (d_gd d = None \<longleftrightarrow> d_blkq d = None)
         \<and> (hasfl (d_flags d) DEVFL_UP \<or> hasfl (d_flags d) DEVFL_NEWSIZE \<longrightarrow> d_gd d \<noteq> None))
    \<and> y_devs (aoedev_exit e AOE_PARTITIONS polls y) = []"
proof -
  have "all_ok False y0" using assms(1) by (simp add: all_ok_def sys_ok_def settled_def mn.held_ok_def)
  then have ok: "all_ok False y" using dr.run_keeps [of "(l, y0)" "is"] assms(2) by (simp add: drives_def)
  have h: "settled y" "mn.held_ok (minors_of (y_devs y)) (y_used y)" using ok by (simp_all add: all_ok_def sys_ok_def)
  obtain y' where f: "flush e AOE_PARTITIONS polls True [] True y = (None, y')"
    by (simp add: flush_def split_def Let_def)
  have "y_devs (aoedev_exit e AOE_PARTITIONS polls y) = []"
    using flush_devs(1) [OF h f] by (simp add: aoedev_exit_def f flush_req_def doomed_def)
  then show ?thesis using ok by (auto simp: all_ok_def sys_ok_def mn.held_ok_def settled_def life_ok_def)
qed

text \<open>A run: a target answers, its device is looked at, all devices are flushed.\<close>

definition empty_sys :: sys where
  "empty_sys = \<lparr>y_devs = [], y_used = (\<lambda>_. False), y_next = 0, y_st = start\<rparr>"

definition wctx0 :: wctx where
  "wctx0 = \<lparr>w_env = env0, w_retry = [env0], w_dyn = True, w_copied = True, w_ndl = [], w_polls = (\<lambda>_ _. 1),
     w_stack = []\<rparr>"

definition rcvctx0 :: rcvctx where
  "rcvctx0 = \<lparr>rc_init_net = True, rc_unshared = True, rc_name = ''eth0'', rc_pulled = True\<rparr>"

definition drv1 :: "(env \<times> drvin) list" where
  "drv1 = [(env0, DrvPacket True rcvctx0 cfg_rsp0), (env0, DrvDev 0 InTimer), (env0, DrvWrite wctx0 MINOR_FLUSH ''all'')]"

theorem driver_list_ok_witness:
  "y_devs (aoedev_exit env0 AOE_PARTITIONS (\<lambda>_ _. 1) (snd (drives drv1 ([], empty_sys)))) = []"
  using driver_list_ok [of empty_sys drv1 "[]" "fst (drives drv1 ([], empty_sys))" "snd (drives drv1 ([], empty_sys))"
      env0 "\<lambda>_ _. 1"]
  by (simp add: empty_sys_def)

text \<open>C13. If the allocations for new devices succeed, the minor numbers that are marked are exactly
  those of the devices in the list, and after the module is unloaded every minor number is free.  (If
  one fails after the number was marked, the number stays marked.)\<close>

theorem minors_exact:
  assumes "y_devs y0 = []" and "y_used y0 = (\<lambda>_. False)"
    and "drives (map (\<lambda>(e, i). (ample e, i)) is) (l, y0) = (l', y)"
  shows "taken AOE_PARTITIONS (y_used y) = d_sysminor ` set (y_devs y)
    \<and> taken AOE_PARTITIONS (y_used (aoedev_exit e AOE_PARTITIONS polls y)) = {}"
proof -
  have "all_ok True y0"
    using assms(1,2) by (simp add: all_ok_def sys_ok_def settled_def mn.held_ok_def taken_def)
  then have ok: "all_ok True y"
    using da.run_keeps [of "(l, y0)" "is"] assms(3)
    by (simp add: drives_def fold_map comp_def split_def)
  have h: "settled y" "mn.held_ok (minors_of (y_devs y)) (y_used y)" using ok by (simp_all add: all_ok_def sys_ok_def)
  obtain y' where f: "flush e AOE_PARTITIONS polls True [] True y = (None, y')"
    by (simp add: flush_def split_def Let_def)
  have "taken AOE_PARTITIONS (y_used (aoedev_exit e AOE_PARTITIONS polls y)) = {}"
    using flush_devs(2) [OF h f] ok by (simp add: aoedev_exit_def f flush_req_def doomed_def all_ok_def)
  then show ?thesis using ok by (simp add: all_ok_def)
qed

theorem minors_exact_witness:
  "taken AOE_PARTITIONS (y_used (aoedev_exit env0 AOE_PARTITIONS (\<lambda>_ _. 1)
     (snd (drives (map (\<lambda>(e, i). (ample e, i)) drv1) ([], empty_sys))))) = {}"
  using minors_exact [of empty_sys drv1 "[]" "fst (drives (map (\<lambda>(e, i). (ample e, i)) drv1) ([], empty_sys))"
      "snd (drives (map (\<lambda>(e, i). (ample e, i)) drv1) ([], empty_sys))" env0 "\<lambda>_ _. 1"]
  by (simp add: empty_sys_def)

text \<open>The number that is lost: when the memory for a new device cannot be had, its minor number is marked
  and no device has it.\<close>

theorem minor_leaked:
  assumes "all_ok b y" and "find_dev 0 (y_devs y) maj mi = None" and "\<not> e_alloc e (s_tick (y_st y))"
    and "minor_get dyn AOE_PARTITIONS (unat maj) (nat mi) (y_used y) = (Some m, u)"
  shows "case aoedev_by_aoeaddr e dyn AOE_PARTITIONS maj mi True y of
    (r, y') \<Rightarrow> r = None \<and> m \<in> taken AOE_PARTITIONS (y_used y') \<and> m \<notin> set (minors_of (y_devs y'))"
proof -
  have "m \<notin> taken AOE_PARTITIONS (y_used y) \<and> taken AOE_PARTITIONS u = insert m (taken AOE_PARTITIONS (y_used y))"
    using mn.get_Some [of dyn "(unat maj, nat mi)" "y_used y" m u] assms(4) by simp
  then show ?thesis
    using assms by (auto simp: aoedev_by_aoeaddr_def alloc_def all_ok_def sys_ok_def mn.held_ok_def)
qed

end
