(* ===== verification/Bufs.thy ===== *)
theory Bufs
  imports Refs
begin

text \<open>
  The bufs of requests.  A buf stands for a bio in progress; its counter \<open>nframesout\<close> says how many
  frames carry a piece of it, and whoever brings it to zero with nothing left to send frees the buf.
  The counter is exact, and so are the references to the pages of bios in progress; here the invariant,
  and that sending and retransmission keep it.
\<close>

section \<open>The invariant\<close>

text \<open>The frames that carry a piece of \<open>b\<close>; the ones in \<open>E\<close> are no longer counted.\<close>

definition carried :: "nat set \<Rightarrow> st \<Rightarrow> nat \<Rightarrow> nat set" where
  "carried E s b = {f. f \<notin> E \<and> fb s f = Some b}"

definition slot :: "nat set \<Rightarrow> buf option \<Rightarrow> bool" where
  "slot C bo \<longleftrightarrow> finite C \<and> (case bo of None \<Rightarrow> C = {} | Some x \<Rightarrow> b_nframesout x = int (card C))"

lemma slot_simps [simp]:
  "slot C None \<longleftrightarrow> C = {}" "slot C (Some x) \<longleftrightarrow> finite C \<and> b_nframesout x = int (card C)"
  by (auto simp: slot_def)

text \<open>
  The references to pages.  The environment says which head pages a bio covers (\<open>fst W\<close>, without
  regard to its error); \<open>snd W\<close> are the references the driver does not know of.
\<close>

type_synonym pgenv = "(bio \<Rightarrow> nat list) \<times> (nat \<Rightarrow> int)"

definition fits :: "pgenv \<Rightarrow> env \<Rightarrow> bool" where
  "fits W e \<longleftrightarrow> bio_heads e = fst W \<and> (\<forall>x c. fst W (x\<lparr>bio_error := c\<rparr>) = fst W x)"

definition pgs :: "pgenv \<Rightarrow> nat \<Rightarrow> (nat \<Rightarrow> bio) \<Rightarrow> buf option \<Rightarrow> int" where
  "pgs W p h bo = (case bo of None \<Rightarrow> 0 | Some x \<Rightarrow> int (count_list (fst W (h (b_bio x))) p))"

lemma pgs_simps [simp]: "pgs W p h None = 0" "pgs W p h (Some x) = int (count_list (fst W (h (b_bio x))) p)"
  by (simp_all add: pgs_def)

definition paged :: "pgenv \<Rightarrow> st \<Rightarrow> bool" where
  "paged W s \<longleftrightarrow> (\<forall>p. s_pgcnt s p = snd W p + (\<Sum>b\<in>{..<s_nbuf s}. pgs W p (bsh s) (s_bufs s b)))"

text \<open>A buf is in process, or all of it has been handed to frames and one of them still has its
  piece; the bufs in \<open>C\<close> are being ended.\<close>

definition tended :: "nat set \<Rightarrow> nat set \<Rightarrow> st \<Rightarrow> bool" where
  "tended C E s \<longleftrightarrow> (\<forall>b x. b \<notin> C \<longrightarrow> s_bufs s b = Some x \<longrightarrow>
     d_ip_buf (s_dev s) = Some b \<or> bi_size (b_iter x) = 0 \<and> carried E s b \<noteq> {})"

definition bufs_x :: "pgenv \<Rightarrow> nat set \<Rightarrow> nat set \<Rightarrow> st \<Rightarrow> bool" where
  "bufs_x W C E s \<longleftrightarrow> (\<forall>f\<in>fset s. fb s f = None \<and> f \<notin> E \<and> \<not> pb s f) \<and> (\<forall>f. fb s f \<noteq> None \<longrightarrow> \<not> pb s f)
     \<and> (\<forall>b. slot (carried E s b) (s_bufs s b))
     \<and> (\<forall>b. d_ip_buf (s_dev s) = Some b \<longrightarrow> s_bufs s b \<noteq> None) \<and> (\<forall>b \<ge> s_nbuf s. s_bufs s b = None)
     \<and> paged W s \<and> tended C E s"

abbreviation bufs_ok :: "pgenv \<Rightarrow> nat set \<Rightarrow> st \<Rightarrow> bool" where
  "bufs_ok W E s \<equiv> bufs_x W {} E s"

lemma bsh_upd [simp]:
  "bsh (upd_fr f g s) = bsh s" "bsh (upd_dev g1 s) = bsh s" "bsh (upd_tgt i g2 s) = bsh s" "bsh (upd_buf b g3 s) = bsh s"
  "bsh (upd_req r g4 s) = bsh s" "bsh (s\<lparr>s_bufs := bu\<rparr>) = bsh s" "bsh (aoe_bio_pagedec e b s) = bsh s"
  by (simp_all add: bsh_def fun_eq_iff aoe_bio_pagedec_def)

lemma bufs_okD:
  assumes "bufs_x W C E s"
  shows "f \<in> fset s \<Longrightarrow> fb s f = None" "f \<in> fset s \<Longrightarrow> f \<notin> E" "slot (carried E s b) (s_bufs s b)"
    "d_ip_buf (s_dev s) = Some b \<Longrightarrow> s_bufs s b \<noteq> None" "s_nbuf s \<le> b \<Longrightarrow> s_bufs s b = None"
    "f \<in> fset s \<Longrightarrow> \<not> pb s f" "pb s f \<Longrightarrow> fb s f = None" "paged W s"
    "tended C E s"
  using assms by (auto simp: bufs_x_def)

lemma tendedD:
  "tended C E s \<Longrightarrow> b \<notin> C \<Longrightarrow> s_bufs s b = Some x \<Longrightarrow> d_ip_buf (s_dev s) \<noteq> Some b \<Longrightarrow> bi_size (b_iter x) = 0 \<and> carried E s b \<noteq> {}"
  unfolding tended_def by blast

text \<open>A step that concerns one buf.\<close>

lemma paged_cong:
  "s_pgcnt s' = s_pgcnt s \<Longrightarrow> s_nbuf s' = s_nbuf s \<Longrightarrow> s_bufs s' = s_bufs s \<Longrightarrow> bsh s' = bsh s \<Longrightarrow> paged W s' = paged W s"
  by (simp add: paged_def)

lemma paged_step:
  assumes p: "paged W s" and c: "c < s_nbuf s" "s_nbuf s' = s_nbuf s" "bsh s' = bsh s"
    and o: "\<And>b. b \<noteq> c \<Longrightarrow> s_bufs s' b = s_bufs s b"
    and d: "\<And>p. s_pgcnt s' p - s_pgcnt s p = pgs W p (bsh s) (s_bufs s' c) - pgs W p (bsh s) (s_bufs s c)"
  shows "paged W s'"
  unfolding paged_def
proof
  fix p
  let ?g = "\<lambda>t b. pgs W p (bsh s) (s_bufs t b)"
  have "(\<Sum>b\<in>{..<s_nbuf s}. ?g s' b) = ?g s' c + (\<Sum>b\<in>{..<s_nbuf s} - {c}. ?g s' b)"
    "(\<Sum>b\<in>{..<s_nbuf s}. ?g s b) = ?g s c + (\<Sum>b\<in>{..<s_nbuf s} - {c}. ?g s b)"
    using c(1) by (simp_all add: sum.remove)
  moreover have "(\<Sum>b\<in>{..<s_nbuf s} - {c}. ?g s' b) = (\<Sum>b\<in>{..<s_nbuf s} - {c}. ?g s b)"
    by (rule sum.cong) (use o in simp_all)
  ultimately show "s_pgcnt s' p = snd W p + (\<Sum>b\<in>{..<s_nbuf s'}. pgs W p (bsh s') (s_bufs s' b))"
    using p d [of p] unfolding paged_def c(2,3) by (simp add: algebra_simps)
qed

lemma bufs_ok_step:
  assumes b: "bufs_x W C E s" and f: "\<And>f. f \<in> fset s' \<Longrightarrow> fb s' f = None \<and> f \<notin> E' \<and> \<not> pb s' f"
    and p: "\<And>f. fb s' f \<noteq> None \<Longrightarrow> \<not> pb s' f"
    and o: "\<And>b. b \<noteq> c \<Longrightarrow> carried E' s' b = carried E s b \<and> s_bufs s' b = s_bufs s b"
    and c: "slot (carried E' s' c) (s_bufs s' c)" and i: "d_ip_buf (s_dev s') \<in> {None, d_ip_buf (s_dev s)}"
    and z: "d_ip_buf (s_dev s') = Some c \<Longrightarrow> s_bufs s' c \<noteq> None" and n: "s_nbuf s' = s_nbuf s" "s_bufs s c \<noteq> None"
    and g: "bsh s' = bsh s"
      "\<And>p. s_pgcnt s' p - s_pgcnt s p = pgs W p (bsh s) (s_bufs s' c) - pgs W p (bsh s) (s_bufs s c)"
    and j: "d_ip_buf (s_dev s') = None \<Longrightarrow> d_ip_buf (s_dev s) \<in> {None, Some c}" and C: "C \<subseteq> {c}"
    and t: "\<And>x. c \<notin> C' \<Longrightarrow> s_bufs s' c = Some x \<Longrightarrow> d_ip_buf (s_dev s') = Some c \<or> bi_size (b_iter x) = 0 \<and> carried E' s' c \<noteq> {}"
  shows "bufs_x W C' E' s'"
  unfolding bufs_x_def
proof (intro conjI allI ballI impI)
  fix a
  have "d_ip_buf (s_dev s') = Some d \<or> bi_size (b_iter x) = 0 \<and> carried E' s' d \<noteq> {}"
    if "d \<notin> C'" "s_bufs s' d = Some x" for d x
  proof (cases "d = c")
    case False
    then have "d \<notin> C" using C by blast
    then show ?thesis using False that o [OF False] i j tendedD [OF bufs_okD(9) [OF b], of d x] by auto
  qed (use t that in auto)
  then show "tended C' E' s'" by (simp add: tended_def)
  have "c < s_nbuf s" using bufs_okD(5) [OF b, of c] n(2) by (cases "c < s_nbuf s") simp_all
  then show "paged W s'" by (rule paged_step [OF bufs_okD(8) [OF b] _ n(1) g(1) _ g(2)]) (use o in simp)
  show "slot (carried E' s' a) (s_bufs s' a)" using o [of a] c bufs_okD(3) [OF b, of a] by (cases "a = c") simp_all
  show "s_bufs s' a \<noteq> None" if "d_ip_buf (s_dev s') = Some a"
    using that i z o [of a] bufs_okD(4) [OF b, of a] by (cases "a = c") auto
  show "s_bufs s' a = None" if "s_nbuf s' \<le> a"
    using that n o [of a] bufs_okD(5) [OF b, of a] by (cases "a = c") auto
qed (use f p in simp_all)

lemma bufs_ok_bk: "bk s' = bk s \<Longrightarrow> bufs_x W C E s' = bufs_x W C E s"
proof -
  assume "bk s' = bk s"
  note b = bk_sel [OF this]
  have "carried E s' = carried E s" by (simp add: carried_def fun_eq_iff b)
  then show ?thesis by (simp only: bufs_x_def paged_def tended_def b)
qed

lemma bk_ends: "ends s s' \<Longrightarrow> bk s' = bk s"
proof -
  assume "ends s s'"
  then have "bk (ecore s') = bk (ecore s)" by (simp add: ends_def)
  moreover have "bk (ecore x) = bk x" for x by (simp add: ecore_def bk_defs fset_eq)
  ultimately show ?thesis by simp
qed

lemma bk_end_bios [simp]: "bk (end_bios e r ff s) = bk s"
  by (rule bk_ends [OF end_bios_ends])

lemma bk_fail_queue [simp]: "bk (fail_queue e s) = bk s"
  by (rule bk_ends [OF fail_queue_ends])

lemma bk_fail_bios [simp]: "bk (fail_bios r bs s) = bk s"
  by (induction bs arbitrary: s) simp_all

section \<open>Getting a frame\<close>

text \<open>Getting a frame can only clear the buf of a frame.\<close>

definition fades :: "st \<Rightarrow> st \<Rightarrow> bool" where
  "fades s s' \<longleftrightarrow> (\<forall>f. fb s' f = fb s f \<and> pb s' f = pb s f \<or> fb s' f = None \<and> \<not> pb s' f)"

lemma fades_bk: "bk s' = bk s \<Longrightarrow> fades s s'"
  using bk_sel(2,6) [of s' s] by (simp add: fades_def)

lemma fadesD: "fades s s' \<Longrightarrow> fb s' f = fb s f \<and> pb s' f = pb s f \<or> fb s' f = None \<and> \<not> pb s' f"
  by (simp add: fades_def)

lemma fades_trans: "fades s s' \<Longrightarrow> fades s' s'' \<Longrightarrow> fades s s''"
proof (unfold fades_def [of s s''], intro allI)
  fix f assume "fades s s'" "fades s' s''"
  from fadesD [OF this(1), of f] fadesD [OF this(2), of f] show "fb s'' f = fb s f \<and> pb s'' f = pb s f \<or> fb s'' f = None \<and> \<not> pb s'' f" by auto
qed

lemma fades_free: "fades s (aoe_freetframe f s)"
  by (simp add: fades_def aoe_freetframe_def fb_def pb_def is_probe_def)


lemma fades_newtframe: "fades s (snd (newtframe e i s))"
proof -
  have g: "fades s s1" if "newtframe_get e i s = (r, s1)" for r s1
    using newtframe_get_cases [OF that]
    by (elim disjE exE conjE) (simp_all add: fades_def fb_def pb_def is_probe_def kcalloc_frame_def alloc_def zero_frame_def)
  have k: "bk s2 = bk s1" if k: "newtframe_skb e f s1 = (r, s2)" for r f s1 s2
  proof -
    have n: "bk y = bk x" if "new_skb e x = (r, y)" for r x y using bk_new_skb [of e x] that by simp
    have "bk y = bk x" if "skb_pool_get e x = (r, y)" for r x y
      using that n by (auto simp: skb_pool_get_def skb_pool_new_def split: list.splits if_splits prod.splits option.splits)
    then show ?thesis
      using k by (auto simp: newtframe_skb_def skb_pool_put_def split: option.splits prod.splits if_splits dest!: n)
  qed
  show ?thesis
    by (auto simp: newtframe_def split: prod.splits option.splits dest!: g k
        intro: fades_trans [OF fades_trans [OF _ fades_bk] fades_free] fades_trans [OF _ fades_bk])
qed

lemma fades_newframe_loop: "newframe_loop e n tt ut hu tot s = Some (r, s') \<Longrightarrow> fades s s'"
proof (induction n arbitrary: tt ut hu tot s)
  case (Suc n)
  obtain f s1 where t: "tgt_try e ut (tgt_next tt s) s = (f, s1)" by fastforce
  have 1: "fades s s1"
    using t fades_newtframe [of s e "tgt_next tt s"] by (auto simp: tgt_try_def Let_def fades_bk split: if_splits)
  have 2: "fades s (upd_dev (\<lambda>d. d\<lparr>d_tgt := j\<rparr>) (upd_tgt k g s1))" for j k g
    using 1 by (simp add: fades_def fb_def pb_def is_probe_def)
  show ?case
    using Suc.prems t 1 2 fades_trans [OF 1 Suc.IH] by (auto simp: Let_def split: option.splits if_splits)
qed simp

lemma fades_newframe: "fades s (snd (newframe e s))"
proof -
  have "fades s (upd_dev (\<lambda>d. d\<lparr>d_kicked := k d, d_flags := g d\<rparr>) s1)" if "fades s s1" for k g s1
    using that by (simp add: fades_def fb_def pb_def is_probe_def)
  then show ?thesis
    by (auto simp: newframe_def fades_bk split: option.splits dest!: fades_newframe_loop)
qed

text \<open>Frames leave the free lists; bufs and what frames carry stay.\<close>

definition grabs :: "st \<Rightarrow> st \<Rightarrow> bool" where
  "grabs s s' \<longleftrightarrow> bk s' = (fset s', fb s, pb s', s_bufs s, d_ip_buf (s_dev s), s_nbuf s, s_pgcnt s, bsh s) \<and> fset s' \<subseteq> fset s
     \<and> (\<forall>f. pb s' f = pb s f \<or> f \<in> fset s \<and> f \<notin> fset s')"

lemma grabs_bk: "grabs s s1 \<Longrightarrow> bk s' = bk s1 \<Longrightarrow> grabs s s'"
  by (simp add: grabs_def bk_def)

lemma grabs_refl [simp]: "grabs s s"
  by (simp add: grabs_def bk_def)

lemma grabs_trans:
  assumes "grabs s s1" and "grabs s1 s2"
  shows "grabs s s2"
proof -
  have p: "pb s1 f = pb s f \<or> f \<in> fset s \<and> f \<notin> fset s1" "pb s2 f = pb s1 f \<or> f \<in> fset s1 \<and> f \<notin> fset s2"
    "fset s2 \<subseteq> fset s1" "fset s1 \<subseteq> fset s" for f
    using assms by (simp_all add: grabs_def)
  have "pb s2 f = pb s f \<or> f \<in> fset s \<and> f \<notin> fset s2" for f using p(1,2) [of f] p(3,4) by blast
  then show ?thesis using assms by (auto simp: grabs_def bk_def)
qed

lemma bk_grabs: "bk s' = bk s \<Longrightarrow> grabs s s'"
  by (rule grabs_bk [OF grabs_refl])

lemma grabs_sel:
  assumes "grabs s s'"
  shows "fb s' = fb s" "s_bufs s' = s_bufs s" "d_ip_buf (s_dev s') = d_ip_buf (s_dev s)" "s_nbuf s' = s_nbuf s"
    "fset s' \<subseteq> fset s" "\<And>f. pb s' f = pb s f \<or> f \<in> fset s \<and> f \<notin> fset s'"
    "s_pgcnt s' = s_pgcnt s" "bsh s' = bsh s"
  using assms by (simp_all add: grabs_def bk_def)

lemma grabs_ok: "grabs s s' \<Longrightarrow> bufs_ok W E s \<Longrightarrow> bufs_ok W E s'"
proof -
  assume "grabs s s'" and b: "bufs_ok W E s"
  note g = grabs_sel [OF this(1)]
  have c: "carried E s' = carried E s" by (simp add: carried_def fun_eq_iff g(1))
  have p: "f \<in> fset s' \<Longrightarrow> \<not> pb s' f" "fb s f \<noteq> None \<Longrightarrow> \<not> pb s' f" for f
    using g(5) g(6) [of f] bufs_okD(1) [OF b, of f] bufs_okD(6,7) [OF b] by auto
  have "paged W s' = paged W s" by (rule paged_cong) (simp_all add: g)
  moreover have "tended {} E s' = tended {} E s" unfolding tended_def c g(2,3) ..
  ultimately show ?thesis using b p unfolding bufs_x_def g(1-4) c using g(5) by blast
qed

lemma chg_grabs:
  assumes c: "chg (fset s) s s'" and f: "fades s s'" and sub: "fset s' \<subseteq> fset s" and b: "bufs_ok W E s"
  shows "grabs s s'" and "pb s' = pb s"
proof -
  have e: "fb s' x = fb s x \<and> pb s' x = pb s x" for x
  proof (cases "x \<in> fset s")
    case True
    then have "fb s x = None" "\<not> pb s x" using b by (simp_all add: bufs_x_def)
    then show ?thesis using fadesD [OF f, of x] by auto
  next
    case False
    then show ?thesis using c by (simp add: fb_def pb_def is_probe_def chg_def)
  qed
  then show "pb s' = pb s" by (simp add: fun_eq_iff)
  have "score s' = score s" using c by (simp add: chg_def)
  then show "grabs s s'"
    using e score_sel(1,2,4,12) [of s' s] dcore_sel(7) [OF score_sel(11), of s' s] sub by (simp add: grabs_def bk_def bsh_def fun_eq_iff)
qed

lemma newtframe_bufs:
  assumes ok: "dev_ok X A s" and A: "counted X A s" and i: "i < length (tgts s)" and n: "newtframe e i s = (r, s')"
    and b: "bufs_ok W E s"
  shows "grabs s s'" and "r = Some f \<Longrightarrow> f \<in> fset s" and "pb s' = pb s"
proof -
  note no = newtframe_ok [OF ok counted_homes [OF A] i n]
  have "fades s s'" using fades_newtframe [of s e i] n by simp
  note g = chg_grabs [OF no(3) this no(4) b]
  show "grabs s s'" "pb s' = pb s" by (rule g)+
  show "r = Some f \<Longrightarrow> f \<in> fset s" using no(2) by simp
qed

lemma newframe_bufs:
  assumes ok: "dev_ok X A s" and A: "counted X A s" and n: "newframe e s = (r, s')" and b: "bufs_ok W E s"
  shows "grabs s s'" and "r = Some f \<Longrightarrow> f \<in> fset s" and "pb s' = pb s"
proof -
  note no = newframe_ok [OF ok A n]
  have fd: "fades s s'" using fades_newframe [of s e] n by simp
  obtain s1 where s1: "chg (fset s) s s1" "bk s' = bk s1"
  proof (cases r)
    case None
    then have "no_frame s s'" using no(1) by simp
    then show thesis unfolding no_frame_def by (elim exE conjE) (rule that, assumption, simp)
  next
    case (Some g)
    then have "got_frame s g s'" using no(2) by simp
    then show thesis unfolding got_frame_def by (elim exE conjE) (rule that, assumption, simp)
  qed
  have f1: "fades s s1" using fd bk_sel(2,6) [OF s1(2)] by (simp add: fades_def)
  have "fset s1 \<subseteq> fset s" using no(3) bk_sel(1) [OF s1(2)] by simp
  note g = chg_grabs [OF s1(1) f1 this b]
  show "grabs s s'" by (rule grabs_bk [OF g(1) s1(2)])
  show "pb s' = pb s" using g(2) bk_sel(6) [OF s1(2)] by simp
  show "r = Some f \<Longrightarrow> f \<in> fset s" using no(2) by (auto simp: got_frame_def)
qed

text \<open>A frame that carries nothing goes back unnoticed.\<close>

lemma free_sel:
  "fb (aoe_freetframe f s) = (fb s)(f := None)" "s_bufs (aoe_freetframe f s) = s_bufs s"
  "d_ip_buf (s_dev (aoe_freetframe f s)) = d_ip_buf (s_dev s)" "s_nbuf (aoe_freetframe f s) = s_nbuf s"
  "pb (aoe_freetframe f s) = (pb s)(f := False)"
  by (simp_all add: aoe_freetframe_def fb_def pb_def is_probe_def hasfl_def fun_eq_iff)

lemma paged_free [simp]: "paged W (aoe_freetframe f s) = paged W s"
  by (rule paged_cong) (simp_all add: aoe_freetframe_def bsh_def fun_eq_iff)

lemma fset_freetframe: "fset (aoe_freetframe f s) \<subseteq> insert f (fset s)"
proof -
  have "set (t_ffree t) \<subseteq> insert f (fset s)" if "t \<in> set (tgts (aoe_freetframe f s))" for t
  proof (cases "f_t (fr s f) < length (tgts s)")
    case True
    let ?u = "(tg s (f_t (fr s f)))\<lparr>t_ffree := f # t_ffree (tg s (f_t (fr s f)))\<rparr>"
    have "t \<in> insert ?u (set (tgts s))"
      using that set_update_subset_insert [of "tgts s" "f_t (fr s f)" ?u] by (auto simp: aoe_freetframe_def)
    moreover have "tg s (f_t (fr s f)) \<in> set (tgts s)" using True by simp
    ultimately show ?thesis by (auto simp: fset_eq)
  next
    case False
    then show ?thesis using that by (auto simp: aoe_freetframe_def list_update_beyond fset_eq)
  qed
  moreover have "s_nframe (aoe_freetframe f s) = s_nframe s" by (simp add: aoe_freetframe_def)
  moreover have "{x. s_nframe s \<le> x} \<subseteq> fset s" by (auto simp: fset_eq)
  ultimately show ?thesis unfolding fset_eq [of "aoe_freetframe f s"] by auto
qed

lemma free_empty: "bufs_ok W E s \<Longrightarrow> fb s f = None \<Longrightarrow> f \<notin> E \<Longrightarrow> bufs_ok W E (aoe_freetframe f s)"
proof -
  assume b: "bufs_ok W E s" and f: "fb s f = None" "f \<notin> E"
  have e: "fb (aoe_freetframe f s) = fb s" using f(1) by (auto simp: free_sel fun_eq_iff)
  have c: "carried E (aoe_freetframe f s) = carried E s" by (simp add: carried_def fun_eq_iff e)
  have "tended {} E (aoe_freetframe f s) = tended {} E s" unfolding tended_def c free_sel(2,3) ..
  then show ?thesis using b unfolding bufs_x_def e c free_sel(2-) using fset_freetframe [of f s] f by auto
qed

section \<open>Sending\<close>

lemma held_not_free: "dev_ok (add_mset f X) A s \<Longrightarrow> f \<notin> fset s"
  by (rule busy_not_fset [of "add_mset f X"]) (simp_all add: dev_ok_def)

lemma probe_bufs:
  assumes ok: "dev_ok X A s" and A: "counted X A s" and i: "i < length (tgts s)" and b: "bufs_ok W E s"
  shows "grabs s (probe e i s)"
proof -
  obtain r s1 where n: "newtframe e i s = (r, s1)" by fastforce
  note g = newtframe_bufs [OF ok A i n b]
  show ?thesis
  proof (cases r)
    case None
    then show ?thesis using g(1) by (simp add: probe_def n)
  next
    case (Some f)
    let ?s = "upd_fr f (\<lambda>x. x\<lparr>f_flags := setfl (f_flags x) FFL_PROBE\<rparr>) s1"
    have "f \<notin> fset s1" using newtframe_ok [OF ok counted_homes [OF A] i n] Some held_not_free by auto
    then have "grabs s ?s"
      using g(1,2) Some by (auto simp: grabs_def bk_def fset_eq fb_def pb_def is_probe_def fun_eq_iff)
    moreover have "bk (probe e i s) = bk ?s" by (simp add: probe_def Let_def n Some)
    ultimately show ?thesis by (rule grabs_bk)
  qed
qed

lemma ata_id_bufs:
  assumes ok: "dev_ok X A s" and A: "counted X A s" and b: "bufs_ok W E s"
  shows "grabs s (snd (aoecmd_ata_id e s))"
proof -
  obtain r s1 where n: "newframe e s = (r, s1)" by fastforce
  have c: "bk x2 = bk x1" if "skb_clone e k x1 = (p, x2)" for k x1 p x2 using bk_clone [of e k x1] that by simp
  have a: "bk x2 = bk x1" if "aoehdr_atainit e i k x1 = (p, x2)" for i k x1 p x2 using bk_atainit [of e i k x1] that by simp
  have "bk (snd (aoecmd_ata_id e s)) = bk s1"
    by (auto simp: aoecmd_ata_id_def Let_def n split: prod.splits option.splits dest!: c a)
  then show ?thesis by (rule grabs_bk [OF newframe_bufs(1) [OF ok A n b]])
qed

lemma bufs_ok_new:
  assumes b: "bufs_ok W E s" and x: "b_nframesout x = 0" and f: "fset s' = fset s" "fb s' = fb s" "pb s' = pb s"
    and n0: "d_ip_buf (s_dev s) = None"
    and n: "s_bufs s' = (s_bufs s)(s_nbuf s \<mapsto> x)" "d_ip_buf (s_dev s') = Some (s_nbuf s)" "s_nbuf s' = Suc (s_nbuf s)"
    and g: "bsh s' = bsh s" "\<And>p. s_pgcnt s' p = s_pgcnt s p + int (count_list (fst W (bsh s (b_bio x))) p)"
  shows "bufs_ok W E s'"
proof -
  have "(\<Sum>b\<in>{..<s_nbuf s}. pgs W p (bsh s) (if b = s_nbuf s then Some x else s_bufs s b))
      = (\<Sum>b\<in>{..<s_nbuf s}. pgs W p (bsh s) (s_bufs s b))" for p by (rule sum.cong) simp_all
  then have pg: "paged W s'"
    using bufs_okD(8) [OF b] by (simp add: paged_def n g lessThan_Suc fun_upd_def)
  have c: "carried E s' = carried E s" by (simp add: carried_def fun_eq_iff f)
  have "s_bufs s (s_nbuf s) = None" using b by (simp add: bufs_x_def)
  then have "carried E s (s_nbuf s) = {}" using bufs_okD(3) [OF b, of "s_nbuf s"] by simp
  moreover have "tended {} E s'" using bufs_okD(9) [OF b] n0 by (auto simp: tended_def n c)
  ultimately show ?thesis using b x pg unfolding bufs_x_def f c n by auto
qed

lemma fold_count:
  "fold (\<lambda>p c. c(p := c p + (k::int))) ps c q = c q + k * int (count_list ps q)"
  by (induction ps arbitrary: c) (simp_all add: algebra_simps)

lemma fits_heads: "fits W e \<Longrightarrow> bio_heads e (s_bios s b) = fst W (bsh s b)"
  by (simp add: fits_def bsh_def)

lemma pageinc_count: "fits W e \<Longrightarrow> s_pgcnt (bio_pageinc e b s) p = s_pgcnt s p + int (count_list (fst W (bsh s b)) p)"
  and pagedec_count: "fits W e \<Longrightarrow> s_pgcnt (aoe_bio_pagedec e b s) p = s_pgcnt s p - int (count_list (fst W (bsh s b)) p)"
  using fold_count [of "-1" "bio_heads e (s_bios s b)" "s_pgcnt s" p]
  by (simp_all add: bio_pageinc_def aoe_bio_pagedec_def fits_heads fold_count)

text \<open>The next buf to send is in use.\<close>

lemma nextbuf_bufs:
  assumes w: "fits W e" and b: "bufs_ok W E s" and n: "nextbuf e s = (r, s')"
  shows "bufs_ok W E s'" and "r = Some c \<Longrightarrow> d_ip_buf (s_dev s') = Some c"
proof -
  have "bufs_ok W E s' \<and> (r = Some c \<longrightarrow> d_ip_buf (s_dev s') = Some c)"
  proof (cases "d_blkq (s_dev s) = None \<or> d_ip_buf (s_dev s) \<noteq> None")
    case True
    then have "s' = s \<and> (r = None \<or> r = d_ip_buf (s_dev s))"
      using n by (auto simp: nextbuf_def split: option.splits)
    then show ?thesis using b by (auto simp: bufs_x_def)
  next
    case False
    then obtain q where q: "d_blkq (s_dev s) = Some q" "d_ip_buf (s_dev s) = None" by auto
    show ?thesis
    proof (cases "nextrq q s")
      case None
      then show ?thesis using n q b by (simp add: nextbuf_def)
    next
      case (Some rs)
      obtain rq s1 where rs: "nextrq q s = Some (rq, s1)" using Some by (cases rs) simp
      then have 1: "bk s1 = bk s" by (auto simp: nextrq_def split: option.splits list.splits)
      define s2 where "s2 = snd (alloc e s1)"
      have 2: "bk s2 = bk s" using 1 by (simp add: s2_def)
      have ip: "d_ip_buf (s_dev s2) = None" using q(2) bk_sel(4) [OF 2] by simp
      have ok2: "bufs_ok W E s2" using b bufs_ok_bk [OF 2] by simp
      show ?thesis
      proof (cases "\<not> e_alloc e (s_tick s1) \<or> d_ip_nxbio (s_dev s2) = []")
        case True
        then have "r = None" "bk s' = bk s2" using n q rs by (auto simp: nextbuf_def alloc_def s2_def split: bool.splits)
        then show ?thesis using ok2 bufs_ok_bk by blast
      next
        case False
        then obtain c' bs where nx: "d_ip_nxbio (s_dev s2) = c' # bs" by (cases "d_ip_nxbio (s_dev s2)") auto
        define x where "x = \<lparr>b_nframesout = 0, b_bio = c', b_iter = bio_iter (s_bios s2 c'), b_rq = rq\<rparr>"
        define s3 where "s3 = bufinit e (s_nbuf s2) rq c' (s2\<lparr>s_nbuf := Suc (s_nbuf s2)\<rparr>)"
        have e: "r = Some (s_nbuf s2)" "s' = upd_dev (\<lambda>d. d\<lparr>d_ip_nxbio := bs,
            d_ip_rq := (if bs = [] then None else d_ip_rq d), d_ip_buf := Some (s_nbuf s2)\<rparr>) s3"
          using n q rs nx False by (auto simp: nextbuf_def alloc_def s2_def s3_def Let_def)
        have t: "s_bufs s3 = (s_bufs s2)(s_nbuf s2 \<mapsto> x)" "tgts s3 = tgts s2" "s_frames s3 = s_frames s2"
          "s_nframe s3 = s_nframe s2" "s_nbuf s3 = Suc (s_nbuf s2)" "bsh s3 = bsh s2"
          by (simp_all add: s3_def bufinit_def bio_pageinc_def x_def bsh_def fun_eq_iff)
        have g: "s_pgcnt s3 p = s_pgcnt s2 p + int (count_list (fst W (bsh s2 (b_bio x))) p)" for p
          unfolding s3_def bufinit_def pageinc_count [OF w] by (simp add: bsh_def x_def)
        have "bufs_ok W E s'"
          by (rule bufs_ok_new [OF ok2, of x])
            (use t ip in \<open>simp_all add: e g x_def fset_eq fb_def pb_def is_probe_def bsh_def fun_eq_iff\<close>)
        then show ?thesis by (simp add: e t)
      qed
    qed
  qed
  then show "bufs_ok W E s'" and "r = Some c \<Longrightarrow> d_ip_buf (s_dev s') = Some c" by simp_all
qed

text \<open>A frame takes its piece.\<close>

lemma frame_take_bufs:
  assumes b: "bufs_ok W E s" and c0: "d_ip_buf (s_dev s) = Some c" and f: "fb s f = None" "f \<notin> E" "f \<notin> fset s" "\<not> pb s f"
  shows "bufs_ok W E (frame_take e f c s)"
proof -
  let ?s = "frame_take e f c s"
  have c: "s_bufs s c \<noteq> None" by (rule bufs_okD(4) [OF b c0])
  have fs: "fset ?s = fset s" by (simp add: frame_take_def Let_def fset_eq)
  have fe: "fb ?s = (fb s)(f := Some c)" by (auto simp: frame_take_def Let_def fb_def fun_eq_iff)
  have pe: "pb ?s = pb s" by (auto simp: frame_take_def Let_def pb_def is_probe_def fun_eq_iff)
  have n: "s_nbuf ?s = s_nbuf s" and ip: "d_ip_buf (s_dev ?s) \<in> {None, d_ip_buf (s_dev s)}"
    by (simp_all add: frame_take_def Let_def)
  obtain x where x: "s_bufs s c = Some x" using c by blast
  have tn: "d_ip_buf (s_dev ?s) = Some c \<or> bi_size (b_iter (bf ?s c)) = 0"
    using x c0 by (simp add: frame_take_def Let_def)
  have bu: "\<exists>y. s_bufs ?s = (s_bufs s)(c \<mapsto> y) \<and> b_nframesout y = b_nframesout x + 1 \<and> b_bio y = b_bio x"
    using x by (auto simp: frame_take_def Let_def fun_upd_twist)
  have gs: "bsh ?s = bsh s" "s_pgcnt ?s = s_pgcnt s" by (simp_all add: frame_take_def Let_def)
  have ca: "carried E ?s = (carried E s)(c := insert f (carried E s c))"
    using f by (auto simp: carried_def fun_eq_iff fe)
  have "f \<notin> carried E s c" "finite (carried E s c)" "b_nframesout x = int (card (carried E s c))"
    using bufs_okD(3) [OF b, of c] f(1) x by (simp_all add: carried_def)
  then have "slot (carried E ?s c) (s_bufs ?s c)" using bu by (auto simp: ca)
  moreover have "s_bufs ?s c \<noteq> None" "\<And>b. b \<noteq> c \<Longrightarrow> s_bufs ?s b = s_bufs s b" using bu by auto
  moreover have "pgs W p (bsh s) (s_bufs ?s c) = pgs W p (bsh s) (s_bufs s c)" for p using bu x by auto
  ultimately show ?thesis
    using bufs_okD(1,2,6,7) [OF b] f(3,4) gs c0 tn
    by (intro bufs_ok_step [OF b _ _ _ _ ip _ n c]) (auto simp: fs fe ca pe split: if_splits)
qed

lemma ata_rw_bufs:
  assumes w: "fits W e" and ok: "dev_ok X A s" and A: "counted X A s" and b: "bufs_ok W E s"
  shows "bufs_ok W E (snd (aoecmd_ata_rw e s))"
proof -
  obtain c s1 where nb: "nextbuf e s = (c, s1)" by fastforce
  note n = nextbuf_same [OF nb]
  have ok1: "dev_ok X A s1" and A1: "counted X A s1" using n ok A dev_ok_same counted_same by metis+
  note b1 = nextbuf_bufs [OF w b nb]
  obtain r s2 where nf: "newframe e s1 = (r, s2)" by fastforce
  note g = newframe_bufs [OF ok1 A1 nf b1(1)]
  have b2: "bufs_ok W E s2" by (rule grabs_ok [OF g(1) b1(1)])
  have "bufs_ok W E (xmit_frame e f (ata_rw_frameinit e f (frame_take e f k s2)))" if "c = Some k" "r = Some f" for f k
  proof -
    have "fb s2 f = None" "f \<notin> E" "\<not> pb s2 f"
      using bufs_okD(1,2,6) [OF b1(1) g(2) [OF that(2)]] grabs_sel(1) [OF g(1)] g(3) by simp_all
    moreover have "f \<notin> fset s2" using newframe_ok(2) [OF ok1 A1 nf that(2)] held_not_free by blast
    moreover have "d_ip_buf (s_dev s2) = Some k" using b1(2) [OF that(1)] grabs_sel(3) [OF g(1)] by simp
    ultimately have "bufs_ok W E (frame_take e f k s2)" by (intro frame_take_bufs [OF b2])
    then show ?thesis using bufs_ok_bk [of "xmit_frame e f (ata_rw_frameinit e f (frame_take e f k s2))" "frame_take e f k s2"] by simp
  qed
  then show ?thesis using b1(1) b2 by (auto simp: aoecmd_ata_rw_def nb nf split: option.splits)
qed

lemma work_loop_bufs:
  assumes w: "fits W e"
  shows "dev_ok X {#} s \<Longrightarrow> bufs_ok W E s \<Longrightarrow> work_loop n e s = Some s' \<Longrightarrow> bufs_ok W E s'"
proof (induction n arbitrary: s)
  case (Suc n)
  obtain b s1 where r: "aoecmd_ata_rw e s = (b, s1)" by fastforce
  have "dev_ok X {#} s1" by (rule aoecmd_ata_rw_ok [OF Suc.prems(1) counted_empty r])
  moreover have "bufs_ok W E s1" using ata_rw_bufs [OF w Suc.prems(1) counted_empty Suc.prems(2)] r by simp
  ultimately show ?case using Suc r by (cases b) simp_all
qed simp

section \<open>Retransmission\<close>

lemma stop_probe_eq: "stop_probe f s = upd_dev (\<lambda>d. d\<lparr>d_flags := setfl (d_flags d) DEVFL_KICKME\<rparr>) (aoe_freetframe f (rexmitq_del f s))"
  by (simp add: stop_probe_def)

lemma bk_rexmit_send [simp]: "bk (rexmit_send e f s) = bk s"
  by (simp add: rexmit_send_def Let_def)

text \<open>A piece moves from one frame to another; the first is no longer counted, and then freed.\<close>

lemma handover_bufs:
  assumes b: "bufs_ok W E s" and n: "fb s nf = None" "nf \<notin> E" "nf \<noteq> f" "nf \<notin> fset s'" and f: "f \<notin> E" "f \<notin> fset s'"
    and s': "fset s' \<subseteq> fset s" "fb s' = (fb s)(nf := fb s f)" "s_bufs s' = s_bufs s"
      "d_ip_buf (s_dev s') = d_ip_buf (s_dev s)" "s_nbuf s' = s_nbuf s"
    and p: "\<not> pb s nf" "pb s' = pb s" and g: "s_pgcnt s' = s_pgcnt s" "bsh s' = bsh s"
  shows "bufs_ok W (insert f E) s'"
proof -
  have sl: "slot (carried (insert f E) s' c) (s_bufs s c)" for c
  proof (cases "fb s f = Some c")
    case True
    then have e: "carried (insert f E) s' c = insert nf (carried E s c - {f})" "f \<in> carried E s c" "nf \<notin> carried E s c"
      using n f by (auto simp: carried_def s')
    have "finite (carried E s c)" using bufs_okD(3) [OF b, of c] by (simp add: slot_def)
    then have "finite (carried (insert f E) s' c)" "card (carried (insert f E) s' c) = card (carried E s c)"
      using e card_Suc_Diff1 [of "carried E s c" f] by simp_all
    then show ?thesis using bufs_okD(3) [OF b, of c] e(2) by (cases "s_bufs s c") simp_all
  next
    case False
    then have "carried (insert f E) s' c = carried E s c" using n by (auto simp: carried_def s')
    then show ?thesis using bufs_okD(3) [OF b, of c] by simp
  qed
  have "fb s' x = None \<and> x \<notin> insert f E \<and> \<not> pb s x" if "x \<in> fset s'" for x
    using that s'(1) n(4) f p bufs_okD(1,2,6) [OF b, of x] by (auto simp: s'(2))
  moreover have "\<not> pb s x" if "fb s' x \<noteq> None" for x
    using that p(1) bufs_okD(7) [OF b, of x] by (auto simp: s'(2) split: if_splits)
  moreover have "paged W s' = paged W s" by (rule paged_cong) (simp_all add: s' g)
  moreover have "carried (insert f E) s' c \<noteq> {}" if ne: "carried E s c \<noteq> {}" for c
  proof -
    obtain x where x: "x \<notin> E" "fb s x = Some c" using ne by (auto simp: carried_def)
    then have "(if x = f then nf else x) \<in> carried (insert f E) s' c" using n f by (auto simp: carried_def s')
    then show ?thesis by blast
  qed
  then have "tended {} (insert f E) s'" using bufs_okD(9) [OF b] unfolding tended_def s'(3,4) by blast
  ultimately show ?thesis using sl bufs_okD(4,5,8) [OF b] unfolding bufs_x_def s'(3-5) p(2) by blast
qed

lemma free_uncounted: "bufs_x W C (insert f E) s \<Longrightarrow> f \<notin> E \<Longrightarrow> bufs_x W C E (aoe_freetframe f s)"
proof -
  assume b: "bufs_x W C (insert f E) s" and f: "f \<notin> E"
  have c: "carried E (aoe_freetframe f s) = carried (insert f E) s"
    by (auto simp: carried_def fun_eq_iff free_sel)
  have "fb (aoe_freetframe f s) x = None \<and> x \<notin> E \<and> \<not> pb (aoe_freetframe f s) x" if "x \<in> fset (aoe_freetframe f s)" for x
    using that fset_freetframe [of f s] bufs_okD(1,2,6) [OF b, of x] f by (auto simp: free_sel)
  moreover have "\<not> pb (aoe_freetframe f s) x" if "fb (aoe_freetframe f s) x \<noteq> None" for x
    using that bufs_okD(7) [OF b, of x] by (auto simp: free_sel split: if_splits)
  moreover have "tended C E (aoe_freetframe f s)" using bufs_okD(9) [OF b] unfolding tended_def c free_sel(2,3) .
  ultimately show ?thesis using bufs_okD(3-5,8) [OF b] unfolding bufs_x_def c free_sel(2-4) paged_free by blast
qed

lemma reassign_bufs:
  assumes ok: "dev_ok X A s" and A: "counted X A s" and b: "bufs_ok W E s" and E: "f \<notin> E" "f \<notin> fset s"
    and r: "reassign_frame e f s = (r, s')"
  shows "r = None \<Longrightarrow> bufs_ok W E s'" and "r \<noteq> None \<Longrightarrow> bufs_ok W (insert f E) s'"
proof -
  obtain a s1 where n: "newframe e s = (a, s1)" by fastforce
  note g = newframe_bufs [OF ok A n b]
  note gs = grabs_sel [OF g(1)]
  have b1: "bufs_ok W E s1" by (rule grabs_ok [OF g(1) b])
  have nf: "fb s1 nf = None" "nf \<notin> E" "nf \<noteq> f" "\<not> pb s1 nf" "nf \<notin> fset s1" if "a = Some nf" for nf
    using bufs_okD(1,2,6) [OF b g(2) [OF that]] g(2) [OF that] gs(1) g(3) E newframe_ok(2) [OF ok A n that] held_not_free
    by (simp, simp, blast, simp, blast)
  show "r = None \<Longrightarrow> bufs_ok W E s'"
    using r b1 nf free_empty [OF b1] by (auto simp: reassign_frame_def n Let_def split: option.splits if_splits)
  show "bufs_ok W (insert f E) s'" if r0: "r \<noteq> None"
  proof -
    obtain nf where a: "a = Some nf" using r r0 by (cases a) (auto simp: reassign_frame_def n)
    then have "fb s' = (fb s1)(nf := fb s1 f)" "pb s' = pb s1" "fset s' = fset s1" "s_bufs s' = s_bufs s1"
      "d_ip_buf (s_dev s') = d_ip_buf (s_dev s1)" "s_nbuf s' = s_nbuf s1" "s_pgcnt s' = s_pgcnt s1" "bsh s' = bsh s1"
      using r r0 nf(3) [OF a]
      by (auto simp: reassign_frame_def n Let_def fb_def pb_def is_probe_def fset_eq fun_eq_iff split: if_splits)
    then show ?thesis using handover_bufs [OF b1 nf(1-3) [OF a]] nf(4,5) [OF a] E gs(5) by auto
  qed
qed

lemma stop_probe_bufs: "bufs_ok W E s \<Longrightarrow> is_probe f s \<Longrightarrow> f \<notin> E \<Longrightarrow> bufs_ok W E (stop_probe f s)"
proof -
  assume b: "bufs_ok W E s" and p: "is_probe f s" "f \<notin> E"
  have 1: "bk (rexmitq_del f s) = bk s" by simp
  have "fb s f = None" using bufs_okD(7) [OF b, of f] p by (simp add: pb_def)
  then have "bufs_ok W E (aoe_freetframe f (rexmitq_del f s))"
    using free_empty [of W E "rexmitq_del f s" f] b bufs_ok_bk [OF 1] bk_sel(2) [OF 1] p(2) by simp
  then show ?thesis
    using bufs_ok_bk [of "stop_probe f s" "aoe_freetframe f (rexmitq_del f s)"] by (simp add: stop_probe_eq)
qed

lemma rexmit_one_bufs:
  assumes ok: "dev_ok X A s" and A: "counted X A s" and f: "f \<in> set (rexq s)" and b: "bufs_ok W E s" and E: "f \<notin> E"
  shows "bufs_ok W E (rexmit_one e u f s)"
proof -
  let ?i = "f_t (fr s f)"
  have fi: "?i < length (tgts s)" using dev_held [OF rexmitq_del_ok [OF ok f], of f] by (simp add: rexmitq_del_def)
  have fs: "f \<notin> fset s" using busy_not_fset [of X s f] ok f by (auto simp: dev_ok_def)
  obtain r s1 where r: "reassign_frame e f s = (r, s1)" by fastforce
  note ro = reassign_ok [OF ok A r] note rb = reassign_bufs [OF ok A b E fs r]
  define q where "q = (case r of None \<Rightarrow> rexmit_send e f s1
      | Some nf \<Rightarrow> rexmit_send e nf (aoe_freetframe f (rexmitq_replace f nf
          (if t_nout_probes (tg s1 ?i) = 0 \<and> u > 0
           then upd_tgt ?i (\<lambda>t. t\<lparr>t_nout_probes := t_nout_probes t + 1\<rparr>) (probe e ?i s1) else s1))))"
  have q: "bufs_ok W E q"
  proof (cases r)
    case None
    then show ?thesis using rb(1) bufs_ok_bk [OF bk_rexmit_send] by (simp add: q_def)
  next
    case (Some nf)
    have o1: "dev_ok (add_mset nf X) A s1" "counted (add_mset nf X) A s1" "?i < length (tgts s1)"
      using ro(2) [OF Some] fi by simp_all
    have b1: "bufs_ok W (insert f E) s1" using rb(2) Some by simp
    define s2 where "s2 = (if t_nout_probes (tg s1 ?i) = 0 \<and> u > 0
      then upd_tgt ?i (\<lambda>t. t\<lparr>t_nout_probes := t_nout_probes t + 1\<rparr>) (probe e ?i s1) else s1)"
    have "bufs_ok W (insert f E) (probe e ?i s1)" by (rule grabs_ok [OF probe_bufs [OF o1 b1] b1])
    then have "bufs_ok W (insert f E) s2"
      using b1 bufs_ok_bk [of "upd_tgt ?i (\<lambda>t. t\<lparr>t_nout_probes := t_nout_probes t + 1\<rparr>) (probe e ?i s1)" "probe e ?i s1"]
      by (simp add: s2_def)
    then have "bufs_ok W (insert f E) (rexmitq_replace f nf s2)" using bufs_ok_bk [OF bk_rexmitq(2)] by simp
    from free_uncounted [OF this E] show ?thesis
      using bufs_ok_bk [OF bk_rexmit_send] by (simp add: q_def Some s2_def [symmetric])
  qed
  have "rexmit_one e u f s \<in> {q, s, rexmit_send e f s} \<or> is_probe f s \<and> rexmit_one e u f s = stop_probe f s"
    unfolding rexmit_one_def Let_def r q_def by (simp split: option.splits)
  then show ?thesis
    using q stop_probe_bufs [OF b _ E] b bufs_ok_bk [OF bk_rexmit_send, of W "{}" E e f s] by auto
qed

lemma rexmit_loop_bufs:
  "dev_ok X A s \<Longrightarrow> counted X A s \<Longrightarrow> set fs \<subseteq> set (rexq s) \<Longrightarrow> distinct fs \<Longrightarrow>
   (\<And>s'. dev_ok X A s' \<Longrightarrow> counted X A s') \<Longrightarrow> bufs_ok W E s \<Longrightarrow> set fs \<inter> E = {} \<Longrightarrow>
   bufs_ok W E (rexmit_loop e u fs s)"
proof (induction fs arbitrary: s)
  case (Cons f fs)
  have "dev_ok X A (rexmit_one e u f s)" "set fs \<subseteq> set (rexq (rexmit_one e u f s))"
    using rexmit_one_ok [OF Cons.prems(1,2), of f e u] Cons.prems(3,4) by auto
  moreover have "bufs_ok W E (rexmit_one e u f s)"
    using rexmit_one_bufs [OF Cons.prems(1,2) _ Cons.prems(6)] Cons.prems(3,7) by auto
  ultimately show ?case using Cons.IH Cons.prems by simp
qed simp

text \<open>A held frame is not deferred.\<close>

lemma held_not_deferred: "dev_ok X A s \<Longrightarrow> f \<in># X \<Longrightarrow> f \<notin> set (rexq s)"
proof
  assume ok: "dev_ok X A s" and f: "f \<in># X" "f \<in> set (rexq s)"
  have "count (X + homes (view s)) f \<le> 1" using ok by (simp add: dev_ok_def pool_ok_def pool_wk_def pool_all_def)
  moreover have "0 < count X f" "0 < count (homes (view s)) f" using f by (simp_all add: homes_def)
  ultimately show False by simp
qed

lemma rexmit_deferred_bufs:
  assumes ok: "dev_ok X {#} s" and b: "bufs_ok W E s" and E: "E \<subseteq> set_mset X"
  shows "bufs_ok W E (rexmit_deferred e s)"
  unfolding rexmit_deferred_def
  by (rule rexmit_loop_bufs [OF ok counted_empty _ _ _ b])
    (use ok E held_not_deferred [OF ok] pool_rexq_distinct in \<open>auto simp: dev_ok_def\<close>)

lemma aoecmd_work_bufs:
  assumes w: "fits W e" and ok: "dev_ok X {#} s" and b: "bufs_ok W E s" and E: "E \<subseteq> set_mset X"
  shows "bufs_ok W E (aoecmd_work e s)"
proof -
  have "bufs_ok W E (rexmit_deferred e s)" by (rule rexmit_deferred_bufs [OF ok b E])
  then show ?thesis
    using work_loop_bufs [OF w rexmit_deferred_ok(1) [OF ok]]
    by (auto simp: aoecmd_work_def Let_def simp del: work_loop.simps split: option.splits)
qed

end
