(* ===== verification/BufsInv.thy ===== *)
theory BufsInv
  imports Bufs
begin

text \<open>
  The account of bufs and pages is kept when bufs end, when frames are completed or fail, when the
  device goes down, by the timer and by configuration responses, so it holds in every reachable state.
\<close>

section \<open>Bufs end\<close>

text \<open>While a device is up its frames must be in order for a request to be sent on; a device that is
  down sends nothing.\<close>

definition able :: "nat set \<Rightarrow> st \<Rightarrow> bool" where
  "able E s \<longleftrightarrow> \<not> is_up s \<or> (\<exists>X. dev_ok X {#} s \<and> E \<subseteq> set_mset X)"

lemma able_same: "able E s \<Longrightarrow> view s' = view s \<Longrightarrow> tgts_ok s' = tgts_ok s \<Longrightarrow> is_up s' = is_up s \<Longrightarrow> able E s'"
  by (simp add: able_def dev_ok_def)

lemma able_ok: "dev_ok X {#} s \<Longrightarrow> E \<subseteq> set_mset X \<Longrightarrow> able E s"
  by (auto simp: able_def)

lemma bufs_ok_ends: "ends s s' \<Longrightarrow> bufs_ok W E s' = bufs_ok W E s"
  by (rule bufs_ok_bk [OF bk_ends])

lemma request_bufs:
  assumes w: "fits W e"
  shows "bufs_ok W E s \<Longrightarrow> able E s \<Longrightarrow> bufs_ok W E (aoeblk_request e s)"
  using bufs_ok_ends [OF fail_queue_ends] aoecmd_work_bufs [OF w] by (auto simp: aoeblk_request_def able_def)

lemma end_request_bufs:
  assumes w: "fits W e"
  shows "bufs_ok W E s \<Longrightarrow> able E s \<Longrightarrow> bufs_ok W E (aoe_end_request e r ff s)"
proof -
  assume b: "bufs_ok W E s" and a: "able E s"
  have n: "ends s (end_bios e r ff s)" by (rule end_bios_ends)
  have "bufs_ok W E (end_bios e r ff s)" using b bufs_ok_ends [OF n] by simp
  moreover have "able E (end_bios e r ff s)" by (rule able_same [OF a]) (simp_all add: ends_same [OF n])
  ultimately show ?thesis using request_bufs [OF w] by (cases ff) (simp_all add: aoe_end_request_def Let_def)
qed

lemma carried_cong: "fb s' = fb s \<Longrightarrow> carried E s' = carried E s"
  by (simp add: carried_def fun_eq_iff)

lemma end_buf_bufs:
  assumes w: "fits W e" and b: "bufs_x W {c} E s" and a: "able E s" and c: "s_bufs s c \<noteq> None" "b_nframesout (bf s c) = 0"
  shows "bufs_ok W E (aoe_end_buf e c s)"
proof -
  define s1 where "s1 = (if d_ip_buf (s_dev s) = Some c then upd_dev (\<lambda>d. d\<lparr>d_ip_buf := None\<rparr>) s else s)"
  define s0 where "s0 = aoe_bio_pagedec e (b_bio (bf s1 c)) s1"
  define s2 where "s2 = upd_req (b_rq (bf s1 c)) (\<lambda>x. x\<lparr>rq_special := rq_special (s_reqs s0 (b_rq (bf s1 c))) - 1\<rparr>)
    (s0\<lparr>s_bufs := (s_bufs s0)(c := None)\<rparr>)"
  have e: "fset s2 = fset s" "fb s2 = fb s" "pb s2 = pb s" "s_bufs s2 = (s_bufs s)(c := None)"
    "d_ip_buf (s_dev s2) = (if d_ip_buf (s_dev s) = Some c then None else d_ip_buf (s_dev s))" "s_nbuf s2 = s_nbuf s"
    by (simp_all add: s2_def s0_def s1_def fset_eq fb_def pb_def is_probe_def aoe_bio_pagedec_def fun_eq_iff)
  have g: "bsh s2 = bsh s" "s_pgcnt s2 p = s_pgcnt s p - pgs W p (bsh s) (s_bufs s c)" for p
    using c(1) pagedec_count [OF w, of "b_bio (bf s1 c)" s1 p] by (auto simp: s2_def s0_def s1_def)
  have "finite (carried E s c) \<and> card (carried E s c) = 0" using bufs_okD(3) [OF b, of c] c by auto
  then have "carried E s c = {}" by auto
  moreover have "carried E s2 = carried E s" by (rule carried_cong [OF e(2)])
  ultimately have "bufs_ok W E s2"
    using bufs_okD(1,2,6,7) [OF b] by (intro bufs_ok_step [OF b _ _ _ _ _ _ e(6) c(1)]) (auto simp: e g split: if_splits)
  moreover have "able E s2" by (rule able_same [OF a]) (simp_all add: s2_def s0_def s1_def)
  moreover have "aoe_end_buf e c s = (if rq_special (s_reqs s0 (b_rq (bf s1 c))) - 1 = 0
      then aoe_end_request e (b_rq (bf s1 c)) False s2 else s2)"
    unfolding s2_def s0_def s1_def aoe_end_buf_def Let_def by (rule refl)
  ultimately show ?thesis using end_request_bufs [OF w] by simp
qed

text \<open>The buf that is being ended is tended after all.\<close>

lemma bufs_ok_tend:
  assumes b: "bufs_x W {c} E s"
    and t: "\<And>x. s_bufs s c = Some x \<Longrightarrow> d_ip_buf (s_dev s) = Some c \<or> bi_size (b_iter x) = 0 \<and> b_nframesout x \<noteq> 0"
  shows "bufs_ok W E s"
proof -
  have "carried E s c \<noteq> {}" if "s_bufs s c = Some x" "b_nframesout x \<noteq> 0" for x
    using bufs_okD(3) [OF b, of c] that by auto
  then have "tended {} E s" using bufs_okD(9) [OF b] t unfolding tended_def by (metis singletonD)
  then show ?thesis using b by (simp add: bufs_x_def)
qed

lemma bufs_x_mono: "bufs_ok W E s \<Longrightarrow> bufs_x W C E s"
  by (simp add: bufs_x_def tended_def)

text \<open>What is left to send of a buf is given up.\<close>

lemma drop_rest_bufs:
  assumes b: "bufs_x W {c} E s" and g: "\<And>x. b_nframesout (g x) = b_nframesout x" "\<And>x. b_bio (g x) = b_bio x"
  shows "bufs_x W {c} E (upd_buf c g s)"
proof -
  have e: "fset (upd_buf c g s) = fset s" "fb (upd_buf c g s) = fb s" "pb (upd_buf c g s) = pb s"
    by (simp_all add: fset_eq fb_def pb_def is_probe_def fun_eq_iff)
  have "slot (carried E s a) (s_bufs (upd_buf c g s) a)" for a
    using bufs_okD(3) [OF b, of a] g by (cases "s_bufs s a") auto
  moreover have "pgs W p h (if a = c then map_option g (s_bufs s c) else s_bufs s a) = pgs W p h (s_bufs s a)" for p h a
    using g(2) by (cases "s_bufs s c") auto
  then have "paged W (upd_buf c g s) = paged W s" by (simp add: paged_def)
  moreover have "tended {c} E (upd_buf c g s)" using bufs_okD(9) [OF b] unfolding tended_def carried_cong [OF e(2)] by simp
  ultimately show ?thesis using b unfolding bufs_x_def e carried_cong [OF e(2)] by simp
qed

lemma failbuf_bufs:
  assumes w: "fits W e" and b: "bufs_x W {c} E s" and a: "able E s" and c: "s_bufs s c \<noteq> None"
  shows "bufs_ok W E (aoe_failbuf e (Some c) s)"
proof -
  let ?s1 = "upd_bio (b_bio (bf s c)) (\<lambda>x. x\<lparr>bio_error := True\<rparr>)
      (upd_buf c (\<lambda>x. x\<lparr>b_iter := (b_iter x)\<lparr>bi_size := 0\<rparr>\<rparr>) s)"
  have "bufs_x W {c} E (upd_buf c (\<lambda>x. x\<lparr>b_iter := (b_iter x)\<lparr>bi_size := 0\<rparr>\<rparr>) s)" by (rule drop_rest_bufs [OF b]) simp_all
  then have 1: "bufs_x W {c} E ?s1" using bufs_ok_bk [OF bk_upd_bio] by simp
  have "able E ?s1" by (rule able_same [OF a]) simp_all
  moreover have "s_bufs ?s1 c \<noteq> None" using c by simp
  ultimately show ?thesis
    using end_buf_bufs [OF w 1] bufs_ok_tend [OF 1] by (auto simp: aoe_failbuf_def Let_def)
qed

text \<open>A frame lets go of its buf.\<close>

lemma uncount_bufs:
  assumes b: "bufs_ok W E s" and f: "fb s f = Some c" "f \<notin> E" "f \<notin> fset s"
  shows "bufs_x W {c} (insert f E) (upd_buf c (\<lambda>x. x\<lparr>b_nframesout := b_nframesout x - 1\<rparr>) s)" (is "bufs_x _ _ _ ?s")
    and "s_bufs s c \<noteq> None"
proof -
  have e: "fset ?s = fset s" "fb ?s = fb s" "pb ?s = pb s" "s_nbuf ?s = s_nbuf s" "d_ip_buf (s_dev ?s) = d_ip_buf (s_dev s)"
    by (simp_all add: fset_eq fb_def pb_def is_probe_def fun_eq_iff)
  have m: "f \<in> carried E s c" using f by (simp add: carried_def)
  then show n: "s_bufs s c \<noteq> None" using bufs_okD(3) [OF b, of c] by (cases "s_bufs s c") auto
  then obtain x where x: "s_bufs s c = Some x" by blast
  have fin: "finite (carried E s c)" "b_nframesout x = int (card (carried E s c))"
    using bufs_okD(3) [OF b, of c] x by simp_all
  have ca: "carried (insert f E) ?s = (carried E s)(c := carried E s c - {f})"
    using f by (auto simp: carried_def fun_eq_iff e)
  have "slot (carried (insert f E) ?s c) (s_bufs ?s c)"
    using fin m card_Suc_Diff1 [of "carried E s c" f] by (simp add: ca x)
  then show "bufs_x W {c} (insert f E) ?s"
    using bufs_okD(1,2,6,7) [OF b] f n by (intro bufs_ok_step [OF b _ _ _ _ _ _ e(4) n]) (auto simp: e ca)
qed

lemma bufs_ok_uncounted: "bufs_ok W E s \<Longrightarrow> fb s f = None \<Longrightarrow> f \<notin> fset s \<Longrightarrow> bufs_ok W (insert f E) s"
proof -
  assume b: "bufs_ok W E s" and f: "fb s f = None" "f \<notin> fset s"
  have "carried (insert f E) s = carried E s" using f by (auto simp: carried_def fun_eq_iff)
  moreover from this have "tended {} (insert f E) s = tended {} E s" by (simp add: tended_def)
  ultimately show ?thesis using b f by (auto simp: bufs_x_def)
qed

lemma fail_frame_bufs:
  assumes w: "fits W e" and b: "bufs_ok W E s" and a: "able (insert f E) s" and f: "f \<notin> E" "f \<notin> fset s"
  shows "bufs_ok W E (fail_frame e f s)"
proof -
  define s1 where "s1 = (case f_buf (fr s f) of None \<Rightarrow> s
    | Some c \<Rightarrow> aoe_failbuf e (Some c) (upd_buf c (\<lambda>x. x\<lparr>b_nframesout := b_nframesout x - 1\<rparr>) s))"
  have "bufs_ok W (insert f E) s1"
  proof (cases "fb s f")
    case None
    then show ?thesis using bufs_ok_uncounted [OF b None f(2)] by (simp add: s1_def fb_def)
  next
    case (Some c)
    note u = uncount_bufs [OF b Some f]
    have "able (insert f E) (upd_buf c (\<lambda>x. x\<lparr>b_nframesout := b_nframesout x - 1\<rparr>) s)" by (rule able_same [OF a]) simp_all
    from failbuf_bufs [OF w u(1) this] u(2) Some show ?thesis by (simp add: s1_def fb_def)
  qed
  then show ?thesis using free_uncounted f(1) by (simp add: fail_frame_def s1_def)
qed

section \<open>Completion\<close>

lemma redeem_bufs:
  assumes ok: "dev_ok X {#} s" and i: "i < length (tgts s)" and b: "bufs_ok W E s"
  shows "grabs s (redeem e i s)"
proof (cases "t_taint (tg s i) > 0")
  case True
  let ?s1 = "upd_tgt i (\<lambda>t. t\<lparr>t_taint := t_taint t - 1\<rparr>) s"
  have k: "bk ?s1 = bk s" by simp
  have keep: "tgt_ok (t\<lparr>t_taint := t_taint t - 1\<rparr>)" if "tgt_ok t" "t_taint t > 0" for t
    unfolding tgt_ok_taint using that by (simp add: tgt_ok_def)
  have o: "dev_ok X {#} ?s1" by (rule dev_ok_upd_tgt [OF ok]) (use keep True in simp_all)
  have "grabs ?s1 (probe e i ?s1)"
    by (rule probe_bufs [OF o counted_empty]) (use i b bufs_ok_bk [OF k] in simp_all)
  then have g: "grabs s (probe e i ?s1)" by (rule grabs_trans [OF bk_grabs [OF k]])
  show ?thesis using True bk_grabs [OF k] grabs_bk [OF g bk_upd_tgt] by (simp add: redeem_def Let_def)
qed (simp add: redeem_def)

lemma upd_buf_freetframe: "upd_buf c g (aoe_freetframe f s) = aoe_freetframe f (upd_buf c g s)"
  by (simp add: aoe_freetframe_def upd_defs)

lemma frame_done_bufs:
  assumes w: "fits W e" and b: "bufs_ok W E s" and ok: "dev_ok (add_mset f X) {#} s" and f: "f \<notin> E" "fb s f = bo" and E: "E \<subseteq> set_mset X"
  shows "bufs_ok W E (buf_frame_done e bo (aoe_freetframe f s))"
proof (cases bo)
  case None
  then show ?thesis using free_empty [OF b _ f(1)] f(2) by (simp add: buf_frame_done_def)
next
  case (Some c)
  let ?g = "\<lambda>x. x\<lparr>b_nframesout := b_nframesout x - 1\<rparr>"
  let ?s1 = "aoe_freetframe f (upd_buf c ?g s)"
  note u = uncount_bufs [OF b _ f(1) held_not_free [OF ok], of c]
  have 1: "bufs_x W {c} E ?s1" using free_uncounted [OF u(1) f(1)] f(2) Some by simp
  have "dev_ok (add_mset f X) {#} (upd_buf c ?g s)" using ok by (simp add: dev_ok_def)
  then have "able E ?s1" by (intro able_ok [OF _ E] dev_ok_free)
  moreover have "s_bufs ?s1 c \<noteq> None" using u(2) f(2) Some by (simp add: free_sel)
  moreover have "d_ip_buf (s_dev ?s1) = Some c \<or> bi_size (b_iter (bf ?s1 c)) = 0"
  proof -
    obtain x where x: "s_bufs s c = Some x" using u(2) f(2) Some by auto
    from tendedD [OF bufs_okD(9) [OF b] _ x] x show ?thesis by (cases "d_ip_buf (s_dev s) = Some c") (simp_all add: free_sel)
  qed
  ultimately show ?thesis
    using bufs_ok_tend [OF 1] end_buf_bufs [OF w 1] Some by (auto simp: buf_frame_done_def Let_def upd_buf_freetframe)
qed

lemma ktiocomplete_bufs:
  assumes w: "fits W e" and ok: "dev_ok (add_mset f X) {#} s" and b: "bufs_ok W E s" and f: "f \<notin> E" and E: "E \<subseteq> set_mset X"
  shows "bufs_ok W E (ktiocomplete e f s)"
proof -
  let ?s1 = "ktio_check e f s" let ?i = "f_t (fr ?s1 f)" let ?s2 = "redeem e ?i ?s1"
  have o: "dev_ok (add_mset f X) {#} ?s1" by (rule ktio_check_ok [OF ok])
  have i: "?i < length (tgts ?s1)" using dev_held [OF o, of f] by simp
  have b1: "bufs_ok W E ?s1" using b bufs_ok_bk [OF bk_ktio_check] by simp
  note g = redeem_bufs [OF o i b1, of e]
  have "bufs_ok W E (buf_frame_done e (f_buf (fr ?s1 f)) (aoe_freetframe f ?s2))"
    by (rule frame_done_bufs [OF w grabs_ok [OF g b1] redeem_ok [OF o i] f _ E])
      (use fun_cong [OF grabs_sel(1) [OF g], of f] in \<open>simp add: fb_def\<close>)
  then show ?thesis
    using bufs_ok_bk [OF bk_upd_dev, of "\<lambda>d. d\<lparr>d_ref := d_ref d - 1\<rparr>"] by (simp add: ktiocomplete_def ktio_out_def Let_def)
qed

lemma ktio_one_bufs:
  assumes w: "fits W e" and ok: "dev_ok {#} {#} s" and q: "q < length (s_iocq s)" and b: "bufs_ok W {} s"
  shows "bufs_ok W {} (ktio_one e k q s)"
proof (cases "s_iocq s ! q")
  case (Cons f fs)
  let ?s0 = "s\<lparr>s_iocq := (s_iocq s)[q := fs]\<rparr>"
  have "bufs_ok W {} ?s0" using b bufs_ok_bk [OF bk_upd(11)] by simp
  then have "bufs_ok W {} (ktiocomplete e f ?s0)"
    using ktiocomplete_bufs [OF w dev_ok_ioc_get [OF ok q Cons]] by simp
  then show ?thesis using Cons bufs_ok_bk [OF bk_upd(12)] by (simp add: ktio_one_def Let_def)
qed (simp add: ktio_one_def b)

lemma flush_frames_bufs:
  assumes w: "fits W e"
  shows "dev_ok (mset fs) {#} s \<Longrightarrow> bufs_ok W {} s \<Longrightarrow> bufs_ok W {} (flush_frames e fs s)"
proof (induction fs arbitrary: s)
  case (Cons f fs)
  let ?s1 = "upd_dev (\<lambda>d. d\<lparr>d_ref := d_ref d - 1\<rparr>) (fail_frame e f s)"
  have o: "dev_ok (add_mset f (mset fs)) {#} s" using Cons.prems(1) by simp
  have "dev_ok (mset fs) {#} ?s1" using fail_frame_ok [OF o, of e] by (simp add: dev_ok_def)
  moreover have "bufs_ok W {} (fail_frame e f s)"
    by (rule fail_frame_bufs [OF w Cons.prems(2) able_ok [OF o] _ held_not_free [OF o]]) simp_all
  then have "bufs_ok W {} ?s1" using bufs_ok_bk [of ?s1 "fail_frame e f s"] by simp
  ultimately show ?case using Cons.IH by simp
qed simp

lemma flush_iocq_bufs:
  assumes w: "fits W e" and ok: "dev_ok {#} {#} s" and q: "q < length (s_iocq s)" and b: "bufs_ok W {} s"
  shows "bufs_ok W {} (aoe_flush_iocq_by_index e q s)"
  unfolding aoe_flush_iocq_by_index_def
  by (rule flush_frames_bufs [OF w]) (use dev_ok_ioc_clear [OF ok q] b bufs_ok_bk [OF bk_upd(11)] in simp_all)

section \<open>A device goes down\<close>

lemma down_not_fset: "pool_wk (add_mset f X) (view s) \<Longrightarrow> f \<notin> fset s"
proof
  assume wk: "pool_wk (add_mset f X) (view s)" and f: "f \<in> fset s"
  have a: "pool_all (add_mset f X + homes (view s)) (view s)" using wk by (simp add: pool_wk_def)
  then have c: "count (add_mset f X + homes (view s)) f \<le> 1" unfolding pool_all_def by blast
  have "f < s_nframe s" using a by (simp add: pool_all_def)
  then have "f \<in># homes (view s)" using f by (simp add: fset_def homes_def)
  then have "0 < count (homes (view s)) f" by (rule count_greater_zero_iff [THEN iffD2])
  with c show False by simp
qed

lemma fail_frame_down_bufs:
  assumes w: "fits W e" and ok: "down_ok (add_mset f X) s" and b: "bufs_ok W {} s"
  shows "bufs_ok W {} (fail_frame e f s)"
  by (rule fail_frame_bufs [OF w b]) (use ok down_not_fset in \<open>auto simp: down_ok_def able_def\<close>)

lemma downdev_bucket_bufs:
  assumes w: "fits W e"
  shows "down_ok {#} s \<Longrightarrow> n < NBUCKETS \<Longrightarrow> d_factive (s_dev s) ! n = fs \<Longrightarrow> length (d_factive (s_dev s)) = NBUCKETS \<Longrightarrow>
   bufs_ok W {} s \<Longrightarrow> bufs_ok W {} (downdev_bucket e n fs s)"
proof (induction fs arbitrary: s)
  case (Cons f fs)
  let ?d = "upd_dev (\<lambda>d. d\<lparr>d_factive := (d_factive d)[n := remove1 f (d_factive d ! n)]\<rparr>) s"
  have f: "d_factive (s_dev ?d) = (d_factive (s_dev s))[n := fs]" using Cons.prems(3) by simp
  have v: "view ?d = (view s)\<lparr>v_act := (v_act (view s))[n := fs]\<rparr>"
    unfolding view_factive using Cons.prems(3) by simp
  have "pool_wk {#f#} (view ?d)"
    unfolding v by (rule pool_unhash_wk(1)) (use Cons.prems in \<open>simp_all add: down_ok_def\<close>)
  then have k: "down_ok (add_mset f {#}) ?d" using Cons.prems(1) by (simp add: down_ok_def)
  note d = fail_frame_down [OF k, of e]
  have "bufs_ok W {} ?d" using Cons.prems(5) bufs_ok_bk [of ?d s] by simp
  then have b: "bufs_ok W {} (fail_frame e f ?d)" by (rule fail_frame_down_bufs [OF w k])
  have "length (d_factive (s_dev (fail_frame e f ?d))) = NBUCKETS" "d_factive (s_dev (fail_frame e f ?d)) ! n = fs"
    using d(2) f Cons.prems(2,4) by simp_all
  from Cons.IH [OF d(1) Cons.prems(2) this(2,1) b] show ?case by simp
qed simp

lemma downdev_active_bufs:
  assumes w: "fits W e"
  shows "down_ok {#} s \<Longrightarrow> set ns \<subseteq> {..<NBUCKETS} \<Longrightarrow> length (d_factive (s_dev s)) = NBUCKETS \<Longrightarrow> bufs_ok W {} s \<Longrightarrow>
   bufs_ok W {} (downdev_active e ns s)"
proof (induction ns arbitrary: s)
  case (Cons n ns)
  let ?s1 = "downdev_bucket e n (d_factive (s_dev s) ! n) s"
  have n: "n < NBUCKETS" using Cons.prems(2) by simp
  have "bufs_ok W {} ?s1" by (rule downdev_bucket_bufs [OF w Cons.prems(1) n refl Cons.prems(3,4)])
  then show ?case
    using Cons.IH [of ?s1] downdev_bucket_ok [OF Cons.prems(1) n refl Cons.prems(3), of e] Cons.prems(2,3) by simp
qed simp

lemma downdev_rexmit_bufs:
  assumes w: "fits W e"
  shows "down_ok {#} s \<Longrightarrow> rexq s = fs \<Longrightarrow> bufs_ok W {} s \<Longrightarrow> bufs_ok W {} (downdev_rexmit e fs s)"
proof (induction fs arbitrary: s)
  case (Cons f fs)
  have v: "view (rexmitq_del f s) = (view s)\<lparr>v_rex := fs\<rparr>"
    unfolding rexmitq_del_def view_rexq using Cons.prems(2) by simp
  have "pool_wk {#f#} (view (rexmitq_del f s))"
    unfolding v by (rule pool_rex_wk) (use Cons.prems in \<open>simp_all add: down_ok_def\<close>)
  then have k: "down_ok (add_mset f {#}) (rexmitq_del f s)"
    using Cons.prems(1) by (simp add: down_ok_def rexmitq_del_def)
  note d = fail_frame_down [OF k, of e]
  have "bufs_ok W {} (rexmitq_del f s)" using Cons.prems(3) bufs_ok_bk [OF bk_rexmitq(1)] by simp
  then have "bufs_ok W {} (fail_frame e f (rexmitq_del f s))" by (rule fail_frame_down_bufs [OF w k])
  moreover have "rexq (fail_frame e f (rexmitq_del f s)) = fs" using d(3) Cons.prems(2) by (simp add: rexmitq_del_def)
  ultimately show ?case using Cons.IH [OF d(1)] by simp
qed simp

lemma failip_bufs:
  assumes w: "fits W e" and b: "bufs_ok W {} s" and u: "\<not> is_up s"
  shows "bufs_ok W {} (aoe_failip e s)"
proof -
  let ?s1 = "aoe_failbuf e (d_ip_buf (s_dev s)) s"
  have "bufs_ok W {} ?s1"
    using b failbuf_bufs [OF w bufs_x_mono [OF b]] u bufs_okD(4) [OF b]
    by (cases "d_ip_buf (s_dev s)") (simp_all add: able_def aoe_failbuf_def [of _ None])
  then have 2: "bufs_ok W {} (fail_bios r bs ?s1)" for r bs using bufs_ok_bk [OF bk_fail_bios] by simp
  have f: "fails s (fail_bios r bs ?s1)" for r bs by (rule fails_trans [OF aoe_failbuf_down [OF u] fail_bios_fails])
  have "able {} (fail_bios r bs ?s1)" for r bs using u fails_same(2) [OF f] by (simp add: able_def)
  then show ?thesis
    using 2 \<open>bufs_ok W {} ?s1\<close> end_request_bufs [OF w 2] by (simp add: aoe_failip_def Let_def split: option.split)
qed

lemma bk_wreset: "bk (upd_dev (\<lambda>d. d\<lparr>d_targets := map g (d_targets d)\<rparr>) s) = bk s" if "\<And>t. t_ffree (g t) = t_ffree t"
  using that by (simp add: bk_def fset_eq fb_def pb_def is_probe_def fun_eq_iff)

lemma downdev_bufs:
  assumes w: "fits W e" and p: "pool_wk {#} (view s)" and t: "tgts_ok s" and b: "bufs_ok W {} s"
  shows "bufs_ok W {} (aoedev_downdev e s)"
proof -
  let ?s1 = "upd_dev (\<lambda>d. d\<lparr>d_flags := clrfl (d_flags d) DEVFL_UP\<rparr>) s"
  let ?s2 = "downdev_active e [0..<NFACTIVE] ?s1" let ?s3 = "downdev_rexmit e (rexq ?s2) ?s2"
  let ?s4 = "upd_dev (\<lambda>d. d\<lparr>d_targets := map (\<lambda>t. (aoecmd_wreset t)\<lparr>t_nout := 0\<rparr>) (d_targets d)\<rparr>) ?s3"
  have "\<not> hasfl (clrfl w DEVFL_UP) DEVFL_UP" for w by (simp add: DEVFL_UP_def hasfl_clrfl_pow [of 0 w 0, simplified])
  then have d: "down_ok {#} ?s1" using p t by (simp add: down_ok_def)
  have l: "length (d_factive (s_dev ?s1)) = NBUCKETS" using p by (simp add: pool_wk_def pool_lists_def)
  have ns: "set [0..<NFACTIVE] \<subseteq> {..<NBUCKETS}" by (auto simp: NBUCKETS_NFACTIVE)
  have "bufs_ok W {} ?s1" using b bufs_ok_bk [of ?s1 s] by simp
  then have 2: "bufs_ok W {} ?s2" by (rule downdev_active_bufs [OF w d ns l])
  have d2: "down_ok {#} ?s2" using downdev_active_ok [OF d ns l, of e] by simp
  have 3: "bufs_ok W {} ?s3" by (rule downdev_rexmit_bufs [OF w d2 refl 2])
  have "down_ok {#} ?s3" using downdev_rexmit_ok [OF d2 refl, of e] by simp
  then have u: "\<not> is_up ?s4" by (simp add: down_ok_def)
  have "bufs_ok W {} ?s4" using 3 bufs_ok_bk [OF bk_wreset, of "\<lambda>t. (aoecmd_wreset t)\<lparr>t_nout := 0\<rparr>"] by (simp add: aoecmd_wreset_def)
  from failip_bufs [OF w this u] have "bufs_ok W {} (fail_queue e (aoe_failip e ?s4))" using bufs_ok_bk [OF bk_fail_queue] by simp
  then show ?thesis
    using bufs_ok_bk [OF bk_upd_dev, of set_capacity0] by (simp add: aoedev_downdev_def Let_def set_capacity0_def)
qed

section \<open>The timer\<close>

lemma expire_loop_bufs:
  assumes w: "fits W e"
  shows "dev_ok (mset fs) (mset fs) s \<Longrightarrow> bufs_ok W {} s \<Longrightarrow> bufs_ok W {} (snd (expire_loop e u fs s))"
proof (induction fs arbitrary: s)
  case (Cons f fs)
  let ?s = "upd_dev (\<lambda>d. d\<lparr>d_factive := (d_factive d)[0 := (f # fs) @ d_factive d ! 0]\<rparr>) s"
  have wk: "pool_wk (mset (f # fs)) (view s)" using Cons.prems by (simp add: dev_ok_def pool_ok_def)
  then have "0 < length (d_factive (s_dev s))" by (simp add: pool_wk_def pool_lists_def NBUCKETS_def)
  from mset_concat_update [OF this, of "(f # fs) @ d_factive (s_dev s) ! 0"]
  have "pool_wk {#} (view ?s)"
    unfolding view_factive by (intro pool_act_wk [OF wk]) (simp_all add: actm_def)
  moreover have "tgts_ok ?s" using Cons.prems by (simp add: dev_ok_def)
  moreover have "bufs_ok W {} ?s" using Cons.prems(2) bufs_ok_bk [of ?s s] by simp
  ultimately have "bufs_ok W {} (aoedev_downdev e ?s)" by (rule downdev_bufs [OF w])
  moreover have "bufs_ok W {} (snd (expire_loop e u fs (expire_frame e u f s)))"
    using Cons.prems bufs_ok_bk [OF bk_expire_frame] by (intro Cons.IH expire_frame_ok) simp_all
  ultimately show ?case by simp
qed simp

lemma timer_bufs:
  assumes w: "fits W e" and ok: "dev_ok {#} {#} s" and b: "bufs_ok W {} s"
  shows "bufs_ok W {} (rexmit_timer e s)"
proof (cases "hasfl (d_flags (s_dev s)) DEVFL_TKILL")
  case False
  show ?thesis
  proof (rule rexmit_timer_core [OF False, of e])
    fix P u c s1 s2
    let ?s0 = "upd_dev (\<lambda>d. d\<lparr>d_factive := map (dropWhile P) (d_factive d)\<rparr>) s"
    let ?fs = "concat (map (takeWhile P) (d_factive (s_dev s)))"
    let ?k = "upd_dev (\<lambda>d. d\<lparr>d_flags := clrfl (d_flags d) DEVFL_KICKME\<rparr>) s2"
    let ?s3 = "if hasfl (d_flags (s_dev s2)) DEVFL_KICKME \<and> d_blkq (s_dev s2) \<noteq> None then aoeblk_request e ?k else s2"
    let ?t = "upd_dev (\<lambda>d. d\<lparr>d_timer_expires := Some (e_jiffies e + of_int (e_hz e div 10))\<rparr>) ?s3"
    assume l: "expire_loop e u ?fs ?s0 = (c, s1)"
      and s2: "s2 = (if c then rexmit_deferred e s1 else s1)" and t: "rexmit_timer e s = ?t"
    have 0: "dev_ok (mset ?fs) (mset ?fs) ?s0" by (rule collect_ok [OF ok])
    have "bufs_ok W {} ?s0" using b bufs_ok_bk [of ?s0 s] by simp
    from expire_loop_ok [OF 0, of e u] expire_loop_bufs [OF w 0 this, of u]
    have 1: "dev_ok {#} {#} s1" "bufs_ok W {} s1" by (simp_all add: l)
    have 2: "dev_ok {#} {#} s2" "bufs_ok W {} s2"
      using 1 rexmit_deferred_ok(1) [OF 1(1)] rexmit_deferred_bufs [OF 1] by (simp_all add: s2)
    have "bufs_ok W {} ?k" using 2(2) bufs_ok_bk [of ?k s2] by simp
    moreover have "able {} ?k" using 2(1) by (intro able_ok [of "{#}"]) (simp_all add: dev_ok_def)
    ultimately have "bufs_ok W {} ?s3" using 2(2) request_bufs [OF w] by simp
    then show ?thesis unfolding t using bufs_ok_bk [of ?t ?s3] by simp
  qed
qed (simp add: rexmit_timer_def b)

section \<open>Responses\<close>

lemma ata_rsp_bufs:
  assumes w: "fits W e" and ok: "dev_ok {#} {#} s" and b: "bufs_ok W {} s"
  shows "bufs_ok W {} (snd (aoecmd_ata_rsp e r s))"
proof (rule ata_rsp_cases [OF ok, of e r])
  fix f s' assume f: "dev_ok {#f#} {#} s'" "bk s' = bk s" "aoecmd_ata_rsp e r s = (None, ata_rsp_work e f r s')"
  have "bufs_ok W {} (aoecmd_work e s')" by (rule aoecmd_work_bufs [OF w f(1)]) (use b bufs_ok_bk [OF f(2)] in simp_all)
  then show ?thesis using bufs_ok_bk [OF bk_ktcomplete] f(3) by (simp add: ata_rsp_work_def)
next
  fix m s' assume l: "bk s' = bk s"
    "aoecmd_ata_rsp e r s = (Some r, emit m (upd_dev (\<lambda>d. d\<lparr>d_ref := d_ref d - 1\<rparr>) s'))"
  have "bk (emit m (upd_dev (\<lambda>d. d\<lparr>d_ref := d_ref d - 1\<rparr>) s')) = bk s" using l(1) by simp
  then show ?thesis using b bufs_ok_bk [of "emit m (upd_dev (\<lambda>d. d\<lparr>d_ref := d_ref d - 1\<rparr>) s')" s] l(2) by simp
qed

lemma bk_cfg_pkts: "bk (snd (cfg_pkts_loop e l maj mi ndl sl s)) = bk s"
proof (induction ndl arbitrary: sl s)
  case (Cons ifp ndl)
  obtain r s1 where n: "new_skb e s = (r, s1)" by fastforce
  then have "bk s1 = bk s" using bk_new_skb [of e s] by simp
  then show ?case using Cons.IH by (simp add: n split: option.split)
qed simp

lemma bk_cfg [simp]: "bk (aoecmd_cfg e l ndl maj mi s) = bk s"
  using bk_cfg_pkts [of e l maj mi ndl "[]" s] by (simp add: aoecmd_cfg_def aoecmd_cfg_pkts_def split_def)

lemma bk_addtgt: "bk (snd (addtgt e addr n s)) = bk s"
proof -
  have "bk (upd_dev (\<lambda>d. d\<lparr>d_targets := d_targets d @ [new_tgt addr n]\<rparr>) x) = bk x" for x
    by (auto simp: bk_defs fset_eq new_tgt_def aoecmd_wreset_def zero_tgt_def Let_def)
  then show ?thesis
    by (auto simp: addtgt_def grow_targets_def Let_def alloc_def split: option.splits bool.splits)
qed

lemma bk_cfg_tgt: "cfg_tgt e src n s = (q, s1) \<Longrightarrow> bk s1 = bk s"
  using bk_addtgt [of e src n s] by (auto simp: cfg_tgt_def aoecmd_wreset_def Let_def split: option.splits)

lemma bk_setifbcnt: "bk (setifbcnt i nd n s) = bk s"
proof -
  have "t_ffree t = t_ffree (tg s i)" if "setif (tg s i) nd n = Some (t, h)" for t h
    using that by (auto simp: setif_def Let_def split: prod.splits option.splits if_splits)
  moreover have "bk (upd_dev setdbcnt x) = bk x" for x by (simp add: setdbcnt_def Let_def)
  ultimately show ?thesis by (auto simp: setifbcnt_def Let_def split: option.split)
qed

lemma cfg_rsp_bufs:
  assumes ok: "dev_ok {#} {#} s" and b: "bufs_ok W {} s"
  shows "bufs_ok W {} (snd (cfg_rsp_dev e r s))"
proof -
  define h where "h = hdr_of (r_data r)"
  define ch where "ch = cfghdr_of (drop 24 (r_data r))"
  define n where "n = uint (cfg_bcnt (e_mtu e (r_dev r)) (ch_scnt ch))"
  obtain q s1 where c: "cfg_tgt e (h_src h) (cfg_nframes e ch) s = (q, s1)" by fastforce
  have e: "snd (cfg_rsp_dev e r s) = (case q of None \<Rightarrow> s1 | Some i \<Rightarrow> snd (cfg_ident e (ch_fwver ch) (setifbcnt i (r_dev r) n s1)))"
    using c by (simp add: cfg_rsp_dev_def Let_def h_def ch_def n_def split: option.split)
  have id: "bufs_ok W {} (snd (cfg_ident e v x))" if "dev_ok {#} {#} x" "bufs_ok W {} x" for x v
  proof -
    let ?x = "upd_dev (\<lambda>d. d\<lparr>d_fw_ver := v\<rparr>) x"
    have x: "dev_ok {#} {#} ?x" "bufs_ok W {} ?x" using that bufs_ok_bk [of ?x x] by (simp_all add: dev_ok_def)
    have "bufs_ok W {} (snd (aoecmd_ata_id e ?x))" by (rule grabs_ok [OF ata_id_bufs [OF x(1) counted_empty x(2)] x(2)])
    then show ?thesis using that(2) by (simp add: cfg_ident_def split_def split: option.split)
  qed
  have 1: "bufs_ok W {} s1" using b bufs_ok_bk [OF bk_cfg_tgt [OF c]] by simp
  then show ?thesis
    unfolding e using id cfg_tgt_ok(2) [OF ok c] bufs_ok_bk [OF bk_setifbcnt] by (simp split: option.split)
qed

section \<open>Every input\<close>

lemma bk_gdalloc [simp]: "bk (aoeblk_gdalloc e s) = bk s"
proof -
  obtain b s1 where b: "gd_begin s = (b, s1)" by fastforce
  obtain c s2 where c: "gd_create e s1 = (c, s2)" by fastforce
  have "bk s1 = bk s" using b by (auto simp: gd_begin_def Let_def split: if_splits)
  moreover have "bk s2 = bk s1" using c by (auto simp: gd_create_def alloc_def split: bool.splits)
  ultimately show ?thesis
    by (simp add: aoeblk_gdalloc_def b c gd_done_def gd_publish_def gd_fail_def warn_on_def Let_def split: bool.split)
qed

lemma bk_sleepwork [simp]: "bk (aoecmd_sleepwork e s) = bk s"
  by (simp add: aoecmd_sleepwork_def newsize_def Let_def)

lemma bk_submit [simp]: "bk (blk_submit r bs s) = bk s"
  by (simp add: blk_submit_def)

lemma bk_small [simp]:
  "bk (upd_dev (dummy_timer e) s) = bk s" "bk (upd_dev aoecmd_cleanslate s) = bk s"
  "bk (snd (aoeblk_open b s)) = bk s" "bk (aoeblk_release e l ndl s) = bk s"
proof -
  show "bk (upd_dev aoecmd_cleanslate s) = bk s"
    by (simp add: aoecmd_cleanslate_def aoecmd_wreset_def bk_defs fset_eq)
qed (simp_all add: dummy_timer_def aoeblk_open_def aoeblk_release_def Let_def)

definition accounts :: "pgenv \<Rightarrow> st \<Rightarrow> bool" where
  "accounts W s \<longleftrightarrow> dev_ok {#} {#} s \<and> bufs_ok W {} s"

lemma handle_bufs:
  assumes w: "fits W e" and a: "accounts W s"
  shows "bufs_ok W {} (handle e i s)"
proof -
  have ok: "dev_ok {#} {#} s" and b: "bufs_ok W {} s" using a by (simp_all add: accounts_def)
  have k: "bufs_ok W {} s'" if "bk s' = bk s" for s' using b bufs_ok_bk [OF that] by simp
  show ?thesis
  proof (cases i)
    case (InRequest r bs)
    have "dev_ok {#} {#} (blk_submit r bs s)"
      unfolding blk_submit_def by (rule dev_ok_dev) (use ok in \<open>simp_all add: dev_ok_def\<close>)
    then show ?thesis using InRequest request_bufs [OF w k able_ok] by simp
  next
    case InTimer
    then show ?thesis using timer_bufs [OF w ok b] k [OF bk_small(1) [of e s]] by (simp split: timer_fn.split)
  next
    case (InCfg r)
    then show ?thesis using cfg_rsp_bufs [OF ok b, of e r] bufs_ok_bk [OF bk_upd(5)] by (simp add: split_def)
  next
    case InIdent
    have "bufs_ok W {} (snd (aoecmd_ata_id e s))" by (rule grabs_ok [OF ata_id_bufs [OF ok counted_empty b] b])
    then show ?thesis using InIdent bufs_ok_bk [OF bk_upd(5)] by (simp add: split_def split: option.split)
  next
    case InDown
    then show ?thesis using downdev_bufs [OF w _ _ b] ok by (simp add: dev_ok_def pool_ok_def)
  qed (use ok b k in \<open>simp_all add: ata_rsp_bufs [OF w] ktio_one_bufs [OF w] flush_iocq_bufs [OF w]\<close>)
qed

lemma runs_accounts: "accounts W s \<Longrightarrow> \<forall>(e, i)\<in>set is. fits W e \<Longrightarrow> accounts W (runs is s)"
proof (induction "is" arbitrary: s)
  case (Cons x xs)
  obtain e i where x: "x = (e, i)" by fastforce
  have "accounts W (handle e i s)"
    using Cons.prems handle_bufs [of W e s i] handle_ok [of s e i] by (simp add: accounts_def x)
  then show ?case using Cons.IH Cons.prems(2) by (simp add: runs_def x)
qed (simp add: runs_def)

text \<open>A device just found, with the bios and the page references of the rest of the system.\<close>

definition fresh_st :: "nat \<Rightarrow> aoedev \<Rightarrow> (nat \<Rightarrow> bio) \<Rightarrow> (nat \<Rightarrow> int) \<Rightarrow> st" where
  "fresh_st ncpus d bios pgc = (init_st ncpus d)\<lparr>s_bios := bios, s_pgcnt := pgc\<rparr>"

lemma fresh_accounts: "0 < ncpus \<Longrightarrow> accounts (hs, pgc) (fresh_st ncpus (new_dev e a m maj mi) bios pgc)"
proof -
  let ?s = "fresh_st ncpus (new_dev e a m maj mi) bios pgc"
  have "view ?s = view (init_st ncpus (new_dev e a m maj mi))" "tgts_ok ?s = tgts_ok (init_st ncpus (new_dev e a m maj mi))"
    by (simp_all add: fresh_st_def view_def tgts_ok_def)
  then have "0 < ncpus \<Longrightarrow> dev_ok {#} {#} ?s" using init_ok [of ncpus e a m maj mi] by (simp add: dev_ok_def)
  moreover have "bufs_ok (hs, pgc) {} ?s"
    by (simp add: bufs_x_def fresh_st_def init_st_def new_dev_def carried_def fb_def pb_def is_probe_def zero_frame_def
        hasfl_def paged_def tended_def)
  ultimately show "0 < ncpus \<Longrightarrow> ?thesis" by (simp add: accounts_def)
qed

section \<open>Properties\<close>

text \<open>C3. Bufs and pages are accounted for exactly, whatever requests, responses, completions, timer runs
  and failures came before.  The counter of a buf is the number of frames that carry a piece of its
  bio, every frame's buf and the buf in process are still allocated, a buf that is not in process has
  nothing left to send and a frame that will end it, and the references the driver holds on a page are
  one for each segment in the page of each bio that has a buf.  So no buf is used after it was freed
  and none is forgotten, and no page reference is lost or given back twice, as long as the block layer
  does not change the segments of a bio in progress.\<close>

theorem bufs_exact:
  assumes "0 < ncpus" and "s = runs is (fresh_st ncpus (new_dev e a m maj mi) bios pgc)"
    and "\<forall>(e, i)\<in>set is. bio_heads e = hs" and "\<forall>x c. hs (x\<lparr>bio_error := c\<rparr>) = hs x"
  shows "(\<forall>f b. f_buf (fr s f) = Some b \<longrightarrow> s_bufs s b \<noteq> None)
    \<and> (\<forall>b. d_ip_buf (s_dev s) = Some b \<longrightarrow> s_bufs s b \<noteq> None)
    \<and> (\<forall>b x. s_bufs s b = Some x \<longrightarrow> finite {f. f_buf (fr s f) = Some b}
          \<and> b_nframesout x = int (card {f. f_buf (fr s f) = Some b})
          \<and> (d_ip_buf (s_dev s) = Some b \<or> bi_size (b_iter x) = 0 \<and> b_nframesout x > 0))
    \<and> (\<forall>p. s_pgcnt s p = pgc p + (\<Sum>b\<in>{..<s_nbuf s}. case s_bufs s b of None \<Rightarrow> 0
          | Some x \<Rightarrow> int (count_list (hs (s_bios s (b_bio x))) p)))"
proof -
  have "\<forall>(e, i)\<in>set is. fits (hs, pgc) e" using assms(3,4) by (auto simp: fits_def)
  then have b: "bufs_ok (hs, pgc) {} s"
    unfolding assms(2) using runs_accounts [OF fresh_accounts [OF assms(1)]] by (simp add: accounts_def)
  have c: "carried {} s b = {f. f_buf (fr s f) = Some b}" for b by (simp add: carried_def fb_def)
  have "s_bufs s b \<noteq> None" if "f_buf (fr s f) = Some b" for f b
    using bufs_okD(3) [OF b, of b] that by (cases "s_bufs s b") (auto simp: c)
  moreover have "finite {f. f_buf (fr s f) = Some b} \<and> b_nframesout x = int (card {f. f_buf (fr s f) = Some b})
      \<and> (d_ip_buf (s_dev s) = Some b \<or> bi_size (b_iter x) = 0 \<and> b_nframesout x > 0)"
    if "s_bufs s b = Some x" for b x
    using bufs_okD(3) [OF b, of b] tendedD [OF bufs_okD(9) [OF b] _ that] that by (auto simp: c card_gt_0_iff)
  moreover have "pgs (hs, pgc) p (bsh s) bo = (case bo of None \<Rightarrow> 0 | Some x \<Rightarrow> int (count_list (hs (s_bios s (b_bio x))) p))" for p bo
    using assms(4) by (simp add: bsh_def split: option.split)
  then have "\<forall>p. s_pgcnt s p = pgc p + (\<Sum>b\<in>{..<s_nbuf s}. case s_bufs s b of None \<Rightarrow> 0
      | Some x \<Rightarrow> int (count_list (hs (s_bios s (b_bio x))) p))"
    using bufs_okD(8) [OF b] by (simp add: paged_def)
  ultimately show ?thesis using bufs_okD(4) [OF b] by blast
qed

text \<open>All bios cover page 3 here, so the count of page 4 stays what it was.\<close>

definition env3 :: env where
  "env3 = env0\<lparr>e_segs := (\<lambda>b i. [(3, 0, 512)])\<rparr>"

theorem bufs_exact_witness:
  "s_pgcnt (runs [(env3, InCfg cfg_rsp0), (env3, InTimer), (env3, InRequest 3 [4, 5]), (env3, InDown)]
     (fresh_st 2 (new_dev env3 0 0 1 1) (\<lambda>_. \<lparr>bio_iter = zero_iter, bio_write = True, bio_error = False, bio_vec = []\<rparr>) (\<lambda>p. int p))) 4 = 4"
proof -
  have h: "bio_heads env3 = (\<lambda>x. [3])" by (simp add: bio_heads_def env3_def env0_def fun_eq_iff)
  have "(\<Sum>b\<in>B. case g b of None \<Rightarrow> 0 | Some x \<Rightarrow> int (count_list [3::nat] 4)) = (0::int)" for B :: "nat set" and g :: "nat \<Rightarrow> buf option"
    by (rule sum.neutral) (simp split: option.split)
  then show ?thesis
    using bufs_exact [OF _ refl, of 2 "[(env3, InCfg cfg_rsp0), (env3, InTimer), (env3, InRequest 3 [4, 5]), (env3, InDown)]"
        "\<lambda>x. [3]" env3 0 0 1 1 "\<lambda>_. \<lparr>bio_iter = zero_iter, bio_write = True, bio_error = False, bio_vec = []\<rparr>" "\<lambda>p. int p"]
    by (simp add: h)
qed

end
