(* ===== verification/Debug.thy ===== *)
theory Debug
  imports Driver
begin

text \<open>
  Debugging support, \<open>aoedbg.c\<close>: a relay channel per device with one record for each round trip
  measured, and a channel of the module for messages.  It is compiled in when \<open>AOEDBG_ACTIVE\<close> is set.
  A relay channel is known by a number; what was written to it is kept, newest first.
\<close>

section \<open>Channels\<close>

record ddbg =
  rttchan :: "nat option"
  rttseq :: u32

record recd =
  rc_seqno :: u32
  rc_rtt :: u32
  rc_reltime :: u32
  rc_rttavg :: u32
  rc_rttdev :: u32
  rc_send_nout :: u8
  rc_rcv_nout :: u8
  rc_ssthresh :: u8
  rc_cwnd :: u8
  rc_lba :: "u8 list"
  rc_flags :: u8
  rc_remote :: "u8 list"
  rc_local :: "u8 list"

text \<open>How far \<open>aoedbg_devinit\<close> is: not running, after \<open>d->dbg\<close> was set and the device lock released, with a channel
  from \<open>relay_open\<close>, or with the channel in \<open>rttchan\<close> and the number not yet reset.\<close>

datatype dinit = NoInit | Claimed | Opened nat | Attached

record dbgst =
  g_dbg :: "ddbg option"
  g_init :: dinit
  g_open :: "nat list"
  g_next :: nat
  g_out :: "(nat \<times> recd) list"

definition zero_ddbg :: ddbg where
  "zero_ddbg = \<lparr>rttchan = None, rttseq = 0\<rparr>"

text \<open>\<open>relay_open\<close> is the kernel's; the flag says whether it succeeds.\<close>

definition xrelay_open :: "bool \<Rightarrow> dbgst \<Rightarrow> nat option \<times> dbgst" where
  "xrelay_open opened g =
     (if opened then (Some (g_next g), g\<lparr>g_open := g_next g # g_open g, g_next := Suc (g_next g)\<rparr>) else (None, g))"

definition rttstop :: "ddbg \<Rightarrow> dbgst \<Rightarrow> dbgst" where
  "rttstop x g =
     (case rttchan x of
        None \<Rightarrow> g
      | Some c \<Rightarrow> g\<lparr>g_open := remove1 c (g_open g), g_dbg := Some (x\<lparr>rttchan := None\<rparr>)\<rparr>)"

text \<open>What \<open>aoedbg_devinit\<close> meets: debugging compiled in, memory, a device on its way out, a channel.\<close>

record dbgenv =
  de_active :: bool
  de_alloc :: bool
  de_tkill :: bool
  de_opened :: bool

text \<open>\<open>aoedbg_devinit\<close> with \<open>rttstart\<close>, cut where a response can come in between: the device lock is held for the first
  part only.\<close>

definition dbg_claim :: "dbgenv \<Rightarrow> dbgst \<Rightarrow> dbgst" where
  "dbg_claim v g =
     (if \<not> de_active v \<or> \<not> de_alloc v then g
      else if g_dbg g \<noteq> None \<or> de_tkill v then g
      else g\<lparr>g_dbg := Some zero_ddbg, g_init := Claimed\<rparr>)"

definition rtt_open :: "bool \<Rightarrow> dbgst \<Rightarrow> dbgst" where
  "rtt_open opened g =
     (case xrelay_open opened g of
        (None, g1) \<Rightarrow> g1\<lparr>g_dbg := None, g_init := NoInit\<rparr>
      | (Some c, g1) \<Rightarrow> g1\<lparr>g_init := Opened c\<rparr>)"

definition rtt_chan :: "nat \<Rightarrow> dbgst \<Rightarrow> dbgst" where
  "rtt_chan c g = g\<lparr>g_dbg := map_option (\<lambda>x. x\<lparr>rttchan := Some c\<rparr>) (g_dbg g), g_init := Attached\<rparr>"

definition rtt_reset :: "dbgst \<Rightarrow> dbgst" where
  "rtt_reset g = g\<lparr>g_dbg := map_option (\<lambda>x. x\<lparr>rttseq := 0\<rparr>) (g_dbg g), g_init := NoInit\<rparr>"

definition devinit_step :: "dbgenv \<Rightarrow> dbgst \<Rightarrow> dbgst" where
  "devinit_step v g =
     (case g_init g of
        NoInit \<Rightarrow> dbg_claim v g
      | Claimed \<Rightarrow> rtt_open (de_opened v) g
      | Opened c \<Rightarrow> rtt_chan c g
      | Attached \<Rightarrow> rtt_reset g)"


definition aoedbg_undbg :: "dbgst \<Rightarrow> dbgst" where
  "aoedbg_undbg g =
     (case g_dbg g of None \<Rightarrow> g | Some x \<Rightarrow> (rttstop x g)\<lparr>g_dbg := None\<rparr>)"

section \<open>Records\<close>

definition R_ORPHAN :: u8 where "R_ORPHAN = 1"
definition R_WRITE :: u8 where "R_WRITE = 2"

text \<open>The time since the start of the module, in microseconds, in 32 bits.\<close>

definition reltime :: "timeval \<Rightarrow> timeval \<Rightarrow> u32" where
  "reltime now boot =
     word_of_int (tv_usec now - tv_usec boot) + word_of_int ((tv_sec now - tv_sec boot) * USEC_PER_SEC)"

definition rtt_flags :: "frame option \<Rightarrow> aoe_atahdr \<Rightarrow> u8" where
  "rtt_flags fo ah =
     (case fo of None \<Rightarrow> 0 OR R_ORPHAN | Some _ \<Rightarrow> 0) OR (if ah_aflags ah AND AOEAFL_WRITE \<noteq> 0 then 1 else 0)"

definition rtt_record ::
  "timeval \<Rightarrow> timeval \<Rightarrow> u32 \<Rightarrow> aoedev \<Rightarrow> aoe_hdr \<Rightarrow> aoe_atahdr \<Rightarrow> (frame \<times> aoetgt) option \<Rightarrow> int \<Rightarrow> recd" where
  "rtt_record now boot n d h ah ft rtt =
     \<lparr>rc_seqno = n, rc_rtt = word_of_int rtt, rc_reltime = reltime now boot,
      rc_rttavg = drop_bit RTTSCALE (d_rttavg d), rc_rttdev = drop_bit RTTDSCALE (d_rttdev d),
      rc_send_nout = (case ft of None \<Rightarrow> 0 | Some (f, _) \<Rightarrow> ucast (f_nout f)),
      rc_rcv_nout = (case ft of None \<Rightarrow> 0 | Some (_, t) \<Rightarrow> ucast (t_nout t)),
      rc_ssthresh = (case ft of None \<Rightarrow> 0 | Some (_, t) \<Rightarrow> ucast (t_ssthresh t)),
      rc_cwnd = (case ft of None \<Rightarrow> 0 | Some (_, t) \<Rightarrow> ucast (t_maxout t)),
      rc_lba = [ah_lba0 ah, ah_lba1 ah, ah_lba2 ah, ah_lba3 ah, ah_lba4 ah, ah_lba5 ah],
      rc_flags = rtt_flags (map_option fst ft) ah, rc_remote = h_src h, rc_local = h_dst h\<rparr>"

definition aoedbg_rtt ::
  "timeval \<Rightarrow> timeval \<Rightarrow> aoedev \<Rightarrow> aoe_hdr \<Rightarrow> aoe_atahdr \<Rightarrow> (frame \<times> aoetgt) option \<Rightarrow> int \<Rightarrow> dbgst \<Rightarrow> dbgst" where
  "aoedbg_rtt now boot d h ah ft rtt g =
     (case g_dbg g of
        None \<Rightarrow> g
      | Some x \<Rightarrow>
          (case rttchan x of
             None \<Rightarrow> g
           | Some c \<Rightarrow>
               (let n = rttseq x + 1
                in g\<lparr>g_dbg := Some (x\<lparr>rttseq := n\<rparr>), g_out := (c, rtt_record now boot n d h ah ft rtt) # g_out g\<rparr>)))"

section \<open>Messages\<close>

definition PAGE_SIZE :: nat where "PAGE_SIZE = 4096"

text \<open>\<open>vsnprintf\<close> puts at most \<open>sz - 1\<close> characters and a NUL into the buffer and returns the length
  of the whole text.\<close>

definition vsnprintf :: "nat \<Rightarrow> string \<Rightarrow> string \<Rightarrow> nat \<times> string" where
  "vsnprintf sz txt buf =
     (let k = min (length txt) (sz - 1) in (length txt, take k txt @ [CHR 0x00] @ drop (Suc k) buf))"

text \<open>\<open>aoedbg_print\<close> and \<open>aoedbg_write\<close>: what goes to the channel of the module, with the buffer after
  it; no value when bytes beyond the buffer are read.\<close>

definition aoedbg_print :: "nat option \<Rightarrow> string \<Rightarrow> string \<Rightarrow> (string \<times> string) option" where
  "aoedbg_print chan txt buf =
     (case chan of
        None \<Rightarrow> Some ([], buf)
      | Some _ \<Rightarrow>
          (let (n, buf1) = vsnprintf (PAGE_SIZE - 1) txt buf
           in if n > length buf1 then None else Some (take n buf1, buf1)))"

section \<open>Properties\<close>

text \<open>The messages of the module are complete when they are shorter than the buffer, and
  \<open>aoedbg_print\<close> reads beyond its buffer for a text longer than a page, because the value of
  \<open>vsnprintf\<close> is the length the whole text would have.\<close>

theorem dbg_print_bounds:
  assumes "length buf = PAGE_SIZE"
  shows "(aoedbg_print (Some c) txt buf = None) = (length txt > PAGE_SIZE)"
    and "length txt \<le> PAGE_SIZE - 2 \<Longrightarrow> map_option fst (aoedbg_print (Some c) txt buf) = Some txt"
  using assms by (simp_all add: aoedbg_print_def vsnprintf_def PAGE_SIZE_def Let_def)

text \<open>The flags of a debugging record cannot tell a write from a response nobody waited for: the bit
  meant for writes is never set, and the bit for orphans is set for every write, because the result of
  a double negation, 1, is stored where the flag \<open>R_WRITE\<close>, 2, was meant.\<close>

theorem rtt_write_looks_orphan:
  "\<not> hasfl (rc_flags (rtt_record now boot n d h ah ft rtt)) R_WRITE
   \<and> (hasfl (rc_flags (rtt_record now boot n d h ah ft rtt)) R_ORPHAN \<longleftrightarrow> ft = None \<or> hasfl (ah_aflags ah) AOEAFL_WRITE)"
  by (cases ft) (simp_all add: rtt_record_def rtt_flags_def hasfl_def R_WRITE_def R_ORPHAN_def)

text \<open>The life of the debugging of a device: steps of \<open>aoedbg_devinit\<close>, round trips, and the end in \<open>freedev\<close>.  Only
  the flush at exit can free a device whose disk is being made, so \<open>aoedbg_undbg\<close> does not run beside
  \<open>aoedbg_devinit\<close> here; nor does it run inside of a round trip.\<close>

datatype dbgop = DInit
  | DRtt timeval timeval aoedev aoe_hdr aoe_atahdr "(frame \<times> aoetgt) option" int
  | DUn

fun dbg_step :: "dbgenv \<Rightarrow> dbgop \<Rightarrow> dbgst \<Rightarrow> dbgst" where
  "dbg_step v DInit g = devinit_step v g"
| "dbg_step v (DRtt now boot d h ah ft rtt) g = aoedbg_rtt now boot d h ah ft rtt g"
| "dbg_step v DUn g = (if g_init g = NoInit then aoedbg_undbg g else g)"

definition dbg_runs :: "(dbgenv \<times> dbgop) list \<Rightarrow> dbgst" where
  "dbg_runs ops = fold (\<lambda>(v, op). dbg_step v op) ops \<lparr>g_dbg = None, g_init = NoInit, g_open = [], g_next = 0, g_out = []\<rparr>"

text \<open>The records of a channel, in the order they were written.\<close>

definition recs :: "nat \<Rightarrow> dbgst \<Rightarrow> recd list" where
  "recs c g = map snd (filter (\<lambda>(k, _). k = c) (rev (g_out g)))"





lemma recs_cong [simp]:
  "recs c (g\<lparr>g_dbg := x\<rparr>) = recs c g" "recs c (g\<lparr>g_open := l\<rparr>) = recs c g" "recs c (g\<lparr>g_next := n\<rparr>) = recs c g"
  "recs c (g\<lparr>g_init := i\<rparr>) = recs c g"
  by (simp_all add: recs_def)
















definition dbgenv0 :: dbgenv where
  "dbgenv0 = \<lparr>de_active = True, de_alloc = True, de_tkill = False, de_opened = True\<rparr>"

text \<open>Debugging starts and the first round trip comes before the number is reset, the second after.\<close>

definition rtt0 :: dbgop where
  "rtt0 = DRtt \<lparr>tv_sec = 4, tv_usec = 0\<rparr> \<lparr>tv_sec = 1, tv_usec = 0\<rparr> dev_idle zero_hdr zero_atahdr None 0"

definition dbg0 :: "(dbgenv \<times> dbgop) list" where
  "dbg0 = map (Pair dbgenv0) [DInit, DInit, DInit, rtt0, DInit, rtt0]"

lemmas dbg_run_defs = dbg_runs_def dbg0_def rtt0_def dbgenv0_def devinit_step_def dbg_claim_def rtt_open_def xrelay_open_def
  rtt_chan_def rtt_reset_def aoedbg_rtt_def zero_ddbg_def


text \<open>The restart is there: \<open>rttstart\<close> makes the channel known before it resets the number, and two records of a channel
  can have the number 1.\<close>

theorem rtt_number_twice: "map rc_seqno (recs 0 (dbg_runs dbg0)) = [1, 1]"
  by (simp add: dbg_run_defs recs_def rtt_record_def Let_def)

end
