(* ===== verification/Spec2Isabelle.thy ===== *)
theory Spec2Isabelle
  imports Errq Module Ping Sanrun Files Failip CfgProps Whole BufsInv Debug
begin

text \<open>
  A verification library of the ATA over Ethernet initiator: the Linux block driver of
  \<open>linux/drivers/block/aoe\<close> and the programs of \<open>aoetools-36\<close> that speak the protocol.

  \<^bold>\<open>The program.\<close>  The driver finds disks on the network by broadcasting a query (\<open>aoecmd_cfg\<close>, once a minute
  from \<open>discover_timer\<close> or when the user writes to a control file).  A target answers with a configuration
  response; the driver makes a device for its shelf and slot (\<open>aoedev_by_aoeaddr\<close>), adds the target and the
  interface to it and sends an identify command.  When that is answered a worker makes the disk.  From then
  on requests of the block layer are cut into bios, bufs and frames; a frame is one command, sent through a
  target whose window has room, kept in a hash of active frames by its tag, and retransmitted by a timer.
  A response takes the frame out of the hash and gives it to a completion thread, which copies the data and
  ends the request.  A device goes down when a command stays unanswered, and is freed by a flush.  Errors go
  to a ring of messages that a user can read.

  \<^bold>\<open>The theories.\<close>

  \<^item> \<open>Prelude\<close>: types of machine integers, error numbers, single-bit flags, lemmas on lists and rings.
  \<^item> \<open>Wire\<close> (\<open>aoe.h\<close>): the headers as records, and as bytes; a locale for a codec of fixed size and one for two
    headers in a row, interpreted on the three headers and the two packets.
  \<^item> \<open>Errq\<close> (\<open>aoechr.c\<close>): the ring of messages, refined to a bounded queue (a locale), its sleeping readers
    and its writers, with the lock, the unlocked test of the readers and the semaphore as separate steps.
  \<^item> \<open>Timing\<close>, \<open>Target\<close> (\<open>aoecmd.c\<close>): tags, round trips and timeouts; the interface table, window and taint of
    one target.
  \<^item> \<open>Device\<close>, \<open>Frames\<close>, \<open>Xmit\<close>, \<open>Complete\<close> (\<open>aoecmd.c\<close>, \<open>aoedev.c\<close>, \<open>aoeblk.c\<close>): the state of a device, and every
    operation on frames: getting one, sending, retransmitting, responses, completion, the timer, taking the
    device down.
  \<^item> \<open>Ledger\<close>, \<open>Carry\<close>: what sending leaves alone of a device and of the completion queues, and what the handlers
    leave alone of the bufs.
  \<^item> \<open>Pool\<close>, \<open>FrameInv\<close>, \<open>SendInv\<close>, \<open>CompleteInv\<close>, \<open>TimerInv\<close>: the invariant of these operations.  \<open>Pool\<close> states it on
    an abstract view of the device as multisets of frame addresses; the others show that each operation is a
    step of that view.
  \<^item> \<open>Net\<close>, \<open>Minors\<close>, \<open>Config\<close>, \<open>Blk\<close>, \<open>Devlist\<close>: the interface list, minor numbers, configuration responses, the
    block device and the list of devices with its flush.  \<open>CfgProps\<close> and \<open>Failip\<close> hold what follows for
    configuration responses, identify data and the request in process.
  \<^item> \<open>Life\<close>: the worker that makes the disk beside the handlers of the device and any number of flushes, with the waits and
    passes of a flush and the two ends of \<open>freedev\<close> as separate steps.  One run of the work item is under way at a time.
  \<^item> \<open>Driver\<close>: all inputs of one device; a locale for handlers that keep an invariant, interpreted on the
    handlers; the theorems about every reachable state.
  \<^item> \<open>System\<close> (\<open>aoenet.c\<close>, \<open>aoechr.c\<close>): packets and control files over all devices, and the transmit thread.
  \<^item> \<open>Refs\<close>: the references of a device, along runs of its inputs with their lookups.
  \<^item> \<open>Bufs\<close>, \<open>BufsInv\<close>: the bufs, their frames and the references they hold on the pages of their bios, along the
    same runs; \<open>Bufs\<close> has the invariant and the sending side, \<open>BufsInv\<close> the ends of bufs and the runs.
  \<^item> \<open>Whole\<close>: the whole driver, all devices and control files, and the invariant of its list of devices.
  \<^item> \<open>Kthread\<close>: a kernel thread beside its wakers, and the set of completion threads.
  \<^item> \<open>Module\<close> (\<open>aoemain.c\<close> and every \<open>_init\<close> and \<open>_exit\<close>): resources taken and given back, the discover timer.
  \<^item> \<open>Payload\<close>: what a target reads from a command, and where the data of a read goes.
  \<^item> \<open>Sysfs\<close>, \<open>Files\<close> (\<open>aoeblk.c\<close>): what the driver shows of a device, and the files in sysfs and debugfs as they are made
    and removed.
  \<^item> \<open>Debug\<close> (\<open>aoedbg.c\<close>): the relay channels, opened in four steps between which round trips come in, the records of round
    trips and the messages; an interpretation of the locale of \<open>Driver\<close>.
  \<^item> \<open>Sancheck\<close>, \<open>Sanrun\<close>: \<open>aoe-sancheck\<close>, its lists and its summary, and its run: interfaces, threads under a
    schedule, \<open>main\<close>; a locale for lists used as sets, interpreted on the three lists of the program.
  \<^item> \<open>Tools\<close>, \<open>Cli\<close>, \<open>Ping\<close>: the packets of \<open>aoecfg\<close> and \<open>aoeping\<close>, their command lines, raw sockets (\<open>linux.c\<close>),
    deadline and \<open>main\<close> functions, and what \<open>aoeping\<close> prints.

  \<^bold>\<open>How the state corresponds to the code.\<close>  A struct is a record with the names of its members behind a prefix.
  Frames, socket buffers, bufs, bios and requests are addresses in stores of the state \<open>st\<close>; a list of the
  kernel is a list of addresses, so aliasing is visible.  The lists of the completion threads are in \<open>st\<close> and
  hold, in a run of one device, the frames of that device.  A handler runs with the lock of its device held,
  so it is one step; where the code releases the lock in between (making the disk, the flush, the threads, the
  timer of the module, the error ring) the parts are separate definitions and a step relation interleaves them.
  Two things are coarser than the code: a flush inside a run of the whole driver (\<open>Devlist\<close>, \<open>Whole\<close>) is one step, and so is
  the end of a frame in \<open>ktiocomplete\<close>, which takes the lock more than once.  What the
  kernel answers is a parameter: the record \<open>env\<close> has the clock, the outcome of every allocation, the MTU and
  address of network devices, three functions of the block layer (\<open>bio_advance_iter\<close>, the segments of a
  bio and \<open>__blk_end_request\<close>) and the head of a compound page; the invariants hold for every such function.
  The user programs get the answers of the kernel in records of their own.

  \<^bold>\<open>What is shown.\<close>  In every state a device can reach by its inputs, in any order, no frame is lost or used
  twice and the counters are exact; a lookup by tag finds the frame if there is one; the search for a frame
  and the work loop end; taking the device down leaves nothing behind; its reference count is the number of its
  frames with the completion threads; a buf counts its frames exactly and the pages of its bio carry one extra
  reference for as long as it is in use; every index is in range.  A packet touches only the device it is addressed to.  Along every run
  of the whole driver the devices stay distinct in address, minor number and memory, none stays half removed,
  one that is up has a disk, and unloading removes them all and, if no allocation failed, frees every minor
  number.  Lookup, flush and minor numbers are exact.  Commands and data survive the way to the
  target and back.  Tags are unique within 32768 commands, answers to the driver's own commands reach their handlers, and the tags of
  the user programs stay apart as long as those of \<open>aoeping\<close> do not run over.  Until the module is unloaded the worker that makes
  a disk meets the flags it expects, whatever flushes do beside it.  The
  ring is a queue and loses no wake-up; the threads do not forget work.  Loading gives back what it took, and the
  files of the disks come and go with them.  The user programs read the addresses they are given, and
  \<open>aoe-sancheck\<close> prints, for every schedule in which no two threads are inside the shared lists at once, exactly the
  devices its interfaces saw, and ends.
  Where the code does not do what it means to, a theorem says so: a request to stop a thread can be lost, a
  NULL bio can be dereferenced, a page leaks, a target with one buffer starves, a flush matches by prefix
  and frees a named device that is still referenced or whose disk is being added, unloading can meet a worker that
  allocates, a minor number leaks, two debugging records get one number, the threads of \<open>aoe-sancheck\<close> race,
  cylinders are truncated, timeouts wrap, a debugging flag is wrong, an address out of range is waited for in vain, a
  deadline that passes is reported as an error, and the buffers of three user programs are overrun or read too far.

  \<^bold>\<open>Fuel.\<close>  The loop of \<open>newframe\<close> carries a bound of twice the number of targets, the work loop one of the room in
  the windows plus one; that these are enough is proved (\<open>newframe_sound\<close>, \<open>work_terminates\<close>).  The second pass
  of a flush ends because each round frees a device (a measure); everything else recurses on its data.

  \<^bold>\<open>Not modelled.\<close>  Printing to the kernel log; the registration of the disk with the block layer and the
  callbacks that make the files of relay channels, which only call the kernel; the alarm that kills \<open>aoeping\<close> and
  its failing reads and writes; usage texts and messages on standard error; what \<open>aoe-sancheck\<close> does after two of its threads
  were inside the shared lists at once, which the program does not protect by a lock (the result is then \<open>Raced\<close>); the
  shell scripts; the probes
  and patches of \<open>conf\<close>, which are compiled to find the interface of a kernel and never run.
\<close>

end
